(* ===== verification/Prelude.thy ===== *)
theory Prelude
  imports Main "HOL-Library.Word" "HOL-Library.Char_ord" "HOL-Library.List_Lexorder"
begin

text \<open>
  Shared ground of the wave-mq development: bytes and Go errors, the fixed-width integers of
  Go's \<^verbatim>\<open>encoding/binary\<close> in both byte orders, readers and writers as functions on byte lists,
  an open \<^verbatim>\<open>os.File\<close>, and the interface (locale \<open>codec\<close>) that every wire
  format of the program satisfies.

  Go's \<^verbatim>\<open>int\<close>, \<^verbatim>\<open>int16\<close>, \<^verbatim>\<open>int32\<close>, \<^verbatim>\<open>int64\<close> values are \<open>int\<close>; the predicates \<open>inS w\<close> and
  \<open>inU w\<close> say that a value fits the signed or unsigned type of width \<open>w\<close>, and \<open>wrapS w\<close> is
  the two's complement wrap-around.  A reader takes the unread bytes and returns the value
  with the bytes left; a writer returns the bytes it appends to its buffer.
\<close>

section \<open>Proof collections\<close>

named_theorems wire_defs \<open>definitions of encoders and decoders\<close>
named_theorems range_defs \<open>ranges of the fixed-width integers\<close>

section \<open>Bytes, strings and errors\<close>

type_synonym byte = "8 word"
type_synonym bytes = "8 word list"

datatype go_error =
    EOF                  \<comment> \<open>\<^verbatim>\<open>io.EOF\<close>\<close>
  | ErrUnexpectedEOF     \<comment> \<open>\<^verbatim>\<open>io.ErrUnexpectedEOF\<close>\<close>
  | Canceled             \<comment> \<open>\<^verbatim>\<open>ctx.Err()\<close>\<close>
  | ErrInvalid           \<comment> \<open>\<^verbatim>\<open>os.ErrInvalid\<close>, a method of a nil file\<close>
  | ErrClosed            \<comment> \<open>\<^verbatim>\<open>os.ErrClosed\<close>, a method of a closed file\<close>
  | TopicExists          \<comment> \<open>\<^verbatim>\<open>broker.ErrTopicExists\<close>\<close>
  | TopicNotFound        \<comment> \<open>\<^verbatim>\<open>broker.ErrTopicNotFound\<close>\<close>
  | PartitionNotFound    \<comment> \<open>\<^verbatim>\<open>broker.ErrPartitionNotFound\<close>\<close>
  | NotLeader            \<comment> \<open>\<^verbatim>\<open>broker.ErrNotLeader\<close>\<close>
  | NotLeaderError string int int  \<comment> \<open>\<^verbatim>\<open>broker.NotLeaderError\<close>: topic, partition, leader\<close>
  | CtrlTopicExists      \<comment> \<open>\<^verbatim>\<open>controller.ErrTopicExists\<close>\<close>
  | CtrlLeaderNotElected \<comment> \<open>\<^verbatim>\<open>controller.ErrLeaderNotElected\<close>\<close>
  | CtrlNotLeaderError string  \<comment> \<open>\<^verbatim>\<open>controller.NotLeaderError\<close>: address of the leader\<close>
  | Errorf string        \<comment> \<open>\<^verbatim>\<open>fmt.Errorf\<close> with the given format string\<close>

type_synonym 'a result = "go_error + 'a"

definition bindE :: "'a result \<Rightarrow> ('a \<Rightarrow> 'b result) \<Rightarrow> 'b result" where
  "bindE r f = (case r of Inl e \<Rightarrow> Inl e | Inr x \<Rightarrow> f x)"

lemma bindE_simps [simp]: "bindE (Inl e) f = Inl e" "bindE (Inr x) f = f x"
  by (simp_all add: bindE_def)

lemma bindE_Inr_iff: "bindE r f = Inr y \<longleftrightarrow> (\<exists>x. r = Inr x \<and> f x = Inr y)"
  by (cases r) simp_all

lemma bindE_Inr_E:
  assumes "bindE r f = Inr y"
  obtains x where "r = Inr x" "f x = Inr y"
  using assms by (auto simp: bindE_Inr_iff)

definition isErr :: "'a result \<Rightarrow> bool" where
  "isErr r = (case r of Inl e \<Rightarrow> True | Inr x \<Rightarrow> False)"

lemma isErr_simps [simp]: "isErr (Inl e)" "\<not> isErr (Inr x)"
  by (simp_all add: isErr_def)

lemma isErr_bindE [simp]:
  "isErr (bindE r f) \<longleftrightarrow> isErr r \<or> (\<exists>x. r = Inr x \<and> isErr (f x))"
  by (cases r) simp_all

definition byte_of_char :: "char \<Rightarrow> byte" where
  "byte_of_char c = of_nat (of_char c)"

definition char_of_byte :: "byte \<Rightarrow> char" where
  "char_of_byte b = char_of (unat b)"

definition string_bytes :: "string \<Rightarrow> bytes" where
  "string_bytes s = map byte_of_char s"

definition bytes_string :: "bytes \<Rightarrow> string" where
  "bytes_string b = map char_of_byte b"

lemma char_of_byte_of_char [simp]: "char_of_byte (byte_of_char c) = c"
proof -
  have "(of_char c :: nat) < 256" by simp
  then show ?thesis
    by (simp add: byte_of_char_def char_of_byte_def unat_of_nat)
qed

lemma byte_of_char_of_byte [simp]: "byte_of_char (char_of_byte b) = b"
proof -
  have "unat b < 256" using unsigned_less [of b, where ?'a = nat] by simp
  then show ?thesis by (simp add: byte_of_char_def char_of_byte_def)
qed

lemma bytes_string_string_bytes [simp]: "bytes_string (string_bytes s) = s"
  by (simp add: bytes_string_def string_bytes_def comp_def)

lemma string_bytes_bytes_string [simp]: "string_bytes (bytes_string b) = b"
  by (simp add: bytes_string_def string_bytes_def comp_def)

lemma length_string_bytes [simp]: "length (string_bytes s) = length s"
  by (simp add: string_bytes_def)

lemma length_bytes_string [simp]: "length (bytes_string b) = length b"
  by (simp add: bytes_string_def)

lemma string_bytes_Nil [simp]: "string_bytes [] = []" "bytes_string [] = []"
  by (simp_all add: string_bytes_def bytes_string_def)

lemma string_bytes_inj: "string_bytes s = string_bytes t \<longleftrightarrow> s = t"
  by (metis bytes_string_string_bytes)

section \<open>Fixed-width integers\<close>

definition wrapS :: "nat \<Rightarrow> int \<Rightarrow> int" where
  "wrapS w x = (x + 2 ^ (w - 1)) mod 2 ^ w - 2 ^ (w - 1)"

definition inS :: "nat \<Rightarrow> int \<Rightarrow> bool" where
  [range_defs]: "inS w x \<longleftrightarrow> - (2 ^ (w - 1)) \<le> x \<and> x < 2 ^ (w - 1)"

definition inU :: "nat \<Rightarrow> int \<Rightarrow> bool" where
  [range_defs]: "inU w x \<longleftrightarrow> 0 \<le> x \<and> x < 2 ^ w"

lemma wrapS_id: "0 < w \<Longrightarrow> inS w x \<Longrightarrow> wrapS w x = x"
proof -
  assume "0 < w" "inS w x"
  then have "0 \<le> x + 2 ^ (w - 1)" "x + 2 ^ (w - 1) < 2 ^ w"
    by (auto simp: inS_def power_eq_if)
  then show ?thesis by (simp add: wrapS_def)
qed

lemma wrapS_mod: "wrapS w (x mod 2 ^ w) = wrapS w x"
  by (simp add: wrapS_def mod_simps)

lemma wrapS_in: "0 < w \<Longrightarrow> inS w (wrapS w x)"
proof -
  assume "0 < w"
  have "0 \<le> (x + 2 ^ (w - 1)) mod 2 ^ w" "(x + 2 ^ (w - 1)) mod 2 ^ w < 2 ^ w"
    by simp_all
  moreover have "(2::int) ^ w = 2 * 2 ^ (w - 1)" using \<open>0 < w\<close> by (simp add: power_eq_if)
  ultimately show ?thesis by (simp add: wrapS_def inS_def)
qed

datatype endian = BigEndian | LittleEndian

fun le_bytes :: "nat \<Rightarrow> int \<Rightarrow> bytes" where
  "le_bytes 0 x = []"
| "le_bytes (Suc n) x = word_of_int x # le_bytes n (x div 256)"

fun le_val :: "bytes \<Rightarrow> int" where
  "le_val [] = 0"
| "le_val (b # bs) = uint b + 256 * le_val bs"

text \<open>\<open>put_int e n x\<close>: the \<open>n\<close> bytes that \<^verbatim>\<open>binary.Write\<close> or \<^verbatim>\<open>PutUint\<close> emit for an integer.\<close>

definition put_int :: "endian \<Rightarrow> nat \<Rightarrow> int \<Rightarrow> bytes" where
  "put_int e n x = (case e of LittleEndian \<Rightarrow> le_bytes n x | BigEndian \<Rightarrow> rev (le_bytes n x))"

definition val_uint :: "endian \<Rightarrow> bytes \<Rightarrow> int" where
  "val_uint e b = (case e of LittleEndian \<Rightarrow> le_val b | BigEndian \<Rightarrow> le_val (rev b))"

lemma length_le_bytes [simp]: "length (le_bytes n x) = n"
  by (induction n arbitrary: x) simp_all

lemma le_val_le_bytes: "le_val (le_bytes n x) = x mod 256 ^ n"
proof (induction n arbitrary: x)
  case (Suc n)
  have "le_val (le_bytes (Suc n) x) = x mod 256 + 256 * (x div 256 mod 256 ^ n)"
    by (simp add: Suc.IH uint_word_of_int)
  also have "\<dots> = x mod (256 * 256 ^ n)"
    by (simp add: zmod_zmult2_eq)
  finally show ?case by simp
qed simp

lemma pow256: "(256::int) ^ n = 2 ^ (8 * n)"
  by (simp add: power_mult)

lemma le_val_bounds: "0 \<le> le_val b \<and> le_val b < 2 ^ (8 * length b)"
proof (induction b)
  case (Cons x b)
  have "0 \<le> uint x" "uint x < 256" using uint_lt2p [of x] by simp_all
  moreover have "(2::int) ^ (8 * length (x # b)) = 256 * 2 ^ (8 * length b)"
    by (simp add: power_add)
  ultimately show ?case using Cons by simp
qed simp

lemma le_bytes_le_val: "length b = n \<Longrightarrow> le_bytes n (le_val b) = b"
proof (induction b arbitrary: n)
  case (Cons x b)
  have x: "0 \<le> uint x" "uint x < 256" using uint_lt2p [of x] by simp_all
  have w: "word_of_int (uint x + 256 * le_val b) = x"
    by (rule word_uint_eqI) (simp only: uint_word_of_int, simp add: x)
  have d: "(uint x + 256 * le_val b) div 256 = le_val b"
    using x by simp
  obtain m where m: "n = Suc m" "length b = m" using Cons.prems by auto
  show ?case by (simp only: m le_val.simps le_bytes.simps w d Cons.IH [OF m(2)])
qed simp

lemma length_put_int [simp]: "length (put_int e n x) = n"
  by (simp add: put_int_def split: endian.split)

lemma val_put_int: "val_uint e (put_int e n x) = x mod 2 ^ (8 * n)"
  by (cases e) (simp_all add: put_int_def val_uint_def le_val_le_bytes pow256)

lemma val_put_uint [simp]: "inU (8 * n) x \<Longrightarrow> val_uint e (put_int e n x) = x"
  by (simp add: val_put_int inU_def)

lemma val_uint_bounds: "0 \<le> val_uint e b \<and> val_uint e b < 2 ^ (8 * length b)"
  using le_val_bounds [of b] le_val_bounds [of "rev b"]
  by (cases e) (simp_all add: val_uint_def)

lemma put_val_uint: "length b = n \<Longrightarrow> put_int e n (val_uint e b) = b"
  by (cases e) (simp_all add: put_int_def val_uint_def le_bytes_le_val)

section \<open>Readers and writers\<close>

text \<open>The writes of one function in their order; the first failing one aborts the function.\<close>

fun writeAll :: "bytes result list \<Rightarrow> bytes result" where
  "writeAll [] = Inr []"
| "writeAll (w # ws) = bindE w (\<lambda>b. bindE (writeAll ws) (\<lambda>bs. Inr (b @ bs)))"

lemma writeAll_append:
  "writeAll (ws @ vs) = bindE (writeAll ws) (\<lambda>a. bindE (writeAll vs) (\<lambda>b. Inr (a @ b)))"
  by (induction ws) (auto simp: bindE_def split: sum.splits)

lemma writeAll_err: "w \<in> set ws \<Longrightarrow> isErr w \<Longrightarrow> isErr (writeAll ws)"
  by (induction ws) (auto simp: isErr_def bindE_def split: sum.splits)

text \<open>\<^verbatim>\<open>io.ReadFull\<close>: end of input before the first byte is \<open>EOF\<close>, later \<open>ErrUnexpectedEOF\<close>.\<close>

definition readFull :: "nat \<Rightarrow> bytes \<Rightarrow> (bytes \<times> bytes) result" where
  "readFull n b = (if n \<le> length b then Inr (take n b, drop n b)
     else if b = [] then Inl EOF else Inl ErrUnexpectedEOF)"

lemma readFull_append [simp]: "n = length a \<Longrightarrow> readFull n (a @ b) = Inr (a, b)"
  by (simp add: readFull_def)

lemma readFull_exact [simp]: "n = length a \<Longrightarrow> readFull n a = Inr (a, [])"
  by (simp add: readFull_def)

lemma readFull_short [simp]: "length b < n \<Longrightarrow> isErr (readFull n b)"
  by (simp add: readFull_def)

lemma readFull_Inr: "readFull n b = Inr (x, r) \<longleftrightarrow> length x = n \<and> b = x @ r"
  by (auto simp: readFull_def)

text \<open>\<^verbatim>\<open>binary.Read\<close> into an unsigned and into a signed integer of \<open>n\<close> bytes.\<close>

definition read_uint :: "endian \<Rightarrow> nat \<Rightarrow> bytes \<Rightarrow> (int \<times> bytes) result" where
  "read_uint e n b = bindE (readFull n b) (\<lambda>(x, rest). Inr (val_uint e x, rest))"

definition read_int :: "endian \<Rightarrow> nat \<Rightarrow> bytes \<Rightarrow> (int \<times> bytes) result" where
  "read_int e n b = bindE (readFull n b) (\<lambda>(x, rest). Inr (wrapS (8 * n) (val_uint e x), rest))"

lemma read_uint_put [simp]:
  "inU (8 * n) x \<Longrightarrow> read_uint e n (put_int e n x @ r) = Inr (x, r)"
  by (simp add: read_uint_def)

lemma read_int_put [simp]:
  "0 < n \<Longrightarrow> inS (8 * n) x \<Longrightarrow> read_int e n (put_int e n x @ r) = Inr (x, r)"
  by (simp add: read_int_def val_put_int wrapS_mod wrapS_id)

lemma read_uint_put_exact [simp]:
  "inU (8 * n) x \<Longrightarrow> read_uint e n (put_int e n x) = Inr (x, [])"
  using read_uint_put [of n x e "[]"] by simp

lemma read_int_put_exact [simp]:
  "0 < n \<Longrightarrow> inS (8 * n) x \<Longrightarrow> read_int e n (put_int e n x) = Inr (x, [])"
  using read_int_put [of n x e "[]"] by simp

lemma read_uint_short [simp]: "length b < n \<Longrightarrow> isErr (read_uint e n b)"
  by (simp add: read_uint_def)

lemma read_int_short [simp]: "length b < n \<Longrightarrow> isErr (read_int e n b)"
  by (simp add: read_int_def)

abbreviation le16 :: "int \<Rightarrow> bytes" where "le16 \<equiv> put_int LittleEndian 2"
abbreviation le32 :: "int \<Rightarrow> bytes" where "le32 \<equiv> put_int LittleEndian 4"
abbreviation le64 :: "int \<Rightarrow> bytes" where "le64 \<equiv> put_int LittleEndian 8"
abbreviation getLU16 :: "bytes \<Rightarrow> (int \<times> bytes) result" where "getLU16 \<equiv> read_uint LittleEndian 2"
abbreviation getLI32 :: "bytes \<Rightarrow> (int \<times> bytes) result" where "getLI32 \<equiv> read_int LittleEndian 4"
abbreviation getLI64 :: "bytes \<Rightarrow> (int \<times> bytes) result" where "getLI64 \<equiv> read_int LittleEndian 8"

text \<open>A counted loop that reads \<open>n\<close> items one after the other.\<close>

fun readItems :: "(bytes \<Rightarrow> ('a \<times> bytes) result) \<Rightarrow> nat \<Rightarrow> bytes \<Rightarrow> ('a list \<times> bytes) result" where
  "readItems rd 0 b = Inr ([], b)"
| "readItems rd (Suc n) b =
     bindE (rd b) (\<lambda>(x, b'). bindE (readItems rd n b') (\<lambda>(xs, b''). Inr (x # xs, b'')))"

lemma length_readItems: "readItems rd n b = Inr (xs, r) \<Longrightarrow> length xs = n"
  by (induction n arbitrary: b xs r) (auto elim!: bindE_Inr_E split: prod.splits)

section \<open>The codec interface\<close>

text \<open>
  A component that writes values for another to read back relies on this contract: on the
  values in \<open>ok\<close> the writer succeeds, and the reader, given the written bytes in front of
  anything, returns the value and leaves exactly what follows.
\<close>

locale codec =
  fixes enc :: "'a \<Rightarrow> bytes result"
    and dec :: "bytes \<Rightarrow> ('a \<times> bytes) result"
    and ok :: "'a \<Rightarrow> bool"
  assumes enc_total: "ok x \<Longrightarrow> \<exists>bs. enc x = Inr bs"
    and dec_enc: "ok x \<Longrightarrow> enc x = Inr bs \<Longrightarrow> dec (bs @ rest) = Inr (x, rest)"
begin

lemma dec_enc_exact: "ok x \<Longrightarrow> enc x = Inr bs \<Longrightarrow> dec bs = Inr (x, [])"
  using dec_enc [of x bs "[]"] by simp

lemma enc_inj:
  assumes "ok x" "ok y" "enc x = Inr bs" "enc y = Inr bs"
  shows "x = y"
  using dec_enc_exact [OF assms(1,3)] dec_enc_exact [OF assms(2,4)] by simp

lemma items_total: "list_all ok xs \<Longrightarrow> \<exists>bs. writeAll (map enc xs) = Inr bs"
proof (induction xs)
  case (Cons x xs)
  then obtain bs where "writeAll (map enc xs) = Inr bs" by auto
  moreover from Cons.prems obtain b where "enc x = Inr b" using enc_total [of x] by auto
  ultimately show ?case by simp
qed simp

lemma items_dec_enc:
  "list_all ok xs \<Longrightarrow> writeAll (map enc xs) = Inr bs \<Longrightarrow>
   readItems dec (length xs) (bs @ rest) = Inr (xs, rest)"
proof (induction xs arbitrary: bs)
  case (Cons x xs)
  from Cons.prems(2) obtain b cs where b: "enc x = Inr b" and cs: "writeAll (map enc xs) = Inr cs"
    and bs: "bs = b @ cs"
    by (auto elim!: bindE_Inr_E)
  have "dec (b @ cs @ rest) = Inr (x, cs @ rest)"
    using Cons.prems(1) b by (simp add: dec_enc)
  moreover have "readItems dec (length xs) (cs @ rest) = Inr (xs, rest)"
    using Cons.IH [OF _ cs] Cons.prems(1) by simp
  ultimately show ?case by (simp add: bs)
qed simp

end

section \<open>Open files\<close>

text \<open>
  An open \<^verbatim>\<open>os.File\<close>: the bytes of the file and the cursor that \<^verbatim>\<open>Write\<close> moves.
  \<^verbatim>\<open>Truncate\<close> does not move the cursor, and a write behind the end fills the gap with zeros.
  Failures of the operating system (a full disk, a lost device) are not modelled.
\<close>

record gofile =
  f_content :: bytes
  f_pos :: nat

definition fileReadAt :: "bytes \<Rightarrow> nat \<Rightarrow> nat \<Rightarrow> bytes result" where
  "fileReadAt c n off = (if off + n \<le> length c then Inr (take n (drop off c)) else Inl EOF)"

definition overwrite :: "bytes \<Rightarrow> nat \<Rightarrow> bytes \<Rightarrow> bytes" where
  "overwrite c p b = take p c @ replicate (p - length c) 0 @ b @ drop (p + length b) c"

definition truncateTo :: "bytes \<Rightarrow> nat \<Rightarrow> bytes" where
  "truncateTo c n = take n c @ replicate (n - length c) 0"

definition fileWrite :: "gofile \<Rightarrow> bytes \<Rightarrow> gofile" where
  "fileWrite f b = \<lparr>f_content = overwrite (f_content f) (f_pos f) b, f_pos = f_pos f + length b\<rparr>"

definition fileTruncate :: "gofile \<Rightarrow> nat \<Rightarrow> gofile" where
  "fileTruncate f n = f\<lparr>f_content := truncateTo (f_content f) n\<rparr>"

definition fileSeek :: "gofile \<Rightarrow> nat \<Rightarrow> gofile" where
  "fileSeek f n = f\<lparr>f_pos := n\<rparr>"

lemma overwrite_end [simp]: "overwrite c (length c) b = c @ b"
  by (simp add: overwrite_def)

lemma truncateTo_le [simp]: "n \<le> length c \<Longrightarrow> truncateTo c n = take n c"
  by (simp add: truncateTo_def)

lemma fileWrite_end: "f_pos f = length (f_content f) \<Longrightarrow>
    fileWrite f b = \<lparr>f_content = f_content f @ b, f_pos = length (f_content f @ b)\<rparr>"
  by (simp add: fileWrite_def)

lemma fileReadAt_append [simp]:
  "length p = off \<Longrightarrow> length b = n \<Longrightarrow> fileReadAt (p @ b @ c) n off = Inr b"
  by (simp add: fileReadAt_def)

lemma fileReadAt_short [simp]: "length c < off + n \<Longrightarrow> fileReadAt c n off = Inl EOF"
  by (simp add: fileReadAt_def)

lemma fileReadAt_Inr: "fileReadAt c n off = Inr b \<longleftrightarrow> off + n \<le> length c \<and> b = take n (drop off c)"
  by (auto simp: fileReadAt_def)

section \<open>Time\<close>

text \<open>
  A \<^verbatim>\<open>time.Time\<close> is \<open>None\<close> for Go's zero time and \<open>Some n\<close> for \<^verbatim>\<open>time.Unix(0, n)\<close>.  The zero
  time lies outside the range of \<^verbatim>\<open>UnixNano\<close>, which wraps around.
\<close>

type_synonym gotime = "int option"

definition isZero :: "gotime \<Rightarrow> bool" where
  "isZero t = (t = None)"

definition unixNano :: "gotime \<Rightarrow> int" where
  "unixNano t = (case t of Some n \<Rightarrow> n | None \<Rightarrow> wrapS 64 (-62135596800 * 10 ^ 9))"

lemma unixNano_Some [simp]: "unixNano (Some n) = n"
  by (simp add: unixNano_def)

end
