(* ===== verification/Api.thy ===== *)
theory Api
  imports Prelude
begin

text \<open>
  The types that all parts of the broker share (\<^verbatim>\<open>pkg/api/api.go\<close>): records and headers,
  partition metadata and assignments, the cluster view, configuration with its validation,
  and the numeric API keys, error codes and roles of the binary protocol.  A nil Go byte slice
  is \<open>None\<close>; the string, slice and integer fields keep the order of the Go structs.
\<close>

section \<open>Records\<close>

record Header =
  h_Key :: string
  h_Value :: "bytes option"

record Record =
  r_Offset :: int
  r_Timestamp :: gotime
  r_Key :: "bytes option"
  r_Value :: "bytes option"
  r_Headers :: "Header list"
  r_CRC32C :: int

text \<open>\<^verbatim>\<open>len(b)\<close> of a possibly nil byte slice.\<close>

definition blen :: "bytes option \<Rightarrow> nat" where
  "blen b = (case b of None \<Rightarrow> 0 | Some x \<Rightarrow> length x)"

lemma blen_simps [simp]: "blen None = 0" "blen (Some x) = length x"
  by (simp_all add: blen_def)

section \<open>Configuration\<close>

record BrokerInfo =
  bi_BrokerID :: int
  bi_Host :: string
  bi_Port :: int
  bi_Rack :: string
  bi_HTTPAddr :: string
  bi_ControllerAddr :: string

record StaticClusterConfig =
  sc_ClusterID :: string
  sc_Brokers :: "BrokerInfo list"

record BrokerConfig =
  bc_BrokerID :: int
  bc_ReplicationFactor :: int
  bc_DataDir :: string
  bc_BinaryAddr :: string
  bc_MQTTAddr :: string
  bc_HTTPAddr :: string
  bc_MaxSegmentBytes :: int
  bc_RetentionBytes :: int
  bc_RetentionTime :: int
  bc_ClusterID :: string
  bc_ControllerAddr :: string
  bc_AdvertisedAddr :: string
  bc_StaticCluster :: "StaticClusterConfig option"
  bc_ControllerMode :: string
  bc_RaftDir :: string
  bc_RaftBindAddr :: string
  bc_RaftPeers :: "string list"
  bc_Replication :: bool

record TopicConfig =
  tc_Partitions :: int
  tc_ReplicationFactor :: int
  tc_RetentionBytes :: int
  tc_RetentionTime :: int

definition ControllerModeSingle :: string where
  "ControllerModeSingle = ''single''"

definition ControllerModeRaft :: string where
  "ControllerModeRaft = ''raft''"

definition IsValidControllerMode :: "string \<Rightarrow> bool" where
  "IsValidControllerMode mode = (mode \<in> {'''', ControllerModeSingle, ControllerModeRaft})"

definition BrokerConfig_Validate :: "BrokerConfig \<Rightarrow> go_error option" where
  "BrokerConfig_Validate c =
    (if bc_BrokerID c \<le> 0 then Some (Errorf ''broker id must be > 0'')
     else if bc_ReplicationFactor c \<le> 0 then Some (Errorf ''replication factor must be > 0'')
     else if bc_MaxSegmentBytes c < 0 then Some (Errorf ''max segment bytes must be >= 0'')
     else if bc_RetentionBytes c < -1 then Some (Errorf ''retention bytes must be >= -1'')
     else if bc_RetentionTime c < 0 then Some (Errorf ''retention time must be >= 0'')
     else if \<not> IsValidControllerMode (bc_ControllerMode c)
       then Some (Errorf ''invalid controller mode %q'')
     else None)"

definition TopicConfig_Validate :: "TopicConfig \<Rightarrow> go_error option" where
  "TopicConfig_Validate c =
    (if tc_Partitions c \<le> 0 then Some (Errorf ''partitions must be > 0'')
     else if tc_ReplicationFactor c \<le> 0 then Some (Errorf ''replication factor must be > 0'')
     else if tc_RetentionBytes c < -1 then Some (Errorf ''retention bytes must be >= -1'')
     else if tc_RetentionTime c < 0 then Some (Errorf ''retention time must be >= 0'')
     else None)"

section \<open>Partitions and the cluster\<close>

text \<open>\<^verbatim>\<open>PartitionRole\<close> is a Go \<^verbatim>\<open>int\<close>: the wire can carry values beside the two named ones.\<close>

type_synonym PartitionRole = int

definition RoleLeader :: PartitionRole where "RoleLeader = 0"
definition RoleFollower :: PartitionRole where "RoleFollower = 1"

record PartitionReplica =
  pr_Topic :: string
  pr_Partition :: int
  pr_BrokerID :: int
  pr_Role :: PartitionRole
  pr_LeaderEpoch :: int

record PartitionMetadata =
  pm_Replica :: PartitionReplica
  pm_StartOffset :: int
  pm_HighWatermark :: int
  pm_Leader :: int
  pm_Replicas :: "int list"
  pm_ISR :: "int list"

record PartitionAssignment =
  pa_Topic :: string
  pa_Partition :: int
  pa_Replicas :: "int list"
  pa_ISR :: "int list"
  pa_Leader :: int
  pa_LeaderEpoch :: int

record ClusterMetadata =
  cm_ClusterID :: string
  cm_Version :: int
  cm_Brokers :: "BrokerInfo list"
  cm_Partitions :: "PartitionAssignment list"

section \<open>Numeric codes\<close>

type_synonym APIKey = int

definition APIKeyCreateTopic :: APIKey where "APIKeyCreateTopic = 0"
definition APIKeyProduce :: APIKey where "APIKeyProduce = 1"
definition APIKeyFetch :: APIKey where "APIKeyFetch = 2"
definition APIKeyListOffsets :: APIKey where "APIKeyListOffsets = 3"
definition APIKeyCommitOffset :: APIKey where "APIKeyCommitOffset = 4"
definition APIKeyFetchCommitted :: APIKey where "APIKeyFetchCommitted = 5"
definition APIKeyMetadata :: APIKey where "APIKeyMetadata = 6"
definition APIKeyPing :: APIKey where "APIKeyPing = 7"
definition APIKeyProduceByKey :: APIKey where "APIKeyProduceByKey = 8"

lemmas APIKey_defs = APIKeyCreateTopic_def APIKeyProduce_def APIKeyFetch_def
  APIKeyListOffsets_def APIKeyCommitOffset_def APIKeyFetchCommitted_def APIKeyMetadata_def
  APIKeyPing_def APIKeyProduceByKey_def

type_synonym ErrorCode = int

definition ErrNone :: ErrorCode where "ErrNone = 0"
definition ErrUnknown :: ErrorCode where "ErrUnknown = 1"
definition ErrInvalidRequest :: ErrorCode where "ErrInvalidRequest = 2"
definition ErrTopicNotFound :: ErrorCode where "ErrTopicNotFound = 3"
definition ErrPartitionNotFound :: ErrorCode where "ErrPartitionNotFound = 4"
definition ErrTopicExists :: ErrorCode where "ErrTopicExists = 5"
definition ErrNotLeader :: ErrorCode where "ErrNotLeader = 6"
definition ErrInternal :: ErrorCode where "ErrInternal = 7"

lemmas ErrorCode_defs = ErrNone_def ErrUnknown_def ErrInvalidRequest_def ErrTopicNotFound_def
  ErrPartitionNotFound_def ErrTopicExists_def ErrNotLeader_def ErrInternal_def

end
