(* ===== verification/HttpText.thy ===== *)
theory HttpText
  imports Api
begin

text \<open>
  Text on the HTTP interface: the functions on strings that \<^verbatim>\<open>internal/httpapi/api.go\<close> takes from the standard library, as far
  as it uses them, and the way it shows keys and values of records, as text or in base 64.

  A string is a list of bytes, in UTF-8 where it is text.  Case conversion is written out for the characters that it takes to ASCII, among
  them the two letters outside ASCII that fold to \<open>k\<close> and \<open>s\<close>; comparisons are with ASCII only.
\<close>

section \<open>Strings\<close>

definition HasPrefix :: "string \<Rightarrow> string \<Rightarrow> bool" where
  "HasPrefix s p \<longleftrightarrow> take (length p) s = p"

definition TrimPrefix :: "string \<Rightarrow> string \<Rightarrow> string" where
  "TrimPrefix s p = (if HasPrefix s p then drop (length p) s else s)"

definition HasSuffix :: "string \<Rightarrow> string \<Rightarrow> bool" where
  "HasSuffix s p \<longleftrightarrow> HasPrefix (rev s) (rev p)"

fun Contains :: "string \<Rightarrow> string \<Rightarrow> bool" where
  "Contains [] p \<longleftrightarrow> p = []"
| "Contains (c # s) p \<longleftrightarrow> HasPrefix (c # s) p \<or> Contains s p"

text \<open>\<^verbatim>\<open>strings.Split\<close> at a single byte.\<close>

fun Split :: "char \<Rightarrow> string \<Rightarrow> string list" where
  "Split sep [] = [[]]"
| "Split sep (c # s) = (if c = sep then [] # Split sep s else (c # hd (Split sep s)) # tl (Split sep s))"

text \<open>The white space of \<^verbatim>\<open>unicode.IsSpace\<close>, in UTF-8.\<close>

definition spaces :: "bytes list" where
  "spaces = [[0x09], [0x0A], [0x0B], [0x0C], [0x0D], [0x20], [0xC2, 0x85], [0xC2, 0xA0], [0xE1, 0x9A, 0x80],
     [0xE2, 0x80, 0x80], [0xE2, 0x80, 0x81], [0xE2, 0x80, 0x82], [0xE2, 0x80, 0x83], [0xE2, 0x80, 0x84], [0xE2, 0x80, 0x85], [0xE2, 0x80, 0x86],
     [0xE2, 0x80, 0x87], [0xE2, 0x80, 0x88], [0xE2, 0x80, 0x89], [0xE2, 0x80, 0x8A], [0xE2, 0x80, 0xA8], [0xE2, 0x80, 0xA9], [0xE2, 0x80, 0xAF],
     [0xE2, 0x81, 0x9F], [0xE3, 0x80, 0x80]]"

fun trimLeft :: "string list \<Rightarrow> string \<Rightarrow> string" where
  "trimLeft ws [] = []"
| "trimLeft ws (c # s) = (case find (\<lambda>w. w \<noteq> [] \<and> HasPrefix (c # s) w) ws of None \<Rightarrow> c # s | Some w \<Rightarrow> trimLeft ws (drop (length w - 1) s))"

definition TrimLeftSpace :: "string \<Rightarrow> string" where
  "TrimLeftSpace s = trimLeft (map bytes_string spaces) s"

definition TrimSpace :: "string \<Rightarrow> string" where
  "TrimSpace s = rev (trimLeft (map (rev \<circ> bytes_string) spaces) (rev (TrimLeftSpace s)))"

definition lowerChar :: "char \<Rightarrow> char" where
  "lowerChar c = (if 65 \<le> (of_char c :: nat) \<and> (of_char c :: nat) \<le> 90 then char_of ((of_char c :: nat) + 32) else c)"

text \<open>The Kelvin sign lowers to \<open>k\<close> and the capital \<open>I\<close> with a dot to \<open>i\<close>.\<close>

fun ToLower :: "string \<Rightarrow> string" where
  "ToLower [] = []"
| "ToLower (c # s) =
    (if string_bytes (take 3 (c # s)) = [0xE2, 0x84, 0xAA] then CHR ''k'' # ToLower (drop 2 s)
     else if string_bytes (take 2 (c # s)) = [0xC4, 0xB0] then CHR ''i'' # ToLower (drop 1 s)
     else lowerChar c # ToLower s)"

text \<open>The Kelvin sign folds to \<open>k\<close> and the long \<open>s\<close> to \<open>s\<close>.\<close>

fun foldName :: "string \<Rightarrow> string" where
  "foldName [] = []"
| "foldName (c # s) =
    (if string_bytes (take 3 (c # s)) = [0xE2, 0x84, 0xAA] then CHR ''k'' # foldName (drop 2 s)
     else if string_bytes (take 2 (c # s)) = [0xC5, 0xBF] then CHR ''s'' # foldName (drop 1 s)
     else lowerChar c # foldName s)"

text \<open>\<^verbatim>\<open>strings.EqualFold\<close> with an ASCII string.\<close>

definition EqualFold :: "string \<Rightarrow> string \<Rightarrow> bool" where
  "EqualFold s t \<longleftrightarrow> foldName s = foldName t"

section \<open>Base 64\<close>

definition alphabet :: string where
  "alphabet = ''ABCDEFGHIJKLMNOPQRSTUVWXYZabcdefghijklmnopqrstuvwxyz0123456789+/''"

definition b64char :: "nat \<Rightarrow> char" where
  "b64char n = alphabet ! n"

definition b64val :: "char \<Rightarrow> nat option" where
  "b64val c = (let i = length (takeWhile (\<lambda>d. d \<noteq> c) alphabet) in if i < 64 then Some i else None)"

fun encode64 :: "bytes \<Rightarrow> string" where
  "encode64 [] = []"
| "encode64 [a] = [b64char (unat a div 4), b64char (unat a mod 4 * 16), CHR ''='', CHR ''='']"
| "encode64 [a, b] = [b64char (unat a div 4), b64char (unat a mod 4 * 16 + unat b div 16), b64char (unat b mod 16 * 4), CHR ''='']"
| "encode64 (a # b # c # rest) =
    [b64char (unat a div 4), b64char (unat a mod 4 * 16 + unat b div 16), b64char (unat b mod 16 * 4 + unat c div 64), b64char (unat c mod 64)]
    @ encode64 rest"

definition byteOf :: "nat \<Rightarrow> byte" where
  "byteOf n = word_of_nat n"

text \<open>Groups of four; the last may be padded.  The bits that padding leaves over are not looked at.\<close>

fun decode64 :: "string \<Rightarrow> bytes option" where
  "decode64 [] = Some []"
| "decode64 (p # q # r # s # rest) =
    (case (b64val p, b64val q) of
       (Some p', Some q') \<Rightarrow>
         (if r = CHR ''='' \<and> s = CHR ''='' then (if rest = [] then Some [byteOf (p' * 4 + q' div 16)] else None)
          else case b64val r of
            None \<Rightarrow> None
          | Some r' \<Rightarrow>
            (if s = CHR ''='' then (if rest = [] then Some [byteOf (p' * 4 + q' div 16), byteOf (q' mod 16 * 16 + r' div 4)] else None)
             else case (b64val s, decode64 rest) of
               (Some s', Some bs) \<Rightarrow> Some ([byteOf (p' * 4 + q' div 16), byteOf (q' mod 16 * 16 + r' div 4), byteOf (r' mod 4 * 64 + s')] @ bs)
             | _ \<Rightarrow> None))
     | _ \<Rightarrow> None)"
| "decode64 s = None"

text \<open>\<^verbatim>\<open>base64.StdEncoding\<close>, whose decoder skips line breaks.\<close>

definition EncodeToString :: "bytes \<Rightarrow> string" where
  "EncodeToString b = encode64 b"

definition DecodeString :: "string \<Rightarrow> bytes option" where
  "DecodeString s = decode64 (filter (\<lambda>c. (of_char c :: nat) \<noteq> 10 \<and> (of_char c :: nat) \<noteq> 13) s)"

section \<open>UTF-8\<close>

definition cont :: "nat \<Rightarrow> nat \<Rightarrow> bytes \<Rightarrow> bool" where
  "cont lo hi bs = (case bs of [] \<Rightarrow> False | b # _ \<Rightarrow> lo \<le> unat b \<and> unat b \<le> hi)"

text \<open>\<^verbatim>\<open>utf8.Valid\<close>: the range of the second byte depends on the first.\<close>

fun utf8Valid :: "bytes \<Rightarrow> bool" where
  "utf8Valid [] = True"
| "utf8Valid (b # bs) =
    (let n = unat b; tail = (\<lambda>k. list_all (\<lambda>i. cont 0x80 0xBF (drop i bs)) [1..<k]) in
     if n < 0x80 then utf8Valid bs
     else if 0xC2 \<le> n \<and> n \<le> 0xDF then cont 0x80 0xBF bs \<and> utf8Valid (drop 1 bs)
     else if n = 0xE0 then cont 0xA0 0xBF bs \<and> tail 2 \<and> utf8Valid (drop 2 bs)
     else if n = 0xED then cont 0x80 0x9F bs \<and> tail 2 \<and> utf8Valid (drop 2 bs)
     else if 0xE1 \<le> n \<and> n \<le> 0xEF then cont 0x80 0xBF bs \<and> tail 2 \<and> utf8Valid (drop 2 bs)
     else if n = 0xF0 then cont 0x90 0xBF bs \<and> tail 3 \<and> utf8Valid (drop 3 bs)
     else if n = 0xF4 then cont 0x80 0x8F bs \<and> tail 3 \<and> utf8Valid (drop 3 bs)
     else if 0xF1 \<le> n \<and> n \<le> 0xF3 then cont 0x80 0xBF bs \<and> tail 3 \<and> utf8Valid (drop 3 bs)
     else False)"

section \<open>Media types\<close>

definition isTSpecial :: "char \<Rightarrow> bool" where
  "isTSpecial c \<longleftrightarrow> c \<in> set (''()<>@,;:/[]?='' @ [char_of (92 :: nat), char_of (34 :: nat)])"

definition isTokenChar :: "char \<Rightarrow> bool" where
  "isTokenChar c \<longleftrightarrow> 0x20 < (of_char c :: nat) \<and> (of_char c :: nat) < 0x7F \<and> \<not> isTSpecial c"

definition consumeToken :: "string \<Rightarrow> string \<times> string" where
  "consumeToken v = (takeWhile isTokenChar v, dropWhile isTokenChar v)"

text \<open>A quoted string behind its opening quote; \<open>None\<close> when it does not close.\<close>

fun consumeQuoted :: "string \<Rightarrow> (string \<times> string) option" where
  "consumeQuoted [] = None"
| "consumeQuoted (c # v) =
    (if c = char_of (34 :: nat) then Some ([], v)
     else if c = char_of (92 :: nat) \<and> v \<noteq> [] \<and> isTSpecial (hd v) then map_option (\<lambda>(s, r). (hd v # s, r)) (consumeQuoted (tl v))
     else if (of_char c :: nat) = 13 \<or> (of_char c :: nat) = 10 then None
     else map_option (\<lambda>(s, r). (c # s, r)) (consumeQuoted v))"

definition consumeValue :: "string \<Rightarrow> string \<times> string" where
  "consumeValue v = (case v of [] \<Rightarrow> ([], [])
     | c # v' \<Rightarrow> if c = char_of (34 :: nat) then (case consumeQuoted v' of None \<Rightarrow> ([], v) | Some r \<Rightarrow> r) else consumeToken v)"

text \<open>A parameter with its value and what follows; \<open>None\<close> when there is none.\<close>

definition consumeMediaParam :: "string \<Rightarrow> (string \<times> string \<times> string) option" where
  "consumeMediaParam v =
    (let rest = TrimLeftSpace v in
     if \<not> HasPrefix rest '';'' then None
     else let (param, rest) = consumeToken (TrimLeftSpace (tl rest)); rest = TrimLeftSpace rest in
       if param = [] \<or> \<not> HasPrefix rest ''='' then None
       else let rest = TrimLeftSpace (tl rest); (value, rest2) = consumeValue rest in
         if value = [] \<and> rest2 = rest then None else Some (ToLower param, value, rest2))"

lemma trimLeft_length: "length (trimLeft ws s) \<le> length s"
  by (induction ws s rule: trimLeft.induct) (auto split: option.split intro: le_trans)

lemma TrimLeftSpace_length: "length (TrimLeftSpace s) \<le> length s"
  by (simp add: TrimLeftSpace_def trimLeft_length)

lemma consumeQuoted_length: "consumeQuoted v = Some (s, r) \<Longrightarrow> length r < length v"
proof (induction v arbitrary: s r rule: consumeQuoted.induct)
  case (2 c v)
  then show ?case by (fastforce split: if_splits simp: less_Suc_eq)
qed simp

lemma consumeToken_length: "consumeToken v = (s, r) \<Longrightarrow> length r \<le> length v"
  using length_dropWhile_le [of isTokenChar v] by (auto simp: consumeToken_def)

lemma consumeValue_length: "consumeValue v = (s, r) \<Longrightarrow> length r \<le> length v"
  by (cases v) (auto simp: consumeValue_def split: if_splits option.splits dest: consumeToken_length consumeQuoted_length)

lemma HasPrefix_one: "HasPrefix s [c] \<longleftrightarrow> (\<exists>r. s = c # r)"
  by (cases s) (auto simp: HasPrefix_def)

lemma consumeMediaParam_length: "consumeMediaParam v = Some (p, x, r) \<Longrightarrow> length r < length v"
proof -
  assume c: "consumeMediaParam v = Some (p, x, r)"
  then obtain r1 param rest1 r2 val where
    s: "TrimLeftSpace v = CHR '';'' # r1" "consumeToken (TrimLeftSpace r1) = (param, rest1)" "TrimLeftSpace rest1 = CHR ''='' # r2"
      "consumeValue (TrimLeftSpace r2) = (val, r)"
    by (auto simp: consumeMediaParam_def Let_def HasPrefix_one split: if_splits prod.splits)
  have "length r \<le> length r2" using consumeValue_length [OF s(4)] TrimLeftSpace_length [of r2] by simp
  also have "\<dots> < length rest1" using TrimLeftSpace_length [of rest1] s(3) by simp
  also have "\<dots> \<le> length r1" using s(2) length_dropWhile_le [of isTokenChar "TrimLeftSpace r1"] TrimLeftSpace_length [of r1] by (auto simp: consumeToken_def)
  also have "\<dots> < length v" using TrimLeftSpace_length [of v] s(1) by simp
  finally show ?thesis .
qed

text \<open>The parameters parse, no name with two values.\<close>

function mediaParamsOk :: "(string \<times> string) list \<Rightarrow> string \<Rightarrow> bool" where
  "mediaParamsOk params v =
    (if TrimLeftSpace v = [] then True
     else case consumeMediaParam (TrimLeftSpace v) of
       None \<Rightarrow> TrimSpace (TrimLeftSpace v) = '';''
     | Some (key, value, rest) \<Rightarrow>
       (case map_of params key of
          Some value' \<Rightarrow> if value' \<noteq> value then False else mediaParamsOk params rest
        | None \<Rightarrow> mediaParamsOk ((key, value) # params) rest))"
  by pat_completeness auto
termination
  by (relation "measure (\<lambda>(_, v). length v)") (auto dest!: consumeMediaParam_length intro: less_le_trans [OF _ TrimLeftSpace_length])

declare mediaParamsOk.simps [simp del]

definition checkMediaTypeDisposition :: "string \<Rightarrow> bool" where
  "checkMediaTypeDisposition s =
    (let (typ, rest) = consumeToken s in
     if typ = [] then False
     else if rest = [] then True
     else if hd rest \<noteq> CHR ''/'' then False
     else let (subtype, rest) = consumeToken (tl rest) in subtype \<noteq> [] \<and> rest = [])"

text \<open>\<^verbatim>\<open>mime.ParseMediaType\<close> without the parameters; \<open>None\<close> is an error.\<close>

definition ParseMediaType :: "string \<Rightarrow> string option" where
  "ParseMediaType v =
    (let base = takeWhile (\<lambda>c. c \<noteq> CHR '';'') v; mediatype = TrimSpace (ToLower base) in
     if checkMediaTypeDisposition mediatype \<and> mediaParamsOk [] (drop (length base) v) then Some mediatype else None)"

section \<open>Paths and times\<close>

definition hexDigit :: "nat \<Rightarrow> char" where
  "hexDigit n = ''0123456789ABCDEF'' ! n"

definition plainInSegment :: "char \<Rightarrow> bool" where
  "plainInSegment c \<longleftrightarrow> (let n = of_char c :: nat in
     (48 \<le> n \<and> n \<le> 57) \<or> (65 \<le> n \<and> n \<le> 90) \<or> (97 \<le> n \<and> n \<le> 122)) \<or> c \<in> set ''-_.~$&+=:@''"

text \<open>\<^verbatim>\<open>url.PathEscape\<close>.\<close>

definition PathEscape :: "string \<Rightarrow> string" where
  "PathEscape s = concat (map (\<lambda>c. if plainInSegment c then [c] else let n = of_char c :: nat in [CHR ''%'', hexDigit (n div 16), hexDigit (n mod 16)]) s)"

text \<open>Year, month and day of a number of days since 1970-01-01, counted in eras of 400 years from the first of March of year 0.\<close>

definition civil :: "int \<Rightarrow> int \<times> int \<times> int" where
  "civil days =
    (let z = days + 719468; era = z div 146097; doe = z mod 146097;
         yoe = (doe - doe div 1460 + doe div 36524 - doe div 146096) div 365;
         doy = doe - (365 * yoe + yoe div 4 - yoe div 100);
         mp = (5 * doy + 2) div 153; d = doy - (153 * mp + 2) div 5 + 1;
         m = (if mp < 10 then mp + 3 else mp - 9)
     in (yoe + era * 400 + (if m \<le> 2 then 1 else 0), m, d))"

fun pad :: "nat \<Rightarrow> int \<Rightarrow> string" where
  "pad 0 n = []"
| "pad (Suc k) n = pad k (n div 10) @ [char_of (48 + nat (n mod 10))]"

text \<open>\<^verbatim>\<open>Format(time.RFC3339)\<close> of a time in UTC, in nanoseconds since 1970; the zero time is the first of January of year 1.\<close>

definition formatRFC3339 :: "int option \<Rightarrow> string" where
  "formatRFC3339 t =
    (let secs = (case t of None \<Rightarrow> -62135596800 | Some ns \<Rightarrow> ns div 10 ^ 9); (y, m, d) = civil (secs div 86400); s = secs mod 86400
     in pad 4 y @ ''-'' @ pad 2 m @ ''-'' @ pad 2 d @ ''T'' @ pad 2 (s div 3600) @ '':'' @ pad 2 (s div 60 mod 60) @ '':'' @ pad 2 (s mod 60) @ ''Z'')"

section \<open>Keys, values and content types\<close>

definition recordContentTypeHeader :: string where "recordContentTypeHeader = ''content-type''"

definition encodeMaybeBase64 :: "bytes \<Rightarrow> string" where
  "encodeMaybeBase64 b =
    (if b = [] then '''' else if utf8Valid b then bytes_string b else ''base64:'' @ EncodeToString b)"

definition decodeMaybeBase64 :: "string \<Rightarrow> bytes result" where
  "decodeMaybeBase64 raw =
    (if HasPrefix raw ''base64:''
     then (case DecodeString (TrimPrefix raw ''base64:'') of None \<Rightarrow> Inl (Errorf ''illegal base64 data'') | Some d \<Rightarrow> Inr d)
     else Inr (string_bytes raw))"

definition recordContentType :: "Header list \<Rightarrow> string option" where
  "recordContentType headers = (case find (\<lambda>h. EqualFold (h_Key h) recordContentTypeHeader) headers of
       None \<Rightarrow> None
     | Some h \<Rightarrow>
       (let value = TrimSpace (bytes_string (case h_Value h of None \<Rightarrow> [] | Some v \<Rightarrow> v)) in if value = '''' then None else Some value))"

definition applyContentType :: "string \<Rightarrow> Record \<Rightarrow> Record" where
  "applyContentType contentType rec =
    (let value = TrimSpace contentType in
     if value = '''' then rec else rec\<lparr>r_Headers := r_Headers rec @ [\<lparr>h_Key = recordContentTypeHeader, h_Value = Some (string_bytes value)\<rparr>]\<rparr>)"

definition isTextContentType :: "string \<Rightarrow> bool" where
  "isTextContentType contentType =
    (let trimmed = TrimSpace contentType in
     if trimmed = '''' then False
     else let mediaType = ToLower (case ParseMediaType trimmed of None \<Rightarrow> trimmed | Some m \<Rightarrow> m) in
       HasPrefix mediaType ''text/'' \<or> mediaType = ''application/json'' \<or> HasSuffix mediaType ''+json'')"

definition encodeRecordValue :: "bytes \<Rightarrow> Header list \<Rightarrow> string" where
  "encodeRecordValue b headers = (case recordContentType headers of
       None \<Rightarrow> encodeMaybeBase64 b
     | Some contentType \<Rightarrow>
       (if b = [] then ''''
        else if isTextContentType contentType \<and> utf8Valid b then bytes_string b
        else ''base64:'' @ EncodeToString b))"

section \<open>What is shown can be sent\<close>

lemma b64val_char: "n < 64 \<Longrightarrow> b64val (b64char n) = Some n"
proof -
  have "list_all (\<lambda>n. b64val (b64char n) = Some n) [0..<64]" by code_simp
  then show "n < 64 \<Longrightarrow> b64val (b64char n) = Some n" by (simp add: list_all_iff)
qed

lemma b64char_plain: "n < 64 \<Longrightarrow> b64char n \<noteq> CHR ''='' \<and> (of_char (b64char n) :: nat) \<noteq> 10 \<and> (of_char (b64char n) :: nat) \<noteq> 13 \<and> (of_char (b64char n) :: nat) < 128"
proof -
  have "list_all (\<lambda>n. b64char n \<noteq> CHR ''='' \<and> (of_char (b64char n) :: nat) \<noteq> 10 \<and> (of_char (b64char n) :: nat) \<noteq> 13 \<and> (of_char (b64char n) :: nat) < 128) [0..<64]" by code_simp
  then show "n < 64 \<Longrightarrow> ?thesis" by (simp add: list_all_iff)
qed

lemma byteOf_unat: "n = unat (b :: byte) \<Longrightarrow> byteOf n = b"
  by (simp add: byteOf_def)

lemma unat_byte: "unat (b :: byte) < 256"
  using unsigned_less [of b] by simp

lemma sextets:
  fixes a b c :: byte
  shows "unat a div 4 < 64" "unat a mod 4 * 16 + unat b div 16 < 64" "unat b mod 16 * 4 + unat c div 64 < 64" "unat c mod 64 < 64"
    "unat a mod 4 * 16 < 64" "unat b mod 16 * 4 < 64"
  using unat_byte [of a] unat_byte [of b] unat_byte [of c] by auto

lemma octets:
  fixes a b c :: byte
  shows "byteOf (unat a) = a" "byteOf (unat a + unat b div 16 div 16) = a" "byteOf (unat b div 16 mod 16 * 16 + unat b mod 16) = b"
    "byteOf (unat b div 16 mod 16 * 16 + (unat b mod 16 + unat c div 64 div 4)) = b" "byteOf (unat c div 64 mod 4 * 64 + unat c mod 64) = c"
  using unat_byte [of a] unat_byte [of b] unat_byte [of c] by (auto intro!: byteOf_unat)

lemma decode64_encode64: "decode64 (encode64 b) = Some b"
  by (induction b rule: encode64.induct) (simp_all add: b64val_char b64char_plain sextets octets)

lemma encode64_plain: "c \<in> set (encode64 b) \<Longrightarrow> (of_char c :: nat) \<noteq> 10 \<and> (of_char c :: nat) \<noteq> 13"
proof (induction b rule: encode64.induct)
  case (2 a)
  then show ?case using b64char_plain sextets(1,5) by auto
next
  case (3 a b)
  then show ?case using b64char_plain sextets(1,2,6) by auto
next
  case (4 a b c rest)
  then show ?case using b64char_plain sextets(1-4) by auto
qed simp

text \<open>Characters below 128 are UTF-8.\<close>

lemma ascii_utf8:
  assumes "list_all (\<lambda>c. (of_char c :: nat) < 128) s"
  shows "utf8Valid (string_bytes s)"
  using assms
proof (induction s)
  case (Cons c s)
  have "unat (byte_of_char c) < 128" using Cons.prems by (simp add: byte_of_char_def unat_of_nat take_bit_eq_mod)
  then have "utf8Valid (byte_of_char c # string_bytes s) = utf8Valid (string_bytes s)"
    unfolding utf8Valid.simps Let_def by (simp del: utf8Valid.simps)
  then show ?case using Cons by (simp add: string_bytes_def)
qed simp

lemma encode64_ascii: "list_all (\<lambda>c. (of_char c :: nat) < 128) (encode64 b)"
  by (induction b rule: encode64.induct) (simp_all add: b64char_plain sextets)

lemma shown64_utf8: "utf8Valid (string_bytes (''base64:'' @ EncodeToString b))"
  by (rule ascii_utf8) (use encode64_ascii in \<open>simp add: EncodeToString_def\<close>)

lemma DecodeString_EncodeToString: "DecodeString (EncodeToString b) = Some b"
  using encode64_plain [of _ b] by (simp add: DecodeString_def EncodeToString_def decode64_encode64 cong: filter_cong)

lemma TrimPrefix_append: "HasPrefix (p @ s) p" "TrimPrefix (p @ s) p = s"
  by (simp_all add: HasPrefix_def TrimPrefix_def)

lemma shown_roundtrip:
  assumes "\<not> (utf8Valid b \<and> HasPrefix (bytes_string b) ''base64:'')"
  shows "decodeMaybeBase64 (encodeMaybeBase64 b) = Inr b" "decodeMaybeBase64 (encodeRecordValue b headers) = Inr b"
proof -
  have e: "decodeMaybeBase64 (''base64:'' @ EncodeToString b) = Inr b"
    by (simp only: decodeMaybeBase64_def TrimPrefix_append if_True DecodeString_EncodeToString option.case)
  have n: "decodeMaybeBase64 '''' = Inr []" by (simp add: decodeMaybeBase64_def HasPrefix_def)
  have t: "decodeMaybeBase64 (bytes_string b) = Inr b" if "utf8Valid b" using that assms by (simp add: decodeMaybeBase64_def)
  show m: "decodeMaybeBase64 (encodeMaybeBase64 b) = Inr b" using e n t by (simp add: encodeMaybeBase64_def del: append_Cons)
  show "decodeMaybeBase64 (encodeRecordValue b headers) = Inr b" using e n t m by (simp add: encodeRecordValue_def del: append_Cons split: option.split)
qed

text \<open>What the API shows can be sent back.  A key or value that is shown as text or in base 64, with whatever content type, is decoded to the
  same bytes when it is sent, unless it is text that begins with the marker of the encoding.\<close>

theorem shown_value_roundtrip:
  assumes "\<not> (utf8Valid b \<and> HasPrefix (bytes_string b) ''base64:'')"
  shows "decodeMaybeBase64 (encodeMaybeBase64 b) = Inr b \<and> decodeMaybeBase64 (encodeRecordValue b headers) = Inr b"
  using shown_roundtrip [OF assms] by blast

theorem shown_value_roundtrip_witness:
  "decodeMaybeBase64 (encodeRecordValue [0xFF, 1] []) = Inr [0xFF, 1]"
proof -
  have "\<not> utf8Valid [0xFF, 1]" by simp
  then show ?thesis using shown_value_roundtrip [of "[0xFF, 1]" "[]"] by blast
qed

text \<open>Such text comes back as other bytes.\<close>

lemma shown_text_misread:
  "decodeMaybeBase64 (encodeMaybeBase64 (string_bytes ''base64:AAAA'')) = Inr [0, 0, 0]"
  by code_simp

end
