(* ===== verification/NetprotoCodec.thy ===== *)
theory NetprotoCodec
  imports Api
begin

text \<open>
  The codec of the custom binary protocol (\<^verbatim>\<open>internal/netproto/codec.go\<close>, messages of
  \<^verbatim>\<open>messages.go\<close>): the frame with its length, key, version and correlation id; strings, byte
  slices, headers and records; and the encoder and decoder of every request and response.
  All integers are big-endian.  An encoder returns the bytes it writes or the error it
  returns; a decoder of a field returns what it read with the bytes left over.
\<close>

section \<open>Limits and checked conversions\<close>

definition frameHeaderSize :: int where "frameHeaderSize = 4 + 2 + 2 + 4 + 2"
definition currentVersion :: int where "currentVersion = 0"
definition maxInt16 :: int where "maxInt16 = 32767"
definition maxInt32 :: int where "maxInt32 = 2147483647"
definition maxUint32 :: int where "maxUint32 = 4294967295"
definition maxFrameLength :: int where "maxFrameLength = 16 * 1024 * 1024"
definition maxItemCount :: int where "maxItemCount = 100000"

lemmas net_limits = frameHeaderSize_def currentVersion_def maxInt16_def maxInt32_def
  maxUint32_def maxFrameLength_def maxItemCount_def

definition toUint32Checked :: "int \<Rightarrow> string \<Rightarrow> int result" where
  "toUint32Checked n field =
    (if n < 0 then Inl (Errorf (field @ '' is negative: %d''))
     else if n > maxUint32 then Inl (Errorf (field @ '' exceeds uint32 max: %d''))
     else Inr n)"

definition toInt16Checked :: "int \<Rightarrow> string \<Rightarrow> int result" where
  "toInt16Checked n field =
    (if n < 0 \<or> n > maxInt16 then Inl (Errorf (field @ '' out of int16 range: %d'')) else Inr n)"

definition toInt32Checked :: "int \<Rightarrow> string \<Rightarrow> int result" where
  "toInt32Checked n field =
    (if n < 0 \<or> n > maxInt32 then Inl (Errorf (field @ '' out of int32 range: %d'')) else Inr n)"

definition uint16ToInt16 :: "int \<Rightarrow> string \<Rightarrow> int result" where
  "uint16ToInt16 v field =
    (if v > maxInt16 then Inl (Errorf (field @ '' out of int16 range: %d'')) else Inr v)"

definition uint32ToInt32 :: "int \<Rightarrow> string \<Rightarrow> int result" where
  "uint32ToInt32 v field =
    (if v > maxInt32 then Inl (Errorf (field @ '' out of int32 range: %d'')) else Inr v)"

definition partitionRoleToInt16 :: "PartitionRole \<Rightarrow> int result" where
  "partitionRoleToInt16 role =
    (if role < 0 \<or> role > maxInt16 then Inl (Errorf ''partition role out of int16 range: %d'')
     else Inr role)"

abbreviation be16 :: "int \<Rightarrow> bytes" where "be16 \<equiv> put_int BigEndian 2"
abbreviation be32 :: "int \<Rightarrow> bytes" where "be32 \<equiv> put_int BigEndian 4"
abbreviation be64 :: "int \<Rightarrow> bytes" where "be64 \<equiv> put_int BigEndian 8"
abbreviation readI16 :: "bytes \<Rightarrow> (int \<times> bytes) result" where "readI16 \<equiv> read_int BigEndian 2"
abbreviation readI32 :: "bytes \<Rightarrow> (int \<times> bytes) result" where "readI32 \<equiv> read_int BigEndian 4"
abbreviation readI64 :: "bytes \<Rightarrow> (int \<times> bytes) result" where "readI64 \<equiv> read_int BigEndian 8"

text \<open>\<^verbatim>\<open>toInt32Checked\<close> followed by \<^verbatim>\<open>binary.Write\<close>, and the guard on a decoded item count.\<close>

definition put32 :: "int \<Rightarrow> string \<Rightarrow> bytes result" where
  "put32 n field = bindE (toInt32Checked n field) (\<lambda>v. Inr (be32 v))"

definition checkCount :: "int \<Rightarrow> string \<Rightarrow> nat result" where
  "checkCount n what =
    (if n < 0 then Inl (Errorf (''negative '' @ what))
     else if n > maxItemCount then Inl (Errorf (what @ '' %d exceeds max %d''))
     else Inr (nat n))"

section \<open>Frames\<close>

definition encodeFrame :: "APIKey \<Rightarrow> int \<Rightarrow> bytes \<Rightarrow> bytes result" where
  "encodeFrame apiKey correlationID payload =
    (let data = be32 0 @ be16 apiKey @ be16 currentVersion @ be32 correlationID @ be16 0 @ payload
     in bindE (toUint32Checked (int (length data) - 4) ''frame length'') (\<lambda>len.
        Inr (be32 len @ drop 4 data)))"

definition decodeFrame :: "bytes \<Rightarrow> ((APIKey \<times> int \<times> bytes) \<times> bytes) result" where
  "decodeFrame r =
    bindE (readFull (nat frameHeaderSize) r) (\<lambda>(header, r).
    let len = val_uint BigEndian (take 4 header) in
    if len < frameHeaderSize - 4 then Inl (Errorf ''invalid frame length %d'')
    else if len > maxFrameLength then Inl (Errorf ''frame length %d exceeds max %d'')
    else if len > maxInt32 then Inl (Errorf ''frame length %d exceeds int32 max'')
    else bindE (uint16ToInt16 (val_uint BigEndian (take 2 (drop 4 header))) ''api key'') (\<lambda>apiKey.
    bindE (uint16ToInt16 (val_uint BigEndian (take 2 (drop 6 header))) ''version'') (\<lambda>version.
    if version \<noteq> currentVersion then Inl (Errorf ''unsupported version %d'')
    else bindE (uint32ToInt32 (val_uint BigEndian (take 4 (drop 8 header))) ''correlation id'') (\<lambda>corr.
    let payloadLen = len - (frameHeaderSize - 4) in
    if payloadLen < 0 then Inl (Errorf ''invalid payload length'')
    else bindE (readFull (nat payloadLen) r) (\<lambda>(payload, r).
    Inr ((apiKey, corr, payload), r))))))"

definition encodeRequestFrame :: "APIKey \<Rightarrow> int \<Rightarrow> bytes \<Rightarrow> bytes result" where
  "encodeRequestFrame apiKey correlationID payload = encodeFrame apiKey correlationID payload"

definition encodeResponseFrame :: "APIKey \<Rightarrow> int \<Rightarrow> bytes \<Rightarrow> bytes result" where
  "encodeResponseFrame apiKey correlationID payload = encodeFrame apiKey correlationID payload"

definition decodeRequestFrame :: "bytes \<Rightarrow> ((APIKey \<times> int \<times> bytes) \<times> bytes) result" where
  "decodeRequestFrame r = decodeFrame r"

definition decodeResponseFrame :: "bytes \<Rightarrow> ((APIKey \<times> int \<times> bytes) \<times> bytes) result" where
  "decodeResponseFrame r = decodeFrame r"

section \<open>Strings, byte slices, headers, records\<close>

definition putString :: "string \<Rightarrow> bytes result" where
  "putString s = bindE (toInt16Checked (int (length s)) ''string length'') (\<lambda>len.
     Inr (be16 len @ string_bytes s))"

definition readString :: "bytes \<Rightarrow> (string \<times> bytes) result" where
  "readString r = bindE (readI16 r) (\<lambda>(l, r).
     if l < 0 then Inl (Errorf ''invalid string length %d'')
     else if l = 0 then Inr ('''', r)
     else bindE (readFull (nat l) r) (\<lambda>(buf, r). Inr (bytes_string buf, r)))"

definition putBytes :: "bytes option \<Rightarrow> bytes result" where
  "putBytes b = (case b of
       None \<Rightarrow> Inr (be32 (-1))
     | Some x \<Rightarrow> bindE (toInt32Checked (int (length x)) ''bytes length'') (\<lambda>len. Inr (be32 len @ x)))"

definition readBytes :: "bytes \<Rightarrow> (bytes option \<times> bytes) result" where
  "readBytes r = bindE (readI32 r) (\<lambda>(l, r).
     if l < 0 then Inr (None, r)
     else if l = 0 then Inr (Some [], r)
     else bindE (readFull (nat l) r) (\<lambda>(buf, r). Inr (Some buf, r)))"

definition putHeader :: "Header \<Rightarrow> bytes result" where
  "putHeader h = writeAll [putString (h_Key h), putBytes (h_Value h)]"

definition readHeader :: "bytes \<Rightarrow> (Header \<times> bytes) result" where
  "readHeader r = bindE (readString r) (\<lambda>(k, r). bindE (readBytes r) (\<lambda>(v, r).
     Inr (\<lparr>h_Key = k, h_Value = v\<rparr>, r)))"

definition putHeaders :: "Header list \<Rightarrow> bytes result" where
  "putHeaders headers =
     writeAll (put32 (int (length headers)) ''headers count'' # map putHeader headers)"

definition readHeaders :: "bytes \<Rightarrow> (Header list \<times> bytes) result" where
  "readHeaders r = bindE (readI32 r) (\<lambda>(n, r).
     bindE (checkCount n ''header count'') (\<lambda>n. readItems readHeader n r))"

definition encodeRecord_net :: "Record \<Rightarrow> bytes result" where
  "encodeRecord_net r = writeAll
     [Inr (be64 (r_Offset r)), Inr (be64 (unixNano (r_Timestamp r))),
      putBytes (r_Key r), putBytes (r_Value r), putHeaders (r_Headers r)]"

definition decodeRecord_net :: "bytes \<Rightarrow> (Record \<times> bytes) result" where
  "decodeRecord_net r =
     bindE (readI64 r) (\<lambda>(offset, r).
     bindE (readI64 r) (\<lambda>(ts, r).
     bindE (readBytes r) (\<lambda>(key, r).
     bindE (readBytes r) (\<lambda>(val, r).
     bindE (readHeaders r) (\<lambda>(headers, r).
     Inr (\<lparr>r_Offset = offset, r_Timestamp = Some ts, r_Key = key, r_Value = val,
           r_Headers = headers, r_CRC32C = 0\<rparr>, r))))))"

text \<open>
  One iteration of the loops over records: the encoded record behind its length, and the
  reading of a record out of exactly that many bytes.
\<close>

definition putRecord :: "Record \<Rightarrow> bytes result" where
  "putRecord r = bindE (encodeRecord_net r) (\<lambda>recBytes.
     bindE (put32 (int (length recBytes)) ''record bytes length'') (\<lambda>len. Inr (len @ recBytes)))"

definition readRecord :: "bytes \<Rightarrow> (Record \<times> bytes) result" where
  "readRecord buf = bindE (readI32 buf) (\<lambda>(l, buf).
     if l < 0 \<or> l > int (length buf) then Inl (Errorf ''invalid record length'')
     else bindE (decodeRecord_net (take (nat l) buf)) (\<lambda>(rec, _). Inr (rec, drop (nat l) buf)))"

definition putRecords :: "Record list \<Rightarrow> bytes result" where
  "putRecords rs = writeAll (put32 (int (length rs)) ''record count'' # map putRecord rs)"

definition readRecords :: "bytes \<Rightarrow> (Record list \<times> bytes) result" where
  "readRecords buf = bindE (readI32 buf) (\<lambda>(n, buf).
     bindE (checkCount n ''record count'') (\<lambda>n. readItems readRecord n buf))"

text \<open>Producers stamp records that carry no time; \<open>clock i\<close> is \<^verbatim>\<open>time.Now()\<close> at record \<open>i\<close>.\<close>

definition stampRecords :: "(nat \<Rightarrow> int) \<Rightarrow> Record list \<Rightarrow> Record list" where
  "stampRecords clock rs = map (\<lambda>(i, r).
     if isZero (r_Timestamp r) then r\<lparr>r_Timestamp := Some (clock i)\<rparr> else r) (enumerate 0 rs)"

section \<open>Messages\<close>

record CreateTopicRequest =
  ctq_Topic :: string
  ctq_Partitions :: int
  ctq_ReplicationFactor :: int

record CreateTopicResponse =
  ctp_Error :: ErrorCode

record ProduceRequest =
  pq_Topic :: string
  pq_Partition :: int
  pq_Records :: "Record list"

record ProduceResponse =
  pp_BaseOffset :: int
  pp_Error :: ErrorCode

record ProduceByKeyRequest =
  kq_Topic :: string
  kq_Key :: "bytes option"
  kq_Records :: "Record list"

record ProduceByKeyResponse =
  kp_Partition :: int
  kp_BaseOffset :: int
  kp_Error :: ErrorCode

record FetchRequest =
  fq_Topic :: string
  fq_Partition :: int
  fq_Offset :: int
  fq_MaxBytes :: int

record FetchResponse =
  fp_Records :: "Record list"
  fp_HighWatermark :: int
  fp_Error :: ErrorCode

record ListOffsetsRequest =
  lq_Topic :: string
  lq_Partition :: int

record ListOffsetsResponse =
  lp_Earliest :: int
  lp_Latest :: int
  lp_Error :: ErrorCode

record MetadataRequest =
  mq_Topics :: "string list"

record MetadataResponse =
  mp_Partitions :: "PartitionMetadata list"
  mp_Error :: ErrorCode

record CommitOffsetRequest =
  coq_Group :: string
  coq_Topic :: string
  coq_Partition :: int
  coq_Offset :: int

record CommitOffsetResponse =
  cop_Error :: ErrorCode

record FetchCommittedRequest =
  fcq_Group :: string
  fcq_Topic :: string
  fcq_Partition :: int

record FetchCommittedResponse =
  fcp_Offset :: int
  fcp_Error :: ErrorCode

datatype PingRequest = PingRequest

record PingResponse =
  pgp_Error :: ErrorCode

definition encodeCreateTopicRequest :: "CreateTopicRequest \<Rightarrow> bytes result" where
  "encodeCreateTopicRequest req = writeAll
     [putString (ctq_Topic req), put32 (ctq_Partitions req) ''partitions'',
      put32 (ctq_ReplicationFactor req) ''replication factor'']"

definition decodeCreateTopicRequest :: "bytes \<Rightarrow> CreateTopicRequest result" where
  "decodeCreateTopicRequest payload =
     bindE (readString payload) (\<lambda>(topic, buf).
     bindE (readI32 buf) (\<lambda>(partitions, buf).
     bindE (readI32 buf) (\<lambda>(rf, buf).
     Inr \<lparr>ctq_Topic = topic, ctq_Partitions = partitions, ctq_ReplicationFactor = rf\<rparr>)))"

definition encodeCreateTopicResponse :: "CreateTopicResponse \<Rightarrow> bytes result" where
  "encodeCreateTopicResponse resp = writeAll [Inr (be16 (ctp_Error resp))]"

definition decodeCreateTopicResponse :: "bytes \<Rightarrow> CreateTopicResponse result" where
  "decodeCreateTopicResponse payload =
     bindE (readI16 payload) (\<lambda>(ec, buf). Inr \<lparr>ctp_Error = ec\<rparr>)"

definition encodeProduceRequest :: "(nat \<Rightarrow> int) \<Rightarrow> ProduceRequest \<Rightarrow> bytes result" where
  "encodeProduceRequest clock req = writeAll
     [putString (pq_Topic req), put32 (pq_Partition req) ''partition'',
      putRecords (stampRecords clock (pq_Records req))]"

definition decodeProduceRequest :: "bytes \<Rightarrow> ProduceRequest result" where
  "decodeProduceRequest payload =
     bindE (readString payload) (\<lambda>(topic, buf).
     bindE (readI32 buf) (\<lambda>(partition, buf).
     bindE (readRecords buf) (\<lambda>(recs, buf).
     Inr \<lparr>pq_Topic = topic, pq_Partition = partition, pq_Records = recs\<rparr>)))"

definition encodeProduceResponse :: "ProduceResponse \<Rightarrow> bytes result" where
  "encodeProduceResponse resp = writeAll [Inr (be64 (pp_BaseOffset resp)), Inr (be16 (pp_Error resp))]"

definition decodeProduceResponse :: "bytes \<Rightarrow> ProduceResponse result" where
  "decodeProduceResponse payload =
     bindE (readI64 payload) (\<lambda>(base, buf).
     bindE (readI16 buf) (\<lambda>(ec, buf).
     Inr \<lparr>pp_BaseOffset = base, pp_Error = ec\<rparr>))"

definition encodeProduceByKeyRequest :: "(nat \<Rightarrow> int) \<Rightarrow> ProduceByKeyRequest \<Rightarrow> bytes result" where
  "encodeProduceByKeyRequest clock req = writeAll
     [putString (kq_Topic req), putBytes (kq_Key req),
      putRecords (stampRecords clock (kq_Records req))]"

definition decodeProduceByKeyRequest :: "bytes \<Rightarrow> ProduceByKeyRequest result" where
  "decodeProduceByKeyRequest payload =
     bindE (readString payload) (\<lambda>(topic, buf).
     bindE (readBytes buf) (\<lambda>(key, buf).
     bindE (readRecords buf) (\<lambda>(recs, buf).
     Inr \<lparr>kq_Topic = topic, kq_Key = key, kq_Records = recs\<rparr>)))"

definition encodeProduceByKeyResponse :: "ProduceByKeyResponse \<Rightarrow> bytes result" where
  "encodeProduceByKeyResponse resp =
     (if kp_Partition resp < -1 \<or> kp_Partition resp > maxInt32
      then Inl (Errorf ''partition out of int32 range: %d'')
      else writeAll [Inr (be32 (kp_Partition resp)), Inr (be64 (kp_BaseOffset resp)),
             Inr (be16 (kp_Error resp))])"

definition decodeProduceByKeyResponse :: "bytes \<Rightarrow> ProduceByKeyResponse result" where
  "decodeProduceByKeyResponse payload =
     bindE (readI32 payload) (\<lambda>(partition, buf).
     bindE (readI64 buf) (\<lambda>(base, buf).
     bindE (readI16 buf) (\<lambda>(ec, buf).
     Inr \<lparr>kp_Partition = partition, kp_BaseOffset = base, kp_Error = ec\<rparr>)))"

definition encodeFetchRequest :: "FetchRequest \<Rightarrow> bytes result" where
  "encodeFetchRequest req = writeAll
     [putString (fq_Topic req), put32 (fq_Partition req) ''partition'',
      Inr (be64 (fq_Offset req)), Inr (be32 (fq_MaxBytes req))]"

definition decodeFetchRequest :: "bytes \<Rightarrow> FetchRequest result" where
  "decodeFetchRequest payload =
     bindE (readString payload) (\<lambda>(topic, buf).
     bindE (readI32 buf) (\<lambda>(partition, buf).
     bindE (readI64 buf) (\<lambda>(offset, buf).
     bindE (readI32 buf) (\<lambda>(maxBytes, buf).
     Inr \<lparr>fq_Topic = topic, fq_Partition = partition, fq_Offset = offset, fq_MaxBytes = maxBytes\<rparr>))))"

definition encodeFetchResponse :: "FetchResponse \<Rightarrow> bytes result" where
  "encodeFetchResponse resp = writeAll
     [Inr (be16 (fp_Error resp)), putRecords (fp_Records resp), Inr (be64 (fp_HighWatermark resp))]"

definition decodeFetchResponse :: "bytes \<Rightarrow> FetchResponse result" where
  "decodeFetchResponse payload =
     bindE (readI16 payload) (\<lambda>(ec, buf).
     bindE (readRecords buf) (\<lambda>(recs, buf).
     bindE (readI64 buf) (\<lambda>(hwm, buf).
     Inr \<lparr>fp_Records = recs, fp_HighWatermark = hwm, fp_Error = ec\<rparr>)))"

definition encodeMetadataRequest :: "MetadataRequest \<Rightarrow> bytes result" where
  "encodeMetadataRequest req =
     writeAll (put32 (int (length (mq_Topics req))) ''topic count'' # map putString (mq_Topics req))"

definition decodeMetadataRequest :: "bytes \<Rightarrow> MetadataRequest result" where
  "decodeMetadataRequest payload =
     bindE (readI32 payload) (\<lambda>(n, buf).
     bindE (checkCount n ''topic count'') (\<lambda>n.
     bindE (readItems readString n buf) (\<lambda>(topics, buf).
     Inr \<lparr>mq_Topics = topics\<rparr>)))"

text \<open>The replica and ISR lists of one partition, and one iteration of the partition loop.\<close>

definition putIDs :: "string \<Rightarrow> string \<Rightarrow> int list \<Rightarrow> bytes result" where
  "putIDs count_field id_field ids =
     writeAll (put32 (int (length ids)) count_field # map (\<lambda>r. put32 r id_field) ids)"

definition readIDs :: "string \<Rightarrow> bytes \<Rightarrow> (int list \<times> bytes) result" where
  "readIDs count_field buf = bindE (readI32 buf) (\<lambda>(n, buf).
     bindE (checkCount n count_field) (\<lambda>n. readItems readI32 n buf))"

definition putPartition :: "PartitionMetadata \<Rightarrow> bytes result" where
  "putPartition p = (let rep = pm_Replica p in writeAll
     [putString (pr_Topic rep), put32 (pr_Partition rep) ''replica partition'',
      put32 (pr_BrokerID rep) ''replica broker id'',
      bindE (partitionRoleToInt16 (pr_Role rep)) (\<lambda>role. Inr (be16 role)),
      Inr (be32 (pr_LeaderEpoch rep)), Inr (be64 (pm_StartOffset p)),
      Inr (be64 (pm_HighWatermark p)), put32 (pm_Leader p) ''leader'',
      putIDs ''replicas count'' ''replica id'' (pm_Replicas p),
      putIDs ''isr count'' ''isr id'' (pm_ISR p)])"

definition readPartition :: "bytes \<Rightarrow> (PartitionMetadata \<times> bytes) result" where
  "readPartition buf =
     bindE (readString buf) (\<lambda>(topic, buf).
     bindE (readI32 buf) (\<lambda>(partition, buf).
     bindE (readI32 buf) (\<lambda>(brokerID, buf).
     bindE (readI16 buf) (\<lambda>(role, buf).
     bindE (readI32 buf) (\<lambda>(epoch, buf).
     bindE (readI64 buf) (\<lambda>(start, buf).
     bindE (readI64 buf) (\<lambda>(hwm, buf).
     bindE (readI32 buf) (\<lambda>(leader, buf).
     bindE (readIDs ''replicas count'' buf) (\<lambda>(replicas, buf).
     bindE (readIDs ''isr count'' buf) (\<lambda>(isr, buf).
     Inr (\<lparr>pm_Replica = \<lparr>pr_Topic = topic, pr_Partition = partition, pr_BrokerID = brokerID,
             pr_Role = role, pr_LeaderEpoch = epoch\<rparr>,
           pm_StartOffset = start, pm_HighWatermark = hwm, pm_Leader = leader,
           pm_Replicas = replicas, pm_ISR = isr\<rparr>, buf)))))))))))"

definition encodeMetadataResponse :: "MetadataResponse \<Rightarrow> bytes result" where
  "encodeMetadataResponse resp = writeAll
     (Inr (be16 (mp_Error resp)) # put32 (int (length (mp_Partitions resp))) ''partition count''
      # map putPartition (mp_Partitions resp))"

definition decodeMetadataResponse :: "bytes \<Rightarrow> MetadataResponse result" where
  "decodeMetadataResponse payload =
     bindE (readI16 payload) (\<lambda>(ec, buf).
     bindE (readI32 buf) (\<lambda>(n, buf).
     bindE (checkCount n ''partition count'') (\<lambda>n.
     bindE (readItems readPartition n buf) (\<lambda>(parts, buf).
     Inr \<lparr>mp_Partitions = parts, mp_Error = ec\<rparr>))))"

definition encodePingRequest :: "PingRequest \<Rightarrow> bytes result" where
  "encodePingRequest req = Inr []"

definition decodePingRequest :: "bytes \<Rightarrow> PingRequest result" where
  "decodePingRequest payload = Inr PingRequest"

definition encodePingResponse :: "PingResponse \<Rightarrow> bytes result" where
  "encodePingResponse resp = writeAll [Inr (be16 (pgp_Error resp))]"

definition decodePingResponse :: "bytes \<Rightarrow> PingResponse result" where
  "decodePingResponse payload = bindE (readI16 payload) (\<lambda>(ec, buf). Inr \<lparr>pgp_Error = ec\<rparr>)"

definition encodeCommitOffsetRequest :: "CommitOffsetRequest \<Rightarrow> bytes result" where
  "encodeCommitOffsetRequest req = writeAll
     [putString (coq_Group req), putString (coq_Topic req), put32 (coq_Partition req) ''partition'',
      Inr (be64 (coq_Offset req))]"

definition decodeCommitOffsetRequest :: "bytes \<Rightarrow> CommitOffsetRequest result" where
  "decodeCommitOffsetRequest payload =
     bindE (readString payload) (\<lambda>(group, buf).
     bindE (readString buf) (\<lambda>(topic, buf).
     bindE (readI32 buf) (\<lambda>(partition, buf).
     bindE (readI64 buf) (\<lambda>(offset, buf).
     Inr \<lparr>coq_Group = group, coq_Topic = topic, coq_Partition = partition, coq_Offset = offset\<rparr>))))"

definition encodeCommitOffsetResponse :: "CommitOffsetResponse \<Rightarrow> bytes result" where
  "encodeCommitOffsetResponse resp = writeAll [Inr (be16 (cop_Error resp))]"

definition decodeCommitOffsetResponse :: "bytes \<Rightarrow> CommitOffsetResponse result" where
  "decodeCommitOffsetResponse payload =
     bindE (readI16 payload) (\<lambda>(ec, buf). Inr \<lparr>cop_Error = ec\<rparr>)"

definition encodeFetchCommittedRequest :: "FetchCommittedRequest \<Rightarrow> bytes result" where
  "encodeFetchCommittedRequest req = writeAll
     [putString (fcq_Group req), putString (fcq_Topic req), put32 (fcq_Partition req) ''partition'']"

definition decodeFetchCommittedRequest :: "bytes \<Rightarrow> FetchCommittedRequest result" where
  "decodeFetchCommittedRequest payload =
     bindE (readString payload) (\<lambda>(group, buf).
     bindE (readString buf) (\<lambda>(topic, buf).
     bindE (readI32 buf) (\<lambda>(partition, buf).
     Inr \<lparr>fcq_Group = group, fcq_Topic = topic, fcq_Partition = partition\<rparr>)))"

definition encodeFetchCommittedResponse :: "FetchCommittedResponse \<Rightarrow> bytes result" where
  "encodeFetchCommittedResponse resp =
     writeAll [Inr (be64 (fcp_Offset resp)), Inr (be16 (fcp_Error resp))]"

definition decodeFetchCommittedResponse :: "bytes \<Rightarrow> FetchCommittedResponse result" where
  "decodeFetchCommittedResponse payload =
     bindE (readI64 payload) (\<lambda>(offset, buf).
     bindE (readI16 buf) (\<lambda>(ec, buf).
     Inr \<lparr>fcp_Offset = offset, fcp_Error = ec\<rparr>))"

definition encodeListOffsetsRequest :: "ListOffsetsRequest \<Rightarrow> bytes result" where
  "encodeListOffsetsRequest req =
     writeAll [putString (lq_Topic req), put32 (lq_Partition req) ''partition'']"

definition decodeListOffsetsRequest :: "bytes \<Rightarrow> ListOffsetsRequest result" where
  "decodeListOffsetsRequest payload =
     bindE (readString payload) (\<lambda>(topic, buf).
     bindE (readI32 buf) (\<lambda>(partition, buf).
     Inr \<lparr>lq_Topic = topic, lq_Partition = partition\<rparr>))"

definition encodeListOffsetsResponse :: "ListOffsetsResponse \<Rightarrow> bytes result" where
  "encodeListOffsetsResponse resp =
     writeAll [Inr (be16 (lp_Error resp)), Inr (be64 (lp_Earliest resp)), Inr (be64 (lp_Latest resp))]"

definition decodeListOffsetsResponse :: "bytes \<Rightarrow> ListOffsetsResponse result" where
  "decodeListOffsetsResponse payload =
     bindE (readI16 payload) (\<lambda>(ec, buf).
     bindE (readI64 buf) (\<lambda>(earliest, buf).
     bindE (readI64 buf) (\<lambda>(latest, buf).
     Inr \<lparr>lp_Earliest = earliest, lp_Latest = latest, lp_Error = ec\<rparr>)))"

section \<open>Fields satisfy the codec contract\<close>

lemma toInt16Checked_Inr [simp]: "toInt16Checked n f = Inr v \<longleftrightarrow> v = n \<and> 0 \<le> n \<and> n \<le> maxInt16"
  by (auto simp: toInt16Checked_def)

lemma toInt32Checked_Inr [simp]: "toInt32Checked n f = Inr v \<longleftrightarrow> v = n \<and> 0 \<le> n \<and> n \<le> maxInt32"
  by (auto simp: toInt32Checked_def)

lemma put32_Inr: "put32 n f = Inr bs \<longleftrightarrow> bs = be32 n \<and> 0 \<le> n \<and> n \<le> maxInt32"
  by (auto simp: put32_def bindE_Inr_iff)

lemma put32_ok [simp]: "0 \<le> n \<Longrightarrow> n \<le> maxInt32 \<Longrightarrow> put32 n f = Inr (be32 n)"
  by (simp add: put32_Inr)

lemma count_inS [simp]: "0 \<le> n \<Longrightarrow> n \<le> maxInt32 \<Longrightarrow> inS 32 n"
  by (simp add: inS_def net_limits)

lemma checkCount_ok [simp]: "0 \<le> n \<Longrightarrow> n \<le> maxItemCount \<Longrightarrow> checkCount n w = Inr (nat n)"
  by (simp add: checkCount_def)

lemma maxItem_le_maxInt32: "n \<le> maxItemCount \<Longrightarrow> n \<le> maxInt32"
  by (simp add: net_limits)

text \<open>A length-prefixed list of items that satisfy the contract satisfies it again.\<close>

lemma counted_codec:
  assumes "codec enc dec ok"
  shows "codec (\<lambda>xs. writeAll (put32 (int (length xs)) f # map enc xs))
    (\<lambda>b. bindE (readI32 b) (\<lambda>(n, b). bindE (checkCount n w) (\<lambda>n. readItems dec n b)))
    (\<lambda>xs. int (length xs) \<le> maxItemCount \<and> list_all ok xs)"
proof
  fix xs :: "'a list" and bs rest
  assume ok: "int (length xs) \<le> maxItemCount \<and> list_all ok xs"
  then have le: "int (length xs) \<le> maxInt32" by (simp add: maxItem_le_maxInt32)
  have "list_all ok xs" using ok by simp
  then obtain cs where cs: "writeAll (map enc xs) = Inr cs"
    using codec.items_total [OF assms] by blast
  have w: "writeAll (put32 (int (length xs)) f # map enc xs) = Inr (be32 (int (length xs)) @ cs)"
    using le cs by simp
  then show "\<exists>bs. writeAll (put32 (int (length xs)) f # map enc xs) = Inr bs" by blast
  assume "writeAll (put32 (int (length xs)) f # map enc xs) = Inr bs"
  then have bs: "bs = be32 (int (length xs)) @ cs" using w by simp
  have "readItems dec (length xs) (cs @ rest) = Inr (xs, rest)"
    using ok cs by (intro codec.items_dec_enc [OF assms]) simp_all
  then show "bindE (readI32 (bs @ rest)) (\<lambda>(n, b). bindE (checkCount n w) (\<lambda>n. readItems dec n b))
      = Inr (xs, rest)"
    using ok le by (simp add: bs)
qed

definition okString :: "string \<Rightarrow> bool" where
  "okString s \<longleftrightarrow> int (length s) \<le> maxInt16"

definition okBytes :: "bytes option \<Rightarrow> bool" where
  "okBytes b \<longleftrightarrow> int (blen b) \<le> maxInt32"

definition okHeader :: "Header \<Rightarrow> bool" where
  "okHeader h \<longleftrightarrow> okString (h_Key h) \<and> okBytes (h_Value h)"

definition okHeaders :: "Header list \<Rightarrow> bool" where
  "okHeaders hs \<longleftrightarrow> int (length hs) \<le> maxItemCount \<and> list_all okHeader hs"

lemma putString_ok [simp]:
  "okString s \<Longrightarrow> putString s = Inr (be16 (int (length s)) @ string_bytes s)"
  by (simp add: putString_def okString_def toInt16Checked_def)

lemma readString_put [simp]:
  "okString s \<Longrightarrow> readString (be16 (int (length s)) @ string_bytes s @ r) = Inr (s, r)"
  by (simp add: readString_def okString_def inS_def net_limits)

interpretation str: codec putString readString okString
  by unfold_locales auto

lemma putBytes_ok:
  "okBytes b \<Longrightarrow> \<exists>bs. putBytes b = Inr bs"
  by (auto simp: putBytes_def okBytes_def toInt32Checked_def split: option.split)

lemma readBytes_put [simp]:
  assumes "okBytes b" "putBytes b = Inr bs"
  shows "readBytes (bs @ r) = Inr (b, r)"
proof (cases b)
  case None
  have "inS 32 (-1)" by (simp add: inS_def)
  then show ?thesis using assms(2) None by (auto simp: readBytes_def putBytes_def)
next
  case (Some x)
  then have len: "int (length x) \<le> maxInt32" using assms(1) by (simp add: okBytes_def)
  then have "bs = be32 (int (length x)) @ x"
    using assms(2) Some by (auto simp: putBytes_def bindE_Inr_iff)
  then show ?thesis using len Some by (simp add: readBytes_def)
qed

interpretation byt: codec putBytes readBytes okBytes
  by unfold_locales (auto intro: putBytes_ok)

lemma putHeader_total: "okHeader h \<Longrightarrow> \<exists>bs. putHeader h = Inr bs"
proof -
  assume ok: "okHeader h"
  then obtain v where "putBytes (h_Value h) = Inr v"
    using putBytes_ok [of "h_Value h"] by (auto simp: okHeader_def)
  then show ?thesis using ok by (simp add: putHeader_def okHeader_def)
qed

interpretation hdr: codec putHeader readHeader okHeader
proof
  show "\<exists>bs. putHeader x = Inr bs" if "okHeader x" for x
    using that by (rule putHeader_total)
  show "readHeader (bs @ rest) = Inr (x, rest)" if "okHeader x" "putHeader x = Inr bs" for x bs rest
    using that by (auto simp: putHeader_def readHeader_def okHeader_def bindE_Inr_iff)
qed

interpretation hdrs: codec putHeaders readHeaders okHeaders
  unfolding putHeaders_def readHeaders_def okHeaders_def
  by (rule counted_codec) (rule hdr.codec_axioms)

text \<open>The size of an encoded record, which bounds every length field inside it.\<close>

definition headerSize :: "Header \<Rightarrow> nat" where
  "headerSize h = 2 + length (h_Key h) + 4 + blen (h_Value h)"

definition recordSize :: "Record \<Rightarrow> nat" where
  "recordSize r = 16 + 4 + blen (r_Key r) + 4 + blen (r_Value r) + 4
     + sum_list (map headerSize (r_Headers r))"

definition okRecord :: "Record \<Rightarrow> bool" where
  "okRecord r \<longleftrightarrow> inS 64 (r_Offset r)
     \<and> (case r_Timestamp r of None \<Rightarrow> False | Some t \<Rightarrow> inS 64 t)
     \<and> int (length (r_Headers r)) \<le> maxItemCount
     \<and> list_all (\<lambda>h. okString (h_Key h)) (r_Headers r)
     \<and> int (recordSize r) \<le> maxInt32 \<and> r_CRC32C r = 0"

lemma putBytes_length: "putBytes b = Inr bs \<Longrightarrow> length bs = 4 + blen b"
  by (auto simp: putBytes_def bindE_Inr_iff split: option.splits)

lemma putHeader_length: "putHeader h = Inr bs \<Longrightarrow> length bs = headerSize h"
  by (auto simp: putHeader_def putString_def headerSize_def bindE_Inr_iff dest: putBytes_length)

lemma putHeader_list_length:
  "writeAll (map putHeader hs) = Inr bs \<Longrightarrow> length bs = sum_list (map headerSize hs)"
  by (induction hs arbitrary: bs) (auto simp: bindE_Inr_iff dest: putHeader_length)

lemma encodeRecord_length: "encodeRecord_net r = Inr bs \<Longrightarrow> length bs = recordSize r"
  by (auto simp: encodeRecord_net_def recordSize_def putHeaders_def bindE_Inr_iff put32_Inr
      dest!: putBytes_length putHeader_list_length)

lemma headerSize_le: "h \<in> set hs \<Longrightarrow> headerSize h \<le> sum_list (map headerSize hs)"
  by (simp add: member_le_sum_list)

lemma okRecord_parts:
  assumes "okRecord r"
  shows "okBytes (r_Key r)" "okBytes (r_Value r)" "okHeaders (r_Headers r)"
proof -
  have sz: "int (recordSize r) \<le> maxInt32" using assms by (simp add: okRecord_def)
  then show "okBytes (r_Key r)" "okBytes (r_Value r)"
    by (simp_all add: okBytes_def recordSize_def)
  have "okBytes (h_Value h)" if "h \<in> set (r_Headers r)" for h
    using sz headerSize_le [OF that] by (simp add: okBytes_def recordSize_def headerSize_def)
  then show "okHeaders (r_Headers r)"
    using assms by (auto simp: okHeaders_def okHeader_def okRecord_def list_all_iff)
qed

interpretation recd: codec encodeRecord_net decodeRecord_net okRecord
proof
  fix r :: Record and bs rest
  assume ok: "okRecord r"
  note parts = okRecord_parts [OF ok]
  obtain k v h where enc: "putBytes (r_Key r) = Inr k" "putBytes (r_Value r) = Inr v"
      "putHeaders (r_Headers r) = Inr h"
    using putBytes_ok [OF parts(1)] putBytes_ok [OF parts(2)] hdrs.enc_total [OF parts(3)] by blast
  obtain ts where ts: "r_Timestamp r = Some ts" "inS 64 ts"
    using ok by (auto simp: okRecord_def split: option.splits)
  have w: "encodeRecord_net r = Inr (be64 (r_Offset r) @ be64 ts @ k @ v @ h)"
    by (simp add: encodeRecord_net_def enc ts)
  then show "\<exists>bs. encodeRecord_net r = Inr bs" by blast
  assume "encodeRecord_net r = Inr bs"
  then have bs: "bs = be64 (r_Offset r) @ be64 ts @ k @ v @ h" using w by simp
  show "decodeRecord_net (bs @ rest) = Inr (r, rest)"
    using ok ts
    by (simp add: bs decodeRecord_net_def okRecord_def readBytes_put [OF parts(1) enc(1)]
        readBytes_put [OF parts(2) enc(2)] hdrs.dec_enc [OF parts(3) enc(3)])
qed

interpretation lrec: codec putRecord readRecord okRecord
proof
  fix r :: Record and bs rest
  assume ok: "okRecord r"
  obtain b where b: "encodeRecord_net r = Inr b" using recd.enc_total [OF ok] by blast
  have len: "int (length b) \<le> maxInt32"
    using ok encodeRecord_length [OF b] by (simp add: okRecord_def)
  have w: "putRecord r = Inr (be32 (int (length b)) @ b)"
    using len by (simp add: putRecord_def b)
  then show "\<exists>bs. putRecord r = Inr bs" by blast
  assume "putRecord r = Inr bs"
  then have bs: "bs = be32 (int (length b)) @ b" using w by simp
  show "readRecord (bs @ rest) = Inr (r, rest)"
    using len recd.dec_enc_exact [OF ok b] by (simp add: bs readRecord_def)
qed

definition okRecords :: "Record list \<Rightarrow> bool" where
  "okRecords rs \<longleftrightarrow> int (length rs) \<le> maxItemCount \<and> list_all okRecord rs"

text \<open>The checksum of a record is not part of its bytes on the wire.\<close>

definition wireRecord :: "Record \<Rightarrow> Record" where
  "wireRecord r = r\<lparr>r_CRC32C := 0\<rparr>"

lemma putRecords_wire [simp]: "putRecords (map wireRecord rs) = putRecords rs"
proof -
  have "putRecord (wireRecord r) = putRecord r" for r by (simp add: putRecord_def encodeRecord_net_def wireRecord_def)
  then show ?thesis by (simp add: putRecords_def comp_def)
qed

interpretation recs: codec putRecords readRecords okRecords
  unfolding putRecords_def readRecords_def okRecords_def
  by (rule counted_codec) (rule lrec.codec_axioms)

definition okID :: "int \<Rightarrow> bool" where
  "okID n \<longleftrightarrow> 0 \<le> n \<and> n \<le> maxInt32"

definition okIDs :: "int list \<Rightarrow> bool" where
  "okIDs ids \<longleftrightarrow> int (length ids) \<le> maxItemCount \<and> list_all okID ids"

lemma id_codec: "codec (\<lambda>r. put32 r f) readI32 okID"
  by unfold_locales (auto simp: okID_def put32_Inr)

lemma ids_codec: "codec (putIDs cf idf) (readIDs cw) okIDs"
  unfolding putIDs_def readIDs_def okIDs_def
  by (rule counted_codec) (rule id_codec)

interpretation replicas: codec "putIDs ''replicas count'' ''replica id''" "readIDs ''replicas count''" okIDs
  by (rule ids_codec)

interpretation isrs: codec "putIDs ''isr count'' ''isr id''" "readIDs ''isr count''" okIDs
  by (rule ids_codec)

definition okPartition :: "PartitionMetadata \<Rightarrow> bool" where
  "okPartition p \<longleftrightarrow> okString (pr_Topic (pm_Replica p)) \<and> okID (pr_Partition (pm_Replica p))
     \<and> okID (pr_BrokerID (pm_Replica p))
     \<and> 0 \<le> pr_Role (pm_Replica p) \<and> pr_Role (pm_Replica p) \<le> maxInt16
     \<and> inS 32 (pr_LeaderEpoch (pm_Replica p)) \<and> inS 64 (pm_StartOffset p)
     \<and> inS 64 (pm_HighWatermark p) \<and> okID (pm_Leader p) \<and> okIDs (pm_Replicas p) \<and> okIDs (pm_ISR p)"

interpretation part: codec putPartition readPartition okPartition
proof
  fix p :: PartitionMetadata and bs rest
  assume ok: "okPartition p"
  then have oks: "okIDs (pm_Replicas p)" "okIDs (pm_ISR p)" by (simp_all add: okPartition_def)
  obtain a b where enc: "putIDs ''replicas count'' ''replica id'' (pm_Replicas p) = Inr a"
      "putIDs ''isr count'' ''isr id'' (pm_ISR p) = Inr b"
    using replicas.enc_total [OF oks(1)] isrs.enc_total [OF oks(2)] by blast
  have w: "putPartition p = Inr (be16 (int (length (pr_Topic (pm_Replica p))))
      @ string_bytes (pr_Topic (pm_Replica p)) @ be32 (pr_Partition (pm_Replica p))
      @ be32 (pr_BrokerID (pm_Replica p)) @ be16 (pr_Role (pm_Replica p))
      @ be32 (pr_LeaderEpoch (pm_Replica p)) @ be64 (pm_StartOffset p) @ be64 (pm_HighWatermark p)
      @ be32 (pm_Leader p) @ a @ b)"
    using ok by (simp add: putPartition_def okPartition_def okID_def enc partitionRoleToInt16_def Let_def)
  then show "\<exists>bs. putPartition p = Inr bs" by blast
  have role: "inS 16 (pr_Role (pm_Replica p))"
    using ok by (simp add: okPartition_def inS_def net_limits)
  assume "putPartition p = Inr bs"
  then have bs: "bs = be16 (int (length (pr_Topic (pm_Replica p))))
      @ string_bytes (pr_Topic (pm_Replica p)) @ be32 (pr_Partition (pm_Replica p))
      @ be32 (pr_BrokerID (pm_Replica p)) @ be16 (pr_Role (pm_Replica p))
      @ be32 (pr_LeaderEpoch (pm_Replica p)) @ be64 (pm_StartOffset p) @ be64 (pm_HighWatermark p)
      @ be32 (pm_Leader p) @ a @ b" using w by simp
  show "readPartition (bs @ rest) = Inr (p, rest)"
    using ok role
    by (simp add: bs readPartition_def okPartition_def okID_def
        replicas.dec_enc [OF oks(1) enc(1)] isrs.dec_enc [OF oks(2) enc(2)])
qed
section \<open>Frames\<close>

definition okFrame :: "APIKey \<times> int \<times> bytes \<Rightarrow> bool" where
  "okFrame f \<longleftrightarrow> (case f of (key, corr, payload) \<Rightarrow>
     0 \<le> key \<and> key \<le> maxInt16 \<and> okID corr
     \<and> int (length payload) \<le> maxFrameLength - (frameHeaderSize - 4))"

lemma encodeFrame_bytes:
  assumes "int (length payload) + 10 \<le> maxUint32"
  shows "encodeFrame key corr payload =
    Inr (be32 (int (length payload) + 10) @ be16 key @ be16 0 @ be32 corr @ be16 0 @ payload)"
  using assms by (simp add: encodeFrame_def toUint32Checked_def Let_def currentVersion_def add.commute)

lemma decodeFrame_put:
  assumes "okFrame (key, corr, payload)"
  shows "decodeFrame (be32 (int (length payload) + 10) @ be16 key @ be16 0 @ be32 corr @ be16 0
    @ payload @ r) = Inr ((key, corr, payload), r)"
proof -
  let ?h = "be32 (int (length payload) + 10) @ be16 key @ be16 0 @ be32 corr @ be16 0"
  have h: "readFull 14 (?h @ payload @ r) = Inr (?h, payload @ r)"
    by (rule readFull_append) simp
  have f: "0 \<le> key" "key \<le> 32767" "0 \<le> corr" "corr \<le> 2147483647" "length payload \<le> 16777206"
    using assms by (simp_all add: okFrame_def okID_def net_limits)
  then have u: "inU 32 (int (length payload) + 10)" "inU 16 key" "inU 16 0" "inU 32 corr"
    by (simp_all add: inU_def)
  show ?thesis
    using h f u by (simp add: decodeFrame_def uint16ToInt16_def uint32ToInt32_def net_limits Let_def)
qed

interpretation frm: codec "\<lambda>(key, corr, payload). encodeFrame key corr payload" decodeFrame okFrame
proof
  fix f :: "APIKey \<times> int \<times> bytes" and bs rest
  obtain key corr payload where f: "f = (key, corr, payload)" by (cases f)
  assume ok: "okFrame f"
  then have "int (length payload) + 10 \<le> maxUint32" by (simp add: f okFrame_def net_limits)
  note e = encodeFrame_bytes [OF this, of key corr]
  show "\<exists>bs. (case f of (key, corr, payload) \<Rightarrow> encodeFrame key corr payload) = Inr bs"
    by (simp add: f e)
  assume "(case f of (key, corr, payload) \<Rightarrow> encodeFrame key corr payload) = Inr bs"
  then show "decodeFrame (bs @ rest) = Inr (f, rest)"
    using ok decodeFrame_put [of key corr payload rest] e f by auto
qed

section \<open>Messages\<close>

text \<open>
  The contract of a message: its payload is decoded as a whole, so the decoder gets exactly
  the bytes written.  What the framed message does on a connection is proved once.
\<close>

locale message =
  fixes enc :: "'a \<Rightarrow> bytes result"
    and dec :: "bytes \<Rightarrow> 'a result"
    and ok :: "'a \<Rightarrow> bool"
  assumes enc_total: "ok x \<Longrightarrow> \<exists>bs. enc x = Inr bs"
    and dec_enc: "ok x \<Longrightarrow> enc x = Inr bs \<Longrightarrow> dec bs = Inr x"
begin

lemma framed:
  assumes "ok x" "enc x = Inr payload" "okFrame (key, corr, payload)"
    and "encodeFrame key corr payload = Inr bs"
  shows "bindE (decodeFrame (bs @ rest)) (\<lambda>((k, c, p), r). bindE (dec p) (\<lambda>y. Inr (k, c, y, r)))
    = Inr (key, corr, x, rest)"
  using frm.dec_enc [of "(key, corr, payload)" bs rest] assms dec_enc [OF assms(1,2)] by simp

end

text \<open>A field codec followed by nothing is a message.\<close>

lemma codec_message:
  assumes "codec enc dec ok" and "\<And>b. decm b = bindE (dec b) (\<lambda>(x, r). Inr (f x))"
    and "\<And>m. encm m = enc (g m)" and "\<And>m. f (g m) = m" and "\<And>m. okm m \<Longrightarrow> ok (g m)"
  shows "message encm decm okm"
proof
  fix m bs
  assume "okm m"
  then have ok: "ok (g m)" by (rule assms(5))
  show "\<exists>bs. encm m = Inr bs" using codec.enc_total [OF assms(1) ok] by (simp add: assms(3))
  assume "encm m = Inr bs"
  then have "dec bs = Inr (g m, [])"
    using codec.dec_enc_exact [OF assms(1) ok] by (simp add: assms(3))
  then show "decm bs = Inr m" by (simp add: assms(2,4))
qed

definition okCode :: "ErrorCode \<Rightarrow> bool" where
  "okCode c \<longleftrightarrow> inS 16 c"

definition okCreateTopicRequest :: "CreateTopicRequest \<Rightarrow> bool" where
  "okCreateTopicRequest q \<longleftrightarrow> okString (ctq_Topic q) \<and> okID (ctq_Partitions q)
     \<and> okID (ctq_ReplicationFactor q)"

definition okProduceRequest :: "ProduceRequest \<Rightarrow> bool" where
  "okProduceRequest q \<longleftrightarrow> okString (pq_Topic q) \<and> okID (pq_Partition q) \<and> okRecords (pq_Records q)"

definition okProduceByKeyRequest :: "ProduceByKeyRequest \<Rightarrow> bool" where
  "okProduceByKeyRequest q \<longleftrightarrow> okString (kq_Topic q) \<and> okBytes (kq_Key q) \<and> okRecords (kq_Records q)"

definition okFetchRequest :: "FetchRequest \<Rightarrow> bool" where
  "okFetchRequest q \<longleftrightarrow> okString (fq_Topic q) \<and> okID (fq_Partition q) \<and> inS 64 (fq_Offset q)
     \<and> inS 32 (fq_MaxBytes q)"

definition okListOffsetsRequest :: "ListOffsetsRequest \<Rightarrow> bool" where
  "okListOffsetsRequest q \<longleftrightarrow> okString (lq_Topic q) \<and> okID (lq_Partition q)"

definition okMetadataRequest :: "MetadataRequest \<Rightarrow> bool" where
  "okMetadataRequest q \<longleftrightarrow> int (length (mq_Topics q)) \<le> maxItemCount \<and> list_all okString (mq_Topics q)"

definition okCommitOffsetRequest :: "CommitOffsetRequest \<Rightarrow> bool" where
  "okCommitOffsetRequest q \<longleftrightarrow> okString (coq_Group q) \<and> okString (coq_Topic q)
     \<and> okID (coq_Partition q) \<and> inS 64 (coq_Offset q)"

definition okFetchCommittedRequest :: "FetchCommittedRequest \<Rightarrow> bool" where
  "okFetchCommittedRequest q \<longleftrightarrow> okString (fcq_Group q) \<and> okString (fcq_Topic q)
     \<and> okID (fcq_Partition q)"

definition okProduceResponse :: "ProduceResponse \<Rightarrow> bool" where
  "okProduceResponse p \<longleftrightarrow> inS 64 (pp_BaseOffset p) \<and> okCode (pp_Error p)"

definition okProduceByKeyResponse :: "ProduceByKeyResponse \<Rightarrow> bool" where
  "okProduceByKeyResponse p \<longleftrightarrow> -1 \<le> kp_Partition p \<and> kp_Partition p \<le> maxInt32
     \<and> inS 64 (kp_BaseOffset p) \<and> okCode (kp_Error p)"

definition okFetchResponse :: "FetchResponse \<Rightarrow> bool" where
  "okFetchResponse p \<longleftrightarrow> okRecords (fp_Records p) \<and> inS 64 (fp_HighWatermark p) \<and> okCode (fp_Error p)"

definition okListOffsetsResponse :: "ListOffsetsResponse \<Rightarrow> bool" where
  "okListOffsetsResponse p \<longleftrightarrow> inS 64 (lp_Earliest p) \<and> inS 64 (lp_Latest p) \<and> okCode (lp_Error p)"

definition okMetadataResponse :: "MetadataResponse \<Rightarrow> bool" where
  "okMetadataResponse p \<longleftrightarrow> int (length (mp_Partitions p)) \<le> maxItemCount
     \<and> list_all okPartition (mp_Partitions p) \<and> okCode (mp_Error p)"

definition okFetchCommittedResponse :: "FetchCommittedResponse \<Rightarrow> bool" where
  "okFetchCommittedResponse p \<longleftrightarrow> inS 64 (fcp_Offset p) \<and> okCode (fcp_Error p)"

lemmas ok_defs = okCode_def okID_def okCreateTopicRequest_def okProduceRequest_def
  okProduceByKeyRequest_def okFetchRequest_def okListOffsetsRequest_def okCommitOffsetRequest_def
  okFetchCommittedRequest_def okProduceResponse_def okProduceByKeyResponse_def okFetchResponse_def
  okListOffsetsResponse_def okFetchCommittedResponse_def

lemma readString_put_exact [simp]:
  "okString s \<Longrightarrow> readString (be16 (int (length s)) @ string_bytes s) = Inr (s, [])"
  using readString_put [of s "[]"] by simp

interpretation createTopicRequest: message encodeCreateTopicRequest decodeCreateTopicRequest okCreateTopicRequest
  by unfold_locales
    (auto simp: encodeCreateTopicRequest_def decodeCreateTopicRequest_def ok_defs)

interpretation createTopicResponse: message encodeCreateTopicResponse decodeCreateTopicResponse "\<lambda>p. okCode (ctp_Error p)"
  by unfold_locales (auto simp: encodeCreateTopicResponse_def decodeCreateTopicResponse_def ok_defs)

interpretation produceResponse: message encodeProduceResponse decodeProduceResponse okProduceResponse
  by unfold_locales (auto simp: encodeProduceResponse_def decodeProduceResponse_def ok_defs)

lemma part_inS: "-1 \<le> n \<Longrightarrow> n \<le> maxInt32 \<Longrightarrow> inS 32 n"
  by (simp add: inS_def net_limits)

interpretation produceByKeyResponse: message encodeProduceByKeyResponse decodeProduceByKeyResponse okProduceByKeyResponse
  by unfold_locales
    (auto simp: encodeProduceByKeyResponse_def decodeProduceByKeyResponse_def ok_defs part_inS)

interpretation fetchRequest: message encodeFetchRequest decodeFetchRequest okFetchRequest
  by unfold_locales (auto simp: encodeFetchRequest_def decodeFetchRequest_def ok_defs)

interpretation listOffsetsRequest: message encodeListOffsetsRequest decodeListOffsetsRequest okListOffsetsRequest
  by unfold_locales (auto simp: encodeListOffsetsRequest_def decodeListOffsetsRequest_def ok_defs)

interpretation listOffsetsResponse: message encodeListOffsetsResponse decodeListOffsetsResponse okListOffsetsResponse
  by unfold_locales (auto simp: encodeListOffsetsResponse_def decodeListOffsetsResponse_def ok_defs)

interpretation commitOffsetRequest: message encodeCommitOffsetRequest decodeCommitOffsetRequest okCommitOffsetRequest
  by unfold_locales (auto simp: encodeCommitOffsetRequest_def decodeCommitOffsetRequest_def ok_defs)

interpretation commitOffsetResponse: message encodeCommitOffsetResponse decodeCommitOffsetResponse "\<lambda>p. okCode (cop_Error p)"
  by unfold_locales (auto simp: encodeCommitOffsetResponse_def decodeCommitOffsetResponse_def ok_defs)

interpretation fetchCommittedRequest: message encodeFetchCommittedRequest decodeFetchCommittedRequest okFetchCommittedRequest
  by unfold_locales (auto simp: encodeFetchCommittedRequest_def decodeFetchCommittedRequest_def ok_defs)

interpretation fetchCommittedResponse: message encodeFetchCommittedResponse decodeFetchCommittedResponse okFetchCommittedResponse
  by unfold_locales (auto simp: encodeFetchCommittedResponse_def decodeFetchCommittedResponse_def ok_defs)

interpretation pingRequest: message encodePingRequest decodePingRequest "\<lambda>_. True"
  by unfold_locales (auto simp: encodePingRequest_def decodePingRequest_def, metis PingRequest.exhaust)

interpretation pingResponse: message encodePingResponse decodePingResponse "\<lambda>p. okCode (pgp_Error p)"
  by unfold_locales (auto simp: encodePingResponse_def decodePingResponse_def ok_defs)

interpretation metadataRequest: message encodeMetadataRequest decodeMetadataRequest okMetadataRequest
  by (rule codec_message [where g = mq_Topics and f = "\<lambda>ts. \<lparr>mq_Topics = ts\<rparr>",
        OF counted_codec [OF str.codec_axioms, of "''topic count''" "''topic count''"]])
    (simp_all add: decodeMetadataRequest_def encodeMetadataRequest_def okMetadataRequest_def
      bindE_def split: sum.split)

text \<open>The messages that carry records or partitions.\<close>

interpretation fetchResponse: message encodeFetchResponse decodeFetchResponse okFetchResponse
proof
  fix p :: FetchResponse and bs
  assume ok: "okFetchResponse p"
  then have oks: "okRecords (fp_Records p)" by (simp add: okFetchResponse_def)
  then obtain b where b: "putRecords (fp_Records p) = Inr b" using recs.enc_total by blast
  have w: "encodeFetchResponse p = Inr (be16 (fp_Error p) @ b @ be64 (fp_HighWatermark p))"
    by (simp add: encodeFetchResponse_def b)
  then show "\<exists>bs. encodeFetchResponse p = Inr bs" by blast
  assume "encodeFetchResponse p = Inr bs"
  then have bs: "bs = be16 (fp_Error p) @ b @ be64 (fp_HighWatermark p)" using w by simp
  show "decodeFetchResponse bs = Inr p"
    using ok recs.dec_enc [OF oks b] by (simp add: bs decodeFetchResponse_def ok_defs)
qed

interpretation metadataResponse: message encodeMetadataResponse decodeMetadataResponse okMetadataResponse
proof
  fix p :: MetadataResponse and bs
  let ?ps = "mp_Partitions p"
  assume ok: "okMetadataResponse p"
  then have oks: "list_all okPartition ?ps" and n: "int (length ?ps) \<le> maxItemCount"
    by (simp_all add: okMetadataResponse_def)
  obtain b where b: "writeAll (map putPartition ?ps) = Inr b" using part.items_total [OF oks] by blast
  have le: "int (length ?ps) \<le> maxInt32" using n by (rule maxItem_le_maxInt32)
  have w: "encodeMetadataResponse p = Inr (be16 (mp_Error p) @ be32 (int (length ?ps)) @ b)"
    using le by (simp add: encodeMetadataResponse_def b)
  then show "\<exists>bs. encodeMetadataResponse p = Inr bs" by blast
  assume "encodeMetadataResponse p = Inr bs"
  then have bs: "bs = be16 (mp_Error p) @ be32 (int (length ?ps)) @ b" using w by simp
  show "decodeMetadataResponse bs = Inr p"
    using ok n le part.items_dec_enc [OF oks b, of "[]"]
    by (simp add: bs decodeMetadataResponse_def okMetadataResponse_def okCode_def)
qed

lemma stampRecords_id: "list_all (\<lambda>r. \<not> isZero (r_Timestamp r)) rs \<Longrightarrow> stampRecords clock rs = rs"
proof -
  assume a: "list_all (\<lambda>r. \<not> isZero (r_Timestamp r)) rs"
  have "stampRecords clock rs = map snd (enumerate 0 rs)"
    unfolding stampRecords_def
    by (rule map_cong [OF refl]) (use a in \<open>auto simp: list_all_iff dest!: in_set_enumerate_eq [THEN iffD1]\<close>)
  then show ?thesis by simp
qed

lemma stampRecords_stamped: "list_all (\<lambda>r. \<not> isZero (r_Timestamp r)) (stampRecords clock rs)"
  by (auto simp: stampRecords_def list_all_iff isZero_def)

text \<open>A produce request arrives with its records stamped.\<close>

lemma produceRequest_stamped:
  assumes "okProduceRequest (q\<lparr>pq_Records := stampRecords clock (pq_Records q)\<rparr>)"
  shows "\<exists>bs. encodeProduceRequest clock q = Inr bs
    \<and> decodeProduceRequest bs = Inr (q\<lparr>pq_Records := stampRecords clock (pq_Records q)\<rparr>)"
proof -
  let ?rs = "stampRecords clock (pq_Records q)"
  have oks: "okRecords ?rs" using assms by (simp add: okProduceRequest_def)
  then obtain b where b: "putRecords ?rs = Inr b" using recs.enc_total by blast
  show ?thesis using assms recs.dec_enc_exact [OF oks b]
    by (simp add: encodeProduceRequest_def decodeProduceRequest_def b ok_defs)
qed

lemma produceByKeyRequest_stamped:
  assumes "okProduceByKeyRequest (q\<lparr>kq_Records := stampRecords clock (kq_Records q)\<rparr>)"
  shows "\<exists>bs. encodeProduceByKeyRequest clock q = Inr bs
    \<and> decodeProduceByKeyRequest bs = Inr (q\<lparr>kq_Records := stampRecords clock (kq_Records q)\<rparr>)"
proof -
  let ?rs = "stampRecords clock (kq_Records q)"
  have oks: "okRecords ?rs" "okBytes (kq_Key q)" using assms by (simp_all add: okProduceByKeyRequest_def)
  then obtain b k where b: "putRecords ?rs = Inr b" and k: "putBytes (kq_Key q) = Inr k"
    using recs.enc_total putBytes_ok by blast
  show ?thesis using assms recs.dec_enc_exact [OF oks(1) b]
    by (simp add: encodeProduceByKeyRequest_def decodeProduceByKeyRequest_def b k ok_defs
        readBytes_put [OF oks(2) k])
qed
section \<open>Properties\<close>

lemma split_at: "drop k h = take m (drop k h) @ drop (m + k) h"
  by (simp flip: drop_drop)

lemma readItems_consumes:
  assumes "\<And>b x r. rd b = Inr (x, r) \<Longrightarrow> length r + k \<le> length b"
  shows "readItems rd n b = Inr (xs, r) \<Longrightarrow> k * n + length r \<le> length b"
proof (induction n arbitrary: b xs)
  case (Suc n)
  then obtain x b' ys where "rd b = Inr (x, b')" "readItems rd n b' = Inr (ys, r)"
    by (auto elim!: bindE_Inr_E)
  then show ?case using assms [of b x b'] Suc.IH [of b' ys] by simp
qed simp

lemma decodeFrame_Inr_parts:
  assumes "decodeFrame r = Inr ((key, corr, payload), rest)"
  shows "\<exists>header. length header = 14 \<and> r = header @ payload @ rest
    \<and> val_uint BigEndian (take 4 header) = int (length payload) + 10
    \<and> int (length payload) + 10 \<le> maxFrameLength
    \<and> key = val_uint BigEndian (take 2 (drop 4 header)) \<and> key \<le> maxInt16
    \<and> val_uint BigEndian (take 2 (drop 6 header)) = currentVersion
    \<and> corr = val_uint BigEndian (take 4 (drop 8 header)) \<and> corr \<le> maxInt32"
  using assms
  by (auto simp: decodeFrame_def Let_def readFull_Inr frameHeaderSize_def uint16ToInt16_def
      uint32ToInt32_def maxFrameLength_def split: if_splits elim!: bindE_Inr_E)

text \<open>The frame reader takes exactly one frame off the connection: the fourteen header
  bytes and the payload they announce, nothing of what follows, and only frames whose payload,
  key and correlation id are within the limits; what it accepts is what the frame writer
  would write for it, up to the two reserved header bytes.\<close>

theorem decodeFrame_exact:
  assumes "decodeFrame r = Inr ((key, corr, payload), rest)"
  shows "okFrame (key, corr, payload)
    \<and> (\<exists>res. length res = 2 \<and> r = be32 (int (length payload) + 10) @ be16 key @ be16 0 @ be32 corr
         @ res @ payload @ rest)"
proof -
  obtain h where h: "length h = 14" "r = h @ payload @ rest"
    and v: "val_uint BigEndian (take 4 h) = int (length payload) + 10"
      "key = val_uint BigEndian (take 2 (drop 4 h))"
      "val_uint BigEndian (take 2 (drop 6 h)) = 0"
      "corr = val_uint BigEndian (take 4 (drop 8 h))"
    and b: "int (length payload) + 10 \<le> maxFrameLength" "key \<le> maxInt16" "corr \<le> maxInt32"
    using decodeFrame_Inr_parts [OF assms] by (auto simp: currentVersion_def)
  have split: "h = take 4 h @ take 2 (drop 4 h) @ take 2 (drop 6 h) @ take 4 (drop 8 h)
      @ drop 12 h"
    using split_at [of 0 h 4] split_at [of 4 h 2] split_at [of 6 h 2] split_at [of 8 h 4]
    by simp
  have p: "be32 (int (length payload) + 10) = take 4 h" "be16 key = take 2 (drop 4 h)"
      "be16 0 = take 2 (drop 6 h)" "be32 corr = take 4 (drop 8 h)"
    using put_val_uint [of "take 4 h" 4 BigEndian] put_val_uint [of "take 2 (drop 4 h)" 2 BigEndian]
      put_val_uint [of "take 2 (drop 6 h)" 2 BigEndian] put_val_uint [of "take 4 (drop 8 h)" 4 BigEndian]
      h(1) v by simp_all
  have "0 \<le> key" "0 \<le> corr" unfolding v by (simp_all add: val_uint_bounds)
  then have "okFrame (key, corr, payload)"
    using b by (simp add: okFrame_def okID_def frameHeaderSize_def)
  moreover have "r = be32 (int (length payload) + 10) @ be16 key @ be16 0 @ be32 corr
      @ drop 12 h @ payload @ rest"
    unfolding p h(2) using split by simp
  ultimately show ?thesis using h(1) by (intro conjI exI [of _ "drop 12 h"]) simp_all
qed

theorem decodeFrame_exact_witness:
  "decodeFrame [0,0,0,11, 0,7, 0,0, 0,0,0,5, 9,9, 42, 1] = Inr ((7, 5, [42]), [1])
   \<and> okFrame (7, 5, [42])
   \<and> (\<exists>res. length res = 2 \<and> [0,0,0,11, 0,7, 0,0, 0,0,0,5, 9,9, 42, 1]
        = be32 (int (length [42::byte]) + 10) @ be16 7 @ be16 0 @ be32 5 @ res @ [42] @ [1])"
proof -
  have d: "decodeFrame [0,0,0,11, 0,7, 0,0, 0,0,0,5, 9,9, 42, 1] = Inr ((7, 5, [42]), [1])"
    by (simp add: decodeFrame_def readFull_def net_limits Let_def val_uint_def uint16ToInt16_def
        uint32ToInt32_def)
  show ?thesis using decodeFrame_exact [OF d] d by blast
qed

text \<open>The writers accept what the readers of the same program refuse.  A payload over the
  frame limit of 16 MiB is framed without an error, and the reader of the other side rejects
  the frame.\<close>

theorem encodeFrame_oversized:
  assumes "maxFrameLength - 10 < int (length payload)" "int (length payload) \<le> maxUint32 - 10"
  shows "\<exists>bs. encodeFrame key corr payload = Inr bs
    \<and> decodeFrame (bs @ rest) = Inl (Errorf ''frame length %d exceeds max %d'')"
proof -
  let ?h = "be32 (int (length payload) + 10) @ be16 key @ be16 0 @ be32 corr @ be16 0"
  have e: "encodeFrame key corr payload = Inr (?h @ payload)"
    using assms by (subst encodeFrame_bytes) (simp_all add: net_limits)
  have h: "readFull 14 (?h @ payload @ rest) = Inr (?h, payload @ rest)"
    by (rule readFull_append) simp
  have u: "inU 32 (int (length payload) + 10)" using assms by (simp add: inU_def net_limits)
  show ?thesis using assms h u by (simp add: e decodeFrame_def net_limits Let_def)
qed

theorem encodeFrame_oversized_witness:
  "\<exists>payload bs. length payload = 16777207 \<and> encodeFrame 1 1 payload = Inr bs
    \<and> decodeFrame (bs @ []) = Inl (Errorf ''frame length %d exceeds max %d'')"
proof -
  obtain payload :: bytes where p: "length payload = 16777207"
    using Ex_list_of_length by blast
  show ?thesis using encodeFrame_oversized [of payload 1 1 "[]"] p
    by (auto simp: net_limits)
qed

text \<open>A decoder never returns more items than the protocol's limit, and never items it has
  no bytes for: every record takes at least its four length bytes.\<close>

theorem readRecords_bounded:
  assumes "readRecords b = Inr (rs, rest)"
  shows "int (length rs) \<le> maxItemCount \<and> 4 * length rs + length rest + 4 \<le> length b"
proof -
  obtain n b' where n: "readI32 b = Inr (n, b')" and c: "checkCount n ''record count'' = Inr (nat n)"
    and le: "n \<le> maxItemCount" and it: "readItems readRecord (nat n) b' = Inr (rs, rest)"
    using assms by (auto simp: readRecords_def checkCount_def split: if_splits elim!: bindE_Inr_E)
  have "4 * nat n + length rest \<le> length b'"
    using it by (rule readItems_consumes [rotated]) (auto simp: readRecord_def read_int_def readFull_Inr
        split: if_splits elim!: bindE_Inr_E)
  moreover have "length b' + 4 \<le> length b"
    using n by (auto simp: read_int_def readFull_Inr elim!: bindE_Inr_E)
  ultimately show ?thesis using length_readItems [OF it] le by (simp add: maxItemCount_def)
qed

theorem readRecords_bounded_witness:
  "readRecords [0,0,0,0,9] = Inr ([], [9]) \<and>
   int (length ([] :: Record list)) \<le> maxItemCount \<and> 4 * length ([] :: Record list) + length [9 :: byte] + 4 \<le> length [0,0,0,0,9::byte]"
proof -
  have r: "readRecords [0,0,0,0,9] = Inr ([], [9])"
    by (simp add: readRecords_def read_int_def readFull_def val_uint_def checkCount_def maxItemCount_def
        wrapS_def)
  show ?thesis using readRecords_bounded [OF r] r by blast
qed
end
