(* ===== verification/NetprotoServer.thy ===== *)
theory NetprotoServer
  imports NetprotoCodec
begin

text \<open>
  The server of the binary protocol (\<^verbatim>\<open>internal/netproto/server.go\<close>): the table of handlers,
  each handler with its decoding, its broker call and its response, and the loop that serves
  a connection.  The broker is the parameter the code takes it as: an interface of
  operations (record \<open>BrokerAPI\<close>) on a state, with Go's several results, so that a value
  returned beside an error is kept the way the handlers keep it.
\<close>

section \<open>The broker interface\<close>

record 's BrokerAPI =
  api_CreateTopic :: "'s \<Rightarrow> string \<Rightarrow> TopicConfig \<Rightarrow> 's \<times> go_error option"
  api_Produce :: "'s \<Rightarrow> string \<Rightarrow> int \<Rightarrow> Record list \<Rightarrow> 's \<times> int \<times> go_error option"
  api_ProduceByKey :: "'s \<Rightarrow> string \<Rightarrow> bytes option \<Rightarrow> Record list \<Rightarrow> 's \<times> int \<times> int \<times> go_error option"
  api_Fetch :: "'s \<Rightarrow> string \<Rightarrow> int \<Rightarrow> int \<Rightarrow> int \<Rightarrow> 's \<times> Record list \<times> go_error option"
  api_ListOffsets :: "'s \<Rightarrow> string \<Rightarrow> int \<Rightarrow> 's \<times> int \<times> int \<times> go_error option"
  api_CommitOffset :: "'s \<Rightarrow> string \<Rightarrow> string \<Rightarrow> int \<Rightarrow> int \<Rightarrow> 's \<times> go_error option"
  api_FetchCommitted :: "'s \<Rightarrow> string \<Rightarrow> string \<Rightarrow> int \<Rightarrow> 's \<times> int \<times> go_error option"
  api_Metadata :: "'s \<Rightarrow> string list \<Rightarrow> 's \<times> PartitionMetadata list \<times> go_error option"

definition mapError :: "go_error option \<Rightarrow> ErrorCode" where
  "mapError err = (case err of
       None \<Rightarrow> ErrNone
     | Some TopicNotFound \<Rightarrow> ErrTopicNotFound
     | Some PartitionNotFound \<Rightarrow> ErrPartitionNotFound
     | Some TopicExists \<Rightarrow> ErrTopicExists
     | Some NotLeader \<Rightarrow> ErrNotLeader
     | Some (NotLeaderError _ _ _) \<Rightarrow> ErrNotLeader
     | Some _ \<Rightarrow> ErrInternal)"

section \<open>Handlers\<close>

definition errorResponseForKey :: "APIKey \<Rightarrow> ErrorCode \<Rightarrow> bytes result" where
  "errorResponseForKey apiKey code =
    (if apiKey = APIKeyCreateTopic then encodeCreateTopicResponse \<lparr>ctp_Error = code\<rparr>
     else if apiKey = APIKeyProduce
       then encodeProduceResponse \<lparr>pp_BaseOffset = -1, pp_Error = code\<rparr>
     else if apiKey = APIKeyProduceByKey
       then encodeProduceByKeyResponse \<lparr>kp_Partition = -1, kp_BaseOffset = -1, kp_Error = code\<rparr>
     else if apiKey = APIKeyFetch
       then encodeFetchResponse \<lparr>fp_Records = [], fp_HighWatermark = 0, fp_Error = code\<rparr>
     else if apiKey = APIKeyMetadata
       then encodeMetadataResponse \<lparr>mp_Partitions = [], mp_Error = code\<rparr>
     else if apiKey = APIKeyPing then encodePingResponse \<lparr>pgp_Error = code\<rparr>
     else if apiKey = APIKeyCommitOffset then encodeCommitOffsetResponse \<lparr>cop_Error = code\<rparr>
     else if apiKey = APIKeyFetchCommitted
       then encodeFetchCommittedResponse \<lparr>fcp_Offset = 0, fcp_Error = code\<rparr>
     else if apiKey = APIKeyListOffsets
       then encodeListOffsetsResponse \<lparr>lp_Earliest = 0, lp_Latest = 0, lp_Error = code\<rparr>
     else encodePingResponse \<lparr>pgp_Error = code\<rparr>)"

text \<open>\<open>decodeRequest\<close>: the request, or the early response to a payload that does not decode.\<close>

definition decodeRequest :: "APIKey \<Rightarrow> bytes \<Rightarrow> (bytes \<Rightarrow> 'q result) \<Rightarrow> 'q + bytes result" where
  "decodeRequest apiKey payload decodeFn = (case decodeFn payload of
       Inl e \<Rightarrow> Inr (errorResponseForKey apiKey ErrInvalidRequest)
     | Inr req \<Rightarrow> Inl req)"

definition handleCreateTopic :: "'s BrokerAPI \<Rightarrow> 's \<Rightarrow> bytes \<Rightarrow> 's \<times> bytes result" where
  "handleCreateTopic b s payload =
    (case decodeRequest APIKeyCreateTopic payload decodeCreateTopicRequest of
       Inr early \<Rightarrow> (s, early)
     | Inl req \<Rightarrow>
        (let (s', err) = api_CreateTopic b s (ctq_Topic req)
               \<lparr>tc_Partitions = ctq_Partitions req, tc_ReplicationFactor = ctq_ReplicationFactor req,
                tc_RetentionBytes = 0, tc_RetentionTime = 0\<rparr>
         in (s', encodeCreateTopicResponse \<lparr>ctp_Error = mapError err\<rparr>)))"

definition handleProduce :: "'s BrokerAPI \<Rightarrow> 's \<Rightarrow> bytes \<Rightarrow> 's \<times> bytes result" where
  "handleProduce b s payload =
    (case decodeRequest APIKeyProduce payload decodeProduceRequest of
       Inr early \<Rightarrow> (s, early)
     | Inl req \<Rightarrow>
        (let (s', base, err) = api_Produce b s (pq_Topic req) (pq_Partition req) (pq_Records req)
         in (s', encodeProduceResponse \<lparr>pp_BaseOffset = base, pp_Error = mapError err\<rparr>)))"

definition handleProduceByKey :: "'s BrokerAPI \<Rightarrow> 's \<Rightarrow> bytes \<Rightarrow> 's \<times> bytes result" where
  "handleProduceByKey b s payload =
    (case decodeRequest APIKeyProduceByKey payload decodeProduceByKeyRequest of
       Inr early \<Rightarrow> (s, early)
     | Inl req \<Rightarrow>
        (let (s', partition, base, err) =
               api_ProduceByKey b s (kq_Topic req) (kq_Key req) (kq_Records req)
         in (s', encodeProduceByKeyResponse
              \<lparr>kp_Partition = partition, kp_BaseOffset = base, kp_Error = mapError err\<rparr>)))"

definition fallbackFetchHighWatermark :: "int \<Rightarrow> Record list \<Rightarrow> int" where
  "fallbackFetchHighWatermark requestOffset records =
    (if length records > 0 then r_Offset (records ! (length records - 1))
     else if requestOffset \<le> 0 then -1
     else requestOffset - 1)"

definition handleFetch :: "'s BrokerAPI \<Rightarrow> 's \<Rightarrow> bytes \<Rightarrow> 's \<times> bytes result" where
  "handleFetch b s payload =
    (case decodeRequest APIKeyFetch payload decodeFetchRequest of
       Inr early \<Rightarrow> (s, early)
     | Inl req \<Rightarrow>
        (let (s', recs, err) =
               api_Fetch b s (fq_Topic req) (fq_Partition req) (fq_Offset req) (fq_MaxBytes req)
         in if err \<noteq> None
            then (s', encodeFetchResponse
                   \<lparr>fp_Records = recs, fp_HighWatermark = 0, fp_Error = mapError err\<rparr>)
            else
              (let (s'', _, latest, offErr) = api_ListOffsets b s' (fq_Topic req) (fq_Partition req);
                   hwm = (if offErr = None then latest
                          else fallbackFetchHighWatermark (fq_Offset req) recs)
               in (s'', encodeFetchResponse
                    \<lparr>fp_Records = recs, fp_HighWatermark = hwm, fp_Error = ErrNone\<rparr>))))"

definition handleMetadata :: "'s BrokerAPI \<Rightarrow> 's \<Rightarrow> bytes \<Rightarrow> 's \<times> bytes result" where
  "handleMetadata b s payload =
    (case decodeRequest APIKeyMetadata payload decodeMetadataRequest of
       Inr early \<Rightarrow> (s, early)
     | Inl req \<Rightarrow>
        (let (s', md, err) = api_Metadata b s (mq_Topics req)
         in (s', encodeMetadataResponse \<lparr>mp_Partitions = md, mp_Error = mapError err\<rparr>)))"

definition handlePing :: "'s BrokerAPI \<Rightarrow> 's \<Rightarrow> bytes \<Rightarrow> 's \<times> bytes result" where
  "handlePing b s payload =
    (case decodeRequest APIKeyPing payload decodePingRequest of
       Inr early \<Rightarrow> (s, early)
     | Inl req \<Rightarrow> (s, encodePingResponse \<lparr>pgp_Error = ErrNone\<rparr>))"

definition handleCommitOffset :: "'s BrokerAPI \<Rightarrow> 's \<Rightarrow> bytes \<Rightarrow> 's \<times> bytes result" where
  "handleCommitOffset b s payload =
    (case decodeRequest APIKeyCommitOffset payload decodeCommitOffsetRequest of
       Inr early \<Rightarrow> (s, early)
     | Inl req \<Rightarrow>
        (let (s', err) = api_CommitOffset b s (coq_Group req) (coq_Topic req) (coq_Partition req)
               (coq_Offset req)
         in (s', encodeCommitOffsetResponse \<lparr>cop_Error = mapError err\<rparr>)))"

definition handleFetchCommitted :: "'s BrokerAPI \<Rightarrow> 's \<Rightarrow> bytes \<Rightarrow> 's \<times> bytes result" where
  "handleFetchCommitted b s payload =
    (case decodeRequest APIKeyFetchCommitted payload decodeFetchCommittedRequest of
       Inr early \<Rightarrow> (s, early)
     | Inl req \<Rightarrow>
        (let (s', offset, err) = api_FetchCommitted b s (fcq_Group req) (fcq_Topic req) (fcq_Partition req)
         in (s', encodeFetchCommittedResponse \<lparr>fcp_Offset = offset, fcp_Error = mapError err\<rparr>)))"

definition handleListOffsets :: "'s BrokerAPI \<Rightarrow> 's \<Rightarrow> bytes \<Rightarrow> 's \<times> bytes result" where
  "handleListOffsets b s payload =
    (case decodeRequest APIKeyListOffsets payload decodeListOffsetsRequest of
       Inr early \<Rightarrow> (s, early)
     | Inl req \<Rightarrow>
        (let (s', earliest, latest, err) = api_ListOffsets b s (lq_Topic req) (lq_Partition req)
         in (s', encodeListOffsetsResponse
              \<lparr>lp_Earliest = earliest, lp_Latest = latest, lp_Error = mapError err\<rparr>)))"

definition buildHandlers :: "'s BrokerAPI \<Rightarrow> APIKey \<rightharpoonup> ('s \<Rightarrow> bytes \<Rightarrow> 's \<times> bytes result)" where
  "buildHandlers b = map_of
    [(APIKeyCreateTopic, handleCreateTopic b), (APIKeyProduce, handleProduce b),
     (APIKeyProduceByKey, handleProduceByKey b), (APIKeyFetch, handleFetch b),
     (APIKeyMetadata, handleMetadata b), (APIKeyPing, handlePing b),
     (APIKeyCommitOffset, handleCommitOffset b), (APIKeyFetchCommitted, handleFetchCommitted b),
     (APIKeyListOffsets, handleListOffsets b)]"

definition dispatch :: "'s BrokerAPI \<Rightarrow> 's \<Rightarrow> APIKey \<Rightarrow> bytes \<Rightarrow> 's \<times> bytes result" where
  "dispatch b s apiKey payload = (case buildHandlers b apiKey of
       None \<Rightarrow> (s, Inl (Errorf ''unknown api key %d''))
     | Some handler \<Rightarrow> handler s payload)"

section \<open>Connections\<close>

lemma decodeFrame_consumes:
  "decodeFrame r = Inr (f, rest) \<Longrightarrow> length rest + 14 \<le> length r"
  by (auto simp: decodeFrame_def Let_def readFull_Inr frameHeaderSize_def split: if_splits
      elim!: bindE_Inr_E)

text \<open>
  \<open>conn\<close> holds the bytes the client sends until it closes its side; the result has the bytes
  the server writes.  A frame that does not decode, an unknown key and a response that cannot
  be encoded close the connection.
\<close>

function handleConnection :: "'s BrokerAPI \<Rightarrow> 's \<Rightarrow> bytes \<Rightarrow> 's \<times> bytes" where
  "handleConnection b s conn = (case decodeRequestFrame conn of
       Inl e \<Rightarrow> (s, [])
     | Inr ((apiKey, corr, payload), conn') \<Rightarrow>
        (case dispatch b s apiKey payload of
           (s', Inl e) \<Rightarrow> (s', [])
         | (s', Inr respPayload) \<Rightarrow>
            (case encodeResponseFrame apiKey corr respPayload of
               Inl e \<Rightarrow> (s', [])
             | Inr frame \<Rightarrow>
                (let (s'', out) = handleConnection b s' conn' in (s'', frame @ out)))))"
  by pat_completeness auto
termination
  by (relation "measure (\<lambda>(b, s, conn). length conn)")
    (auto simp: decodeRequestFrame_def dest!: decodeFrame_consumes)

declare handleConnection.simps [simp del]

section \<open>The remote call the protocol implements\<close>

text \<open>
  The abstract view of a client: requests and responses as values, and \<open>serve\<close>, the broker
  call a request stands for, without bytes.
\<close>

datatype Request =
    CreateTopicQ CreateTopicRequest
  | ProduceQ ProduceRequest
  | ProduceByKeyQ ProduceByKeyRequest
  | FetchQ FetchRequest
  | ListOffsetsQ ListOffsetsRequest
  | CommitOffsetQ CommitOffsetRequest
  | FetchCommittedQ FetchCommittedRequest
  | MetadataQ MetadataRequest
  | PingQ PingRequest

datatype Response =
    CreateTopicP CreateTopicResponse
  | ProduceP ProduceResponse
  | ProduceByKeyP ProduceByKeyResponse
  | FetchP FetchResponse
  | ListOffsetsP ListOffsetsResponse
  | CommitOffsetP CommitOffsetResponse
  | FetchCommittedP FetchCommittedResponse
  | MetadataP MetadataResponse
  | PingP PingResponse

fun requestKey :: "Request \<Rightarrow> APIKey" where
  "requestKey (CreateTopicQ q) = APIKeyCreateTopic"
| "requestKey (ProduceQ q) = APIKeyProduce"
| "requestKey (ProduceByKeyQ q) = APIKeyProduceByKey"
| "requestKey (FetchQ q) = APIKeyFetch"
| "requestKey (ListOffsetsQ q) = APIKeyListOffsets"
| "requestKey (CommitOffsetQ q) = APIKeyCommitOffset"
| "requestKey (FetchCommittedQ q) = APIKeyFetchCommitted"
| "requestKey (MetadataQ q) = APIKeyMetadata"
| "requestKey (PingQ q) = APIKeyPing"

fun encodeRequest :: "(nat \<Rightarrow> int) \<Rightarrow> Request \<Rightarrow> bytes result" where
  "encodeRequest clock (CreateTopicQ q) = encodeCreateTopicRequest q"
| "encodeRequest clock (ProduceQ q) = encodeProduceRequest clock q"
| "encodeRequest clock (ProduceByKeyQ q) = encodeProduceByKeyRequest clock q"
| "encodeRequest clock (FetchQ q) = encodeFetchRequest q"
| "encodeRequest clock (ListOffsetsQ q) = encodeListOffsetsRequest q"
| "encodeRequest clock (CommitOffsetQ q) = encodeCommitOffsetRequest q"
| "encodeRequest clock (FetchCommittedQ q) = encodeFetchCommittedRequest q"
| "encodeRequest clock (MetadataQ q) = encodeMetadataRequest q"
| "encodeRequest clock (PingQ q) = encodePingRequest q"

text \<open>The request the server sees: the encoder stamps records without a time.\<close>

fun stampRequest :: "(nat \<Rightarrow> int) \<Rightarrow> Request \<Rightarrow> Request" where
  "stampRequest clock (ProduceQ q) = ProduceQ (q\<lparr>pq_Records := stampRecords clock (pq_Records q)\<rparr>)"
| "stampRequest clock (ProduceByKeyQ q) =
     ProduceByKeyQ (q\<lparr>kq_Records := stampRecords clock (kq_Records q)\<rparr>)"
| "stampRequest clock q = q"

fun okRequest :: "Request \<Rightarrow> bool" where
  "okRequest (CreateTopicQ q) = okCreateTopicRequest q"
| "okRequest (ProduceQ q) = okProduceRequest q"
| "okRequest (ProduceByKeyQ q) = okProduceByKeyRequest q"
| "okRequest (FetchQ q) = okFetchRequest q"
| "okRequest (ListOffsetsQ q) = okListOffsetsRequest q"
| "okRequest (CommitOffsetQ q) = okCommitOffsetRequest q"
| "okRequest (FetchCommittedQ q) = okFetchCommittedRequest q"
| "okRequest (MetadataQ q) = okMetadataRequest q"
| "okRequest (PingQ q) = True"

fun encodeResponse :: "Response \<Rightarrow> bytes result" where
  "encodeResponse (CreateTopicP p) = encodeCreateTopicResponse p"
| "encodeResponse (ProduceP p) = encodeProduceResponse p"
| "encodeResponse (ProduceByKeyP p) = encodeProduceByKeyResponse p"
| "encodeResponse (FetchP p) = encodeFetchResponse p"
| "encodeResponse (ListOffsetsP p) = encodeListOffsetsResponse p"
| "encodeResponse (CommitOffsetP p) = encodeCommitOffsetResponse p"
| "encodeResponse (FetchCommittedP p) = encodeFetchCommittedResponse p"
| "encodeResponse (MetadataP p) = encodeMetadataResponse p"
| "encodeResponse (PingP p) = encodePingResponse p"

definition decodeResponse :: "APIKey \<Rightarrow> bytes \<Rightarrow> Response result" where
  "decodeResponse key b =
    (if key = APIKeyCreateTopic then bindE (decodeCreateTopicResponse b) (\<lambda>p. Inr (CreateTopicP p))
     else if key = APIKeyProduce then bindE (decodeProduceResponse b) (\<lambda>p. Inr (ProduceP p))
     else if key = APIKeyProduceByKey
       then bindE (decodeProduceByKeyResponse b) (\<lambda>p. Inr (ProduceByKeyP p))
     else if key = APIKeyFetch then bindE (decodeFetchResponse b) (\<lambda>p. Inr (FetchP p))
     else if key = APIKeyListOffsets then bindE (decodeListOffsetsResponse b) (\<lambda>p. Inr (ListOffsetsP p))
     else if key = APIKeyCommitOffset then bindE (decodeCommitOffsetResponse b) (\<lambda>p. Inr (CommitOffsetP p))
     else if key = APIKeyFetchCommitted
       then bindE (decodeFetchCommittedResponse b) (\<lambda>p. Inr (FetchCommittedP p))
     else if key = APIKeyMetadata then bindE (decodeMetadataResponse b) (\<lambda>p. Inr (MetadataP p))
     else if key = APIKeyPing then bindE (decodePingResponse b) (\<lambda>p. Inr (PingP p))
     else Inl (Errorf ''unexpected api key %d in response''))"

fun okResponse :: "Response \<Rightarrow> bool" where
  "okResponse (CreateTopicP p) = okCode (ctp_Error p)"
| "okResponse (ProduceP p) = okProduceResponse p"
| "okResponse (ProduceByKeyP p) = okProduceByKeyResponse p"
| "okResponse (FetchP p) = okFetchResponse p"
| "okResponse (ListOffsetsP p) = okListOffsetsResponse p"
| "okResponse (CommitOffsetP p) = okCode (cop_Error p)"
| "okResponse (FetchCommittedP p) = okFetchCommittedResponse p"
| "okResponse (MetadataP p) = okMetadataResponse p"
| "okResponse (PingP p) = okCode (pgp_Error p)"

text \<open>The response the client sees: the checksum of a record is not sent.\<close>

fun wireResponse :: "Response \<Rightarrow> Response" where
  "wireResponse (FetchP p) = FetchP (p\<lparr>fp_Records := map wireRecord (fp_Records p)\<rparr>)"
| "wireResponse p = p"

fun responseKey :: "Response \<Rightarrow> APIKey" where
  "responseKey (CreateTopicP p) = APIKeyCreateTopic"
| "responseKey (ProduceP p) = APIKeyProduce"
| "responseKey (ProduceByKeyP p) = APIKeyProduceByKey"
| "responseKey (FetchP p) = APIKeyFetch"
| "responseKey (ListOffsetsP p) = APIKeyListOffsets"
| "responseKey (CommitOffsetP p) = APIKeyCommitOffset"
| "responseKey (FetchCommittedP p) = APIKeyFetchCommitted"
| "responseKey (MetadataP p) = APIKeyMetadata"
| "responseKey (PingP p) = APIKeyPing"

fun serve :: "'s BrokerAPI \<Rightarrow> 's \<Rightarrow> Request \<Rightarrow> 's \<times> Response" where
  "serve b s (CreateTopicQ q) =
     (let (s', err) = api_CreateTopic b s (ctq_Topic q)
            \<lparr>tc_Partitions = ctq_Partitions q, tc_ReplicationFactor = ctq_ReplicationFactor q,
             tc_RetentionBytes = 0, tc_RetentionTime = 0\<rparr>
      in (s', CreateTopicP \<lparr>ctp_Error = mapError err\<rparr>))"
| "serve b s (ProduceQ q) =
     (let (s', base, err) = api_Produce b s (pq_Topic q) (pq_Partition q) (pq_Records q)
      in (s', ProduceP \<lparr>pp_BaseOffset = base, pp_Error = mapError err\<rparr>))"
| "serve b s (ProduceByKeyQ q) =
     (let (s', p, base, err) = api_ProduceByKey b s (kq_Topic q) (kq_Key q) (kq_Records q)
      in (s', ProduceByKeyP \<lparr>kp_Partition = p, kp_BaseOffset = base, kp_Error = mapError err\<rparr>))"
| "serve b s (FetchQ q) =
     (let (s1, recs, err) = api_Fetch b s (fq_Topic q) (fq_Partition q) (fq_Offset q) (fq_MaxBytes q);
          (s2, _, latest, offErr) = api_ListOffsets b s1 (fq_Topic q) (fq_Partition q)
      in if err \<noteq> None
         then (s1, FetchP \<lparr>fp_Records = recs, fp_HighWatermark = 0, fp_Error = mapError err\<rparr>)
         else (s2, FetchP \<lparr>fp_Records = recs,
                fp_HighWatermark = (if offErr = None then latest
                  else fallbackFetchHighWatermark (fq_Offset q) recs), fp_Error = ErrNone\<rparr>))"
| "serve b s (ListOffsetsQ q) =
     (let (s', e, l, err) = api_ListOffsets b s (lq_Topic q) (lq_Partition q)
      in (s', ListOffsetsP \<lparr>lp_Earliest = e, lp_Latest = l, lp_Error = mapError err\<rparr>))"
| "serve b s (CommitOffsetQ q) =
     (let (s', err) = api_CommitOffset b s (coq_Group q) (coq_Topic q) (coq_Partition q) (coq_Offset q)
      in (s', CommitOffsetP \<lparr>cop_Error = mapError err\<rparr>))"
| "serve b s (FetchCommittedQ q) =
     (let (s', off, err) = api_FetchCommitted b s (fcq_Group q) (fcq_Topic q) (fcq_Partition q)
      in (s', FetchCommittedP \<lparr>fcp_Offset = off, fcp_Error = mapError err\<rparr>))"
| "serve b s (MetadataQ q) =
     (let (s', md, err) = api_Metadata b s (mq_Topics q)
      in (s', MetadataP \<lparr>mp_Partitions = md, mp_Error = mapError err\<rparr>))"
| "serve b s (PingQ q) = (s, PingP \<lparr>pgp_Error = ErrNone\<rparr>)"

lemmas handler_defs = handleCreateTopic_def handleProduce_def handleProduceByKey_def handleFetch_def
  handleListOffsets_def handleCommitOffset_def handleFetchCommitted_def handleMetadata_def
  handlePing_def

lemma buildHandlers_simps [simp]:
  "buildHandlers b APIKeyCreateTopic = Some (handleCreateTopic b)"
  "buildHandlers b APIKeyProduce = Some (handleProduce b)"
  "buildHandlers b APIKeyProduceByKey = Some (handleProduceByKey b)"
  "buildHandlers b APIKeyFetch = Some (handleFetch b)"
  "buildHandlers b APIKeyMetadata = Some (handleMetadata b)"
  "buildHandlers b APIKeyPing = Some (handlePing b)"
  "buildHandlers b APIKeyCommitOffset = Some (handleCommitOffset b)"
  "buildHandlers b APIKeyFetchCommitted = Some (handleFetchCommitted b)"
  "buildHandlers b APIKeyListOffsets = Some (handleListOffsets b)"
  by (simp_all add: buildHandlers_def APIKey_defs)

lemma buildHandlers_None: "key < 0 \<or> 8 < key \<Longrightarrow> buildHandlers b key = None"
  by (auto simp: buildHandlers_def APIKey_defs)

lemma decodeRequest_ok [simp]: "decodeFn p = Inr q \<Longrightarrow> decodeRequest key p decodeFn = Inl q"
  by (simp add: decodeRequest_def)

text \<open>Dispatching an encoded request is the remote call with its response encoded.\<close>

lemma dispatch_serve:
  assumes "okRequest (stampRequest clock q)" "encodeRequest clock q = Inr payload"
  shows "dispatch b s (requestKey q) payload =
    (let (s', p) = serve b s (stampRequest clock q) in (s', encodeResponse p))"
proof (cases q)
  case (ProduceQ x)
  then show ?thesis using assms produceRequest_stamped [of clock x]
    by (auto simp: dispatch_def handler_defs split: prod.split)
next
  case (ProduceByKeyQ x)
  then show ?thesis using assms produceByKeyRequest_stamped [of clock x]
    by (auto simp: dispatch_def handler_defs split: prod.split)
qed (use assms in \<open>auto simp: dispatch_def handler_defs decodePingRequest_def split: prod.split
      dest: createTopicRequest.dec_enc fetchRequest.dec_enc listOffsetsRequest.dec_enc
        commitOffsetRequest.dec_enc fetchCommittedRequest.dec_enc metadataRequest.dec_enc
        pingRequest.dec_enc\<close>)

lemma encodeRequest_total: "okRequest (stampRequest clock q) \<Longrightarrow> \<exists>bs. encodeRequest clock q = Inr bs"
  by (cases q) (auto intro: createTopicRequest.enc_total fetchRequest.enc_total
      listOffsetsRequest.enc_total commitOffsetRequest.enc_total fetchCommittedRequest.enc_total
      metadataRequest.enc_total pingRequest.enc_total
      dest: produceRequest_stamped produceByKeyRequest_stamped)

lemma encodeResponse_total: "okResponse p \<Longrightarrow> \<exists>bs. encodeResponse p = Inr bs"
  by (cases p) (auto intro: createTopicResponse.enc_total produceResponse.enc_total
      produceByKeyResponse.enc_total fetchResponse.enc_total
      listOffsetsResponse.enc_total commitOffsetResponse.enc_total fetchCommittedResponse.enc_total
      metadataResponse.enc_total pingResponse.enc_total)

lemma encodeResponse_wire: "encodeResponse (wireResponse p) = encodeResponse p"
  by (cases p) (simp_all add: encodeFetchResponse_def)

lemma decodeResponse_encoded:
  assumes "okResponse p" "encodeResponse p = Inr bs"
  shows "decodeResponse (responseKey p) bs = Inr p"
  using assms
  by (cases p) (auto simp: decodeResponse_def APIKey_defs
      dest!: createTopicResponse.dec_enc [rotated] produceResponse.dec_enc [rotated]
      produceByKeyResponse.dec_enc [rotated] fetchResponse.dec_enc [rotated]
      listOffsetsResponse.dec_enc [rotated] commitOffsetResponse.dec_enc [rotated]
      fetchCommittedResponse.dec_enc [rotated] metadataResponse.dec_enc [rotated]
      pingResponse.dec_enc [rotated])

lemma serve_key: "serve b s q = (s', p) \<Longrightarrow> responseKey (wireResponse p) = requestKey q"
  by (cases q) (auto split: prod.splits if_splits)

lemma requestKey_range: "0 \<le> requestKey q \<and> requestKey q \<le> 8"
  by (cases q) (simp_all add: APIKey_defs)

lemma stampRequest_key [simp]: "requestKey (stampRequest clock q) = requestKey q"
  by (cases q) simp_all

section \<open>A connection is a sequence of remote calls\<close>

text \<open>What the client sends for numbered requests, and how it reads one response.\<close>

definition sendRequest :: "(nat \<Rightarrow> int) \<Rightarrow> int \<times> Request \<Rightarrow> bytes result" where
  "sendRequest clock = (\<lambda>(corr, q).
     bindE (encodeRequest clock q) (encodeRequestFrame (requestKey q) corr))"

definition readResponse :: "bytes \<Rightarrow> ((APIKey \<times> int \<times> Response) \<times> bytes) result" where
  "readResponse conn = bindE (decodeResponseFrame conn) (\<lambda>((key, corr, payload), conn).
     bindE (decodeResponse key payload) (\<lambda>p. Inr ((key, corr, p), conn)))"

fun serveAll :: "(nat \<Rightarrow> int) \<Rightarrow> 's BrokerAPI \<Rightarrow> 's \<Rightarrow> (int \<times> Request) list \<Rightarrow>
    's \<times> (APIKey \<times> int \<times> Response) list" where
  "serveAll clock b s [] = (s, [])"
| "serveAll clock b s ((corr, q) # qs) =
     (let (s', p) = serve b s (stampRequest clock q); (s'', ps) = serveAll clock b s' qs
      in (s'', (requestKey q, corr, wireResponse p) # ps))"

definition fits :: "bytes result \<Rightarrow> bool" where
  "fits r = (case r of Inl e \<Rightarrow> False
     | Inr p \<Rightarrow> int (length p) \<le> maxFrameLength - (frameHeaderSize - 4))"

fun okCalls :: "(nat \<Rightarrow> int) \<Rightarrow> 's BrokerAPI \<Rightarrow> 's \<Rightarrow> (int \<times> Request) list \<Rightarrow> bool" where
  "okCalls clock b s [] = True"
| "okCalls clock b s ((corr, q) # qs) =
     (okID corr \<and> okRequest (stampRequest clock q) \<and> fits (encodeRequest clock q)
      \<and> (let (s', p) = serve b s (stampRequest clock q)
         in okResponse (wireResponse p) \<and> fits (encodeResponse p) \<and> okCalls clock b s' qs))"

lemma fits_frame:
  assumes "fits (Inr payload)" "okID corr"
  shows "okFrame (requestKey q, corr, payload)"
  using assms requestKey_range [of q] by (simp add: fits_def okFrame_def maxInt16_def)

lemma call_step:
  assumes "okCalls clock b s ((corr, q) # qs)"
  obtains frame answer where "sendRequest clock (corr, q) = Inr frame"
    and "\<And>conn. handleConnection b s (frame @ conn) =
      (let (s', out) = handleConnection b (fst (serve b s (stampRequest clock q))) conn
       in (s', answer @ out))"
    and "\<And>conn. readResponse (answer @ conn) =
      Inr ((requestKey q, corr, wireResponse (snd (serve b s (stampRequest clock q)))), conn)"
proof -
  obtain s' p where p: "serve b s (stampRequest clock q) = (s', p)" by fastforce
  note ok = assms [simplified okCalls.simps p prod.case Let_def]
  obtain bs where bs: "encodeRequest clock q = Inr bs" using ok encodeRequest_total by blast
  obtain rs where rs: "encodeResponse p = Inr rs" using ok encodeResponse_total encodeResponse_wire by metis
  have fq: "okFrame (requestKey q, corr, bs)" using ok fits_frame [of bs corr q] by (simp add: bs)
  have fr: "okFrame (requestKey q, corr, rs)" using ok fits_frame [of rs corr q] by (simp add: rs)
  obtain frame where frame: "encodeFrame (requestKey q) corr bs = Inr frame"
    using frm.enc_total [OF fq] by auto
  obtain answer where answer: "encodeFrame (requestKey q) corr rs = Inr answer"
    using frm.enc_total [OF fr] by auto
  have dq: "decodeFrame (frame @ conn) = Inr ((requestKey q, corr, bs), conn)" for conn
    using frm.dec_enc [OF fq, of frame conn] frame by simp
  have dr: "decodeFrame (answer @ conn) = Inr ((requestKey q, corr, rs), conn)" for conn
    using frm.dec_enc [OF fr, of answer conn] answer by simp
  have disp: "dispatch b s (requestKey q) bs = (s', Inr rs)"
    using dispatch_serve [of clock q bs b s] ok bs p rs by simp
  have dec: "decodeResponse (requestKey q) rs = Inr (wireResponse p)"
    using decodeResponse_encoded [of "wireResponse p" rs] serve_key [OF p] ok rs by (simp add: encodeResponse_wire)
  show thesis
  proof
    show "sendRequest clock (corr, q) = Inr frame"
      by (simp add: sendRequest_def bs frame encodeRequestFrame_def)
    show "handleConnection b s (frame @ conn) =
      (let (s', out) = handleConnection b (fst (serve b s (stampRequest clock q))) conn
       in (s', answer @ out))" for conn
      by (subst handleConnection.simps)
        (simp add: decodeRequestFrame_def dq disp encodeResponseFrame_def answer p)
    show "readResponse (answer @ conn) =
      Inr ((requestKey q, corr, wireResponse (snd (serve b s (stampRequest clock q)))), conn)" for conn
      by (simp add: readResponse_def decodeResponseFrame_def dr dec p)
  qed
qed

lemma handleConnection_Nil [simp]: "handleConnection b s [] = (s, [])"
  by (subst handleConnection.simps)
    (simp add: decodeRequestFrame_def decodeFrame_def readFull_def frameHeaderSize_def)

lemma connection_calls_aux:
  "okCalls clock b s qs \<Longrightarrow> \<exists>conn out. writeAll (map (sendRequest clock) qs) = Inr conn
     \<and> handleConnection b s conn = (fst (serveAll clock b s qs), out)
     \<and> readItems readResponse (length qs) out = Inr (snd (serveAll clock b s qs), [])"
proof (induction qs arbitrary: s)
  case (Cons cq qs)
  obtain corr q where cq: "cq = (corr, q)" by fastforce
  obtain s' p where p: "serve b s (stampRequest clock q) = (s', p)" by fastforce
  obtain frame answer where f: "sendRequest clock (corr, q) = Inr frame"
    and h: "\<And>conn. handleConnection b s (frame @ conn) =
      (let (s', out) = handleConnection b (fst (serve b s (stampRequest clock q))) conn
       in (s', answer @ out))"
    and r: "\<And>conn. readResponse (answer @ conn) =
      Inr ((requestKey q, corr, wireResponse (snd (serve b s (stampRequest clock q)))), conn)"
    by (rule call_step [OF Cons.prems [unfolded cq]]) (rule that)
  have "okCalls clock b s' qs" using Cons.prems by (simp add: cq p)
  from Cons.IH [OF this] obtain conn out where
    "writeAll (map (sendRequest clock) qs) = Inr conn"
    "handleConnection b s' conn = (fst (serveAll clock b s' qs), out)"
    "readItems readResponse (length qs) out = Inr (snd (serveAll clock b s' qs), [])"
    by blast
  then have "writeAll (map (sendRequest clock) (cq # qs)) = Inr (frame @ conn)
     \<and> handleConnection b s (frame @ conn) = (fst (serveAll clock b s (cq # qs)), answer @ out)
     \<and> readItems readResponse (length (cq # qs)) (answer @ out)
        = Inr (snd (serveAll clock b s (cq # qs)), [])"
    by (simp add: f cq h r p split: prod.split)
  then show ?case by blast
qed simp

section \<open>Requests that do not decode\<close>

definition decodePayload :: "APIKey \<Rightarrow> bytes \<Rightarrow> Request result" where
  "decodePayload key b =
    (if key = APIKeyCreateTopic then bindE (decodeCreateTopicRequest b) (\<lambda>q. Inr (CreateTopicQ q))
     else if key = APIKeyProduce then bindE (decodeProduceRequest b) (\<lambda>q. Inr (ProduceQ q))
     else if key = APIKeyProduceByKey
       then bindE (decodeProduceByKeyRequest b) (\<lambda>q. Inr (ProduceByKeyQ q))
     else if key = APIKeyFetch then bindE (decodeFetchRequest b) (\<lambda>q. Inr (FetchQ q))
     else if key = APIKeyListOffsets then bindE (decodeListOffsetsRequest b) (\<lambda>q. Inr (ListOffsetsQ q))
     else if key = APIKeyCommitOffset then bindE (decodeCommitOffsetRequest b) (\<lambda>q. Inr (CommitOffsetQ q))
     else if key = APIKeyFetchCommitted
       then bindE (decodeFetchCommittedRequest b) (\<lambda>q. Inr (FetchCommittedQ q))
     else if key = APIKeyMetadata then bindE (decodeMetadataRequest b) (\<lambda>q. Inr (MetadataQ q))
     else if key = APIKeyPing then bindE (decodePingRequest b) (\<lambda>q. Inr (PingQ q))
     else Inl (Errorf ''unknown api key %d''))"

fun responseError :: "Response \<Rightarrow> ErrorCode" where
  "responseError (CreateTopicP p) = ctp_Error p"
| "responseError (ProduceP p) = pp_Error p"
| "responseError (ProduceByKeyP p) = kp_Error p"
| "responseError (FetchP p) = fp_Error p"
| "responseError (ListOffsetsP p) = lp_Error p"
| "responseError (CommitOffsetP p) = cop_Error p"
| "responseError (FetchCommittedP p) = fcp_Error p"
| "responseError (MetadataP p) = mp_Error p"
| "responseError (PingP p) = pgp_Error p"

lemma key_cases:
  assumes "0 \<le> key" "key \<le> 8"
  obtains "key = APIKeyCreateTopic" | "key = APIKeyProduce" | "key = APIKeyProduceByKey"
    | "key = APIKeyFetch" | "key = APIKeyListOffsets" | "key = APIKeyCommitOffset"
    | "key = APIKeyFetchCommitted" | "key = APIKeyMetadata" | "key = APIKeyPing"
proof -
  have "key = 0 \<or> key = 1 \<or> key = 2 \<or> key = 3 \<or> key = 4 \<or> key = 5 \<or> key = 6 \<or> key = 7 \<or> key = 8"
    using assms by arith
  then show thesis using that unfolding APIKey_defs by blast
qed

lemma errorResponse_decodes:
  assumes "0 \<le> key" "key \<le> 8"
  shows "\<exists>bs p. errorResponseForKey key ErrInvalidRequest = Inr bs \<and> decodeResponse key bs = Inr p
    \<and> responseError p = ErrInvalidRequest"
proof -
  have c: "okCode ErrInvalidRequest" by (simp add: okCode_def ErrorCode_defs inS_def)
  have s: "inS 64 (-1)" "inS 64 0" "inS 16 ErrInvalidRequest"
    using c by (simp_all add: inS_def okCode_def)
  have z: "inS 32 0" "inS 32 (-1)" by (simp_all add: inS_def)
  show ?thesis
    using assms
    by (rule key_cases)
      (simp_all add: errorResponseForKey_def decodeResponse_def APIKey_defs s z
        encodeCreateTopicResponse_def decodeCreateTopicResponse_def
        encodeProduceResponse_def decodeProduceResponse_def encodeProduceByKeyResponse_def
        decodeProduceByKeyResponse_def maxInt32_def encodeFetchResponse_def decodeFetchResponse_def
        putRecords_def readRecords_def put32_def toInt32Checked_def checkCount_def maxItemCount_def
        encodeListOffsetsResponse_def decodeListOffsetsResponse_def
        encodeCommitOffsetResponse_def decodeCommitOffsetResponse_def
        encodeFetchCommittedResponse_def decodeFetchCommittedResponse_def
        encodeMetadataResponse_def decodeMetadataResponse_def
        encodePingResponse_def decodePingResponse_def)
qed

lemma dispatch_payload:
  assumes "0 \<le> key" "key \<le> 8"
  shows "dispatch b s key payload = (case decodePayload key payload of
      Inl e \<Rightarrow> (s, errorResponseForKey key ErrInvalidRequest)
    | Inr q \<Rightarrow> (let (s', p) = serve b s q in (s', encodeResponse p)))"
  using assms
  by (rule key_cases)
    (auto simp: dispatch_def handler_defs decodeRequest_def decodePayload_def APIKey_defs bindE_def
      buildHandlers_simps [unfolded APIKey_defs]
      split: sum.split prod.split)


section \<open>Properties\<close>

text \<open>C8: a connection implements remote calls.  When every request and every response is
  within the limits of the format, the requests a client pipelines on one connection are
  encoded, the server calls the broker once per request and in their order, and what the
  client reads back is one response per request, in order, each with the key and the
  correlation id of its request and the values the broker returned, less the checksums of records.\<close>

theorem connection_refines_calls:
  assumes "okCalls clock b s qs"
  shows "\<exists>conn out. writeAll (map (sendRequest clock) qs) = Inr conn
    \<and> handleConnection b s conn = (fst (serveAll clock b s qs), out)
    \<and> readItems readResponse (length qs) out = Inr (snd (serveAll clock b s qs), [])"
  using assms by (rule connection_calls_aux)

text \<open>A broker that only stores committed offsets, for the witness.\<close>

definition offsetsOnly :: "(string \<Rightarrow> int) BrokerAPI" where
  "offsetsOnly = \<lparr>api_CreateTopic = \<lambda>s n c. (s, Some TopicExists),
     api_Produce = \<lambda>s t p rs. (s, -1, Some TopicNotFound),
     api_ProduceByKey = \<lambda>s t k rs. (s, -1, -1, Some TopicNotFound),
     api_Fetch = \<lambda>s t p off m. (s, [], Some PartitionNotFound),
     api_ListOffsets = \<lambda>s t p. (s, 0, 0, None),
     api_CommitOffset = \<lambda>s g t p off. (s(g := off), None),
     api_FetchCommitted = \<lambda>s g t p. (s, s g, None),
     api_Metadata = \<lambda>s ts. (s, [], None)\<rparr>"

definition exampleCalls :: "(int \<times> Request) list" where
  "exampleCalls = [(1, CommitOffsetQ \<lparr>coq_Group = ''g'', coq_Topic = ''t'', coq_Partition = 0, coq_Offset = 7\<rparr>),
     (2, FetchCommittedQ \<lparr>fcq_Group = ''g'', fcq_Topic = ''t'', fcq_Partition = 0\<rparr>)]"

lemmas call_eval = offsetsOnly_def exampleCalls_def fits_def ok_defs okString_def inS_def net_limits
  mapError_def ErrorCode_defs encodeCommitOffsetRequest_def encodeFetchCommittedRequest_def
  encodeCommitOffsetResponse_def encodeFetchCommittedResponse_def put32_def toInt32Checked_def

theorem connection_refines_calls_witness:
  "okCalls (\<lambda>i. 0) offsetsOnly (\<lambda>g. -1) exampleCalls \<and>
   (\<exists>conn out. writeAll (map (sendRequest (\<lambda>i. 0)) exampleCalls) = Inr conn
    \<and> handleConnection offsetsOnly (\<lambda>g. -1) conn = ((\<lambda>g. -1)(''g'' := 7), out)
    \<and> readItems readResponse 2 out =
       Inr ([(4, 1, CommitOffsetP \<lparr>cop_Error = 0\<rparr>),
             (5, 2, FetchCommittedP \<lparr>fcp_Offset = 7, fcp_Error = 0\<rparr>)], []))"
proof -
  have ok: "okCalls (\<lambda>i. 0) offsetsOnly (\<lambda>g. -1) exampleCalls"
    by (simp add: call_eval)
  have r: "serveAll (\<lambda>i. 0) offsetsOnly (\<lambda>g. -1) exampleCalls = ((\<lambda>g. -1)(''g'' := 7),
      [(4, 1, CommitOffsetP \<lparr>cop_Error = 0\<rparr>), (5, 2, FetchCommittedP \<lparr>fcp_Offset = 7, fcp_Error = 0\<rparr>)])"
    by (simp add: call_eval APIKey_defs)
  have l: "length exampleCalls = 2" by (simp add: exampleCalls_def)
  show ?thesis using connection_refines_calls [OF ok] ok unfolding r l by simp
qed

text \<open>C26: a payload that does not decode never reaches the broker: for every known key the
  handler leaves the broker as it was and answers with a response of that key's type that the
  client decodes to \<^verbatim>\<open>ErrInvalidRequest\<close>; a payload that decodes is always passed to the
  broker.  An unknown key also leaves the broker as it was; it is answered by an error of \<^verbatim>\<open>dispatch\<close> and no response.\<close>

theorem malformed_request_rejected:
  "if 0 \<le> key \<and> key \<le> 8
   then (case decodePayload key payload of
      Inl e \<Rightarrow> (\<exists>bs p. dispatch b s key payload = (s, Inr bs) \<and> decodeResponse key bs = Inr p
                \<and> responseError p = ErrInvalidRequest)
    | Inr q \<Rightarrow> dispatch b s key payload = (let (s', p) = serve b s q in (s', encodeResponse p)))
   else (\<exists>e. dispatch b s key payload = (s, Inl e))"
proof (cases "0 \<le> key \<and> key \<le> 8")
  case True
  then show ?thesis
    using dispatch_payload [of key b s payload] errorResponse_decodes [of key]
    by (auto split: sum.split)
next
  case False
  then show ?thesis by (auto simp: dispatch_def buildHandlers_None not_le)
qed

end
