(* ===== verification/Checksum.thy ===== *)
theory Checksum
  imports Prelude
begin

text \<open>
  The CRC-32C checksum of Go's \<^verbatim>\<open>hash/crc32\<close> over the Castagnoli polynomial, which guards
  every record of the three on-disk logs.  The main lemma says that the checksum tells apart any two
  inputs that differ in a single byte.
\<close>

unbundle bit_operations_syntax

section \<open>CRC-32C\<close>

text \<open>One step of the reflected shift register; \<open>0x82F63B78\<close> is the reversed polynomial.\<close>

definition crc_bit :: "32 word \<Rightarrow> 32 word" where
  "crc_bit x = (if x AND 1 = 1 then drop_bit 1 x XOR 0x82F63B78 else drop_bit 1 x)"

definition crc_byte :: "32 word \<Rightarrow> byte \<Rightarrow> 32 word" where
  "crc_byte c b = (crc_bit ^^ 8) (c XOR ucast b)"

definition crc32c_word :: "bytes \<Rightarrow> 32 word" where
  "crc32c_word d = NOT (foldl crc_byte (NOT 0) d)"

text \<open>\<^verbatim>\<open>crc32.Checksum(data, crc32.MakeTable(crc32.Castagnoli))\<close> as an unsigned integer.\<close>

definition crc32c :: "bytes \<Rightarrow> int" where
  "crc32c d = uint (crc32c_word d)"

lemma crc32c_range [simp]: "inU 32 (crc32c d)"
  using uint_lt2p [of "crc32c_word d"] by (simp add: crc32c_def inU_def)

lemma xor_cancel_right: "(c XOR u = d XOR u) = (c = (d :: 'a::len word))"
  by (metis xor.assoc xor.right_neutral xor_self_eq)

lemma xor_cancel_left: "(u XOR c = u XOR d) = (c = (d :: 'a::len word))"
  by (metis xor.commute xor_cancel_right)

lemma and1_bit: "(z AND 1 = 1) = bit (z :: 32 word) 0"
  by (simp add: and_one_eq bit_0 mod_2_eq_odd)

lemma inj_crc_bit: "inj crc_bit"
proof (rule injI)
  fix x y assume eq: "crc_bit x = crc_bit y"
  have "\<not> bit (z :: 32 word) 32" for z using bit_imp_le_length [of z 32] by auto
  then have top: "bit (crc_bit z) 31 \<longleftrightarrow> bit z 0" for z
    by (simp add: crc_bit_def and1_bit bit_simps)
  from eq have b0: "bit x 0 = bit y 0" using top by metis
  with eq have d: "drop_bit 1 x = drop_bit 1 y"
    by (auto simp: crc_bit_def and1_bit xor_cancel_right split: if_splits)
  show "x = y"
  proof (rule bit_word_eqI)
    fix n assume "n < LENGTH(32)"
    have "bit (drop_bit 1 x) m = bit (drop_bit 1 y) m" for m using d by simp
    then show "bit x n = bit y n" using b0 by (cases n) (simp_all add: bit_simps)
  qed
qed

lemma inj_crc_bits: "inj (crc_bit ^^ n)"
proof (induction n)
  case (Suc n)
  then have "inj (crc_bit \<circ> crc_bit ^^ n)" by (intro inj_compose inj_crc_bit)
  then show ?case by (simp add: comp_def)
qed simp

lemma crc_byte_inj_state: "crc_byte c b = crc_byte d b \<Longrightarrow> c = d"
  by (simp add: crc_byte_def inj_eq [OF inj_crc_bits] xor_cancel_right)

lemma ucast_byte_inj:
  assumes "(ucast a :: 32 word) = ucast (b :: byte)"
  shows "a = b"
proof -
  have "uint (ucast (z :: byte) :: 32 word) = uint z" for z
    by (rule uint_up_ucast) (simp add: is_up)
  then show ?thesis using assms by (metis word_uint_eqI)
qed

lemma crc_byte_inj_byte:
  assumes "crc_byte c a = crc_byte c b"
  shows "a = b"
proof -
  have "(ucast a :: 32 word) = ucast b"
    using assms by (simp add: crc_byte_def inj_eq [OF inj_crc_bits] xor_cancel_left)
  then show ?thesis by (rule ucast_byte_inj)
qed

lemma foldl_crc_inj: "foldl crc_byte c d = foldl crc_byte c' d \<Longrightarrow> c = c'"
  by (induction d arbitrary: c c') (auto dest: crc_byte_inj_state)

text \<open>Replacing one byte of the input changes the checksum.\<close>

lemma crc32c_detects_byte:
  assumes "a \<noteq> b"
  shows "crc32c (p @ a # s) \<noteq> crc32c (p @ b # s)"
proof
  assume "crc32c (p @ a # s) = crc32c (p @ b # s)"
  then have "foldl crc_byte (crc_byte (foldl crc_byte (NOT 0) p) a) s =
             foldl crc_byte (crc_byte (foldl crc_byte (NOT 0) p) b) s"
    by (simp add: crc32c_def crc32c_word_def word_uint_eq_iff [symmetric] bit.compl_eq_compl_iff)
  then show False using assms foldl_crc_inj crc_byte_inj_byte by blast
qed

text \<open>Any change of a single byte of a payload invalidates its checksum.\<close>

lemma crc32c_update:
  assumes "j < length p" "x \<noteq> p ! j"
  shows "crc32c (p[j := x]) \<noteq> crc32c p"
proof -
  have "p = take j p @ p ! j # drop (Suc j) p" using assms(1) by (rule id_take_nth_drop)
  moreover have "p[j := x] = take j p @ x # drop (Suc j) p" using assms(1) by (rule upd_conv_take_nth_drop)
  ultimately show ?thesis using crc32c_detects_byte [OF assms(2)] by metis
qed

text \<open>The check value of the CRC catalogue: the checksum of the digits one to nine.\<close>

lemma crc_byte_unroll: "crc_byte c b =
    crc_bit (crc_bit (crc_bit (crc_bit (crc_bit (crc_bit (crc_bit (crc_bit (c XOR ucast b))))))))"
  by (simp add: crc_byte_def eval_nat_numeral)

lemma crc32c_check_value: "crc32c (string_bytes ''123456789'') = 0xE3069283"
  by (simp add: crc32c_def crc32c_word_def string_bytes_def byte_of_char_def crc_byte_unroll
      crc_bit_def)

end
