(* ===== verification/Wal.thy ===== *)
theory Wal
  imports Prelude
begin

text \<open>
  What the three append-only logs of the program have in common: \<^verbatim>\<open>metadata.log\<close>,
  \<^verbatim>\<open>offsets.log\<close> and the segment files of a partition are concatenations of framed records,
  and each is recovered by a scan that stops at the first frame it cannot read and truncates
  there.  The interface (locale \<open>wal\<close>) has the two laws the scans promise, one for a whole
  frame and one for a frame cut short; crash recovery is proved once from them.
\<close>

text \<open>
  \<open>wal_log frame step s rs\<close> is the file that holds the records \<open>rs\<close>, where the frame of a
  record may depend on the state \<open>s\<close> reached before it; \<open>wal_whole\<close> are the records whose
  frames lie entirely within the first \<open>k\<close> bytes.
\<close>

fun wal_log :: "('s \<Rightarrow> 'r \<Rightarrow> bytes) \<Rightarrow> ('s \<Rightarrow> 'r \<Rightarrow> 's) \<Rightarrow> 's \<Rightarrow> 'r list \<Rightarrow> bytes" where
  "wal_log frame step s [] = []"
| "wal_log frame step s (r # rs) = frame s r @ wal_log frame step (step s r) rs"

fun wal_whole :: "('s \<Rightarrow> 'r \<Rightarrow> bytes) \<Rightarrow> ('s \<Rightarrow> 'r \<Rightarrow> 's) \<Rightarrow> 's \<Rightarrow> 'r list \<Rightarrow> nat \<Rightarrow> 'r list" where
  "wal_whole frame step s [] k = []"
| "wal_whole frame step s (r # rs) k =
     (if length (frame s r) \<le> k
      then r # wal_whole frame step (step s r) rs (k - length (frame s r)) else [])"

fun wal_ok :: "('s \<Rightarrow> 'r \<Rightarrow> bool) \<Rightarrow> ('s \<Rightarrow> 'r \<Rightarrow> 's) \<Rightarrow> 's \<Rightarrow> 'r list \<Rightarrow> bool" where
  "wal_ok ok step s [] = True"
| "wal_ok ok step s (r # rs) = (ok s r \<and> wal_ok ok step (step s r) rs)"

lemma wal_whole_prefix: "\<exists>m. wal_whole frame step s rs k = take m rs"
proof (induction rs arbitrary: s k)
  case (Cons r rs)
  show ?case
  proof (cases "length (frame s r) \<le> k")
    case True
    obtain m where "wal_whole frame step (step s r) rs (k - length (frame s r)) = take m rs"
      using Cons.IH by blast
    then have "wal_whole frame step s (r # rs) k = take (Suc m) (r # rs)" using True by simp
    then show ?thesis by blast
  qed (auto intro: exI [of _ 0])
qed simp

text \<open>The whole frames are the longest prefix of the records whose log fits.\<close>

lemma wal_whole_longest:
  "\<exists>m. m \<le> length rs \<and> wal_whole frame step s rs k = take m rs
     \<and> length (wal_log frame step s (take m rs)) \<le> k
     \<and> (m < length rs \<longrightarrow> k < length (wal_log frame step s (take (Suc m) rs)))"
proof (induction rs arbitrary: s k)
  case (Cons r rs)
  show ?case
  proof (cases "length (frame s r) \<le> k")
    case True
    obtain m where "m \<le> length rs"
      "wal_whole frame step (step s r) rs (k - length (frame s r)) = take m rs"
      "length (wal_log frame step (step s r) (take m rs)) \<le> k - length (frame s r)"
      "m < length rs \<longrightarrow> k - length (frame s r) < length (wal_log frame step (step s r) (take (Suc m) rs))"
      using Cons.IH by blast
    then show ?thesis using True by (intro exI [of _ "Suc m"]) auto
  qed (auto intro: exI [of _ 0])
qed simp

lemma wal_ok_const: "wal_ok (\<lambda>s. P) step s rs = list_all P rs"
  by (induction rs arbitrary: s) simp_all

lemma wal_log_const: "wal_log (\<lambda>s. f) step s rs = concat (map f rs)"
  by (induction rs arbitrary: s) simp_all

lemma wal_whole_all:
  "length (wal_log frame step s rs) \<le> k \<Longrightarrow> wal_whole frame step s rs k = rs"
  by (induction rs arbitrary: s k) auto

lemma wal_log_append:
  "wal_log frame step s (rs @ qs) =
   wal_log frame step s rs @ wal_log frame step (foldl step s rs) qs"
  by (induction rs arbitrary: s) simp_all

lemma wal_ok_append:
  "wal_ok ok step s (rs @ qs) \<longleftrightarrow> wal_ok ok step s rs \<and> wal_ok ok step (foldl step s rs) qs"
  by (induction rs arbitrary: s) auto

lemma readAt_len_pos:
  "fileReadAt c 4 pos = Inr b \<Longrightarrow> 0 \<le> val_uint LittleEndian b"
  using val_uint_bounds [of LittleEndian b] by simp

text \<open>The advance of one iteration on a file of less than 4 GiB.\<close>

lemma advance_ok:
  assumes "length c < 2 ^ 32" "fileReadAt c 4 pos = Inr b"
    "fileReadAt c (nat (val_uint LittleEndian b)) (pos + 4) = Inr r"
  shows "pos < pos + nat ((4 + val_uint LittleEndian b) mod 2 ^ 32)"
    "pos + nat ((4 + val_uint LittleEndian b) mod 2 ^ 32) \<le> length c"
proof -
  let ?l = "val_uint LittleEndian b"
  have l: "0 \<le> ?l" by (rule readAt_len_pos [OF assms(2)])
  have le: "pos + 4 + nat ?l \<le> length c" using assms(3) by (simp add: fileReadAt_Inr)
  then have "(4 + ?l) mod 2 ^ 32 = 4 + ?l" using assms(1) l by (intro mod_pos_pos_trivial) simp_all
  then show "pos < pos + nat ((4 + ?l) mod 2 ^ 32)" "pos + nat ((4 + ?l) mod 2 ^ 32) \<le> length c"
    using l le by simp_all
qed

text \<open>
  \<open>scan s pos c\<close> is the recovery loop on the file contents \<open>c\<close> from byte \<open>pos\<close> in state \<open>s\<close>;
  it returns the state reached and the end of the last good frame (\<open>None\<close>: it never returns).
  The laws are required of files that satisfy \<open>small\<close>.
\<close>

locale wal =
  fixes frame :: "'s \<Rightarrow> 'r \<Rightarrow> bytes"
    and step :: "'s \<Rightarrow> 'r \<Rightarrow> 's"
    and ok :: "'s \<Rightarrow> 'r \<Rightarrow> bool"
    and scan :: "'s \<Rightarrow> nat \<Rightarrow> bytes \<Rightarrow> ('s \<times> nat) option"
    and small :: "bytes \<Rightarrow> bool"
  assumes scan_end: "scan s (length p) p = Some (s, length p)"
    and scan_frame: "ok s r \<Longrightarrow> small (p @ frame s r @ t) \<Longrightarrow>
      scan s (length p) (p @ frame s r @ t) =
      scan (step s r) (length p + length (frame s r)) (p @ frame s r @ t)"
    and scan_torn: "ok s r \<Longrightarrow> k < length (frame s r) \<Longrightarrow>
      scan s (length p) (p @ take k (frame s r)) = Some (s, length p)"
begin

lemma scan_through:
  "wal_ok ok step s rs \<Longrightarrow> small (p @ wal_log frame step s rs @ t) \<Longrightarrow>
   scan s (length p) (p @ wal_log frame step s rs @ t) =
   scan (foldl step s rs) (length (p @ wal_log frame step s rs)) (p @ wal_log frame step s rs @ t)"
proof (induction rs arbitrary: s p)
  case (Cons r rs)
  let ?f = "frame s r" and ?l = "wal_log frame step (step s r) rs"
  have "scan s (length p) (p @ ?f @ ?l @ t) = scan (step s r) (length (p @ ?f)) ((p @ ?f) @ ?l @ t)"
    using scan_frame [of s r p "?l @ t"] Cons.prems by simp
  also have "\<dots> = scan (foldl step (step s r) rs) (length ((p @ ?f) @ ?l)) ((p @ ?f) @ ?l @ t)"
    using Cons.prems by (intro Cons.IH) simp_all
  finally show ?case by simp
qed simp

lemma scan_log:
  assumes "wal_ok ok step s rs" "small (p @ wal_log frame step s rs)"
  shows "scan s (length p) (p @ wal_log frame step s rs) =
    Some (foldl step s rs, length (p @ wal_log frame step s rs))"
  using scan_through [of s rs p "[]"] scan_end [of "foldl step s rs" "p @ wal_log frame step s rs"]
    assms by simp

text \<open>Crash recovery: a file cut at any byte recovers exactly the whole frames before the cut.\<close>

lemma scan_cut:
  "wal_ok ok step s rs \<Longrightarrow> small (p @ take k (wal_log frame step s rs)) \<Longrightarrow>
   scan s (length p) (p @ take k (wal_log frame step s rs)) =
   Some (foldl step s (wal_whole frame step s rs k),
         length (p @ wal_log frame step s (wal_whole frame step s rs k)))"
proof (induction rs arbitrary: s p k)
  case Nil
  then show ?case by (simp add: scan_end)
next
  case (Cons r rs)
  let ?f = "frame s r" and ?l = "wal_log frame step (step s r) rs"
  show ?case
  proof (cases "length ?f \<le> k")
    case True
    let ?t = "take (k - length ?f) ?l"
    have "scan s (length p) (p @ ?f @ ?t) = scan (step s r) (length (p @ ?f)) ((p @ ?f) @ ?t)"
      using scan_frame [of s r p ?t] Cons.prems True by simp
    also have "\<dots> = Some (foldl step (step s r) (wal_whole frame step (step s r) rs (k - length ?f)),
        length ((p @ ?f) @ wal_log frame step (step s r)
          (wal_whole frame step (step s r) rs (k - length ?f))))"
      using Cons.prems True by (intro Cons.IH) simp_all
    finally show ?thesis using True by simp
  next
    case False
    then have "take k (?f @ ?l) = take k ?f" by simp
    then show ?thesis using scan_torn [of s r k p] Cons.prems False by simp
  qed
qed

end

end
