(* ===== verification/LogCodec.thy ===== *)
theory LogCodec
  imports Api Checksum Wal
begin

text \<open>
  Records inside a segment file (\<^verbatim>\<open>internal/storage/log.go\<close>): encoding and decoding with
  CRC-32C, the validation of a stored record, the scan that recovers a segment, and the
  sparse index: rebuilding, loading and the binary search.  Integers are little-endian.
\<close>

section \<open>Checked conversions\<close>

definition toInt32Length :: "int \<Rightarrow> string \<Rightarrow> int result" where
  "toInt32Length n field =
    (if n < 0 \<or> n > 2147483647 then Inl (Errorf (field @ '' out of int32 range: %d'')) else Inr n)"

definition toUint32Length_log :: "int \<Rightarrow> int result" where
  "toUint32Length_log n =
    (if n < 0 then Inl (Errorf ''negative length %d'')
     else if n > 4294967295 then Inl (Errorf ''length exceeds uint32 max: %d'')
     else Inr n)"

definition maxInt64Uint :: int where "maxInt64Uint = 9223372036854775807"

definition offsetToUint64 :: "int \<Rightarrow> int result" where
  "offsetToUint64 offset = (if offset < 0 then Inl (Errorf ''negative offset: %d'') else Inr offset)"

definition uint64ToOffset :: "int \<Rightarrow> int result" where
  "uint64ToOffset v = (if v > maxInt64Uint then Inl (Errorf ''offset out of int64 range: %d'') else Inr v)"

definition uint64ToInt64 :: "int \<Rightarrow> string \<Rightarrow> int result" where
  "uint64ToInt64 v field =
    (if v > maxInt64Uint then Inl (Errorf (field @ '' out of int64 range: %d'')) else Inr v)"

definition readInt32 :: "bytes \<Rightarrow> int result" where
  "readInt32 data = (if length data \<noteq> 4 then Inl (Errorf ''invalid int32 length: %d'')
     else bindE (getLI32 data) (\<lambda>(v, _). Inr v))"

section \<open>Encoding\<close>

definition writeRecordPrefix :: "bytes result" where
  "writeRecordPrefix = Inr (le32 0 @ le32 0)"

definition writeRecordFixedFields :: "Record \<Rightarrow> bytes result" where
  "writeRecordFixedFields r = bindE (offsetToUint64 (r_Offset r)) (\<lambda>offset.
     Inr (le64 offset @ le64 (unixNano (r_Timestamp r))))"

definition writeRecordBytesField :: "bytes option \<Rightarrow> bytes result" where
  "writeRecordBytesField b = (case b of
       None \<Rightarrow> Inr (le32 (-1))
     | Some x \<Rightarrow> bindE (toInt32Length (int (length x)) ''record byte field length'') (\<lambda>len.
         Inr (le32 len @ x)))"

definition writeRecordHeader :: "Header \<Rightarrow> bytes result" where
  "writeRecordHeader h = writeAll
     [writeRecordBytesField (Some (string_bytes (h_Key h))), writeRecordBytesField (h_Value h)]"

definition writeRecordHeaders :: "Header list \<Rightarrow> bytes result" where
  "writeRecordHeaders headers = writeAll
     (bindE (toInt32Length (int (length headers)) ''headers count'') (\<lambda>n. Inr (le32 n))
      # map writeRecordHeader headers)"

definition encodeRecord_log :: "Record \<Rightarrow> bytes result" where
  "encodeRecord_log r =
    bindE (writeAll [writeRecordPrefix, writeRecordFixedFields r, writeRecordBytesField (r_Key r),
      writeRecordBytesField (r_Value r), writeRecordHeaders (r_Headers r)]) (\<lambda>recordBytes.
    bindE (toUint32Length_log (int (length recordBytes) - 4)) (\<lambda>recordSize.
    Inr (le32 recordSize @ le32 (crc32c (drop 8 recordBytes)) @ drop 8 recordBytes)))"

section \<open>Decoding\<close>

text \<open>
  The decoder walks the record with an index; here it passes on the bytes from the index on.
\<close>

definition decodeRecordPrefix :: "bytes \<Rightarrow> (Record \<times> bytes) result" where
  "decodeRecordPrefix data =
    (if length data < 4 + 8 + 8 + 4 + 4 + 4 then Inl (Errorf ''record too small'')
     else let crc = val_uint LittleEndian (take 4 data) in
       case uint64ToOffset (val_uint LittleEndian (take 8 (drop 4 data))) of
         Inl e \<Rightarrow> Inl (Errorf ''invalid record offset: %w'')
       | Inr offset \<Rightarrow>
         bindE (uint64ToInt64 (val_uint LittleEndian (take 8 (drop 12 data))) ''timestamp'') (\<lambda>ts.
         Inr (\<lparr>r_Offset = offset, r_Timestamp = Some ts, r_Key = None, r_Value = None,
               r_Headers = [], r_CRC32C = crc\<rparr>, drop 20 data)))"

definition readRecordBytesField :: "bytes \<Rightarrow> (bytes option \<times> bytes) result" where
  "readRecordBytesField data =
    (if 4 > length data then Inl (Errorf ''invalid length'')
     else bindE (readInt32 (take 4 data)) (\<lambda>l.
       let data = drop 4 data in
       if l < 0 then Inr (None, data)
       else if l > int (length data) then Inl (Errorf ''invalid length'')
       else Inr (Some (take (nat l) data), drop (nat l) data)))"

definition readRecordHeader :: "bytes \<Rightarrow> (Header \<times> bytes) result" where
  "readRecordHeader data =
     bindE (readRecordBytesField data) (\<lambda>(k, data).
     bindE (readRecordBytesField data) (\<lambda>(v, data).
     Inr (\<lparr>h_Key = bytes_string (case k of None \<Rightarrow> [] | Some b \<Rightarrow> b), h_Value = v\<rparr>, data)))"

definition readRecordHeaders :: "bytes \<Rightarrow> (Header list \<times> bytes) result" where
  "readRecordHeaders data =
    (if 4 > length data then Inl (Errorf ''invalid header count'')
     else bindE (readInt32 (take 4 data)) (\<lambda>rawCount.
       if rawCount < 0 then Inl (Errorf ''invalid header count'')
       else readItems readRecordHeader (nat rawCount) (drop 4 data)))"

definition decodeRecord_log :: "bytes \<Rightarrow> Record result" where
  "decodeRecord_log data =
     bindE (decodeRecordPrefix data) (\<lambda>(r, rest).
     bindE (readRecordBytesField rest) (\<lambda>(key, rest).
     bindE (readRecordBytesField rest) (\<lambda>(val, rest).
     bindE (readRecordHeaders rest) (\<lambda>(headers, rest).
     if rest \<noteq> [] then Inl (Errorf ''trailing bytes in record'')
     else Inr (r\<lparr>r_Key := key, r_Value := val, r_Headers := headers\<rparr>)))))"

definition validateRecord :: "bytes \<Rightarrow> int \<Rightarrow> unit result" where
  "validateRecord data expectedOffset =
    (if length data < 4 + 8 + 8 + 4 + 4 + 4 then Inl (Errorf ''record too small'')
     else if val_uint LittleEndian (take 4 data) \<noteq> crc32c (drop 4 data)
       then Inl (Errorf ''crc mismatch'')
     else case uint64ToOffset (val_uint LittleEndian (take 8 (drop 4 data))) of
         Inl e \<Rightarrow> Inl (Errorf ''invalid offset: %w'')
       | Inr offset \<Rightarrow>
         if offset \<noteq> expectedOffset then Inl (Errorf ''offset mismatch: got %d expected %d'')
         else case decodeRecord_log data of
           Inl e \<Rightarrow> Inl (Errorf ''invalid record body: %w'')
         | Inr _ \<Rightarrow> Inr ())"

section \<open>Scanning a segment\<close>

text \<open>
  The loop of \<^verbatim>\<open>scanSegment\<close>: the next offset and the length of the valid prefix.  The position
  read from and the number of valid bytes are always equal in the code; both advance by
  \<^verbatim>\<open>int64(4 + size)\<close>, computed in \<^verbatim>\<open>uint32\<close>.
\<close>

partial_function (option) scanLoop :: "bytes \<Rightarrow> int \<Rightarrow> nat \<Rightarrow> (int \<times> nat) option" where
  "scanLoop c nextOffset readerOffset =
    (case fileReadAt c 4 readerOffset of
       Inl e \<Rightarrow> Some (nextOffset, readerOffset)
     | Inr headerBuf \<Rightarrow>
       (let size = val_uint LittleEndian headerBuf in
        if size = 0 then Some (nextOffset, readerOffset)
        else case fileReadAt c (nat size) (readerOffset + 4) of
          Inl e \<Rightarrow> Some (nextOffset, readerOffset)
        | Inr recordBuf \<Rightarrow>
          (case validateRecord recordBuf nextOffset of
             Inl e \<Rightarrow> Some (nextOffset, readerOffset)
           | Inr _ \<Rightarrow> scanLoop c (wrapS 64 (nextOffset + 1))
               (readerOffset + nat ((4 + size) mod 2 ^ 32)))))"

definition scanSegment :: "bytes \<Rightarrow> int \<Rightarrow> (int \<times> nat) option" where
  "scanSegment c base = scanLoop c base 0"

section \<open>The sparse index\<close>

type_synonym indexEntry = "int \<times> int"  \<comment> \<open>relative offset and position\<close>

definition putIndexEntry :: "int \<Rightarrow> int \<Rightarrow> bytes" where
  "putIndexEntry rel pos = le64 rel @ le64 pos"

text \<open>The loop of \<^verbatim>\<open>rebuildIndex\<close> over the log file \<open>c\<close>, returning the bytes it writes.\<close>

partial_function (option) rebuildLoop :: "bytes \<Rightarrow> int \<Rightarrow> int \<Rightarrow> nat \<Rightarrow> int \<Rightarrow> int \<Rightarrow> bytes \<Rightarrow> bytes option" where
  "rebuildLoop c base interval readerOffset count expected out =
    (case fileReadAt c 4 readerOffset of
       Inl e \<Rightarrow> Some out
     | Inr headerBuf \<Rightarrow>
       (let size = val_uint LittleEndian headerBuf in
        if size = 0 then Some out
        else case fileReadAt c (nat size) (readerOffset + 4) of
          Inl e \<Rightarrow> Some out
        | Inr recordBuf \<Rightarrow>
          (case validateRecord recordBuf expected of
             Inl e \<Rightarrow> Some out
           | Inr _ \<Rightarrow> rebuildLoop c base interval (readerOffset + nat ((4 + size) mod 2 ^ 32))
               (count + 1) (wrapS 64 (expected + 1))
               (if count mod interval = 0
                then out @ putIndexEntry (expected - base) (int readerOffset) else out))))"

definition rebuildIndex :: "bytes \<Rightarrow> int \<Rightarrow> int \<Rightarrow> bytes option" where
  "rebuildIndex c base interval =
    rebuildLoop c base (if interval \<le> 0 then 1024 else interval) 0 0 base (le64 base)"

text \<open>The loop of \<^verbatim>\<open>loadIndex\<close>; a partial entry at the end of the file is an error.\<close>

function loadEntries :: "int \<Rightarrow> int \<Rightarrow> bytes \<Rightarrow> indexEntry list result" where
  "loadEntries lastRel lastPos b = (case getLI64 b of
       Inl EOF \<Rightarrow> Inr []
     | Inl e \<Rightarrow> Inl (Errorf ''invalid index: read relative offset: %w'')
     | Inr (rel, b') \<Rightarrow> (case getLI64 b' of
         Inl e \<Rightarrow> Inl (Errorf ''invalid index: read position: %w'')
       | Inr (pos, b'') \<Rightarrow>
         if rel < 0 \<or> pos < 0 then Inl (Errorf ''invalid index entry rel=%d pos=%d'')
         else if rel < lastRel \<or> pos < lastPos then Inl (Errorf ''invalid index ordering rel=%d pos=%d'')
         else bindE (loadEntries rel pos b'') (\<lambda>es. Inr ((rel, pos) # es))))"
  by pat_completeness auto
termination
  by (relation "measure (\<lambda>(r, p, b). length b)")
    (auto simp: read_int_def readFull_Inr elim!: bindE_Inr_E)

declare loadEntries.simps [simp del]

definition loadIndex :: "bytes option \<Rightarrow> int \<Rightarrow> indexEntry list result" where
  "loadIndex idx base = (case idx of
       None \<Rightarrow> Inl (Errorf ''no such file'')
     | Some b \<Rightarrow> (case getLI64 b of
         Inl e \<Rightarrow> Inl (Errorf ''invalid index header'')
       | Inr (hdr, b') \<Rightarrow> if hdr \<noteq> base then Inl (Errorf ''invalid index header'')
           else loadEntries (-1) (-1) b'))"

text \<open>
  The binary search of \<^verbatim>\<open>lookupIndex\<close>: \<open>lo\<close>, \<open>hi\<close> and \<open>best\<close> are Go \<^verbatim>\<open>int\<close>s, \<open>hi\<close> and \<open>best\<close>
  may be -1.
\<close>

function searchIndex :: "indexEntry list \<Rightarrow> int \<Rightarrow> int \<Rightarrow> int \<Rightarrow> int \<Rightarrow> int" where
  "searchIndex idx relTarget lo hi best =
    (if lo \<le> hi then
       let mid = (lo + hi) div 2; rel = fst (idx ! nat mid) in
       if rel = relTarget then mid
       else if rel < relTarget then searchIndex idx relTarget (mid + 1) hi mid
       else searchIndex idx relTarget lo (mid - 1) best
     else best)"
  by pat_completeness auto
termination
  by (relation "measure (\<lambda>(idx, t, lo, hi, b). nat (hi - lo + 1))") (auto simp: Let_def)

declare searchIndex.simps [simp del]

definition lookupIndex :: "indexEntry list \<Rightarrow> int \<Rightarrow> int \<Rightarrow> int option" where
  "lookupIndex idx baseOffset target =
    (if idx = [] then None
     else let best = searchIndex idx (target - baseOffset) 0 (int (length idx) - 1) (-1) in
       if best \<ge> 0 then Some (snd (idx ! nat best)) else None)"

section \<open>Records satisfy the codec contract\<close>

definition okField :: "bytes option \<Rightarrow> bool" where
  "okField b \<longleftrightarrow> blen b \<le> 2147483647"

lemma readInt32_take [simp]:
  "inS 32 n \<Longrightarrow> readInt32 (le32 n) = Inr n"
  by (simp add: readInt32_def)

interpretation fld: codec writeRecordBytesField readRecordBytesField okField
proof
  fix b :: "bytes option" and bs rest
  assume ok: "okField b"
  show "\<exists>bs. writeRecordBytesField b = Inr bs"
    using ok by (cases b) (simp_all add: writeRecordBytesField_def toInt32Length_def okField_def)
  assume w: "writeRecordBytesField b = Inr bs"
  show "readRecordBytesField (bs @ rest) = Inr (b, rest)"
  proof (cases b)
    case None
    have "inS 32 (-1)" by (simp add: inS_def)
    then show ?thesis using w None by (auto simp: writeRecordBytesField_def readRecordBytesField_def Let_def)
  next
    case (Some x)
    then have i: "inS 32 (int (length x))" using ok by (simp add: okField_def inS_def)
    have "bs = le32 (int (length x)) @ x"
      using w Some by (auto simp: writeRecordBytesField_def toInt32Length_def split: if_splits)
    then show ?thesis using i Some by (simp add: readRecordBytesField_def Let_def)
  qed
qed

definition okLogHeader :: "Header \<Rightarrow> bool" where
  "okLogHeader h \<longleftrightarrow> length (h_Key h) \<le> 2147483647 \<and> okField (h_Value h)"

interpretation lhdr: codec writeRecordHeader readRecordHeader okLogHeader
proof
  fix h :: Header and bs rest
  assume ok: "okLogHeader h"
  then have oks: "okField (Some (string_bytes (h_Key h)))" "okField (h_Value h)"
    by (simp_all add: okLogHeader_def okField_def)
  obtain k v where kv: "writeRecordBytesField (Some (string_bytes (h_Key h))) = Inr k"
      "writeRecordBytesField (h_Value h) = Inr v"
    using fld.enc_total [OF oks(1)] fld.enc_total [OF oks(2)] by blast
  have w: "writeRecordHeader h = Inr (k @ v)" by (simp add: writeRecordHeader_def kv)
  then show "\<exists>bs. writeRecordHeader h = Inr bs" by blast
  assume "writeRecordHeader h = Inr bs"
  then have bs: "bs = k @ v" using w by simp
  show "readRecordHeader (bs @ rest) = Inr (h, rest)"
    using fld.dec_enc [OF oks(1) kv(1)] fld.dec_enc [OF oks(2) kv(2)]
    by (simp add: bs readRecordHeader_def)
qed

definition okLogHeaders :: "Header list \<Rightarrow> bool" where
  "okLogHeaders hs \<longleftrightarrow> length hs \<le> 2147483647 \<and> list_all okLogHeader hs"

interpretation lhdrs: codec writeRecordHeaders readRecordHeaders okLogHeaders
proof
  fix hs :: "Header list" and bs rest
  assume ok: "okLogHeaders hs"
  then have oks: "list_all okLogHeader hs" and n: "length hs \<le> 2147483647"
    by (simp_all add: okLogHeaders_def)
  obtain b where b: "writeAll (map writeRecordHeader hs) = Inr b" using lhdr.items_total [OF oks] by blast
  have w: "writeRecordHeaders hs = Inr (le32 (int (length hs)) @ b)"
    using n by (simp add: writeRecordHeaders_def b toInt32Length_def)
  then show "\<exists>bs. writeRecordHeaders hs = Inr bs" by blast
  assume "writeRecordHeaders hs = Inr bs"
  then have bs: "bs = le32 (int (length hs)) @ b" using w by simp
  have i: "inS 32 (int (length hs))" using n by (simp add: inS_def)
  show "readRecordHeaders (bs @ rest) = Inr (hs, rest)"
    using i lhdr.items_dec_enc [OF oks b, of rest] by (simp add: bs readRecordHeaders_def)
qed

text \<open>
  A record the log can store and read back: an offset and a timestamp that are not negative
  and fields of less than 2 GiB.
\<close>

definition okLogRecord :: "Record \<Rightarrow> bool" where
  "okLogRecord r \<longleftrightarrow> 0 \<le> r_Offset r \<and> r_Offset r \<le> maxInt64Uint
     \<and> (case r_Timestamp r of None \<Rightarrow> False | Some t \<Rightarrow> 0 \<le> t \<and> t \<le> maxInt64Uint)
     \<and> okField (r_Key r) \<and> okField (r_Value r) \<and> okLogHeaders (r_Headers r)
     \<and> (case writeAll [writeRecordBytesField (r_Key r), writeRecordBytesField (r_Value r),
           writeRecordHeaders (r_Headers r)] of Inl e \<Rightarrow> False | Inr b \<Rightarrow> int (length b) + 24 < 4294967296)"

lemma writeRecordBytesField_length: "writeRecordBytesField b = Inr k \<Longrightarrow> 4 \<le> length k"
  by (auto simp: writeRecordBytesField_def bindE_Inr_iff split: option.splits)

lemma writeRecordHeaders_length: "writeRecordHeaders hs = Inr h \<Longrightarrow> 4 \<le> length h"
  by (auto simp: writeRecordHeaders_def bindE_Inr_iff)

text \<open>What encoding produces: the length, and the record with its checksum.\<close>

lemma encodeRecord_log_bytes:
  assumes "0 \<le> r_Offset r" "r_Timestamp r = Some t" "writeRecordBytesField (r_Key r) = Inr k"
    "writeRecordBytesField (r_Value r) = Inr v" "writeRecordHeaders (r_Headers r) = Inr h"
    "length k + length v + length h + 24 < 4294967296"
    and "p = le64 (r_Offset r) @ le64 t @ k @ v @ h" "rec = le32 (crc32c p) @ p"
  shows "encodeRecord_log r = Inr (le32 (int (length rec)) @ rec)"
  using assms by (simp add: encodeRecord_log_def writeRecordPrefix_def writeRecordFixedFields_def
      offsetToUint64_def toUint32Length_log_def algebra_simps)

lemma encodeRecord_log_ok:
  assumes "okLogRecord r"
  obtains rec payload where "encodeRecord_log r = Inr (le32 (int (length rec)) @ rec)"
    and "rec = le32 (crc32c payload) @ payload" "28 \<le> length payload" "length rec < 4294967292"
    and "decodeRecord_log rec = Inr (r\<lparr>r_CRC32C := crc32c payload\<rparr>)"
    and "take 8 payload = le64 (r_Offset r)"
proof -
  have ok: "0 \<le> r_Offset r" "r_Offset r \<le> maxInt64Uint" "okField (r_Key r)" "okField (r_Value r)"
      "okLogHeaders (r_Headers r)"
    using assms by (simp_all add: okLogRecord_def)
  obtain t where t: "r_Timestamp r = Some t" "0 \<le> t" "t \<le> maxInt64Uint"
    using assms by (auto simp: okLogRecord_def split: option.splits)
  obtain k v h where enc: "writeRecordBytesField (r_Key r) = Inr k" "writeRecordBytesField (r_Value r) = Inr v"
      "writeRecordHeaders (r_Headers r) = Inr h"
    using fld.enc_total ok lhdrs.enc_total by meson
  have len: "length k + length v + length h + 24 < 4294967296"
    using assms by (simp add: okLogRecord_def enc)
  let ?p = "le64 (r_Offset r) @ le64 t @ k @ v @ h"
  let ?rec = "le32 (crc32c ?p) @ ?p"
  have l4: "4 \<le> length k" "4 \<le> length v" "4 \<le> length h"
    using enc writeRecordBytesField_length writeRecordHeaders_length by blast+
  have "encodeRecord_log r = Inr (le32 (int (length ?rec)) @ ?rec)"
    by (rule encodeRecord_log_bytes [OF ok(1) t(1) enc len refl refl])
  moreover have "28 \<le> length ?p" using l4 by simp
  moreover have "length ?rec < 4294967292" using len by simp
  moreover have "decodeRecord_log ?rec = Inr (r\<lparr>r_CRC32C := crc32c ?p\<rparr>)"
  proof -
    have u: "inU 64 (r_Offset r)" "inU 64 t" "inU 32 (crc32c ?p)"
      using ok t crc32c_range by (simp_all add: inU_def maxInt64Uint_def)
    have pre: "decodeRecordPrefix ?rec = Inr (\<lparr>r_Offset = r_Offset r, r_Timestamp = Some t, r_Key = None,
        r_Value = None, r_Headers = [], r_CRC32C = crc32c ?p\<rparr>, k @ v @ h)"
      using l4 ok t u by (simp add: decodeRecordPrefix_def Let_def uint64ToOffset_def uint64ToInt64_def)
    show ?thesis
      using t fld.dec_enc [OF ok(3) enc(1)] fld.dec_enc [OF ok(4) enc(2)] lhdrs.dec_enc_exact [OF ok(5) enc(3)]
      by (simp add: decodeRecord_log_def pre)
  qed
  ultimately show thesis using that by simp
qed

lemma validateRecord_ok:
  assumes "decodeRecord_log rec = Inr r" "rec = le32 (crc32c p) @ p" "28 \<le> length p"
    "take 8 p = le64 off" "0 \<le> off" "off \<le> maxInt64Uint"
  shows "validateRecord rec off = Inr ()"
proof -
  have "inU 64 off" "inU 32 (crc32c p)" using assms(5,6) crc32c_range by (simp_all add: inU_def maxInt64Uint_def)
  then show ?thesis using assms by (simp add: validateRecord_def uint64ToOffset_def)
qed

section \<open>The segment file as a log\<close>

text \<open>The frame of the record that is stored at offset \<open>s\<close>, as appending writes it.\<close>

definition recFrame :: "int \<Rightarrow> Record \<Rightarrow> bytes" where
  "recFrame s r = (case encodeRecord_log (r\<lparr>r_Offset := s\<rparr>) of Inl e \<Rightarrow> [] | Inr b \<Rightarrow> b)"

definition nextOff :: "int \<Rightarrow> Record \<Rightarrow> int" where
  "nextOff s r = wrapS 64 (s + 1)"

definition okAt :: "int \<Rightarrow> Record \<Rightarrow> bool" where
  "okAt s r \<longleftrightarrow> okLogRecord (r\<lparr>r_Offset := s\<rparr>)"

definition scanAt :: "int \<Rightarrow> nat \<Rightarrow> bytes \<Rightarrow> (int \<times> nat) option" where
  "scanAt s pos c = scanLoop c s pos"

text \<open>The record as it is read back: with its offset and its checksum.\<close>

definition stored :: "int \<Rightarrow> Record \<Rightarrow> Record" where
  "stored s r = r\<lparr>r_Offset := s, r_CRC32C := val_uint LittleEndian (take 4 (drop 4 (recFrame s r)))\<rparr>"

lemma recFrame_parts:
  assumes "okAt s r"
  obtains rec where "recFrame s r = le32 (int (length rec)) @ rec" "encodeRecord_log (r\<lparr>r_Offset := s\<rparr>) = Inr (recFrame s r)"
    and "32 \<le> length rec" "length rec < 4294967292"
    and "validateRecord rec s = Inr ()" "decodeRecord_log rec = Inr (stored s r)"
    and "\<exists>p. rec = le32 (crc32c p) @ p"
proof -
  obtain rec p where e: "encodeRecord_log (r\<lparr>r_Offset := s\<rparr>) = Inr (le32 (int (length rec)) @ rec)"
    and p: "rec = le32 (crc32c p) @ p" "28 \<le> length p" and l: "length rec < 4294967292"
    and d: "decodeRecord_log rec = Inr (r\<lparr>r_Offset := s, r_CRC32C := crc32c p\<rparr>)"
    and t': "take 8 p = le64 (r_Offset (r\<lparr>r_Offset := s\<rparr>))"
    by (rule encodeRecord_log_ok [OF assms [unfolded okAt_def]])
  have t: "take 8 p = le64 s" using t' by simp
  have s: "0 \<le> s" "s \<le> maxInt64Uint" using assms by (simp_all add: okAt_def okLogRecord_def)
  have f: "recFrame s r = le32 (int (length rec)) @ rec" by (simp add: recFrame_def e)
  have "stored s r = r\<lparr>r_Offset := s, r_CRC32C := crc32c p\<rparr>"
    using crc32c_range by (simp add: stored_def f p(1))
  then show thesis
    using that [of rec] f e p l d validateRecord_ok [OF d p t s] by simp
qed

lemma scanLoop_frame:
  assumes "okAt s r" "length (p @ recFrame s r @ t) < 2 ^ 32"
  shows "scanLoop (p @ recFrame s r @ t) s (length p) =
    scanLoop (p @ recFrame s r @ t) (nextOff s r) (length p + length (recFrame s r))"
proof -
  obtain rec where f: "recFrame s r = le32 (int (length rec)) @ rec" and pos: "32 \<le> length rec"
    and le: "length rec < 4294967292" and v: "validateRecord rec s = Inr ()"
    using recFrame_parts [OF assms(1)] by metis
  let ?c = "p @ le32 (int (length rec)) @ rec @ t"
  have r1: "fileReadAt ?c 4 (length p) = Inr (le32 (int (length rec)))"
    by (rule fileReadAt_append) simp_all
  have "fileReadAt ((p @ le32 (int (length rec))) @ rec @ t) (length rec) (length p + 4) = Inr rec"
    by (rule fileReadAt_append) simp_all
  then have r2: "fileReadAt ?c (length rec) (length p + 4) = Inr rec" by simp
  have u: "inU 32 (int (length rec))" using le by (simp add: inU_def)
  have adv: "(4 + int (length rec)) mod 4294967296 = int (4 + length rec)" using le by simp
  have nadv: "nat (4 + int (length rec)) = 4 + length rec" by simp
  have ne: "rec \<noteq> []" using pos by auto
  show ?thesis unfolding f append.assoc
    by (subst scanLoop.simps)
      (simp only: r1 sum.case, simp add: r2 u ne v adv nadv nextOff_def Let_def)
qed

lemma scanLoop_torn:
  assumes "okAt s r" "k < length (recFrame s r)"
  shows "scanLoop (p @ take k (recFrame s r)) s (length p) = Some (s, length p)"
proof -
  obtain rec where f: "recFrame s r = le32 (int (length rec)) @ rec" and pos: "32 \<le> length rec"
    and le: "length rec < 4294967292"
    using recFrame_parts [OF assms(1)] by metis
  show ?thesis
  proof (cases "k < 4")
    case True
    then show ?thesis by (subst scanLoop.simps) (simp add: f)
  next
    case False
    then have t: "take k (recFrame s r) = le32 (int (length rec)) @ take (k - 4) rec" by (simp add: f)
    have r1: "fileReadAt (p @ le32 (int (length rec)) @ take (k - 4) rec) 4 (length p)
        = Inr (le32 (int (length rec)))"
      by (rule fileReadAt_append) simp_all
    have r2: "fileReadAt (p @ le32 (int (length rec)) @ take (k - 4) rec) (length rec) (length p + 4)
        = Inl EOF"
      using False assms(2) by (intro fileReadAt_short) (simp add: f)
    have u: "inU 32 (int (length rec))" using le by (simp add: inU_def)
    have ne: "rec \<noteq> []" using pos by auto
    show ?thesis unfolding t
      by (subst scanLoop.simps) (simp only: r1 sum.case, simp add: r2 u ne Let_def)
  qed
qed

interpretation seg: wal recFrame nextOff okAt scanAt "\<lambda>c. length c < 2 ^ 32"
proof
  show "scanAt s (length p) p = Some (s, length p)" for s p
    unfolding scanAt_def by (subst scanLoop.simps) simp
  show "scanAt s (length p) (p @ recFrame s r @ t) =
      scanAt (nextOff s r) (length p + length (recFrame s r)) (p @ recFrame s r @ t)"
    if "okAt s r" "length (p @ recFrame s r @ t) < 2 ^ 32" for s r p t
    using scanLoop_frame [OF that] by (simp add: scanAt_def)
  show "scanAt s (length p) (p @ take k (recFrame s r)) = Some (s, length p)"
    if "okAt s r" "k < length (recFrame s r)" for s r k p
    using scanLoop_torn [OF that] by (simp add: scanAt_def)
qed

text \<open>The file that holds the records \<open>rs\<close> from offset \<open>base\<close> on, and the records as read back.\<close>

definition segLog :: "int \<Rightarrow> Record list \<Rightarrow> bytes" where
  "segLog base rs = wal_log recFrame nextOff base rs"

definition okSeg :: "int \<Rightarrow> Record list \<Rightarrow> bool" where
  "okSeg base rs \<longleftrightarrow> wal_ok okAt nextOff base rs \<and> base + int (length rs) \<le> maxInt64Uint \<and> 0 \<le> base"

lemma nextOff_succ [simp]: "0 \<le> s \<Longrightarrow> s < maxInt64Uint \<Longrightarrow> nextOff s r = s + 1"
  by (simp add: nextOff_def wrapS_id inS_def maxInt64Uint_def)

lemma okSeg_Nil [simp]: "okSeg base [] \<longleftrightarrow> 0 \<le> base \<and> base \<le> maxInt64Uint"
  by (auto simp: okSeg_def)

lemma okSeg_Cons: "okSeg base (r # rs) \<longleftrightarrow> 0 \<le> base \<and> base < maxInt64Uint \<and> okAt base r \<and> okSeg (base + 1) rs"
  by (auto simp: okSeg_def)

lemma segLog_Nil [simp]: "segLog base [] = []"
  by (simp add: segLog_def)

lemma segLog_Cons: "okSeg base (r # rs) \<Longrightarrow> segLog base (r # rs) = recFrame base r @ segLog (base + 1) rs"
  by (simp add: segLog_def okSeg_def)

lemma okSeg_append:
  "okSeg base (rs @ qs) \<longleftrightarrow> okSeg base rs \<and> okSeg (base + int (length rs)) qs"
proof (induction rs arbitrary: base)
  case Nil
  then show ?case by (auto simp: okSeg_def)
next
  case (Cons r rs)
  then show ?case by (auto simp: okSeg_Cons algebra_simps)
qed

lemma segLog_append:
  "okSeg base (rs @ qs) \<Longrightarrow> segLog base (rs @ qs) = segLog base rs @ segLog (base + int (length rs)) qs"
proof (induction rs arbitrary: base)
  case (Cons r rs)
  then have "okSeg base (r # rs)" by (metis append_Cons okSeg_append)
  then show ?case using Cons by (simp add: segLog_Cons okSeg_Cons algebra_simps)
qed simp

lemma foldl_nextOff: "okSeg base rs \<Longrightarrow> foldl nextOff base rs = base + int (length rs)"
  by (induction rs arbitrary: base) (auto simp: okSeg_Cons)

lemma scanSegment_log:
  assumes "okSeg base rs" "length (segLog base rs) < 2 ^ 32"
  shows "scanSegment (segLog base rs) base = Some (base + int (length rs), length (segLog base rs))"
  using seg.scan_log [of base rs "[]"] assms foldl_nextOff [OF assms(1)]
  by (simp add: scanSegment_def scanAt_def segLog_def okSeg_def)

lemma okSeg_take: "okSeg base rs \<Longrightarrow> okSeg base (take m rs)"
  by (metis append_take_drop_id okSeg_append)

lemma scanSegment_cut:
  assumes "okSeg base rs" "length (segLog base rs) < 2 ^ 32"
  obtains m where "m \<le> length rs" "length (segLog base (take m rs)) \<le> k"
    and "m < length rs \<longrightarrow> k < length (segLog base (take (Suc m) rs))"
    and "scanSegment (take k (segLog base rs)) base = Some (base + int m, length (segLog base (take m rs)))"
proof -
  obtain m where m: "m \<le> length rs" "wal_whole recFrame nextOff base rs k = take m rs"
    "length (segLog base (take m rs)) \<le> k" "m < length rs \<longrightarrow> k < length (segLog base (take (Suc m) rs))"
    using wal_whole_longest [of rs recFrame nextOff base k] unfolding segLog_def [symmetric] by blast
  have "scanSegment (take k (segLog base rs)) base = Some (base + int m, length (segLog base (take m rs)))"
    using seg.scan_cut [of base rs "[]" k] assms m foldl_nextOff [OF okSeg_take [OF assms(1)], of m]
    by (simp add: scanSegment_def scanAt_def segLog_def okSeg_def)
  then show thesis using m that by blast
qed

lemma scanLoop_terminates:
  assumes "length c < 2 ^ 32"
  shows "\<exists>next good. scanLoop c s pos = Some (next, good)"
proof (induction "length c - pos" arbitrary: s pos rule: less_induct)
  case less
  show ?case
  proof (cases "fileReadAt c 4 pos")
    case (Inl e)
    then show ?thesis by (subst scanLoop.simps) simp
  next
    case (Inr b)
    show ?thesis
    proof (cases "fileReadAt c (nat (val_uint LittleEndian b)) (pos + 4)")
      case Inl2: (Inl e)
      then show ?thesis by (subst scanLoop.simps) (simp add: Inr Let_def)
    next
      case Inr2: (Inr r)
      have "length c - (pos + nat ((4 + val_uint LittleEndian b) mod 2 ^ 32)) < length c - pos"
        using advance_ok [OF assms Inr Inr2] by linarith
      note ih = less [OF this]
      show ?thesis
        by (subst scanLoop.simps) (use ih in \<open>simp add: Inr Inr2 Let_def split: sum.split\<close>)
    qed
  qed
qed

text \<open>A damaged record does not validate, whatever offset is expected.\<close>

lemma validateRecord_damaged:
  assumes "j < length p" "x \<noteq> p ! j"
  shows "isErr (validateRecord (le32 (crc32c p) @ p[j := x]) s)"
  using crc32c_update [OF assms] crc32c_range [of p] by (auto simp: validateRecord_def)

lemma scanLoop_damaged:
  assumes "int (length rec) < 2 ^ 32" "isErr (validateRecord rec s)"
  shows "scanLoop (p @ le32 (int (length rec)) @ rec @ t) s (length p) = Some (s, length p)"
proof -
  let ?c = "p @ le32 (int (length rec)) @ rec @ t"
  have r1: "fileReadAt ?c 4 (length p) = Inr (le32 (int (length rec)))"
    by (rule fileReadAt_append) simp_all
  have "fileReadAt ((p @ le32 (int (length rec))) @ rec @ t) (length rec) (length p + 4) = Inr rec"
    by (rule fileReadAt_append) simp_all
  then have r2: "fileReadAt ?c (length rec) (length p + 4) = Inr rec" by simp
  obtain e where d: "validateRecord rec s = Inl e" using assms(2) by (auto simp: isErr_def split: sum.splits)
  have u: "inU 32 (int (length rec))" using assms(1) by (simp add: inU_def)
  show ?thesis
    by (subst scanLoop.simps) (simp only: r1 sum.case, simp add: r2 u d Let_def)
qed

section \<open>The index\<close>

text \<open>The entries of an index over \<open>rs\<close>: every \<open>interval\<close>-th record with the position of its frame.\<close>

fun indexEntries :: "int \<Rightarrow> int \<Rightarrow> nat \<Rightarrow> int \<Rightarrow> Record list \<Rightarrow> indexEntry list" where
  "indexEntries interval count pos s [] = []"
| "indexEntries interval count pos s (r # rs) =
    (if count mod interval = 0 then [(count, int pos)] else [])
    @ indexEntries interval (count + 1) (pos + length (recFrame s r)) (s + 1) rs"

definition indexBytes :: "indexEntry list \<Rightarrow> bytes" where
  "indexBytes es = concat (map (\<lambda>(rel, pos). putIndexEntry rel pos) es)"

text \<open>An index over \<open>rs\<close>: strictly increasing relative offsets of stored records, each with the
  position of its record.\<close>

definition okIndex :: "int \<Rightarrow> Record list \<Rightarrow> indexEntry list \<Rightarrow> bool" where
  "okIndex base rs idx \<longleftrightarrow> sorted_wrt (<) (map fst idx)
     \<and> (\<forall>(rel, pos) \<in> set idx. 0 \<le> rel \<and> rel < int (length rs)
          \<and> pos = int (length (segLog base (take (nat rel) rs))))"

lemma rebuildLoop_frame:
  assumes "okAt s r" "length (p @ recFrame s r @ t) < 2 ^ 32"
  shows "rebuildLoop (p @ recFrame s r @ t) base interval (length p) count s out =
    rebuildLoop (p @ recFrame s r @ t) base interval (length p + length (recFrame s r)) (count + 1) (nextOff s r)
      (if count mod interval = 0 then out @ putIndexEntry (s - base) (int (length p)) else out)"
proof -
  obtain rec where f: "recFrame s r = le32 (int (length rec)) @ rec" and pos: "32 \<le> length rec"
    and le: "length rec < 4294967292" and v: "validateRecord rec s = Inr ()"
    using recFrame_parts [OF assms(1)] by metis
  let ?c = "p @ le32 (int (length rec)) @ rec @ t"
  have r1: "fileReadAt ?c 4 (length p) = Inr (le32 (int (length rec)))"
    by (rule fileReadAt_append) simp_all
  have "fileReadAt ((p @ le32 (int (length rec))) @ rec @ t) (length rec) (length p + 4) = Inr rec"
    by (rule fileReadAt_append) simp_all
  then have r2: "fileReadAt ?c (length rec) (length p + 4) = Inr rec" by simp
  have u: "inU 32 (int (length rec))" using le by (simp add: inU_def)
  have adv: "(4 + int (length rec)) mod 4294967296 = int (4 + length rec)" using le by simp
  have nadv: "nat (4 + int (length rec)) = 4 + length rec" by simp
  have ne: "rec \<noteq> []" using pos by auto
  show ?thesis unfolding f append.assoc
    by (subst rebuildLoop.simps)
      (simp only: r1 sum.case, simp add: r2 u ne v adv nadv nextOff_def Let_def)
qed

lemma rebuildLoop_log:
  "okSeg s rs \<Longrightarrow> s = base + count \<Longrightarrow> length (p @ segLog s rs) < 2 ^ 32 \<Longrightarrow>
   rebuildLoop (p @ segLog s rs) base interval (length p) count s out =
   Some (out @ indexBytes (indexEntries interval count (length p) s rs))"
proof (induction rs arbitrary: s count p out)
  case Nil
  then show ?case by (subst rebuildLoop.simps) (simp add: indexBytes_def)
next
  case (Cons r rs)
  note ok = Cons.prems(1)
  have o: "0 \<le> s" "s < maxInt64Uint" "okAt s r" "okSeg (s + 1) rs" using ok by (simp_all add: okSeg_Cons)
  have l: "segLog s (r # rs) = recFrame s r @ segLog (s + 1) rs" by (rule segLog_Cons [OF ok])
  have sz: "length (p @ recFrame s r @ segLog (s + 1) rs) < 2 ^ 32" using Cons.prems(3) l by simp
  let ?out = "if count mod interval = 0 then out @ putIndexEntry (s - base) (int (length p)) else out"
  have "rebuildLoop (p @ recFrame s r @ segLog (s + 1) rs) base interval (length p) count s out =
    rebuildLoop ((p @ recFrame s r) @ segLog (s + 1) rs) base interval (length (p @ recFrame s r)) (count + 1) (s + 1) ?out"
    using rebuildLoop_frame [OF o(3) sz] o by simp
  also have "\<dots> = Some (?out @ indexBytes (indexEntries interval (count + 1) (length (p @ recFrame s r)) (s + 1) rs))"
    using o Cons.prems(2) sz by (intro Cons.IH) simp_all
  finally have r: "rebuildLoop (p @ segLog s (r # rs)) base interval (length p) count s out =
      Some (?out @ indexBytes (indexEntries interval (count + 1) (length (p @ recFrame s r)) (s + 1) rs))"
    by (simp add: l)
  have "s - base = count" using Cons.prems(2) by simp
  then show ?case unfolding r by (simp add: indexBytes_def)
qed

lemma rebuildIndex_log:
  assumes "okSeg base rs" "length (segLog base rs) < 2 ^ 32" "0 < interval"
  shows "rebuildIndex (segLog base rs) base interval =
    Some (le64 base @ indexBytes (indexEntries interval 0 0 base rs))"
  using rebuildLoop_log [OF assms(1), of base 0 "[]"] assms by (simp add: rebuildIndex_def)

lemma indexEntries_okIndex_aux:
  "okSeg base (ps @ rs) \<Longrightarrow>
   let es = indexEntries interval (int (length ps)) (length (segLog base ps)) (base + int (length ps)) rs in
   sorted_wrt (<) (map fst es) \<and> (\<forall>(rel, pos) \<in> set es. int (length ps) \<le> rel \<and> rel < int (length (ps @ rs))
          \<and> pos = int (length (segLog base (take (nat rel) (ps @ rs)))))"
proof (induction rs arbitrary: ps)
  case (Cons r rs)
  let ?n = "int (length ps)"
  have ok: "okSeg base ((ps @ [r]) @ rs)" using Cons.prems by simp
  have "okSeg base (ps @ [r])" using ok okSeg_append by blast
  then have l: "segLog base (ps @ [r]) = segLog base ps @ recFrame (base + ?n) r"
    by (simp add: segLog_append okSeg_append segLog_Cons)
  let ?es = "indexEntries interval (?n + 1) (length (segLog base ps) + length (recFrame (base + ?n) r)) (base + ?n + 1) rs"
  have ih: "sorted_wrt (<) (map fst ?es) \<and> (\<forall>(rel, pos) \<in> set ?es. ?n + 1 \<le> rel \<and> rel < int (length (ps @ r # rs))
          \<and> pos = int (length (segLog base (take (nat rel) (ps @ r # rs)))))"
    using Cons.IH [OF ok] by (simp add: l Let_def algebra_simps)
  then have "\<forall>y\<in>set (map fst ?es). ?n < y" by fastforce
  moreover have "\<forall>(rel, pos) \<in> set ?es. ?n \<le> rel \<and> rel < int (length (ps @ r # rs))
          \<and> pos = int (length (segLog base (take (nat rel) (ps @ r # rs))))"
    using ih by fastforce
  ultimately show ?case using ih by (auto simp: Let_def)
qed simp

lemma indexEntries_okIndex: "okSeg base rs \<Longrightarrow> okIndex base rs (indexEntries interval 0 0 base rs)"
  using indexEntries_okIndex_aux [of base "[]" rs interval] by (simp add: okIndex_def Let_def)

lemma loadEntries_bytes:
  "sorted_wrt (\<le>) (map fst es) \<Longrightarrow> sorted_wrt (\<le>) (map snd es) \<Longrightarrow>
   (\<forall>(rel, pos) \<in> set es. lr \<le> rel \<and> lp \<le> pos \<and> 0 \<le> rel \<and> 0 \<le> pos \<and> rel < 2 ^ 63 \<and> pos < 2 ^ 63) \<Longrightarrow>
   loadEntries lr lp (indexBytes es) = Inr es"
proof (induction es arbitrary: lr lp)
  case Nil
  show ?case by (subst loadEntries.simps) (simp add: indexBytes_def read_int_def readFull_def)
next
  case (Cons e es)
  obtain rel pos where e: "e = (rel, pos)" by fastforce
  have r: "0 \<le> rel" "0 \<le> pos" "lr \<le> rel" "lp \<le> pos" "inS 64 rel" "inS 64 pos"
    using Cons.prems(3) by (auto simp: e inS_def)
  have ih: "loadEntries rel pos (indexBytes es) = Inr es"
    using Cons.prems by (intro Cons.IH) (auto simp: e)
  have b: "indexBytes (e # es) = le64 rel @ le64 pos @ indexBytes es"
    by (simp add: indexBytes_def putIndexEntry_def e)
  show ?case unfolding b by (subst loadEntries.simps) (use r ih in \<open>simp add: e\<close>)
qed

section \<open>The binary search\<close>

lemma searchIndex_spec:
  "sorted_wrt (<) (map fst idx) \<Longrightarrow> 0 \<le> lo \<Longrightarrow> hi < int (length idx) \<Longrightarrow> best = lo - 1 \<Longrightarrow> lo \<le> hi + 1 \<Longrightarrow>
    (\<forall>j. 0 \<le> j \<and> j < lo \<longrightarrow> fst (idx ! nat j) \<le> t) \<Longrightarrow>
    (\<forall>j. hi < j \<and> j < int (length idx) \<longrightarrow> t < fst (idx ! nat j)) \<Longrightarrow>
    b = searchIndex idx t lo hi best \<Longrightarrow> -1 \<le> b \<and> b < int (length idx)
      \<and> (\<forall>j. 0 \<le> j \<and> j \<le> b \<longrightarrow> fst (idx ! nat j) \<le> t)
      \<and> (\<forall>j. b < j \<and> j < int (length idx) \<longrightarrow> t < fst (idx ! nat j))"
proof (induction idx t lo hi best rule: searchIndex.induct)
  case (1 idx t lo hi best)
  have mono: "fst (idx ! nat i) < fst (idx ! nat j)" if "0 \<le> i" "i < j" "j < int (length idx)" for i j
    using sorted_wrt_nth_less [OF "1.prems"(1), of "nat i" "nat j"] that by simp
  show ?case
  proof (cases "lo \<le> hi")
    case False
    then have "b = lo - 1" using "1.prems"(4,8) by (simp add: searchIndex.simps)
    then show ?thesis using "1.prems"(2,3,5,6,7) False by auto
  next
    case True
    let ?m = "(lo + hi) div 2"
    let ?r = "fst (idx ! nat ?m)"
    have m: "lo \<le> ?m" "?m \<le> hi" "0 \<le> ?m" "?m < int (length idx)" using True "1.prems"(2,3) by auto
    have below: "fst (idx ! nat j) \<le> ?r" if "0 \<le> j" "j \<le> ?m" for j
      using mono [of j ?m] that m by (cases "j = ?m") auto
    have above: "?r \<le> fst (idx ! nat j)" if "?m \<le> j" "j < int (length idx)" for j
      using mono [of ?m j] that m by (cases "j = ?m") auto
    consider "?r = t" | "?r < t" | "t < ?r" by linarith
    then show ?thesis
    proof cases
      case 1
      then have "b = ?m" using True "1.prems"(8) by (simp add: searchIndex.simps [of idx t lo hi best] Let_def)
      then show ?thesis using 1 m below mono [of ?m] by auto
    next
      case 2
      have b: "b = searchIndex idx t (?m + 1) hi ?m"
        using 2 True "1.prems"(8) by (simp add: searchIndex.simps [of idx t lo hi best] Let_def)
      have "\<forall>j. 0 \<le> j \<and> j < ?m + 1 \<longrightarrow> fst (idx ! nat j) \<le> t" using below 2 by fastforce
      then show ?thesis
        using "1.IH"(1) [OF True refl refl _ 2 "1.prems"(1) _ "1.prems"(3) _ _ _ "1.prems"(7) b] 2 m by auto
    next
      case 3
      have b: "b = searchIndex idx t lo (?m - 1) best"
        using 3 True "1.prems"(8) by (simp add: searchIndex.simps [of idx t lo hi best] Let_def)
      have "\<forall>j. ?m - 1 < j \<and> j < int (length idx) \<longrightarrow> t < fst (idx ! nat j)"
      proof (intro allI impI)
        fix j assume "?m - 1 < j \<and> j < int (length idx)"
        then show "t < fst (idx ! nat j)" using above [of j] 3 by linarith
      qed
      then show ?thesis
        using "1.IH"(2) [OF True refl refl _ _ "1.prems"(1,2) _ "1.prems"(4) _ "1.prems"(6) _ b] 3 m by auto
    qed
  qed
qed

text \<open>The reference: a scan for the last entry at or before the target.\<close>

definition indexFloor :: "indexEntry list \<Rightarrow> int \<Rightarrow> int \<Rightarrow> int option" where
  "indexFloor idx base target = (let es = filter (\<lambda>(rel, pos). rel \<le> target - base) idx in
     if es = [] then None else Some (snd (last es)))"

lemma lookupIndex_floor:
  assumes "sorted_wrt (<) (map fst idx)"
  shows "lookupIndex idx base target = indexFloor idx base target"
proof (cases "idx = []")
  case True
  then show ?thesis by (simp add: lookupIndex_def indexFloor_def)
next
  case False
  let ?t = "target - base"
  let ?b = "searchIndex idx ?t 0 (int (length idx) - 1) (-1)"
  have spec: "-1 \<le> ?b \<and> ?b < int (length idx) \<and> (\<forall>j. 0 \<le> j \<and> j \<le> ?b \<longrightarrow> fst (idx ! nat j) \<le> ?t)
      \<and> (\<forall>j. ?b < j \<and> j < int (length idx) \<longrightarrow> ?t < fst (idx ! nat j))"
    by (rule searchIndex_spec [OF assms _ _ _ _ _ _ refl]) auto
  let ?n = "nat (?b + 1)"
  have n: "?n \<le> length idx" using spec by linarith
  have "filter (\<lambda>(rel, pos). rel \<le> ?t) (take ?n idx) = take ?n idx"
  proof (rule filter_True, rule ballI)
    fix e assume "e \<in> set (take ?n idx)"
    then obtain i where "i < ?n" "i < length idx" "e = idx ! i" by (auto simp: in_set_conv_nth)
    then show "case e of (rel, pos) \<Rightarrow> rel \<le> ?t" using spec [THEN conjunct2, THEN conjunct2, THEN conjunct1, rule_format, of "int i"]
      by (auto simp: case_prod_unfold)
  qed
  moreover have "filter (\<lambda>(rel, pos). rel \<le> ?t) (drop ?n idx) = []"
  proof (rule filter_False, rule ballI)
    fix e assume "e \<in> set (drop ?n idx)"
    then obtain i where i: "i < length idx - ?n" "e = idx ! (?n + i)" by (auto simp: in_set_conv_nth)
    have "?b < int (?n + i)" "int (?n + i) < int (length idx)" using i(1) spec by linarith+
    then have "?t < fst (idx ! nat (int (?n + i)))" using spec by blast
    then show "\<not> (case e of (rel, pos) \<Rightarrow> rel \<le> ?t)"
      unfolding nat_int i(2) by (simp add: case_prod_unfold)
  qed
  ultimately have f: "filter (\<lambda>(rel, pos). rel \<le> ?t) idx = take ?n idx"
    by (metis append_Nil2 append_take_drop_id filter_append)
  show ?thesis
  proof (cases "?b \<ge> 0")
    case True
    then have "last (take ?n idx) = idx ! nat ?b" "take ?n idx \<noteq> []"
      using n False by (simp_all add: last_conv_nth nat_add_distrib)
    then show ?thesis using True False by (simp add: lookupIndex_def indexFloor_def f Let_def)
  next
    case neg: False
    then have "?n = 0" by simp
    then show ?thesis using neg False by (simp add: lookupIndex_def indexFloor_def f Let_def)
  qed
qed

lemma segLog_pos_mono:
  assumes "okSeg base rs" "i \<le> j"
  shows "length (segLog base (take i rs)) \<le> length (segLog base (take j rs))"
proof -
  have "take j rs = take i rs @ drop i (take j rs)" using assms(2) by (metis append_take_drop_id min_absorb1 take_take)
  moreover have "okSeg base (take j rs)" using assms(1) by (rule okSeg_take)
  ultimately show ?thesis by (metis length_append le_add1 segLog_append)
qed

lemma okIndex_positions:
  assumes "okSeg base rs" "okIndex base rs idx"
  shows "sorted_wrt (\<le>) (map fst idx) \<and> sorted_wrt (\<le>) (map snd idx)"
proof -
  have s: "sorted_wrt (\<lambda>x y. fst x < fst y) idx"
    and e: "\<And>rel pos. (rel, pos) \<in> set idx \<Longrightarrow> pos = int (length (segLog base (take (nat rel) rs)))"
    using assms(2) by (auto simp: okIndex_def sorted_wrt_map)
  have "sorted_wrt (\<lambda>x y. snd x \<le> snd y) idx"
  proof (rule sorted_wrt_mono_rel [OF _ s])
    fix x y assume "x \<in> set idx" "y \<in> set idx" "fst x < fst y"
    then show "snd x \<le> snd y"
      using e [of "fst x" "snd x"] e [of "fst y" "snd y"] segLog_pos_mono [OF assms(1), of "nat (fst x)" "nat (fst y)"]
      by simp
  qed
  moreover have "sorted_wrt (\<lambda>x y. fst x \<le> fst y) idx" by (rule sorted_wrt_mono_rel [OF _ s]) simp
  ultimately show ?thesis by (simp add: sorted_wrt_map)
qed

lemma loadIndex_okIndex:
  assumes "okSeg base rs" "okIndex base rs idx" "length (segLog base rs) < 2 ^ 32"
  shows "loadIndex (Some (le64 base @ indexBytes idx)) base = Inr idx"
proof -
  have b: "0 \<le> base" "base + int (length rs) \<le> maxInt64Uint" using assms(1) by (simp_all add: okSeg_def)
  then have "inS 64 base" by (simp add: inS_def maxInt64Uint_def)
  moreover have "loadEntries (-1) (-1) (indexBytes idx) = Inr idx"
  proof (rule loadEntries_bytes)
    show "\<forall>(rel, pos)\<in>set idx. -1 \<le> rel \<and> -1 \<le> pos \<and> 0 \<le> rel \<and> 0 \<le> pos \<and> rel < 2 ^ 63 \<and> pos < 2 ^ 63"
    proof (intro ballI, clarify)
      fix rel pos assume "(rel, pos) \<in> set idx"
      then have r: "0 \<le> rel" "rel < int (length rs)" "pos = int (length (segLog base (take (nat rel) rs)))"
        using assms(2) by (auto simp: okIndex_def)
      have "length (segLog base (take (nat rel) rs)) \<le> length (segLog base (take (length rs) rs))"
        using r by (intro segLog_pos_mono [OF assms(1)]) linarith
      then show "-1 \<le> rel \<and> -1 \<le> pos \<and> 0 \<le> rel \<and> 0 \<le> pos \<and> rel < 2 ^ 63 \<and> pos < 2 ^ 63"
        using r b assms(3) by (simp add: maxInt64Uint_def)
    qed
  qed (use okIndex_positions [OF assms(1,2)] in auto)
  ultimately show ?thesis by (simp add: loadIndex_def)
qed

section \<open>Properties\<close>

text \<open>A record for the witnesses.\<close>

definition exampleRecord :: Record where
  "exampleRecord = \<lparr>r_Offset = 0, r_Timestamp = Some 5, r_Key = None, r_Value = Some [1, 2],
     r_Headers = [\<lparr>h_Key = ''k'', h_Value = None\<rparr>], r_CRC32C = 0\<rparr>"

lemma exampleRecord_ok: "0 \<le> s \<Longrightarrow> s \<le> maxInt64Uint \<Longrightarrow> okAt s exampleRecord"
  by (simp add: okAt_def okLogRecord_def exampleRecord_def okField_def okLogHeaders_def okLogHeader_def
      maxInt64Uint_def writeRecordBytesField_def writeRecordHeaders_def writeRecordHeader_def toInt32Length_def)

lemma exampleRecord_frame: "0 \<le> s \<Longrightarrow> length (recFrame s exampleRecord) = 47"
  by (simp add: recFrame_def encodeRecord_log_def exampleRecord_def writeRecordPrefix_def
      writeRecordFixedFields_def offsetToUint64_def writeRecordBytesField_def writeRecordHeaders_def
      writeRecordHeader_def toInt32Length_def toUint32Length_log_def)

lemma exampleSeg: "okSeg 0 [exampleRecord, exampleRecord]" "length (segLog 0 [exampleRecord, exampleRecord]) = 94"
proof -
  show ok: "okSeg 0 [exampleRecord, exampleRecord]"
    by (simp add: okSeg_Cons exampleRecord_ok maxInt64Uint_def)
  then have "okSeg 1 [exampleRecord]" by (simp add: okSeg_Cons)
  then show "length (segLog 0 [exampleRecord, exampleRecord]) = 94"
    using ok by (simp add: segLog_Cons exampleRecord_frame)
qed

text \<open>A record read back is the record written.  A record with a non-negative offset and
  timestamp and fields the format can hold is encoded; its stored bytes decode to the same
  record, with the checksum filled in, and they validate at the record's own offset and at no
  other.\<close>

theorem log_record_roundtrip:
  assumes "okLogRecord r"
  shows "\<exists>rec crc. encodeRecord_log r = Inr (le32 (int (length rec)) @ rec)
    \<and> decodeRecord_log rec = Inr (r\<lparr>r_CRC32C := crc\<rparr>) \<and> (\<forall>off. validateRecord rec off = Inr () \<longleftrightarrow> off = r_Offset r)"
proof -
  obtain rec p where e: "encodeRecord_log r = Inr (le32 (int (length rec)) @ rec)"
    and p: "rec = le32 (crc32c p) @ p" "28 \<le> length p" "length rec < 4294967292"
    and d: "decodeRecord_log rec = Inr (r\<lparr>r_CRC32C := crc32c p\<rparr>)" and t: "take 8 p = le64 (r_Offset r)"
    by (rule encodeRecord_log_ok [OF assms])
  have o: "0 \<le> r_Offset r" "r_Offset r \<le> maxInt64Uint" using assms by (simp_all add: okLogRecord_def)
  then have u: "inU 64 (r_Offset r)" by (simp add: inU_def maxInt64Uint_def)
  have v: "validateRecord rec (r_Offset r) = Inr ()" by (rule validateRecord_ok [OF d p(1,2) t o])
  have "off = r_Offset r" if "validateRecord rec off = Inr ()" for off
    using that t u by (auto simp: validateRecord_def uint64ToOffset_def p(1) split: if_splits sum.splits)
  then show ?thesis using e d v by blast
qed

theorem log_record_roundtrip_witness:
  "\<exists>rec crc. encodeRecord_log exampleRecord = Inr (le32 (int (length rec)) @ rec)
    \<and> decodeRecord_log rec = Inr (exampleRecord\<lparr>r_CRC32C := crc\<rparr>)"
proof -
  have "okLogRecord exampleRecord" using exampleRecord_ok [of 0]
    by (simp add: okAt_def maxInt64Uint_def exampleRecord_def)
  from log_record_roundtrip [OF this] show ?thesis by blast
qed

text \<open>Recovery of a segment.  When the file of a segment is cut at any byte, the scan returns
  the next offset and the length of the longest run of whole records before the cut: no record
  written in full is lost and no partial record is kept.\<close>

theorem segment_crash_recovery:
  assumes "okSeg base rs" "length (segLog base rs) < 2 ^ 32"
  shows "\<exists>m \<le> length rs. length (segLog base (take m rs)) \<le> k
    \<and> (m < length rs \<longrightarrow> k < length (segLog base (take (Suc m) rs)))
    \<and> scanSegment (take k (segLog base rs)) base = Some (base + int m, length (segLog base (take m rs)))"
  using scanSegment_cut [OF assms, of k] by blast

theorem segment_crash_recovery_witness:
  "\<exists>m \<le> length [exampleRecord, exampleRecord]. length (segLog 0 (take m [exampleRecord, exampleRecord])) \<le> 50
    \<and> scanSegment (take 50 (segLog 0 [exampleRecord, exampleRecord])) 0 =
       Some (0 + int m, length (segLog 0 (take m [exampleRecord, exampleRecord])))"
proof -
  have "length (segLog 0 [exampleRecord, exampleRecord]) < 2 ^ 32" by (simp add: exampleSeg)
  from segment_crash_recovery [OF exampleSeg(1) this, of 50] show ?thesis by blast
qed

text \<open>C30: a damaged record is never accepted.  Whatever records stand before it and whatever follows it, if one byte of the checksummed part
  of a stored record is changed, the scan of the segment stops in front of it: it keeps exactly the records before it.\<close>

theorem segment_corruption_detected:
  assumes "okSeg base rs" "okAt (base + int (length rs)) r"
    and "8 \<le> i" "i < length (recFrame (base + int (length rs)) r)"
    and "x \<noteq> recFrame (base + int (length rs)) r ! i"
    and "length (segLog base rs @ (recFrame (base + int (length rs)) r)[i := x] @ t) < 2 ^ 32"
  shows "scanSegment (segLog base rs @ (recFrame (base + int (length rs)) r)[i := x] @ t) base
    = Some (base + int (length rs), length (segLog base rs))"
proof -
  let ?s = "base + int (length rs)"
  obtain rec payload where f: "recFrame ?s r = le32 (int (length rec)) @ rec"
    and p: "rec = le32 (crc32c payload) @ payload" and le: "length rec < 4294967292"
    using recFrame_parts [OF assms(2)] by metis
  let ?rec = "le32 (crc32c payload) @ payload[i - 8 := x]"
  obtain j where i: "i = 8 + j" using assms(3) le_Suc_ex by blast
  have f': "(recFrame ?s r)[i := x] = le32 (int (length ?rec)) @ ?rec"
    by (simp add: i f p list_update_append)
  have "i - 8 < length payload" "x \<noteq> payload ! (i - 8)"
    using assms(4,5) by (simp_all add: i f p nth_append)
  then have d: "isErr (validateRecord ?rec ?s)" by (rule validateRecord_damaged)
  have "int (length ?rec) < 2 ^ 32" using le p by simp
  from scanLoop_damaged [OF this d, of "segLog base rs" t]
  have "scanAt ?s (length (segLog base rs)) (segLog base rs @ (recFrame ?s r)[i := x] @ t) = Some (?s, length (segLog base rs))"
    unfolding f' by (simp add: scanAt_def)
  then show ?thesis
    using seg.scan_through [of base rs "[]" "(recFrame ?s r)[i := x] @ t"] assms(1,6) foldl_nextOff [OF assms(1)]
    by (simp add: scanSegment_def scanAt_def segLog_def okSeg_def)
qed

theorem segment_corruption_detected_witness:
  "scanSegment (segLog 0 [exampleRecord] @ (recFrame 1 exampleRecord)[20 := recFrame 1 exampleRecord ! 20 + 1]) 0
    = Some (1, length (segLog 0 [exampleRecord]))"
proof -
  let ?f = "recFrame 1 exampleRecord"
  have ok: "okSeg 0 [exampleRecord]" by (simp add: okSeg_Cons exampleRecord_ok maxInt64Uint_def)
  then have "length (segLog 0 [exampleRecord]) = 47" by (simp add: segLog_Cons exampleRecord_frame)
  then show ?thesis
    using segment_corruption_detected [OF ok, of exampleRecord 20 "?f ! 20 + 1" "[]"]
    by (simp add: exampleRecord_ok exampleRecord_frame maxInt64Uint_def)
qed

text \<open>A record from before 1970 poisons its segment.  The encoder writes a negative timestamp
  without an error, but no decoder accepts it, so that recovery drops the record and every
  record after it.\<close>

theorem negative_timestamp_poisons:
  assumes "okSeg base rs" "s = base + int (length rs)" "okAt s (r\<lparr>r_Timestamp := Some 0\<rparr>)" "t < 0" "inS 64 t"
  shows "\<exists>b. encodeRecord_log (r\<lparr>r_Offset := s, r_Timestamp := Some t\<rparr>) = Inr b
    \<and> (\<forall>rest. length (segLog base rs @ b @ rest) < 2 ^ 32 \<longrightarrow>
         scanSegment (segLog base rs @ b @ rest) base = Some (s, length (segLog base rs)))"
proof -
  let ?r = "r\<lparr>r_Offset := s, r_Timestamp := Some t\<rparr>"
  have ok: "0 \<le> s" "okField (r_Key r)" "okField (r_Value r)" "okLogHeaders (r_Headers r)"
    using assms(3) by (simp_all add: okAt_def okLogRecord_def)
  obtain k v h where enc: "writeRecordBytesField (r_Key ?r) = Inr k" "writeRecordBytesField (r_Value ?r) = Inr v"
      "writeRecordHeaders (r_Headers ?r) = Inr h"
    using fld.enc_total ok lhdrs.enc_total by simp meson
  have len: "length k + length v + length h + 24 < 4294967296"
    using assms(3) enc by (simp add: okAt_def okLogRecord_def)
  let ?p = "le64 (r_Offset ?r) @ le64 t @ k @ v @ h"
  let ?rec = "le32 (crc32c ?p) @ ?p"
  have e: "encodeRecord_log ?r = Inr (le32 (int (length ?rec)) @ ?rec)"
    by (rule encodeRecord_log_bytes [OF _ _ enc len refl refl]) (simp_all add: ok)
  have "maxInt64Uint < val_uint LittleEndian (le64 t)"
  proof -
    have "t mod 2 ^ 64 = t + 2 ^ 64"
      using assms(4,5) by (intro mod_add_self2 [of t "2 ^ 64", symmetric, THEN trans] mod_pos_pos_trivial) (simp_all add: inS_def)
    then show ?thesis using assms(5) by (simp add: val_put_int inS_def maxInt64Uint_def)
  qed
  then have "isErr (decodeRecord_log ?rec)"
    by (auto simp: decodeRecord_log_def decodeRecordPrefix_def Let_def uint64ToInt64_def split: sum.split)
  then have d: "isErr (validateRecord ?rec s)"
    by (auto simp: validateRecord_def isErr_def split: sum.split)
  have sz: "int (length ?rec) < 2 ^ 32" using len by simp
  have "scanSegment (segLog base rs @ (le32 (int (length ?rec)) @ ?rec) @ rest) base = Some (s, length (segLog base rs))"
    if "length (segLog base rs @ (le32 (int (length ?rec)) @ ?rec) @ rest) < 2 ^ 32" for rest
    using seg.scan_through [of base rs "[]" "le32 (int (length ?rec)) @ ?rec @ rest"] that assms(1,2)
      foldl_nextOff [OF assms(1)] scanLoop_damaged [OF sz d, of "segLog base rs" rest]
    by (simp add: scanSegment_def scanAt_def segLog_def okSeg_def)
  then show ?thesis using e by blast
qed

theorem negative_timestamp_poisons_witness:
  "\<exists>b. encodeRecord_log (exampleRecord\<lparr>r_Offset := 0, r_Timestamp := Some (-1)\<rparr>) = Inr b
    \<and> (\<forall>rest. length (segLog 0 [] @ b @ rest) < 2 ^ 32 \<longrightarrow>
         scanSegment (segLog 0 [] @ b @ rest) 0 = Some (0, length (segLog 0 [])))"
proof (rule negative_timestamp_poisons)
  show "okAt 0 (exampleRecord\<lparr>r_Timestamp := Some 0\<rparr>)"
    using exampleRecord_ok [of 0] by (simp add: okAt_def okLogRecord_def maxInt64Uint_def)
qed (simp_all add: inS_def maxInt64Uint_def)

text \<open>The scan of a segment always returns, for every file of less than 4 GiB.\<close>

theorem segment_scan_terminates:
  assumes "length c < 2 ^ 32"
  shows "\<exists>next good. scanSegment c base = Some (next, good)"
  using scanLoop_terminates [OF assms] by (simp add: scanSegment_def)

theorem segment_scan_terminates_witness: "\<exists>next good. scanSegment [1,2,3,4,5] 7 = Some (next, good)"
  by (rule segment_scan_terminates) simp

text \<open>Rebuilding and loading an index.  The index file rebuilt from a segment loads without an
  error, and its entries are strictly increasing, name stored records and give the byte
  position of each; there is one for every \<open>interval\<close>-th record.\<close>

theorem index_rebuild_load:
  assumes "okSeg base rs" "length (segLog base rs) < 2 ^ 32" "0 < interval"
  shows "\<exists>b. rebuildIndex (segLog base rs) base interval = Some b
    \<and> loadIndex (Some b) base = Inr (indexEntries interval 0 0 base rs)
    \<and> okIndex base rs (indexEntries interval 0 0 base rs)"
  using rebuildIndex_log [OF assms] loadIndex_okIndex [OF assms(1) indexEntries_okIndex [OF assms(1)] assms(2)]
    indexEntries_okIndex [OF assms(1)] by blast

theorem index_rebuild_load_witness:
  "\<exists>b. rebuildIndex (segLog 0 [exampleRecord, exampleRecord]) 0 1 = Some b
    \<and> loadIndex (Some b) 0 = Inr [(0, 0), (1, 47)]"
proof -
  have l: "length (segLog 0 [exampleRecord, exampleRecord]) < 2 ^ 32" by (simp add: exampleSeg)
  show ?thesis using index_rebuild_load [OF exampleSeg(1) l, of 1] by (auto simp: exampleRecord_frame)
qed

text \<open>The binary search over the index finds what a linear scan finds: the position of the
  last entry at or before the target offset, and nothing exactly when there is none.\<close>

theorem index_search_is_floor:
  assumes "sorted_wrt (<) (map fst idx)"
  shows "lookupIndex idx base target = indexFloor idx base target"
  using assms by (rule lookupIndex_floor)

theorem index_search_is_floor_witness:
  "sorted_wrt (<) (map fst [(0, 0), (3, 70), (7, 200 :: int)] :: int list)
   \<and> lookupIndex [(0, 0), (3, 70), (7, 200)] 10 15 = Some 70"
proof -
  have s: "sorted_wrt (<) (map fst [(0, 0), (3, 70), (7, 200 :: int)] :: int list)" by simp
  show ?thesis using index_search_is_floor [OF s, of 10 15] by (simp add: indexFloor_def)
qed

end
