(* ===== verification/SegmentedLog.thy ===== *)
theory SegmentedLog
  imports LogCodec "HOL-Library.AList"
begin

text \<open>
  The segmented log of a partition (\<^verbatim>\<open>internal/storage/log.go\<close>): opening with recovery,
  appending with rotation and indexing, reading, retention, truncation and closing.

  The directory of the log is part of the state: \<open>lg_logs\<close> has the contents of the \<^verbatim>\<open>.log\<close>
  file of every base offset and \<open>lg_idxs\<close> those of the \<^verbatim>\<open>.idx\<close> files, so that an open segment
  is its base offset with the cursors of its two files, and what a crash leaves is what
  \<open>bootstrap\<close> finds.  File names are the zero-padded base offsets, so their order is the order
  of the numbers.  Times are nanoseconds; \<^verbatim>\<open>Sync\<close> has no effect on the modelled state, and
  failures of the operating system are not modelled.
\<close>

section \<open>State\<close>

record Config =
  cf_DataDir :: string
  cf_MaxSegmentBytes :: int
  cf_IndexInterval :: int
  cf_SegmentMaxAge :: int
  cf_SyncOnAppend :: bool
  cf_MaxLogBytes :: int

record LogOptions =
  lo_BaseOffset :: int
  lo_Topic :: string
  lo_Partition :: int
  lo_RetentionBytes :: int
  lo_RetentionTime :: int

record segment =
  sg_baseOffset :: int
  sg_nextOffset :: int
  sg_pos :: nat                  \<comment> \<open>cursor of \<^verbatim>\<open>file\<close>\<close>
  sg_size :: nat
  sg_createdAt :: int
  sg_idxPos :: "nat option"      \<comment> \<open>cursor of \<^verbatim>\<open>idxFile\<close>, \<open>None\<close> when it is nil\<close>
  sg_idx :: "indexEntry list"

type_synonym files = "(int \<times> bytes) list"

record segmentedLog =
  lg_opts :: LogOptions
  lg_cfg :: Config
  lg_logs :: files
  lg_idxs :: files
  lg_segments :: "segment list"
  lg_nextOffset :: int
  lg_startOffset :: int
  lg_closed :: bool

definition fileOf :: "files \<Rightarrow> int \<Rightarrow> bytes" where
  "fileOf fs base = (case map_of fs base of None \<Rightarrow> [] | Some b \<Rightarrow> b)"

definition NewManagerConfig :: "Config \<Rightarrow> Config result" where
  "NewManagerConfig cfg =
    (if cf_DataDir cfg = '''' then Inl (Errorf ''data dir required'')
     else Inr (cfg
       \<lparr>cf_MaxSegmentBytes := (if cf_MaxSegmentBytes cfg = 0 then 64 * 1024 * 1024 else cf_MaxSegmentBytes cfg),
        cf_IndexInterval := (if cf_IndexInterval cfg = 0 then 1024 else cf_IndexInterval cfg),
        cf_MaxLogBytes := (if cf_MaxLogBytes cfg = 0 then -1 else cf_MaxLogBytes cfg)\<rparr>))"

text \<open>The configuration of one log: the manager's with the overrides of the topic.\<close>

definition openLogConfig :: "Config \<Rightarrow> LogOptions \<Rightarrow> Config" where
  "openLogConfig cfg opts = cfg
     \<lparr>cf_MaxLogBytes := (if lo_RetentionBytes opts \<noteq> 0 then lo_RetentionBytes opts else cf_MaxLogBytes cfg),
      cf_SegmentMaxAge := (if lo_RetentionTime opts \<noteq> 0 then lo_RetentionTime opts else cf_SegmentMaxAge cfg)\<rparr>"

section \<open>Segments\<close>

definition createSegment :: "int \<Rightarrow> segmentedLog \<Rightarrow> int \<Rightarrow> segmentedLog" where
  "createSegment now l base =
    (let seg = \<lparr>sg_baseOffset = base, sg_nextOffset = base, sg_pos = 0, sg_size = 0, sg_createdAt = now,
                sg_idxPos = Some 8, sg_idx = []\<rparr>;
         segs = lg_segments l @ [seg]
     in l\<lparr>lg_logs := AList.update base (fileOf (lg_logs l) base) (lg_logs l),
          lg_idxs := AList.update base (le64 base) (lg_idxs l),
          lg_segments := segs,
          lg_startOffset := (if length segs = 1 \<or> base < lg_startOffset l then base else lg_startOffset l),
          lg_nextOffset := base\<rparr>)"

definition loadOrRebuildIndex :: "segmentedLog \<Rightarrow> segment \<Rightarrow> (segmentedLog \<times> segment) result option" where
  "loadOrRebuildIndex l seg =
    (let base = sg_baseOffset seg in
     case loadIndex (map_of (lg_idxs l) base) base of
       Inr entries \<Rightarrow> Some (Inr (l, seg\<lparr>sg_idxPos := Some (length (fileOf (lg_idxs l) base)), sg_idx := entries\<rparr>))
     | Inl _ \<Rightarrow>
       (case rebuildIndex (fileOf (lg_logs l) base) base (cf_IndexInterval (lg_cfg l)) of
          None \<Rightarrow> None
        | Some b \<Rightarrow>
          (let l' = l\<lparr>lg_idxs := AList.update base b (lg_idxs l)\<rparr> in
           case loadIndex (Some b) base of
             Inl e \<Rightarrow> Some (Inl e)
           | Inr entries \<Rightarrow> Some (Inr (l', seg\<lparr>sg_idxPos := Some (length b), sg_idx := entries\<rparr>)))))"

text \<open>\<open>mtime\<close> is the modification time that \<^verbatim>\<open>Stat\<close> reports.\<close>

definition openSegment :: "(int \<Rightarrow> int) \<Rightarrow> segmentedLog \<Rightarrow> int \<Rightarrow> bool \<Rightarrow> (segmentedLog \<times> segment) result option" where
  "openSegment mtime l base repair =
    (let c = fileOf (lg_logs l) base in
     case scanSegment c base of
       None \<Rightarrow> None
     | Some (nextOffset, goodBytes) \<Rightarrow>
       (let c' = (if repair \<and> goodBytes < length c then truncateTo c goodBytes else c);
            l' = l\<lparr>lg_logs := AList.update base c' (lg_logs l)\<rparr>
        in loadOrRebuildIndex l' \<lparr>sg_baseOffset = base, sg_nextOffset = nextOffset, sg_pos = goodBytes,
             sg_size = goodBytes, sg_createdAt = mtime base, sg_idxPos = None, sg_idx = []\<rparr>))"

fun openSegments :: "(int \<Rightarrow> int) \<Rightarrow> segmentedLog \<Rightarrow> int list \<Rightarrow> segmentedLog result option" where
  "openSegments mtime l [] = Some (Inr l)"
| "openSegments mtime l (base # bases) =
    (case openSegment mtime l base True of
       None \<Rightarrow> None
     | Some (Inl e) \<Rightarrow> Some (Inl e)
     | Some (Inr (l', seg)) \<Rightarrow>
       (let segs = lg_segments l' @ [seg] in
        openSegments mtime (l'\<lparr>lg_segments := segs, lg_nextOffset := sg_nextOffset seg,
          lg_startOffset := (if length segs = 1 \<or> base < lg_startOffset l' then base else lg_startOffset l')\<rparr>) bases))"

definition bootstrap :: "(int \<Rightarrow> int) \<Rightarrow> int \<Rightarrow> segmentedLog \<Rightarrow> segmentedLog result option" where
  "bootstrap mtime now l =
    (let bases = sort (remdups (map fst (lg_logs l))) in
     if bases = [] then Some (Inr (createSegment now l (lo_BaseOffset (lg_opts l))))
     else case openSegments mtime l bases of
       None \<Rightarrow> None
     | Some (Inl e) \<Rightarrow> Some (Inl e)
     | Some (Inr l') \<Rightarrow>
       (if lg_segments l' = [] then Some (Inr (createSegment now l' (lo_BaseOffset (lg_opts l'))))
        else let active = last (lg_segments l') in
          if int (sg_size active) \<ge> cf_MaxSegmentBytes (lg_cfg l') \<and> sg_nextOffset active > sg_baseOffset active
          then Some (Inr (createSegment now l' (lg_nextOffset l')))
          else Some (Inr l')))"

text \<open>\<^verbatim>\<open>recoverSegmentFile\<close>, which \<^verbatim>\<open>Manager.Recover\<close> runs on every segment file at start-up.\<close>

definition recoverSegmentFile :: "Config \<Rightarrow> bytes \<Rightarrow> int \<Rightarrow> (bytes \<times> bytes) option" where
  "recoverSegmentFile cfg c base = (case scanSegment c base of
       None \<Rightarrow> None
     | Some (_, goodBytes) \<Rightarrow>
       (let c' = (if goodBytes < length c then truncateTo c goodBytes else c) in
        map_option (\<lambda>idx. (c', idx)) (rebuildIndex c' base (cf_IndexInterval cfg))))"

text \<open>
  The walk of \<^verbatim>\<open>Manager.Recover\<close> over the files of one directory: segment files are repaired and
  their index files written anew, other files are passed over.
\<close>

fun recoverWalk :: "(nat \<Rightarrow> bool) \<Rightarrow> Config \<Rightarrow> files \<Rightarrow> files \<Rightarrow> int list \<Rightarrow> (files \<times> files \<times> go_error option) option" where
  "recoverWalk ctx cfg logs idxs [] = Some (logs, idxs, None)"
| "recoverWalk ctx cfg logs idxs (base # bases) =
    (if ctx 0 then Some (logs, idxs, Some Canceled)
     else case recoverSegmentFile cfg (fileOf logs base) base of
       None \<Rightarrow> None
     | Some (c, idx) \<Rightarrow>
       recoverWalk (\<lambda>n. ctx (Suc n)) cfg (AList.update base c logs) (AList.update base idx idxs) bases)"

section \<open>Appending\<close>

definition removeOldestSegmentLocked :: "segmentedLog \<Rightarrow> segmentedLog" where
  "removeOldestSegmentLocked l = (case lg_segments l of
       [] \<Rightarrow> l
     | oldest # segs \<Rightarrow> l\<lparr>lg_logs := AList.delete (sg_baseOffset oldest) (lg_logs l),
         lg_idxs := AList.delete (sg_baseOffset oldest) (lg_idxs l), lg_segments := segs,
         lg_startOffset := (case segs of [] \<Rightarrow> lg_nextOffset l | s # _ \<Rightarrow> sg_baseOffset s)\<rparr>)"

lemma length_removeOldest [simp]:
  "length (lg_segments (removeOldestSegmentLocked l)) = length (lg_segments l) - 1"
  by (simp add: removeOldestSegmentLocked_def split: list.split)

definition totalSizeLocked :: "segmentedLog \<Rightarrow> int" where
  "totalSizeLocked l = sum_list (map (\<lambda>seg. int (sg_size seg)) (lg_segments l))"

function retainByAge :: "int \<Rightarrow> segmentedLog \<Rightarrow> segmentedLog" where
  "retainByAge now l =
    (if length (lg_segments l) > 1 \<and> cf_SegmentMaxAge (lg_cfg l) > 0
     then if now - sg_createdAt (hd (lg_segments l)) \<le> cf_SegmentMaxAge (lg_cfg l) then l
       else retainByAge now (removeOldestSegmentLocked l)
     else l)"
  by pat_completeness auto
termination by (relation "measure (\<lambda>(now, l). length (lg_segments l))") auto

function retainBySize :: "segmentedLog \<Rightarrow> segmentedLog" where
  "retainBySize l =
    (if totalSizeLocked l > cf_MaxLogBytes (lg_cfg l) \<and> length (lg_segments l) > 1
     then retainBySize (removeOldestSegmentLocked l) else l)"
  by pat_completeness auto
termination by (relation "measure (\<lambda>l. length (lg_segments l))") auto

declare retainByAge.simps [simp del] retainBySize.simps [simp del]

definition enforceRetentionLocked :: "int \<Rightarrow> segmentedLog \<Rightarrow> segmentedLog" where
  "enforceRetentionLocked now l =
    (let l' = retainByAge now l in
     if cf_MaxLogBytes (lg_cfg l') > 0 then retainBySize l' else l')"

definition ensureActiveSegmentLocked :: "int \<Rightarrow> segmentedLog \<Rightarrow> segmentedLog" where
  "ensureActiveSegmentLocked now l =
    (if lg_segments l = [] then createSegment now l (lo_BaseOffset (lg_opts l)) else l)"

text \<open>The active segment is the last one; its fields are updated in place.\<close>

definition active :: "segmentedLog \<Rightarrow> segment" where
  "active l = last (lg_segments l)"

definition setActive :: "segmentedLog \<Rightarrow> segment \<Rightarrow> segmentedLog" where
  "setActive l seg = l\<lparr>lg_segments := butlast (lg_segments l) @ [seg]\<rparr>"

definition appendIndexEntry :: "segmentedLog \<Rightarrow> int \<Rightarrow> int \<Rightarrow> segmentedLog" where
  "appendIndexEntry l rel pos =
    (let a = active l in case sg_idxPos a of
       None \<Rightarrow> l
     | Some p \<Rightarrow>
       (let b = putIndexEntry rel pos; base = sg_baseOffset a in
        setActive (l\<lparr>lg_idxs := AList.update base (overwrite (fileOf (lg_idxs l) base) p b) (lg_idxs l)\<rparr>)
          (a\<lparr>sg_idxPos := Some (p + length b), sg_idx := sg_idx a @ [(rel, pos)]\<rparr>)))"

definition rotates :: "segmentedLog \<Rightarrow> bytes \<Rightarrow> bool" where
  "rotates l b \<longleftrightarrow> int (sg_size (active l)) + int (length b) > cf_MaxSegmentBytes (lg_cfg l) \<and> sg_size (active l) > 0"

text \<open>What an iteration of the loop writes once the segment \<^verbatim>\<open>active\<close> is chosen: the frame, the index entry, the size and the offset.\<close>

definition writeActive :: "segmentedLog \<Rightarrow> int \<Rightarrow> bytes \<Rightarrow> segmentedLog" where
  "writeActive l1 off b =
    (let a = active l1;
         base = sg_baseOffset a;
         pos = sg_size a;
         l2 = setActive (l1\<lparr>lg_logs := AList.update base (overwrite (fileOf (lg_logs l1) base) (sg_pos a) b)
                               (lg_logs l1)\<rparr>) (a\<lparr>sg_pos := sg_pos a + length b\<rparr>);
         recordCount = sg_nextOffset a - base;
         l3 = (if recordCount mod cf_IndexInterval (lg_cfg l2) = 0 \<and> sg_idxPos a \<noteq> None
               then appendIndexEntry l2 (off - base) (int pos) else l2);
         l4 = setActive l3 ((active l3)\<lparr>sg_size := pos + length b\<rparr>)
     in l4\<lparr>lg_nextOffset := wrapS 64 (lg_nextOffset l4 + 1)\<rparr>)"

text \<open>
  One iteration of the loop of \<^verbatim>\<open>AppendBatch\<close>: \<open>t\<close> is \<^verbatim>\<open>time.Now()\<close> for a record without a
  timestamp, \<open>now\<close> the creation time of a new segment.
\<close>

definition appendOne :: "int \<Rightarrow> int \<Rightarrow> segmentedLog \<Rightarrow> Record \<Rightarrow> segmentedLog result" where
  "appendOne t now l r =
    (let r1 = r\<lparr>r_Offset := lg_nextOffset l\<rparr>;
         r2 = (if isZero (r_Timestamp r1) then r1\<lparr>r_Timestamp := Some t\<rparr> else r1)
     in bindE (encodeRecord_log r2) (\<lambda>b.
       let l1 = (if rotates l b then createSegment now l (lg_nextOffset l) else l)
       in Inr (writeActive l1 (r_Offset r2) b)))"

fun appendLoop :: "(nat \<Rightarrow> bool) \<Rightarrow> (nat \<Rightarrow> int) \<Rightarrow> int \<Rightarrow> segmentedLog \<Rightarrow> Record list \<Rightarrow>
    segmentedLog \<times> go_error option" where
  "appendLoop ctx clock now l [] = (l, None)"
| "appendLoop ctx clock now l (r # rs) =
    (if ctx 0 then (l, Some Canceled)
     else case appendOne (clock 0) now l r of
       Inl e \<Rightarrow> (l, Some e)
     | Inr l' \<Rightarrow> appendLoop (\<lambda>n. ctx (Suc n)) (\<lambda>n. clock (Suc n)) now l' rs)"

definition AppendBatch :: "(nat \<Rightarrow> bool) \<Rightarrow> (nat \<Rightarrow> int) \<Rightarrow> int \<Rightarrow> segmentedLog \<Rightarrow> Record list \<Rightarrow>
    segmentedLog \<times> int \<times> go_error option" where
  "AppendBatch ctx clock now l records =
    (if lg_closed l then (l, -1, Some (Errorf ''log closed''))
     else if records = [] then (l, lg_nextOffset l, None)
     else
       (let l0 = ensureActiveSegmentLocked now l;
            baseOffset = lg_nextOffset l0
        in case appendLoop ctx clock now l0 records of
             (l1, Some e) \<Rightarrow> (l1, -1, Some e)
           | (l1, None) \<Rightarrow>
             (let l2 = setActive l1 ((active l1)\<lparr>sg_nextOffset := lg_nextOffset l1\<rparr>)
              in (enforceRetentionLocked now l2, baseOffset, None))))"

definition Append_log :: "(nat \<Rightarrow> bool) \<Rightarrow> (nat \<Rightarrow> int) \<Rightarrow> int \<Rightarrow> segmentedLog \<Rightarrow> Record \<Rightarrow>
    segmentedLog \<times> int \<times> go_error option" where
  "Append_log ctx clock now l r = AppendBatch ctx clock now l [r]"

section \<open>Reading\<close>

text \<open>
  \<^verbatim>\<open>io.SectionReader\<close> with its limit: a read is cut short at the limit, and fails at the limit
  or at the end of the file; \<^verbatim>\<open>io.ReadFull\<close> fails on a short read.
\<close>

definition sectionRead :: "bytes \<Rightarrow> nat \<Rightarrow> nat \<Rightarrow> nat \<Rightarrow> bytes result" where
  "sectionRead c limit off n =
    (if off \<ge> limit then Inl EOF
     else let m = min n (limit - off) in
       if off + m \<le> length c then Inr (take m (drop off c)) else Inl EOF)"

definition sectionReadFull :: "bytes \<Rightarrow> nat \<Rightarrow> nat \<Rightarrow> nat \<Rightarrow> bytes result" where
  "sectionReadFull c limit off n =
    (if off + n \<le> limit \<and> off + n \<le> length c then Inr (take n (drop off c)) else Inl ErrUnexpectedEOF)"

lemma section_progress:
  assumes "sectionRead c limit off 4 = Inr b"
  shows "limit - (off + length b + n) < limit - off"
proof -
  have "off < limit" "0 < length b"
    using assms by (auto simp: sectionRead_def Let_def split: if_splits)
  then show ?thesis by arith
qed

text \<open>
  The loop of \<^verbatim>\<open>readFromSegment\<close>: \<open>off\<close> is the reader's position; besides the records and the
  error it returns the context polls that are left.
\<close>

function readLoop :: "(nat \<Rightarrow> bool) \<Rightarrow> bytes \<Rightarrow> nat \<Rightarrow> nat \<Rightarrow> nat \<Rightarrow> int \<Rightarrow> int \<Rightarrow> int \<Rightarrow> Record list \<Rightarrow>
    Record list \<times> go_error option \<times> (nat \<Rightarrow> bool)" where
  "readLoop ctx c segSize startPos off offset maxBytes consumed res =
    (let ctx' = (\<lambda>n. ctx (Suc n)) in
     if ctx 0 then (res, Some Canceled, ctx')
     else case sectionRead c segSize off 4 of
       Inl e \<Rightarrow> (res, None, ctx')
     | Inr sizeBuf \<Rightarrow>
       (let size = val_uint LittleEndian (sizeBuf @ replicate (4 - length sizeBuf) 0) in
        if size = 0 then (res, None, ctx')
        else case sectionReadFull c segSize (off + length sizeBuf) (nat size) of
          Inl e \<Rightarrow> (res, None, ctx')
        | Inr data \<Rightarrow> (case decodeRecord_log data of
            Inl e \<Rightarrow> (res, Some e, ctx')
          | Inr rec \<Rightarrow> (case validateRecord data (r_Offset rec) of
              Inl e \<Rightarrow> (res, Some e, ctx')
            | Inr _ \<Rightarrow>
              (let consumed' = consumed + (4 + size) mod 2 ^ 32;
                   off' = off + length sizeBuf + nat size in
               if r_Offset rec < offset
               then readLoop ctx' c segSize startPos off' offset maxBytes consumed' res
               else let res' = res @ [rec] in
                 if maxBytes > 0
                 then case toInt32Length (int (blen (r_Value rec))) ''record value length'' of
                     Inl e \<Rightarrow> ([], Some e, ctx')
                   | Inr valueLen \<Rightarrow>
                     (if maxBytes - valueLen \<le> 0 \<or> consumed' + int startPos \<ge> int segSize then (res', None, ctx')
                      else readLoop ctx' c segSize startPos off' offset (maxBytes - valueLen) consumed' res')
                 else if consumed' + int startPos \<ge> int segSize then (res', None, ctx')
                 else readLoop ctx' c segSize startPos off' offset maxBytes consumed' res')))))"
  by pat_completeness auto
termination
  by (relation "measure (\<lambda>(ctx, c, segSize, startPos, off, offset, m, co, res). segSize - off)")
    (simp_all add: section_progress)

declare readLoop.simps [simp del]

definition readFromSegment :: "(nat \<Rightarrow> bool) \<Rightarrow> files \<Rightarrow> segment \<Rightarrow> int \<Rightarrow> int \<Rightarrow>
    Record list \<times> go_error option \<times> (nat \<Rightarrow> bool)" where
  "readFromSegment ctx logs seg offset maxBytes =
    (let startPos = (case lookupIndex (sg_idx seg) (sg_baseOffset seg) offset of None \<Rightarrow> 0 | Some pos \<Rightarrow> nat pos)
     in readLoop ctx (fileOf logs (sg_baseOffset seg)) (sg_size seg) startPos startPos offset maxBytes 0 [])"

text \<open>The inner loop of \<^verbatim>\<open>Read\<close>: the records taken, the bytes counted, and whether it is full.\<close>

fun takeRecords :: "int \<Rightarrow> int \<Rightarrow> Record list \<Rightarrow> Record list \<Rightarrow> (Record list \<times> int \<times> bool) result" where
  "takeRecords maxBytes bytesRead res [] = Inr (res, bytesRead, False)"
| "takeRecords maxBytes bytesRead res (r # rs) =
    (let res' = res @ [r] in
     if maxBytes > 0
     then bindE (toInt32Length (int (blen (r_Value r))) ''record value length'') (\<lambda>valueLen.
       let bytesRead' = wrapS 32 (bytesRead + valueLen) in
       if bytesRead' \<ge> maxBytes then Inr (res', bytesRead', True)
       else takeRecords maxBytes bytesRead' res' rs)
     else takeRecords maxBytes bytesRead res' rs)"

fun readSegments :: "(nat \<Rightarrow> bool) \<Rightarrow> files \<Rightarrow> segment list \<Rightarrow> int \<Rightarrow> int \<Rightarrow> int \<Rightarrow> Record list \<Rightarrow> Record list result" where
  "readSegments ctx logs [] offset maxBytes bytesRead res = Inr res"
| "readSegments ctx logs (seg # segs) offset maxBytes bytesRead res =
    (if offset \<ge> sg_nextOffset seg then readSegments ctx logs segs offset maxBytes bytesRead res
     else let offset' = (if offset < sg_baseOffset seg then sg_baseOffset seg else offset) in
       case readFromSegment ctx logs seg offset' (wrapS 32 (maxBytes - bytesRead)) of
         (records, Some e, ctx') \<Rightarrow> Inl e
       | (records, None, ctx') \<Rightarrow>
         bindE (takeRecords maxBytes bytesRead res records) (\<lambda>(res', bytesRead', full).
           if full then Inr res'
           else readSegments ctx' logs segs (sg_nextOffset seg) maxBytes bytesRead' res'))"

definition Read :: "(nat \<Rightarrow> bool) \<Rightarrow> segmentedLog \<Rightarrow> int \<Rightarrow> int \<Rightarrow> Record list result" where
  "Read ctx l offset maxBytes =
    (if lg_closed l then Inl (Errorf ''log closed'')
     else if offset \<ge> lg_nextOffset l then Inr []
     else readSegments ctx (lg_logs l) (lg_segments l) offset maxBytes 0 [])"

section \<open>Truncation, watermarks, closing\<close>

function seekLoop :: "bytes \<Rightarrow> nat \<Rightarrow> int \<Rightarrow> nat \<Rightarrow> nat \<Rightarrow> nat \<times> go_error option" where
  "seekLoop c segSize target off pos = (case sectionRead c segSize off 4 of
       Inl e \<Rightarrow> (pos, None)
     | Inr sizeBuf \<Rightarrow>
       (let size = val_uint LittleEndian (sizeBuf @ replicate (4 - length sizeBuf) 0) in
        if size = 0 then (pos, None)
        else case sectionReadFull c segSize (off + length sizeBuf) (nat size) of
          Inl e \<Rightarrow> (pos, Some e)
        | Inr data \<Rightarrow> (case decodeRecord_log data of
            Inl e \<Rightarrow> (pos, Some e)
          | Inr rec \<Rightarrow>
            if r_Offset rec \<ge> target then (pos, None)
            else seekLoop c segSize target (off + length sizeBuf + nat size)
                   (pos + nat ((4 + size) mod 2 ^ 32)))))"
  by pat_completeness auto
termination
  by (relation "measure (\<lambda>(c, segSize, target, off, pos). segSize - off)")
    (simp_all add: section_progress)

declare seekLoop.simps [simp del]

definition seekToOffset :: "files \<Rightarrow> segment \<Rightarrow> int \<Rightarrow> nat \<times> go_error option" where
  "seekToOffset logs seg target = seekLoop (fileOf logs (sg_baseOffset seg)) (sg_size seg) target 0 0"

text \<open>
  The loop of \<^verbatim>\<open>Truncate\<close> over the segments, with the ones kept so far.  A discarded segment is
  closed and its file emptied or left as it is; an error leaves the list of segments as it was.
\<close>

fun truncateLoop :: "segmentedLog \<Rightarrow> int \<Rightarrow> segment list \<Rightarrow> segment list \<Rightarrow>
    (segmentedLog \<times> segment list result) option" where
  "truncateLoop l offset kept [] = Some (l, Inr kept)"
| "truncateLoop l offset kept (seg # segs) =
    (let base = sg_baseOffset seg in
     if offset \<le> base
     then truncateLoop (l\<lparr>lg_logs := AList.update base (truncateTo (fileOf (lg_logs l) base) 0) (lg_logs l)\<rparr>) offset kept segs
     else if offset \<ge> sg_nextOffset seg then truncateLoop l offset (kept @ [seg]) segs
     else case seekToOffset (lg_logs l) seg offset of
       (pos, Some e) \<Rightarrow> Some (l, Inl e)
     | (pos, None) \<Rightarrow>
       (let c = truncateTo (fileOf (lg_logs l) base) pos;
            l1 = l\<lparr>lg_logs := AList.update base c (lg_logs l)\<rparr> in
        case rebuildIndex c base (cf_IndexInterval (lg_cfg l)) of
          None \<Rightarrow> None
        | Some b \<Rightarrow>
          (let seg' = (case loadIndex (Some b) base of
                 Inl e \<Rightarrow> seg\<lparr>sg_size := pos, sg_nextOffset := offset, sg_idxPos := None, sg_idx := []\<rparr>
               | Inr es \<Rightarrow> seg\<lparr>sg_size := pos, sg_nextOffset := offset, sg_idxPos := Some (length b), sg_idx := es\<rparr>)
           in Some (l1\<lparr>lg_idxs := AList.update base b (lg_idxs l1)\<rparr>, Inr (kept @ [seg'])))))"

definition Truncate :: "bool \<Rightarrow> int \<Rightarrow> segmentedLog \<Rightarrow> int \<Rightarrow> (segmentedLog \<times> go_error option) option" where
  "Truncate done now l offset =
    (if lg_closed l then Some (l, Some (Errorf ''log closed''))
     else if done then Some (l, Some Canceled)
     else case truncateLoop l offset [] (lg_segments l) of
       None \<Rightarrow> None
     | Some (l1, Inl e) \<Rightarrow> Some (l1, Some e)
     | Some (l1, Inr kept) \<Rightarrow>
       (let l2 = l1\<lparr>lg_segments := kept, lg_nextOffset := offset\<rparr>;
            l3 = (if kept = [] then createSegment now l2 offset else l2)
        in Some (l3\<lparr>lg_startOffset := sg_baseOffset (hd (lg_segments l3))\<rparr>, None)))"

definition HighWatermark :: "segmentedLog \<Rightarrow> int" where
  "HighWatermark l = (if lg_nextOffset l = 0 then -1 else lg_nextOffset l - 1)"

definition StartOffset :: "segmentedLog \<Rightarrow> int" where
  "StartOffset l = lg_startOffset l"

definition Close_log :: "segmentedLog \<Rightarrow> segmentedLog \<times> go_error option" where
  "Close_log l = (if lg_closed l then (l, None) else (l\<lparr>lg_closed := True\<rparr>, None))"

section \<open>The log manager\<close>

text \<open>
  \<^verbatim>\<open>Manager\<close>: the logs it has opened, by topic and partition (the key of its map is the directory
  of the partition), and the files of the partition directories that have no open log.  A log
  handed out by \<^verbatim>\<open>OpenLog\<close> is a reference to the log of its key.
\<close>

type_synonym logKey = "string \<times> int"

record Manager =
  mg_cfg :: Config
  mg_logs :: "(logKey \<times> segmentedLog) list"
  mg_disk :: "(logKey \<times> files \<times> files) list"

definition NewManager :: "Config \<Rightarrow> (logKey \<times> files \<times> files) list \<Rightarrow> Manager result" where
  "NewManager cfg disk = bindE (NewManagerConfig cfg) (\<lambda>c. Inr \<lparr>mg_cfg = c, mg_logs = [], mg_disk = disk\<rparr>)"

definition OpenLog :: "(int \<Rightarrow> int) \<Rightarrow> int \<Rightarrow> Manager \<Rightarrow> LogOptions \<Rightarrow> (Manager \<times> segmentedLog result) option" where
  "OpenLog mtime now m opts =
    (if lo_Topic opts = '''' then Some (m, Inl (Errorf ''topic is required''))
     else let key = (lo_Topic opts, lo_Partition opts) in
       case map_of (mg_logs m) key of
         Some l \<Rightarrow>
           (if \<not> lg_closed l then Some (m, Inr l)
            else case bootstrap mtime now \<lparr>lg_opts = opts, lg_cfg = openLogConfig (mg_cfg m) opts, lg_logs = lg_logs l,
                lg_idxs = lg_idxs l, lg_segments = [], lg_nextOffset = 0, lg_startOffset = 0, lg_closed = False\<rparr> of
              None \<Rightarrow> None
            | Some (Inl e) \<Rightarrow> Some (m\<lparr>mg_logs := AList.delete key (mg_logs m),
                mg_disk := AList.update key (lg_logs l, lg_idxs l) (mg_disk m)\<rparr>, Inl e)
            | Some (Inr l') \<Rightarrow> Some (m\<lparr>mg_logs := AList.update key l' (mg_logs m)\<rparr>, Inr l'))
       | None \<Rightarrow>
           (let (logs, idxs) = (case map_of (mg_disk m) key of None \<Rightarrow> ([], []) | Some d \<Rightarrow> d) in
            case bootstrap mtime now \<lparr>lg_opts = opts, lg_cfg = openLogConfig (mg_cfg m) opts, lg_logs = logs,
                lg_idxs = idxs, lg_segments = [], lg_nextOffset = 0, lg_startOffset = 0, lg_closed = False\<rparr> of
              None \<Rightarrow> None
            | Some (Inl e) \<Rightarrow> Some (m, Inl e)
            | Some (Inr l') \<Rightarrow> Some (m\<lparr>mg_logs := AList.update key l' (mg_logs m)\<rparr>, Inr l')))"

text \<open>\<^verbatim>\<open>Manager.Recover\<close> walks the directories of a manager that has opened no log yet.\<close>

fun recoverDirs :: "(nat \<Rightarrow> bool) \<Rightarrow> Config \<Rightarrow> (logKey \<times> files \<times> files) list \<Rightarrow>
    ((logKey \<times> files \<times> files) list \<times> go_error option) option" where
  "recoverDirs ctx cfg [] = Some ([], None)"
| "recoverDirs ctx cfg ((key, logs, idxs) # ds) =
    (case recoverWalk ctx cfg logs idxs (sort (remdups (map fst logs))) of
       None \<Rightarrow> None
     | Some (logs', idxs', Some e) \<Rightarrow> Some ((key, logs', idxs') # ds, Some e)
     | Some (logs', idxs', None) \<Rightarrow>
       map_option (\<lambda>(ds', e). ((key, logs', idxs') # ds', e))
         (recoverDirs (\<lambda>n. ctx (n + length (remdups (map fst logs)))) cfg ds))"

definition Recover_mgr :: "(nat \<Rightarrow> bool) \<Rightarrow> Manager \<Rightarrow> (Manager \<times> go_error option) option" where
  "Recover_mgr ctx m = map_option (\<lambda>(disk, e). (m\<lparr>mg_disk := disk\<rparr>, e)) (recoverDirs ctx (mg_cfg m) (mg_disk m))"

text \<open>\<^verbatim>\<open>Manager.Close\<close> closes every log and forgets it; the files stay.\<close>

definition Close_mgr :: "Manager \<Rightarrow> Manager \<times> go_error option" where
  "Close_mgr m = (m\<lparr>mg_logs := [], mg_disk := foldr (\<lambda>(key, l). AList.update key (lg_logs l, lg_idxs l)) (mg_logs m) (mg_disk m)\<rparr>, None)"

end
