(* ===== verification/LogProperties.thy ===== *)
theory LogProperties
  imports SegmentedLog
begin

text \<open>
  Correctness of the segmented log.  \<open>represents l rss\<close> says that an open log holds the records
  \<open>rss\<close>, one list per segment: files, cursors, counters and indexes agree.  The lemmas follow the
  operations: reading a segment and a chain of segments, appending with and without a new
  segment, retention, and opening a directory whose last segment file is torn.
\<close>

section \<open>What a log holds\<close>

text \<open>The records of a run of offsets as they are read back.\<close>

fun storedFrom :: "int \<Rightarrow> Record list \<Rightarrow> Record list" where
  "storedFrom s [] = []"
| "storedFrom s (r # rs) = stored s r # storedFrom (s + 1) rs"

lemma length_storedFrom [simp]: "length (storedFrom s rs) = length rs"
  by (induction rs arbitrary: s) simp_all

lemma storedFrom_append: "storedFrom s (rs @ qs) = storedFrom s rs @ storedFrom (s + int (length rs)) qs"
  by (induction rs arbitrary: s) (simp_all add: algebra_simps)

lemma storedFrom_drop: "storedFrom (s + int n) (drop n rs) = drop n (storedFrom s rs)" if "n \<le> length rs"
proof -
  have "storedFrom s rs = storedFrom s (take n rs) @ storedFrom (s + int n) (drop n rs)"
    using that storedFrom_append [of s "take n rs" "drop n rs"] by simp
  then show ?thesis using that by simp
qed

text \<open>What the budget of a fetch lets through: records until the value bytes reach it.\<close>

fun budget :: "int \<Rightarrow> Record list \<Rightarrow> Record list" where
  "budget m [] = []"
| "budget m (r # rs) = r # (if m \<le> 0 then budget m rs
     else if m - int (blen (r_Value r)) \<le> 0 then [] else budget (m - int (blen (r_Value r))) rs)"

definition valueBytes :: "Record list \<Rightarrow> int" where
  "valueBytes rs = sum_list (map (\<lambda>r. int (blen (r_Value r))) rs)"

lemma budget_all: "m \<le> 0 \<Longrightarrow> budget m rs = rs"
  by (induction rs) simp_all

lemma valueBytes_simps [simp]:
  "valueBytes [] = 0" "valueBytes (r # rs) = int (blen (r_Value r)) + valueBytes rs"
  "valueBytes (rs @ qs) = valueBytes rs + valueBytes qs"
  by (simp_all add: valueBytes_def)

lemma valueBytes_nonneg: "0 \<le> valueBytes rs"
  by (induction rs) simp_all

lemma budget_append:
  "0 < m \<Longrightarrow> budget m (rs @ qs) = budget m rs @ (if m \<le> valueBytes rs then [] else budget (m - valueBytes rs) qs)"
proof (induction rs arbitrary: m)
  case (Cons r rs)
  then show ?case using valueBytes_nonneg [of rs] by (auto simp: algebra_simps)
qed simp

text \<open>A segment that holds the records \<open>rs\<close>: its file, its cursors, its counters and its index.\<close>

definition segHolds :: "files \<Rightarrow> segment \<Rightarrow> Record list \<Rightarrow> bool" where
  "segHolds logs seg rs \<longleftrightarrow> okSeg (sg_baseOffset seg) rs
     \<and> map_of logs (sg_baseOffset seg) = Some (segLog (sg_baseOffset seg) rs)
     \<and> sg_size seg = length (segLog (sg_baseOffset seg) rs) \<and> sg_pos seg = sg_size seg
     \<and> okIndex (sg_baseOffset seg) rs (sg_idx seg)"

section \<open>Reading a segment\<close>

lemma sectionRead_frame:
  assumes "length (p @ b) \<le> limit" "limit \<le> length (p @ b @ q)" "length b = 4"
  shows "sectionRead (p @ b @ q) limit (length p) 4 = Inr b"
  using assms by (simp add: sectionRead_def Let_def min_def)

lemma sectionReadFull_frame:
  assumes "length (p @ b) \<le> limit" "limit \<le> length (p @ b @ q)" "n = length b" "off = length p"
  shows "sectionReadFull (p @ b @ q) limit off n = Inr b"
  using assms by (simp add: sectionReadFull_def)

text \<open>One iteration of the read loop on a whole frame.\<close>

lemma readLoop_frame:
  assumes ok: "okAt s r" and c: "c = p @ recFrame s r @ q" and lim: "limit = length c"
    and cons: "consumed + int start = int (length p)"
  shows "readLoop (\<lambda>n. False) c limit start (length p) offset m consumed res =
    (if s < offset
     then readLoop (\<lambda>n. False) c limit start (length (p @ recFrame s r)) offset m (consumed + int (length (recFrame s r))) res
     else if (0 < m \<and> m - int (blen (r_Value r)) \<le> 0) \<or> q = [] then (res @ [stored s r], None, (\<lambda>n. False))
     else readLoop (\<lambda>n. False) c limit start (length (p @ recFrame s r)) offset
            (if 0 < m then m - int (blen (r_Value r)) else m) (consumed + int (length (recFrame s r))) (res @ [stored s r]))"
proof -
  obtain rec where f: "recFrame s r = le32 (int (length rec)) @ rec" and pos: "32 \<le> length rec"
    and le: "length rec < 4294967292" and v: "validateRecord rec s = Inr ()"
    and d: "decodeRecord_log rec = Inr (stored s r)"
    using recFrame_parts [OF ok] by metis
  have so: "r_Offset (stored s r) = s" "r_Value (stored s r) = r_Value r" by (simp_all add: stored_def)
  have "sectionRead (p @ le32 (int (length rec)) @ rec @ q) limit (length p) 4 = Inr (le32 (int (length rec)))"
    using lim c f by (intro sectionRead_frame) simp_all
  then have r1: "sectionRead c limit (length p) 4 = Inr (le32 (int (length rec)))" by (simp add: c f)
  have "sectionReadFull ((p @ le32 (int (length rec))) @ rec @ q) limit (length p + 4) (length rec) = Inr rec"
    using lim c f by (intro sectionReadFull_frame) simp_all
  then have r2: "sectionReadFull c limit (length p + 4) (length rec) = Inr rec" by (simp add: c f)
  have u: "inU 32 (int (length rec))" using le by (simp add: inU_def)
  have adv: "(4 + int (length rec)) mod 4294967296 = 4 + int (length rec)" using le by simp
  have ne: "rec \<noteq> []" using pos by auto
  have vl: "toInt32Length (int (blen (r_Value r))) ''record value length'' = Inr (int (blen (r_Value r)))"
    using ok by (simp add: toInt32Length_def okAt_def okLogRecord_def okField_def)
  have full: "consumed + (4 + int (length rec)) + int start \<ge> int limit \<longleftrightarrow> q = []"
    using cons lim by (auto simp: c f)
  have fl: "length (p @ recFrame s r) = length p + 4 + length rec" "int (length (recFrame s r)) = 4 + int (length rec)"
    by (simp_all add: f)
  show ?thesis unfolding fl
    by (subst readLoop.simps)
      (simp only: r1 Let_def if_False sum.case, simp add: u r2 ne d v so adv vl full)
qed

lemma readLoop_end:
  "limit = length c \<Longrightarrow> readLoop (\<lambda>n. False) c limit start (length c) offset m consumed res = (res, None, (\<lambda>n. False))"
  by (subst readLoop.simps) (simp add: sectionRead_def)

lemma recFrame_nonempty: "okAt s r \<Longrightarrow> recFrame s r \<noteq> []"
  by (metis append_is_Nil_conv length_0_conv length_put_int recFrame_parts zero_neq_numeral)

lemma segLog_empty_iff: "okSeg s rs \<Longrightarrow> segLog s rs = [] \<longleftrightarrow> rs = []"
  by (cases rs) (simp_all add: segLog_Cons okSeg_Cons recFrame_nonempty)

definition fromOffset :: "int \<Rightarrow> Record list \<Rightarrow> Record list" where
  "fromOffset offset rs = filter (\<lambda>r. offset \<le> r_Offset r) rs"

lemma fromOffset_append [simp]: "fromOffset offset (rs @ qs) = fromOffset offset rs @ fromOffset offset qs"
  by (simp add: fromOffset_def)

lemma stored_simps [simp]: "r_Offset (stored s r) = s" "r_Value (stored s r) = r_Value r"
  by (simp_all add: stored_def)

lemma storedFrom_offsets: "r \<in> set (storedFrom s rs) \<Longrightarrow> s \<le> r_Offset r \<and> r_Offset r < s + int (length rs)"
  by (induction rs arbitrary: s) fastforce+

lemma fromOffset_all: "offset \<le> s \<Longrightarrow> fromOffset offset (storedFrom s rs) = storedFrom s rs"
  unfolding fromOffset_def by (rule filter_True) (auto dest: storedFrom_offsets)

lemma fromOffset_none: "s + int (length rs) \<le> offset \<Longrightarrow> fromOffset offset (storedFrom s rs) = []"
  unfolding fromOffset_def by (rule filter_False) (auto dest!: storedFrom_offsets)

lemma fromOffset_drop:
  assumes "s \<le> offset" "offset \<le> s + int (length rs)"
  shows "fromOffset offset (storedFrom s rs) = drop (nat (offset - s)) (storedFrom s rs)"
proof -
  let ?n = "nat (offset - s)"
  have n: "?n \<le> length rs" "int ?n = offset - s" using assms by simp_all
  have "storedFrom s rs = storedFrom s (take ?n rs) @ storedFrom (s + int ?n) (drop ?n rs)"
    using n storedFrom_append [of s "take ?n rs" "drop ?n rs"] by simp
  then have "fromOffset offset (storedFrom s rs) = storedFrom (s + int ?n) (drop ?n rs)"
    using n fromOffset_none [of s "take ?n rs" offset] fromOffset_all [of offset "s + int ?n"] by simp
  then show ?thesis using storedFrom_drop [OF n(1), of s] by simp
qed

lemma readLoop_log:
  "okSeg s rs \<Longrightarrow> c = p @ segLog s rs \<Longrightarrow> limit = length c \<Longrightarrow> consumed + int start = int (length p) \<Longrightarrow>
   readLoop (\<lambda>n. False) c limit start (length p) offset m consumed res =
   (res @ budget m (fromOffset offset (storedFrom s rs)), None, (\<lambda>n. False))"
proof (induction rs arbitrary: s p m consumed res)
  case Nil
  then show ?case by (simp add: readLoop_end fromOffset_def)
next
  case (Cons r rs)
  let ?q = "segLog (s + 1) rs" and ?f = "recFrame s r"
  have ok: "okAt s r" "okSeg (s + 1) rs" using Cons.prems(1) by (simp_all add: okSeg_Cons)
  have c: "c = p @ ?f @ ?q" using Cons.prems(1,2) by (simp add: segLog_Cons)
  have q: "?q = [] \<longleftrightarrow> rs = []" using ok(2) by (rule segLog_empty_iff)
  have ih: "readLoop (\<lambda>n. False) c limit start (length (p @ ?f)) offset m' (consumed + int (length ?f)) res'
      = (res' @ budget m' (fromOffset offset (storedFrom (s + 1) rs)), None, (\<lambda>n. False))" for m' res'
    using Cons.prems(3,4) c by (intro Cons.IH [OF ok(2)]) simp_all
  show ?case
    unfolding readLoop_frame [OF ok(1) c Cons.prems(3,4)] q ih
    by (auto simp: fromOffset_def)
qed

text \<open>The index only skips records before the requested offset.\<close>

lemma lookupIndex_start:
  assumes "okIndex base rs idx" "lookupIndex idx base offset = Some pos"
  obtains k where "k < length rs" "base + int k \<le> offset" "pos = int (length (segLog base (take k rs)))"
proof -
  have "indexFloor idx base offset = Some pos"
    using assms lookupIndex_floor [of idx base offset] by (simp add: okIndex_def)
  then obtain es where es: "es = filter (\<lambda>(rel, pos). rel \<le> offset - base) idx" "es \<noteq> []" "pos = snd (last es)"
    by (auto simp: indexFloor_def Let_def split: if_splits)
  define rel where "rel = fst (last es)"
  have "last es \<in> set es" using es(2) by simp
  then have "(rel, pos) \<in> set idx" "rel \<le> offset - base"
    using es(1,3) by (auto simp: rel_def case_prod_unfold)
  then have "0 \<le> rel" "rel < int (length rs)" "rel \<le> offset - base" "pos = int (length (segLog base (take (nat rel) rs)))"
    using assms(1) by (auto simp: okIndex_def)
  then show thesis using that [of "nat rel"] by simp
qed

lemma readFromSegment_holds:
  assumes "segHolds logs seg rs" "sg_baseOffset seg \<le> offset"
  shows "readFromSegment (\<lambda>n. False) logs seg offset m =
    (budget m (fromOffset offset (storedFrom (sg_baseOffset seg) rs)), None, (\<lambda>n. False))"
proof -
  let ?b = "sg_baseOffset seg"
  have ok: "okSeg ?b rs" and f: "fileOf logs ?b = segLog ?b rs" and sz: "sg_size seg = length (segLog ?b rs)"
    and ix: "okIndex ?b rs (sg_idx seg)"
    using assms(1) by (simp_all add: segHolds_def fileOf_def)
  obtain k where k: "k \<le> length rs" "?b + int k \<le> offset" and
    st: "(case lookupIndex (sg_idx seg) ?b offset of None \<Rightarrow> 0 | Some pos \<Rightarrow> nat pos) = length (segLog ?b (take k rs))"
  proof (cases "lookupIndex (sg_idx seg) ?b offset")
    case None
    then show thesis using that [of 0] assms(2) by simp
  next
    case (Some pos)
    obtain k where "k < length rs" "?b + int k \<le> offset" "pos = int (length (segLog ?b (take k rs)))"
      by (rule lookupIndex_start [OF ix Some])
    then show thesis using that [of k] Some by simp
  qed
  let ?p = "segLog ?b (take k rs)" and ?s = "?b + int k"
  have ok2: "okSeg ?s (drop k rs)"
    using ok k(1) okSeg_append [of ?b "take k rs" "drop k rs"] by simp
  have c: "segLog ?b rs = ?p @ segLog ?s (drop k rs)"
    using ok k(1) segLog_append [of ?b "take k rs" "drop k rs"] by simp
  have "storedFrom ?b rs = storedFrom ?b (take k rs) @ storedFrom ?s (drop k rs)"
    using k(1) storedFrom_append [of ?b "take k rs" "drop k rs"] by simp
  then have d: "fromOffset offset (storedFrom ?b rs) = fromOffset offset (storedFrom ?s (drop k rs))"
    using k fromOffset_none [of ?b "take k rs" offset] by simp
  have "readLoop (\<lambda>n. False) (segLog ?b rs) (length (segLog ?b rs)) (length ?p) (length ?p) offset m 0 [] =
      ([] @ budget m (fromOffset offset (storedFrom ?s (drop k rs))), None, (\<lambda>n. False))"
    by (rule readLoop_log [OF ok2 c refl]) simp
  then show ?thesis by (simp add: readFromSegment_def st f sz d)
qed

text \<open>The count of the outer loop agrees with the budget of the inner one.\<close>

lemma budget_whole: "0 < m \<Longrightarrow> valueBytes rs < m \<Longrightarrow> budget m rs = rs"
proof (induction rs arbitrary: m)
  case (Cons r rs)
  then show ?case using valueBytes_nonneg [of rs] by simp
qed simp

definition smallValues :: "int \<Rightarrow> Record list \<Rightarrow> bool" where
  "smallValues M rs \<longleftrightarrow> (\<forall>r\<in>set rs. M + int (blen (r_Value r)) \<le> 2147483647)"

lemma takeRecords_budget:
  "0 < M \<Longrightarrow> 0 \<le> B \<Longrightarrow> B < M \<Longrightarrow> smallValues M rs \<Longrightarrow>
   takeRecords M B res (budget (M - B) rs) =
   Inr (res @ budget (M - B) rs, B + valueBytes (budget (M - B) rs), M - B \<le> valueBytes rs)"
proof (induction rs arbitrary: B res)
  case (Cons r rs)
  let ?v = "int (blen (r_Value r))"
  have v: "M + ?v \<le> 2147483647" "smallValues M rs" using Cons.prems(4) by (simp_all add: smallValues_def)
  have t: "toInt32Length ?v f = Inr ?v" for f using v Cons.prems(1) by (simp add: toInt32Length_def)
  have w: "wrapS 32 (B + ?v) = B + ?v" using v Cons.prems by (intro wrapS_id) (simp_all add: inS_def)
  have e: "M - B - ?v = M - (B + ?v)" by simp
  show ?case
  proof (cases "M - B - ?v \<le> 0")
    case True
    then show ?thesis using Cons.prems t w valueBytes_nonneg [of rs] by simp
  next
    case False
    then have "takeRecords M (B + ?v) (res @ [r]) (budget (M - (B + ?v)) rs) =
        Inr ((res @ [r]) @ budget (M - (B + ?v)) rs, (B + ?v) + valueBytes (budget (M - (B + ?v)) rs), M - (B + ?v) \<le> valueBytes rs)"
      using Cons.prems v by (intro Cons.IH) simp_all
    then show ?thesis using False Cons.prems t w by (simp add: e algebra_simps Let_def)
  qed
qed simp

lemma takeRecords_unbounded: "M \<le> 0 \<Longrightarrow> takeRecords M B res rs = Inr (res @ rs, B, False)"
  by (induction rs arbitrary: res) (simp_all add: Let_def)

section \<open>Reading a chain of segments\<close>

fun chain :: "files \<Rightarrow> int \<Rightarrow> segment list \<Rightarrow> Record list list \<Rightarrow> bool" where
  "chain logs b [] [] \<longleftrightarrow> True"
| "chain logs b (seg # segs) (rs # rss) \<longleftrightarrow> sg_baseOffset seg = b \<and> sg_nextOffset seg = b + int (length rs)
     \<and> segHolds logs seg rs \<and> chain logs (b + int (length rs)) segs rss"
| "chain logs b segs rss \<longleftrightarrow> False"

lemma readSegments_chain:
  "chain logs b segs rss \<Longrightarrow> inS 32 M \<Longrightarrow> (if 0 < M then 0 \<le> B \<and> B < M else B = 0) \<Longrightarrow>
   smallValues M (fromOffset offset (storedFrom b (concat rss))) \<Longrightarrow>
   readSegments (\<lambda>n. False) logs segs offset M B res =
   Inr (res @ budget (M - B) (fromOffset offset (storedFrom b (concat rss))))"
proof (induction logs b segs rss arbitrary: offset B res rule: chain.induct)
  case (2 logs b seg segs rs rss)
  let ?n = "b + int (length rs)" and ?rest = "storedFrom (b + int (length rs)) (concat rss)"
  have seg: "sg_baseOffset seg = b" "sg_nextOffset seg = ?n" "segHolds logs seg rs" "chain logs ?n segs rss"
    using "2.prems"(1) by simp_all
  have all: "storedFrom b (concat (rs # rss)) = storedFrom b rs @ ?rest" by (simp add: storedFrom_append)
  show ?case
  proof (cases "offset \<ge> ?n")
    case True
    then show ?thesis using "2.IH" [OF seg(4) "2.prems"(2,3)] "2.prems"(4) fromOffset_none [of b rs offset]
      by (simp add: seg storedFrom_append)
  next
    case False
    let ?o = "if offset < b then b else offset"
    let ?mine = "fromOffset offset (storedFrom b rs)"
    have o: "fromOffset ?o (storedFrom b rs) = ?mine" using fromOffset_all [of offset b] fromOffset_all [of b b] by simp
    have rest: "fromOffset offset ?rest = ?rest" "fromOffset ?n ?rest = ?rest" using False by (simp_all add: fromOffset_all)
    have small: "smallValues M ?mine" "smallValues M ?rest"
      using "2.prems"(4) rest by (simp_all add: storedFrom_append smallValues_def)
    have w: "wrapS 32 (M - B) = M - B" using "2.prems"(2,3) by (intro wrapS_id) (auto simp: inS_def split: if_splits)
    have rd: "readFromSegment (\<lambda>n. False) logs seg ?o (wrapS 32 (M - B)) = (budget (M - B) ?mine, None, (\<lambda>n. False))"
      using readFromSegment_holds [OF seg(3), of ?o] by (simp add: seg w o)
    have ih: "(if 0 < M then 0 \<le> B' \<and> B' < M else B' = 0) \<Longrightarrow> readSegments (\<lambda>n. False) logs segs ?n M B' res' =
        Inr (res' @ budget (M - B') ?rest)" for B' res'
      using "2.IH" [OF seg(4) "2.prems"(2), of B' ?n res'] small rest by simp
    show ?thesis
    proof (cases "0 < M")
      case True
      then have B: "0 \<le> B" "B < M" using "2.prems"(3) by simp_all
      note tk = takeRecords_budget [OF True B small(1), of res]
      have step: "readSegments (\<lambda>n. False) logs (seg # segs) offset M B res =
          (if M - B \<le> valueBytes ?mine then Inr (res @ budget (M - B) ?mine)
           else readSegments (\<lambda>n. False) logs segs ?n M (B + valueBytes (budget (M - B) ?mine)) (res @ budget (M - B) ?mine))"
        using False by (simp only: readSegments.simps seg Let_def if_False prod.case option.case rd tk bindE_simps case_prod_conv)
      show ?thesis
      proof (cases "M - B \<le> valueBytes ?mine")
        case full: True
        then show ?thesis using B by (simp del: readSegments.simps add: step storedFrom_append budget_append rest)
      next
        case nf: False
        then have "budget (M - B) ?mine = ?mine" using B by (intro budget_whole) simp_all
        then show ?thesis using nf B ih [of "B + valueBytes ?mine" "res @ ?mine"] True valueBytes_nonneg [of ?mine]
          by (simp del: readSegments.simps add: step storedFrom_append budget_append rest algebra_simps)
      qed
    next
      case neg: False
      then have "B = 0" using "2.prems"(3) by simp
      moreover have "readSegments (\<lambda>n. False) logs segs ?n M 0 (res @ ?mine) = Inr ((res @ ?mine) @ budget (M - 0) ?rest)"
        by (rule ih) (simp add: neg)
      ultimately show ?thesis using False rd neg
        by (simp only: readSegments.simps seg Let_def if_False prod.case option.case takeRecords_unbounded bindE_simps case_prod_conv
             diff_0_right storedFrom_append concat.simps fromOffset_append rest budget_all append_assoc not_less)
    qed
  qed
qed (simp_all add: fromOffset_def)

section \<open>Logs that hold a sequence of records\<close>

lemma chain_length: "chain logs b segs rss \<Longrightarrow> length segs = length rss"
  by (induction logs b segs rss rule: chain.induct) auto

lemma chain_snoc:
  "chain logs b (segs @ [a]) (rss @ [rs]) \<longleftrightarrow> chain logs b segs rss
     \<and> sg_baseOffset a = b + int (length (concat rss)) \<and> sg_nextOffset a = sg_baseOffset a + int (length rs)
     \<and> segHolds logs a rs"
  by (induction logs b segs rss rule: chain.induct) (auto simp: chain.simps neq_Nil_conv algebra_simps dest: chain_length)

lemma segHolds_cong: "map_of logs' (sg_baseOffset seg) = map_of logs (sg_baseOffset seg) \<Longrightarrow> segHolds logs' seg rs = segHolds logs seg rs"
  by (simp add: segHolds_def)

text \<open>The files at or after the end of a chain of non-empty segments are none of its own.\<close>

lemma chain_beyond:
  assumes "chain logs b segs rss" "[] \<notin> set rss" "\<And>k. k < b + int (length (concat rss)) \<Longrightarrow> map_of logs' k = map_of logs k"
  shows "chain logs' b segs rss"
  using assms
proof (induction logs b segs rss rule: chain.induct)
  case (2 logs b seg segs rs rss)
  have ne: "0 < length rs" using "2.prems"(2) by auto
  have "map_of logs' b = map_of logs b" using ne by (intro "2.prems"(3)) (simp add: add_pos_nonneg)
  then have "segHolds logs' seg rs" using "2.prems"(1) segHolds_cong [of logs' seg logs rs] by simp
  moreover have "chain logs' (b + int (length rs)) segs rss"
    using "2.prems" by (intro "2.IH") (auto simp: algebra_simps)
  ultimately show ?case using "2.prems"(1) by simp
qed simp_all

lemma chain_bases:
  "chain logs b segs rss \<Longrightarrow> [] \<notin> set rss \<Longrightarrow> seg \<in> set segs \<Longrightarrow>
   b \<le> sg_baseOffset seg \<and> sg_baseOffset seg < b + int (length (concat rss))"
proof (induction logs b segs rss rule: chain.induct)
  case (2 logs b seg' segs rs rss)
  have ne: "0 < length rs" using "2.prems"(2) by auto
  show ?case
  proof (cases "seg = seg'")
    case True
    then show ?thesis using "2.prems"(1) ne by (simp add: add_pos_nonneg)
  next
    case False
    then have "b + int (length rs) \<le> sg_baseOffset seg \<and> sg_baseOffset seg < b + int (length rs) + int (length (concat rss))"
      using "2.prems" by (intro "2.IH") auto
    then show ?thesis using ne by simp
  qed
qed simp_all

text \<open>
  A log between two records of a batch: \<open>rss\<close> are the records of the closed segments, \<open>rs\<close>
  those of the active one, whose own \<open>sg_nextOffset\<close> may lag behind.
\<close>

definition holding :: "segmentedLog \<Rightarrow> segment list \<Rightarrow> segment \<Rightarrow> Record list list \<Rightarrow> Record list \<Rightarrow> bool" where
  "holding l pre a rss rs \<longleftrightarrow> \<not> lg_closed l \<and> lg_segments l = pre @ [a]
     \<and> chain (lg_logs l) (lg_startOffset l) pre rss \<and> [] \<notin> set rss
     \<and> sg_baseOffset a = lg_startOffset l + int (length (concat rss))
     \<and> segHolds (lg_logs l) a rs \<and> lg_nextOffset l = sg_baseOffset a + int (length rs)
     \<and> fst ` set (lg_logs l) = sg_baseOffset ` set (pre @ [a]) \<and> cf_IndexInterval (lg_cfg l) \<noteq> 0"

text \<open>A log between two operations, holding the records of every segment.\<close>

definition represents :: "segmentedLog \<Rightarrow> Record list list \<Rightarrow> bool" where
  "represents l rss \<longleftrightarrow> (\<exists>pre a rss' rs. rss = rss' @ [rs] \<and> holding l pre a rss' rs \<and> sg_nextOffset a = lg_nextOffset l)"

lemma representsE:
  assumes "represents l rss"
  obtains pre a rss' rs where "rss = rss' @ [rs]" "holding l pre a rss' rs" "sg_nextOffset a = lg_nextOffset l"
    "chain (lg_logs l) (lg_startOffset l) (lg_segments l) rss"
proof -
  obtain pre a rss' rs where "rss = rss' @ [rs]" "holding l pre a rss' rs" "sg_nextOffset a = lg_nextOffset l"
    using assms by (auto simp: represents_def)
  moreover from this have "chain (lg_logs l) (lg_startOffset l) (lg_segments l) rss"
    by (simp add: holding_def chain_snoc)
  ultimately show thesis by (rule that)
qed

lemma represents_next: "represents l rss \<Longrightarrow> lg_nextOffset l = lg_startOffset l + int (length (concat rss))"
  by (auto simp: represents_def holding_def)

lemma represents_open: "represents l rss \<Longrightarrow> \<not> lg_closed l"
  by (auto simp: represents_def holding_def)

lemma Read_represents:
  assumes "represents l rss" "inS 32 maxBytes"
    and "smallValues maxBytes (fromOffset offset (storedFrom (lg_startOffset l) (concat rss)))"
  shows "Read (\<lambda>n. False) l offset maxBytes =
    Inr (budget maxBytes (fromOffset offset (storedFrom (lg_startOffset l) (concat rss))))"
proof -
  have ch: "chain (lg_logs l) (lg_startOffset l) (lg_segments l) rss" by (rule representsE [OF assms(1)])
  show ?thesis
    using represents_open [OF assms(1)] represents_next [OF assms(1)] readSegments_chain [OF ch assms(2), of 0 offset "[]"] assms(3)
    by (auto simp: Read_def fromOffset_none)
qed

section \<open>Appending\<close>

lemma okSeg_snoc: "okSeg b (rs @ [r]) \<longleftrightarrow> okSeg b rs \<and> b + int (length rs) < maxInt64Uint \<and> okAt (b + int (length rs)) r"
  by (auto simp: okSeg_append okSeg_Cons) (auto simp: okSeg_def)

lemma segLog_snoc: "okSeg b (rs @ [r]) \<Longrightarrow> segLog b (rs @ [r]) = segLog b rs @ recFrame (b + int (length rs)) r"
  by (simp add: segLog_append okSeg_append okSeg_Cons segLog_Cons)

lemma okIndex_extend: "okIndex b rs idx \<Longrightarrow> okIndex b (rs @ qs) idx"
  by (auto simp: okIndex_def)

lemma okIndex_snoc: "okIndex b rs idx \<Longrightarrow>
    okIndex b (rs @ [r]) (idx @ [(int (length rs), int (length (segLog b rs)))])"
  by (auto simp: okIndex_def sorted_wrt_append)

definition stamp :: "int \<Rightarrow> Record \<Rightarrow> Record" where
  "stamp t r = (if isZero (r_Timestamp r) then r\<lparr>r_Timestamp := Some t\<rparr> else r)"

lemma fst_image_update: "fst ` set (AList.update k v fs) = insert k (fst ` set fs)"
  by (simp add: dom_map_of_conv_image_fst [symmetric] update_conv')

lemma active_snoc [simp]: "lg_segments l = pre @ [a] \<Longrightarrow> active l = a"
  by (simp add: active_def)

lemma setActive_simps [simp]:
  "lg_logs (setActive l a) = lg_logs l" "lg_idxs (setActive l a) = lg_idxs l" "lg_cfg (setActive l a) = lg_cfg l"
  "lg_nextOffset (setActive l a) = lg_nextOffset l" "lg_startOffset (setActive l a) = lg_startOffset l"
  "lg_closed (setActive l a) = lg_closed l" "lg_opts (setActive l a) = lg_opts l"
  "lg_segments (setActive l a) = butlast (lg_segments l) @ [a]"
  by (simp_all add: setActive_def)

lemma appendIndexEntry_simps [simp]:
  "lg_logs (appendIndexEntry l rel pos) = lg_logs l" "lg_cfg (appendIndexEntry l rel pos) = lg_cfg l"
  "lg_nextOffset (appendIndexEntry l rel pos) = lg_nextOffset l"
  "lg_startOffset (appendIndexEntry l rel pos) = lg_startOffset l"
  "lg_closed (appendIndexEntry l rel pos) = lg_closed l" "lg_opts (appendIndexEntry l rel pos) = lg_opts l"
  by (simp_all add: appendIndexEntry_def Let_def split: option.split)

lemma appendIndexEntry_segments:
  "lg_segments l = pre @ [a] \<Longrightarrow> sg_idxPos a = Some p \<Longrightarrow> lg_segments (appendIndexEntry l rel pos) =
   pre @ [a\<lparr>sg_idxPos := Some (p + length (putIndexEntry rel pos)), sg_idx := sg_idx a @ [(rel, pos)]\<rparr>]"
  by (simp add: appendIndexEntry_def Let_def)

lemma appendOne_split:
  "appendOne t now l r = bindE (encodeRecord_log ((stamp t r)\<lparr>r_Offset := lg_nextOffset l\<rparr>))
     (\<lambda>b. Inr (writeActive (if rotates l b then createSegment now l (lg_nextOffset l) else l) (lg_nextOffset l) b))"
proof -
  have e: "r\<lparr>r_Offset := n, r_Timestamp := x\<rparr> = r\<lparr>r_Timestamp := x, r_Offset := n\<rparr>" for n x by simp
  show ?thesis unfolding appendOne_def stamp_def Let_def e by simp
qed

lemma writeActive_fields [simp]:
  "lg_cfg (writeActive l off b) = lg_cfg l" "lg_startOffset (writeActive l off b) = lg_startOffset l"
  "lg_closed (writeActive l off b) = lg_closed l"
  "lg_nextOffset (writeActive l off b) = wrapS 64 (lg_nextOffset l + 1)"
  by (simp_all add: writeActive_def Let_def)

lemma writeActive_logs:
  "lg_logs (writeActive l off b) = AList.update (sg_baseOffset (active l))
     (overwrite (fileOf (lg_logs l) (sg_baseOffset (active l))) (sg_pos (active l)) b) (lg_logs l)"
  by (simp_all add: writeActive_def Let_def)

lemma writeActive_segments:
  assumes "lg_segments l = pre @ [a]"
  obtains a' where "lg_segments (writeActive l off b) = pre @ [a']" "sg_baseOffset a' = sg_baseOffset a"
    "sg_nextOffset a' = sg_nextOffset a" "sg_pos a' = sg_pos a + length b" "sg_size a' = sg_size a + length b"
    "sg_idx a' = sg_idx a \<or> sg_idx a' = sg_idx a @ [(off - sg_baseOffset a, int (sg_size a))]"
proof (cases "(sg_nextOffset a - sg_baseOffset a) mod cf_IndexInterval (lg_cfg l) = 0 \<and> sg_idxPos a \<noteq> None")
  case True
  then obtain p where p: "sg_idxPos a = Some p" by auto
  let ?a = "a\<lparr>sg_pos := sg_pos a + length b\<rparr>"
  let ?l2 = "setActive (l\<lparr>lg_logs := AList.update (sg_baseOffset a) (overwrite (fileOf (lg_logs l) (sg_baseOffset a)) (sg_pos a) b)
      (lg_logs l)\<rparr>) ?a"
  have "lg_segments ?l2 = pre @ [?a]" using assms by simp
  note s3 = appendIndexEntry_segments [OF this, of p "off - sg_baseOffset a" "int (sg_size a)"]
  show thesis using True p s3 by (intro that [of "last (lg_segments (writeActive l off b))"]) (simp_all add: writeActive_def Let_def assms)
next
  case False
  then show thesis by (intro that [of "last (lg_segments (writeActive l off b))"]) (auto simp add: writeActive_def Let_def assms)
qed

text \<open>Writing one record into the active segment.\<close>

lemma writeActive_holding:
  assumes h: "holding l pre a rss rs" and ok: "okSeg (sg_baseOffset a) (rs @ [r])"
  obtains a' where "holding (writeActive l (lg_nextOffset l) (recFrame (lg_nextOffset l) r)) pre a' rss (rs @ [r])"
    "sg_nextOffset a' = sg_nextOffset a"
proof -
  let ?n = "lg_nextOffset l" and ?b = "sg_baseOffset a"
  let ?f = "recFrame ?n r"
  let ?l = "writeActive l ?n ?f"
  have n: "?n = ?b + int (length rs)" and segs: "lg_segments l = pre @ [a]" and sh: "segHolds (lg_logs l) a rs"
    using h by (simp_all add: holding_def)
  have bd: "?n < maxInt64Uint" "0 \<le> ?n" using ok n by (simp_all add: okSeg_snoc, simp add: okSeg_def)
  have w: "wrapS 64 (?n + 1) = ?n + 1" using bd by (intro wrapS_id) (simp_all add: inS_def maxInt64Uint_def)
  have c: "fileOf (lg_logs l) ?b = segLog ?b rs" "sg_pos a = length (segLog ?b rs)" "sg_size a = length (segLog ?b rs)"
    and ix: "okIndex ?b rs (sg_idx a)" using sh by (simp_all add: segHolds_def fileOf_def)
  have c': "segLog ?b (rs @ [r]) = segLog ?b rs @ ?f" using segLog_snoc [OF ok] n by simp
  have logs: "lg_logs ?l = AList.update ?b (segLog ?b (rs @ [r])) (lg_logs l)" by (simp add: writeActive_logs segs c c')
  obtain a' where a': "lg_segments ?l = pre @ [a']" "sg_baseOffset a' = ?b" "sg_nextOffset a' = sg_nextOffset a"
    "sg_pos a' = sg_pos a + length ?f" "sg_size a' = sg_size a + length ?f"
    "sg_idx a' = sg_idx a \<or> sg_idx a' = sg_idx a @ [(?n - ?b, int (sg_size a))]"
    by (rule writeActive_segments [OF segs])
  have "okIndex ?b (rs @ [r]) (sg_idx a')"
    using a'(6)
  proof
    assume "sg_idx a' = sg_idx a @ [(?n - ?b, int (sg_size a))]"
    then show ?thesis using okIndex_snoc [OF ix, of r] n by (simp add: c)
  qed (simp add: okIndex_extend ix)
  then have "segHolds (lg_logs ?l) a' (rs @ [r])"
    using a' ok c c' by (simp add: segHolds_def logs update_conv')
  moreover have "chain (lg_logs ?l) (lg_startOffset l) pre rss"
    unfolding logs using h by - (rule chain_beyond [of "lg_logs l"], auto simp: holding_def update_conv')
  moreover have "fst ` set (lg_logs ?l) = sg_baseOffset ` set (pre @ [a'])"
    unfolding logs fst_image_update using h a'(2) by (simp add: holding_def)
  ultimately have "holding ?l pre a' rss (rs @ [r])"
    using h a' n w by (simp add: holding_def)
  then show thesis using that a' by simp
qed

text \<open>Starting a new segment, which is correct only when the closed one knows its end.\<close>

lemma createSegment_holding:
  assumes h: "holding l pre a rss rs" and "rs \<noteq> []" and nx: "sg_nextOffset a = lg_nextOffset l"
  obtains a' where "holding (createSegment now l (lg_nextOffset l)) (pre @ [a]) a' (rss @ [rs]) []"
    "sg_nextOffset a' = lg_nextOffset l" "sg_baseOffset a' = lg_nextOffset l"
    "lg_startOffset (createSegment now l (lg_nextOffset l)) = lg_startOffset l"
    "lg_nextOffset (createSegment now l (lg_nextOffset l)) = lg_nextOffset l"
    "lg_cfg (createSegment now l (lg_nextOffset l)) = lg_cfg l"
proof -
  let ?n = "lg_nextOffset l" and ?b = "sg_baseOffset a"
  let ?l = "createSegment now l ?n"
  define a' where "a' = \<lparr>sg_baseOffset = ?n, sg_nextOffset = ?n, sg_pos = 0, sg_size = 0, sg_createdAt = now,
                sg_idxPos = Some 8, sg_idx = []\<rparr>"
  have b: "sg_baseOffset s < ?n" if "s \<in> set (pre @ [a])" for s
    using that h chain_bases [of "lg_logs l" "lg_startOffset l" pre rss s] assms(2) by (auto simp: holding_def)
  then have new: "map_of (lg_logs l) ?n = None"
    using h by (fastforce simp: holding_def map_of_eq_None_iff)
  then have logs: "lg_logs ?l = AList.update ?n [] (lg_logs l)" by (simp add: createSegment_def Let_def fileOf_def)
  have so: "\<not> ?n < lg_startOffset l" using h by (simp add: holding_def)
  have "chain (lg_logs l) (lg_startOffset l) (pre @ [a]) (rss @ [rs])" using h nx by (simp add: holding_def chain_snoc)
  moreover have "map_of (lg_logs ?l) k = map_of (lg_logs l) k" if "k < lg_startOffset l + int (length (concat (rss @ [rs])))" for k
  proof -
    have "k \<noteq> ?n" using that h by (simp add: holding_def)
    then show ?thesis by (simp add: logs update_conv')
  qed
  ultimately have "chain (lg_logs ?l) (lg_startOffset l) (pre @ [a]) (rss @ [rs])"
    using h assms(2) by - (rule chain_beyond [of "lg_logs l"], auto simp: holding_def)
  moreover have "segHolds (lg_logs ?l) a' []"
  proof -
    have "okSeg ?n []" using h by (auto simp: holding_def segHolds_def okSeg_def)
    then show ?thesis by (simp add: segHolds_def a'_def logs update_conv' okIndex_def)
  qed
  ultimately have "holding ?l (pre @ [a]) a' (rss @ [rs]) []"
    using h so assms(2) by (auto simp: holding_def createSegment_def Let_def a'_def fst_image_update)
  moreover have "lg_startOffset ?l = lg_startOffset l" "lg_nextOffset ?l = ?n" "lg_cfg ?l = lg_cfg l"
    using h so by (simp_all add: holding_def createSegment_def Let_def)
  ultimately show thesis using that [of a'] by (simp add: a'_def)
qed

fun stamped :: "(nat \<Rightarrow> int) \<Rightarrow> Record list \<Rightarrow> Record list" where
  "stamped clock [] = []"
| "stamped clock (r # rs) = stamp (clock 0) r # stamped (\<lambda>n. clock (Suc n)) rs"

lemma length_stamped [simp]: "length (stamped clock rs) = length rs"
  by (induction rs arbitrary: clock) simp_all

lemma stamped_Nil_iff [simp]: "stamped clock rs = [] \<longleftrightarrow> rs = []"
  by (cases rs) simp_all

lemma appendOne_holding:
  assumes h: "holding l pre a rss rs" and ok: "okSeg (sg_baseOffset a) (rs @ [stamp t r])"
    and nr: "\<not> rotates l (recFrame (lg_nextOffset l) (stamp t r))"
  obtains l' a' where "appendOne t now l r = Inr l'" "holding l' pre a' rss (rs @ [stamp t r])"
    "sg_nextOffset a' = sg_nextOffset a" "lg_cfg l' = lg_cfg l" "lg_startOffset l' = lg_startOffset l"
proof -
  have "okAt (lg_nextOffset l) (stamp t r)" using ok h by (simp add: okSeg_snoc holding_def)
  then have "encodeRecord_log ((stamp t r)\<lparr>r_Offset := lg_nextOffset l\<rparr>) = Inr (recFrame (lg_nextOffset l) (stamp t r))"
    by (rule recFrame_parts)
  then have e: "appendOne t now l r = Inr (writeActive l (lg_nextOffset l) (recFrame (lg_nextOffset l) (stamp t r)))"
    using nr by (simp add: appendOne_split)
  obtain a' where "holding (writeActive l (lg_nextOffset l) (recFrame (lg_nextOffset l) (stamp t r))) pre a' rss (rs @ [stamp t r])"
    "sg_nextOffset a' = sg_nextOffset a"
    by (rule writeActive_holding [OF h ok])
  then show thesis using that [OF e] by simp
qed

lemma holding_size: "holding l pre a rss rs \<Longrightarrow> sg_size (active l) = length (segLog (sg_baseOffset a) rs)"
  by (simp add: holding_def segHolds_def)

lemma appendLoop_stay:
  "holding l pre a rss rs \<Longrightarrow> okSeg (sg_baseOffset a) (rs @ stamped clock records) \<Longrightarrow>
   int (length (segLog (sg_baseOffset a) (rs @ stamped clock records))) \<le> cf_MaxSegmentBytes (lg_cfg l) \<Longrightarrow>
   \<exists>l' a'. appendLoop (\<lambda>n. False) clock now l records = (l', None) \<and> holding l' pre a' rss (rs @ stamped clock records)
     \<and> lg_cfg l' = lg_cfg l \<and> lg_startOffset l' = lg_startOffset l"
proof (induction records arbitrary: l a rs clock)
  case (Cons r records)
  let ?r = "stamp (clock 0) r" and ?rest = "stamped (\<lambda>n. clock (Suc n)) records" and ?b = "sg_baseOffset a"
  have all: "rs @ stamped clock (r # records) = (rs @ [?r]) @ ?rest" by simp
  have ok: "okSeg ?b (rs @ [?r])" using Cons.prems(2) unfolding all by (simp only: okSeg_append)
  have n: "lg_nextOffset l = ?b + int (length rs)" using Cons.prems(1) by (simp add: holding_def)
  have "length (segLog ?b (rs @ [?r])) \<le> length (segLog ?b (rs @ stamped clock (r # records)))"
    using segLog_append [OF Cons.prems(2) [unfolded all]] unfolding all by simp
  then have nr: "\<not> rotates l (recFrame (lg_nextOffset l) ?r)"
    using Cons.prems(3) holding_size [OF Cons.prems(1)] segLog_snoc [OF ok] n by (simp add: rotates_def)
  obtain l' a' where 1: "appendOne (clock 0) now l r = Inr l'" "holding l' pre a' rss (rs @ [?r])"
    "lg_cfg l' = lg_cfg l" "lg_startOffset l' = lg_startOffset l"
    by (rule appendOne_holding [OF Cons.prems(1) ok nr])
  have b: "sg_baseOffset a' = ?b" using 1(2,4) Cons.prems(1) by (simp add: holding_def)
  show ?case
    using Cons.IH [OF 1(2), of "\<lambda>n. clock (Suc n)"] Cons.prems(2,3) 1 b by simp
qed auto

text \<open>The first record of a batch may open a new segment.\<close>

definition landing :: "segmentedLog \<Rightarrow> Record \<Rightarrow> int" where
  "landing l r = (if rotates l (recFrame (lg_nextOffset l) r) then 0 else int (sg_size (active l)))"

lemma appendOne_first:
  assumes h: "holding l pre a rss rs" and nx: "sg_nextOffset a = lg_nextOffset l"
    and ok: "okSeg (lg_nextOffset l) [stamp t r]" "okSeg (sg_baseOffset a) rs"
  obtains l' pre' a' rss' rs' where "appendOne t now l r = Inr l'" "holding l' pre' a' rss' (rs' @ [stamp t r])"
    "concat rss' @ rs' = concat rss @ rs" "sg_baseOffset a' + int (length rs') = lg_nextOffset l"
    "int (length (segLog (sg_baseOffset a') rs')) = landing l (stamp t r)" "okSeg (sg_baseOffset a') rs'"
    "lg_cfg l' = lg_cfg l" "lg_startOffset l' = lg_startOffset l"
proof (cases "rotates l (recFrame (lg_nextOffset l) (stamp t r))")
  case True
  then have ne: "rs \<noteq> []" using holding_size [OF h] by (auto simp: rotates_def)
  let ?l = "createSegment now l (lg_nextOffset l)"
  obtain a' where a': "holding ?l (pre @ [a]) a' (rss @ [rs]) []" "sg_baseOffset a' = lg_nextOffset l"
    "lg_startOffset ?l = lg_startOffset l" "lg_nextOffset ?l = lg_nextOffset l" "lg_cfg ?l = lg_cfg l"
    by (rule createSegment_holding [OF h ne nx])
  have ok': "okSeg (sg_baseOffset a') ([] @ [stamp t r])" using ok a' by simp
  have "okAt (lg_nextOffset l) (stamp t r)" using ok(1) by (simp add: okSeg_Cons)
  then have "encodeRecord_log ((stamp t r)\<lparr>r_Offset := lg_nextOffset l\<rparr>) = Inr (recFrame (lg_nextOffset l) (stamp t r))"
    by (rule recFrame_parts)
  then have e: "appendOne t now l r = Inr (writeActive ?l (lg_nextOffset ?l) (recFrame (lg_nextOffset ?l) (stamp t r)))"
    using True a'(4) by (simp add: appendOne_split)
  obtain a'' where a'': "holding (writeActive ?l (lg_nextOffset ?l) (recFrame (lg_nextOffset ?l) (stamp t r))) (pre @ [a]) a'' (rss @ [rs]) ([] @ [stamp t r])"
    by (rule writeActive_holding [OF a'(1) ok'])
  have "sg_baseOffset a'' = sg_baseOffset a'" using a'' a'(1) by (simp add: holding_def)
  then show thesis using that [OF e a''] a' ok by (simp add: landing_def True okSeg_Cons)
next
  case False
  have n: "lg_nextOffset l = sg_baseOffset a + int (length rs)" using h by (simp add: holding_def)
  have ok': "okSeg (sg_baseOffset a) (rs @ [stamp t r])" using ok n by (simp add: okSeg_append)
  obtain l' a' where l': "appendOne t now l r = Inr l'" "holding l' pre a' rss (rs @ [stamp t r])"
    "lg_cfg l' = lg_cfg l" "lg_startOffset l' = lg_startOffset l"
    by (rule appendOne_holding [OF h ok' False])
  have "sg_baseOffset a' = sg_baseOffset a" using l'(2,4) h by (simp add: holding_def)
  moreover have "landing l (stamp t r) = int (length (segLog (sg_baseOffset a) rs))"
    by (simp add: landing_def False holding_size [OF h])
  ultimately show thesis using that [OF l'(1,2)] l' ok n by simp
qed

text \<open>
  A batch stays in one segment: what is left of it after the first record fits where that record
  landed.
\<close>

definition oneSegment :: "segmentedLog \<Rightarrow> Record list \<Rightarrow> bool" where
  "oneSegment l rs \<longleftrightarrow> length rs \<le> 1 \<or>
     landing l (hd rs) + int (length (segLog (lg_nextOffset l) rs)) \<le> cf_MaxSegmentBytes (lg_cfg l)"

lemma appendLoop_batch:
  assumes r: "represents l rss" and ne: "records \<noteq> []" and ok: "okSeg (lg_nextOffset l) (stamped clock records)"
    and one: "oneSegment l (stamped clock records)"
  obtains l' pre a rss' rs where "appendLoop (\<lambda>n. False) clock now l records = (l', None)" "holding l' pre a rss' rs"
    "concat (rss' @ [rs]) = concat rss @ stamped clock records" "lg_cfg l' = lg_cfg l" "lg_startOffset l' = lg_startOffset l"
    "length (concat rss') \<le> length (concat rss)"
proof -
  obtain r0 rest where rec: "records = r0 # rest" using ne by (cases records) auto
  let ?r = "stamp (clock 0) r0" and ?rest = "stamped (\<lambda>n. clock (Suc n)) rest"
  obtain pre a rss0 rs0 where h: "rss = rss0 @ [rs0]" "holding l pre a rss0 rs0" "sg_nextOffset a = lg_nextOffset l"
    by (rule representsE [OF r])
  have "segHolds (lg_logs l) a rs0" using h(2) by (simp add: holding_def)
  then have ok1: "okSeg (lg_nextOffset l) [?r]" "okSeg (sg_baseOffset a) rs0"
    using okSeg_take [OF ok, of 1] rec by (simp_all add: segHolds_def)
  obtain l1 pre1 a1 rss1 rs1 where 1: "appendOne (clock 0) now l r0 = Inr l1" "holding l1 pre1 a1 rss1 (rs1 @ [?r])"
    "concat rss1 @ rs1 = concat rss0 @ rs0" "sg_baseOffset a1 + int (length rs1) = lg_nextOffset l"
    "int (length (segLog (sg_baseOffset a1) rs1)) = landing l ?r" "okSeg (sg_baseOffset a1) rs1"
    "lg_cfg l1 = lg_cfg l" "lg_startOffset l1 = lg_startOffset l"
    by (rule appendOne_first [OF h(2,3) ok1])
  have ok2: "okSeg (sg_baseOffset a1) (rs1 @ stamped clock records)"
    using 1(4,6) ok by (simp add: okSeg_append)
  have old: "length (concat rss1) \<le> length (concat rss)" using arg_cong [OF 1(3), of length] h(1) by simp
  show thesis
  proof (cases "rest = []")
    case True
    have "concat (rss1 @ [rs1 @ [?r]]) = concat rss @ stamped clock records"
      using 1(3) h(1) rec True by simp
    then show thesis using that [of l1 pre1 a1 rss1 "rs1 @ [?r]"] 1 rec True old by simp
  next
    case False
    then have "landing l ?r + int (length (segLog (lg_nextOffset l) (stamped clock records))) \<le> cf_MaxSegmentBytes (lg_cfg l)"
      using one rec by (simp add: oneSegment_def)
    then have "int (length (segLog (sg_baseOffset a1) ((rs1 @ [?r]) @ ?rest))) \<le> cf_MaxSegmentBytes (lg_cfg l1)"
      using ok2 1(4,5,7) rec by (simp add: segLog_append)
    then obtain l2 a2 where 2: "appendLoop (\<lambda>n. False) (\<lambda>n. clock (Suc n)) now l1 rest = (l2, None)"
      "holding l2 pre1 a2 rss1 ((rs1 @ [?r]) @ ?rest)" "lg_cfg l2 = lg_cfg l" "lg_startOffset l2 = lg_startOffset l"
      using appendLoop_stay [OF 1(2), of "\<lambda>n. clock (Suc n)" rest now] ok2 rec 1(7,8) by auto
    have "concat (rss1 @ [(rs1 @ [?r]) @ ?rest]) = concat rss @ stamped clock records"
      using 1(3) h(1) rec by simp
    then show thesis using that [of l2 pre1 a2 rss1 "(rs1 @ [?r]) @ ?rest"] 1 2 rec old by simp
  qed
qed

section \<open>Retention\<close>

lemma chain_above:
  "chain logs b segs rss \<Longrightarrow> (\<And>k. b \<le> k \<Longrightarrow> map_of logs' k = map_of logs k) \<Longrightarrow> chain logs' b segs rss"
proof (induction logs b segs rss rule: chain.induct)
  case (2 logs b seg segs rs rss)
  then have "segHolds logs' seg rs" using segHolds_cong [of logs' seg logs rs] by simp
  moreover have "chain logs' (b + int (length rs)) segs rss"
    using "2.prems" by - (rule "2.IH", auto)
  ultimately show ?case using "2.prems"(1) by simp
qed simp_all

lemma fst_image_delete: "fst ` set (AList.delete k fs) = fst ` set fs - {k}"
  by (simp add: dom_map_of_conv_image_fst [symmetric] delete_conv')

lemma removeOldest_fields:
  assumes "lg_segments l = s # segs"
  shows "lg_logs (removeOldestSegmentLocked l) = AList.delete (sg_baseOffset s) (lg_logs l)"
    "lg_segments (removeOldestSegmentLocked l) = segs" "lg_nextOffset (removeOldestSegmentLocked l) = lg_nextOffset l"
    "lg_cfg (removeOldestSegmentLocked l) = lg_cfg l" "lg_closed (removeOldestSegmentLocked l) = lg_closed l"
    "segs \<noteq> [] \<Longrightarrow> lg_startOffset (removeOldestSegmentLocked l) = sg_baseOffset (hd segs)"
  using assms by (simp_all add: removeOldestSegmentLocked_def split: list.splits)

lemma removeOldest_holding:
  assumes h: "holding l (s # pre) a (r # rss) rs"
  shows "holding (removeOldestSegmentLocked l) pre a rss rs"
proof -
  let ?l = "removeOldestSegmentLocked l" and ?b = "lg_startOffset l + int (length r)"
  have segs: "lg_segments l = s # (pre @ [a])" and ch: "chain (lg_logs l) ?b pre rss"
    and ne: "r \<noteq> []" "[] \<notin> set rss" and s: "sg_baseOffset s = lg_startOffset l"
    and a: "sg_baseOffset a = ?b + int (length (concat rss))"
    using h by (auto simp: holding_def)
  note f = removeOldest_fields [OF segs]
  have "length pre = length rss" using ch by (rule chain_length)
  then have so: "lg_startOffset ?l = ?b"
    using ch f(6) a by (cases pre; cases rss) simp_all
  have bases: "?b \<le> sg_baseOffset x" if "x \<in> set (pre @ [a])" for x
    using that chain_bases [OF ch ne(2), of x] a by auto
  then have keep: "sg_baseOffset x \<noteq> lg_startOffset l" if "x \<in> set (pre @ [a])" for x
    using that ne(1) by fastforce
  have "chain (lg_logs ?l) ?b pre rss"
    using ch by (rule chain_above) (use ne(1) s in \<open>auto simp: f delete_conv'\<close>)
  moreover have "segHolds (lg_logs ?l) a rs"
    using h keep [of a] s by (subst segHolds_cong [of _ _ "lg_logs l"]) (simp_all add: f delete_conv' holding_def)
  moreover have "fst ` set (lg_logs ?l) = sg_baseOffset ` set (pre @ [a])"
    using h keep s by (auto simp: f fst_image_delete holding_def)
  ultimately show ?thesis
    using h a ne f so by (simp add: holding_def)
qed

lemma represents_length: "represents l rss \<Longrightarrow> length (lg_segments l) = length rss"
  by (auto elim!: representsE dest: chain_length)

lemma removeOldest_represents:
  assumes r: "represents l rss" and two: "1 < length (lg_segments l)"
  shows "represents (removeOldestSegmentLocked l) (tl rss)" "lg_nextOffset (removeOldestSegmentLocked l) = lg_nextOffset l"
    "lg_cfg (removeOldestSegmentLocked l) = lg_cfg l"
proof -
  obtain pre a rss' rs where h: "rss = rss' @ [rs]" "holding l pre a rss' rs" "sg_nextOffset a = lg_nextOffset l"
    by (rule representsE [OF r])
  then have "length pre = length rss'" by (auto simp: holding_def dest: chain_length)
  moreover have segs: "lg_segments l = pre @ [a]" using h by (simp add: holding_def)
  ultimately obtain s pre' r0 rss0 where e: "pre = s # pre'" "rss' = r0 # rss0"
    using two by (cases pre; cases rss') auto
  note f = removeOldest_fields [of l s "pre' @ [a]"]
  show n: "lg_nextOffset (removeOldestSegmentLocked l) = lg_nextOffset l" "lg_cfg (removeOldestSegmentLocked l) = lg_cfg l"
    using f segs e by simp_all
  have "holding (removeOldestSegmentLocked l) pre' a rss0 rs" using h(2) e by (simp add: removeOldest_holding)
  then show "represents (removeOldestSegmentLocked l) (tl rss)"
    using h e n by (auto simp: represents_def)
qed

text \<open>What retention may do to a log: drop whole segments at the start, never the last one.\<close>

definition trimmed :: "segmentedLog \<Rightarrow> segmentedLog \<Rightarrow> Record list list \<Rightarrow> bool" where
  "trimmed l l' rss \<longleftrightarrow> (\<exists>k < length rss. represents l' (drop k rss) \<and> lg_segments l' = drop k (lg_segments l)
     \<and> lg_nextOffset l' = lg_nextOffset l \<and> lg_cfg l' = lg_cfg l)"

lemma trimmed_refl: "represents l rss \<Longrightarrow> trimmed l l rss"
  unfolding trimmed_def by (rule exI [of _ 0]) (auto simp: represents_def)

lemma trimmed_step:
  assumes r: "represents l rss" and two: "1 < length (lg_segments l)"
    and t: "trimmed (removeOldestSegmentLocked l) l' (tl rss)"
  shows "trimmed l l' rss"
proof -
  obtain k where "k < length (tl rss)" "represents l' (drop k (tl rss))"
    "lg_segments l' = drop k (lg_segments (removeOldestSegmentLocked l))"
    "lg_nextOffset l' = lg_nextOffset l" "lg_cfg l' = lg_cfg l"
    using t removeOldest_represents [OF r two] by (auto simp: trimmed_def)
  moreover have "lg_segments (removeOldestSegmentLocked l) = tl (lg_segments l)"
    by (simp add: removeOldestSegmentLocked_def split: list.split)
  ultimately show ?thesis
    unfolding trimmed_def by (intro exI [of _ "Suc k"]) (auto simp: drop_Suc)
qed

lemma retainByAge_trimmed: "represents l rss \<Longrightarrow> trimmed l (retainByAge now l) rss"
proof (induction now l arbitrary: rss rule: retainByAge.induct)
  case (1 now l)
  show ?case
  proof (cases "1 < length (lg_segments l) \<and> 0 < cf_SegmentMaxAge (lg_cfg l) \<and> \<not> now - sg_createdAt (hd (lg_segments l)) \<le> cf_SegmentMaxAge (lg_cfg l)")
    case True
    then have "trimmed (removeOldestSegmentLocked l) (retainByAge now (removeOldestSegmentLocked l)) (tl rss)"
      using "1.prems" by (intro "1.IH") (simp_all add: removeOldest_represents)
    then have "trimmed l (retainByAge now (removeOldestSegmentLocked l)) rss"
      by (rule trimmed_step [OF "1.prems", rotated]) (use True in simp)
    then show ?thesis using True by (subst retainByAge.simps) simp
  next
    case False
    then show ?thesis using "1.prems" by (subst retainByAge.simps) (auto simp: trimmed_refl)
  qed
qed

lemma retainBySize_trimmed: "represents l rss \<Longrightarrow> trimmed l (retainBySize l) rss"
proof (induction l arbitrary: rss rule: retainBySize.induct)
  case (1 l)
  show ?case
  proof (cases "totalSizeLocked l > cf_MaxLogBytes (lg_cfg l) \<and> 1 < length (lg_segments l)")
    case True
    then have "trimmed (removeOldestSegmentLocked l) (retainBySize (removeOldestSegmentLocked l)) (tl rss)"
      using "1.prems" by (intro "1.IH") (simp_all add: removeOldest_represents)
    then have "trimmed l (retainBySize (removeOldestSegmentLocked l)) rss"
      by (rule trimmed_step [OF "1.prems", rotated]) (use True in simp)
    then show ?thesis using True by (subst retainBySize.simps) simp
  next
    case False
    then show ?thesis using "1.prems" by (subst retainBySize.simps) (auto simp: trimmed_refl)
  qed
qed

lemma enforceRetention_trimmed:
  assumes "represents l rss"
  shows "trimmed l (enforceRetentionLocked now l) rss"
proof -
  let ?l = "retainByAge now l"
  obtain k where k: "k < length rss" "represents ?l (drop k rss)" "lg_segments ?l = drop k (lg_segments l)"
      "lg_nextOffset ?l = lg_nextOffset l" "lg_cfg ?l = lg_cfg l"
    using retainByAge_trimmed [OF assms] by (auto simp: trimmed_def)
  obtain j where j: "j < length (drop k rss)" "represents (retainBySize ?l) (drop j (drop k rss))"
    "lg_segments (retainBySize ?l) = drop j (lg_segments ?l)" "lg_nextOffset (retainBySize ?l) = lg_nextOffset ?l"
    "lg_cfg (retainBySize ?l) = lg_cfg ?l"
    using retainBySize_trimmed [OF k(2)] by (auto simp: trimmed_def)
  have "trimmed l (retainBySize ?l) rss"
    using k j unfolding trimmed_def by (intro exI [of _ "j + k"]) simp
  then show ?thesis
    using retainByAge_trimmed [OF assms] by (simp add: enforceRetentionLocked_def Let_def)
qed

lemma retainBySize_bound:
  "totalSizeLocked (retainBySize l) \<le> cf_MaxLogBytes (lg_cfg (retainBySize l)) \<or> length (lg_segments (retainBySize l)) \<le> 1"
proof (induction l rule: retainBySize.induct)
  case (1 l)
  then show ?case by (subst (1 2 3) retainBySize.simps) auto
qed

section \<open>Opening a log\<close>

text \<open>The base offsets of consecutive segments.\<close>

fun bases :: "int \<Rightarrow> Record list list \<Rightarrow> int list" where
  "bases b [] = []"
| "bases b (rs # rss) = b # bases (b + int (length rs)) rss"

lemma bases_snoc: "bases b (rss @ [rs]) = bases b rss @ [b + int (length (concat rss))]"
  by (induction rss arbitrary: b) (simp_all add: algebra_simps)

lemma bases_below: "[] \<notin> set rss \<Longrightarrow> x \<in> set (bases b rss) \<Longrightarrow> b \<le> x \<and> x < b + int (length (concat rss))"
proof (induction rss arbitrary: b)
  case (Cons rs rss)
  then have "0 < length rs" by auto
  then show ?case using Cons.prems Cons.IH [of "b + int (length rs)"] by (auto simp: add_pos_nonneg)
qed simp

lemma bases_strict: "[] \<notin> set rss \<Longrightarrow> sorted_wrt (<) (bases b (rss @ [rs]))"
  unfolding bases_snoc
proof (induction rss arbitrary: b)
  case (Cons q rss)
  have ne: "0 < length q" using Cons.prems by auto
  have "sorted_wrt (<) (bases (b + int (length q)) rss @ [b + int (length q) + int (length (concat rss))])"
    using Cons by simp
  moreover have "b < x" if "x \<in> set (bases (b + int (length q)) rss)" for x
  proof -
    have "b + int (length q) \<le> x" using bases_below [of rss x "b + int (length q)"] that Cons.prems by simp
    then show ?thesis using ne by linarith
  qed
  ultimately show ?case using ne by (auto simp: algebra_simps add_pos_nonneg)
qed simp

text \<open>An index file that cannot mislead: it does not load, or its entries name stored records.\<close>

definition idxHolds :: "files \<Rightarrow> int \<Rightarrow> Record list \<Rightarrow> bool" where
  "idxHolds idxs b rs \<longleftrightarrow> (\<forall>es. loadIndex (map_of idxs b) b = Inr es \<longrightarrow> okIndex b rs es)"

lemma loadOrRebuildIndex_holds:
  assumes "idxHolds (lg_idxs l) (sg_baseOffset seg) rs" "okSeg (sg_baseOffset seg) rs"
    "fileOf (lg_logs l) (sg_baseOffset seg) = segLog (sg_baseOffset seg) rs"
    "length (segLog (sg_baseOffset seg) rs) < 2 ^ 32" "0 < cf_IndexInterval (lg_cfg l)"
  obtains idxs p es where "loadOrRebuildIndex l seg = Some (Inr (l\<lparr>lg_idxs := idxs\<rparr>, seg\<lparr>sg_idxPos := p, sg_idx := es\<rparr>))"
    "okIndex (sg_baseOffset seg) rs es" "\<And>k. k \<noteq> sg_baseOffset seg \<Longrightarrow> map_of idxs k = map_of (lg_idxs l) k"
proof -
  let ?b = "sg_baseOffset seg"
  show thesis
  proof (cases "loadIndex (map_of (lg_idxs l) ?b) ?b")
    case (Inr es)
    then have "loadOrRebuildIndex l seg = Some (Inr (l\<lparr>lg_idxs := lg_idxs l\<rparr>,
        seg\<lparr>sg_idxPos := Some (length (fileOf (lg_idxs l) ?b)), sg_idx := es\<rparr>))"
      by (simp add: loadOrRebuildIndex_def Let_def)
    then show thesis by (rule that) (use Inr assms(1) in \<open>auto simp: idxHolds_def\<close>)
  next
    case (Inl e)
    let ?es = "indexEntries (cf_IndexInterval (lg_cfg l)) 0 0 ?b rs"
    have ix: "okIndex ?b rs ?es" by (rule indexEntries_okIndex [OF assms(2)])
    obtain b where b: "rebuildIndex (segLog ?b rs) ?b (cf_IndexInterval (lg_cfg l)) = Some b" "loadIndex (Some b) ?b = Inr ?es"
      using rebuildIndex_log [OF assms(2,4,5)] loadIndex_okIndex [OF assms(2) ix assms(4)] by auto
    have "loadOrRebuildIndex l seg = Some (Inr (l\<lparr>lg_idxs := AList.update ?b b (lg_idxs l)\<rparr>,
        seg\<lparr>sg_idxPos := Some (length b), sg_idx := ?es\<rparr>))"
      using Inl b by (simp add: loadOrRebuildIndex_def Let_def assms(3))
    then show thesis by (rule that) (simp_all add: update_conv' ix)
  qed
qed

text \<open>A segment file whose tail may be torn.\<close>

definition torn :: "nat \<Rightarrow> int \<Rightarrow> Record list \<Rightarrow> nat \<Rightarrow> bool" where
  "torn k b rs m \<longleftrightarrow> m \<le> length rs \<and> length (segLog b (take m rs)) \<le> k
     \<and> (m < length rs \<longrightarrow> k < length (segLog b (take (Suc m) rs)))"

lemma openSegment_torn:
  assumes ok: "okSeg b rs" "length (segLog b rs) < 2 ^ 32" and f: "map_of (lg_logs l) b = Some (take k (segLog b rs))"
    and ix: "\<And>m. torn k b rs m \<Longrightarrow> idxHolds (lg_idxs l) b (take m rs)" and iv: "0 < cf_IndexInterval (lg_cfg l)"
  obtains m idxs seg where "torn k b rs m"
    "openSegment mtime l b True = Some (Inr (l\<lparr>lg_logs := AList.update b (segLog b (take m rs)) (lg_logs l), lg_idxs := idxs\<rparr>, seg))"
    "\<And>k. k \<noteq> b \<Longrightarrow> map_of idxs k = map_of (lg_idxs l) k"
    "sg_baseOffset seg = b" "sg_nextOffset seg = b + int m"
    "segHolds (AList.update b (segLog b (take m rs)) (lg_logs l)) seg (take m rs)"
proof -
  obtain m where m: "torn k b rs m"
    and sc: "scanSegment (take k (segLog b rs)) b = Some (b + int m, length (segLog b (take m rs)))"
    using scanSegment_cut [OF ok, of k] by (auto simp: torn_def)
  let ?c = "segLog b (take m rs)"
  have pre: "segLog b rs = ?c @ segLog (b + int m) (drop m rs)"
    using segLog_append [of b "take m rs" "drop m rs"] ok(1) m by (simp add: torn_def)
  have okm: "okSeg b (take m rs)" by (rule okSeg_take [OF ok(1)])
  let ?l = "l\<lparr>lg_logs := AList.update b ?c (lg_logs l)\<rparr>"
  let ?seg = "\<lparr>sg_baseOffset = b, sg_nextOffset = b + int m, sg_pos = length ?c, sg_size = length ?c,
      sg_createdAt = mtime b, sg_idxPos = None, sg_idx = []\<rparr>"
  have "length ?c \<le> k" using m by (simp add: torn_def)
  then have "(if length ?c < length (take k (segLog b rs)) then truncateTo (take k (segLog b rs)) (length ?c) else take k (segLog b rs)) = ?c"
    by (auto simp: pre min_def)
  then have "openSegment mtime l b True = loadOrRebuildIndex ?l ?seg"
    by (simp add: openSegment_def Let_def fileOf_def f sc)
  moreover obtain idxs p es where li: "loadOrRebuildIndex ?l ?seg = Some (Inr (?l\<lparr>lg_idxs := idxs\<rparr>, ?seg\<lparr>sg_idxPos := p, sg_idx := es\<rparr>))"
    "okIndex b (take m rs) es" "\<And>k. k \<noteq> b \<Longrightarrow> map_of idxs k = map_of (lg_idxs l) k"
  proof (rule loadOrRebuildIndex_holds [of ?l ?seg "take m rs"])
    show "length (segLog (sg_baseOffset ?seg) (take m rs)) < 2 ^ 32" using ok(2) pre by simp
  qed (use ix [OF m] okm iv in \<open>simp_all add: fileOf_def update_conv'\<close>)
  ultimately show thesis
    using that [OF m, of idxs "?seg\<lparr>sg_idxPos := p, sg_idx := es\<rparr>"] okm by (simp add: segHolds_def update_conv')
qed

lemma torn_whole: "okSeg b rs \<Longrightarrow> torn (length (segLog b rs)) b rs m \<Longrightarrow> m = length rs"
proof (rule ccontr)
  assume a: "okSeg b rs" "torn (length (segLog b rs)) b rs m" "m \<noteq> length rs"
  then have "length (segLog b rs) < length (segLog b (take (Suc m) rs))" by (auto simp: torn_def)
  moreover have "segLog b rs = segLog b (take (Suc m) rs) @ segLog (b + int (length (take (Suc m) rs))) (drop (Suc m) rs)"
    using segLog_append [of b "take (Suc m) rs" "drop (Suc m) rs"] a(1) by simp
  ultimately show False by (metis length_append le_add1 leD)
qed

text \<open>The files of consecutive segments, the last one cut at byte \<open>k\<close>.\<close>

fun filesFrom :: "files \<Rightarrow> files \<Rightarrow> int \<Rightarrow> Record list list \<Rightarrow> Record list \<Rightarrow> nat \<Rightarrow> bool" where
  "filesFrom logs idxs b [] rs k \<longleftrightarrow> okSeg b rs \<and> length (segLog b rs) < 2 ^ 32
     \<and> map_of logs b = Some (take k (segLog b rs)) \<and> (\<forall>m. torn k b rs m \<longrightarrow> idxHolds idxs b (take m rs))"
| "filesFrom logs idxs b (q # rss) rs k \<longleftrightarrow> okSeg b q \<and> length (segLog b q) < 2 ^ 32 \<and> q \<noteq> []
     \<and> map_of logs b = Some (segLog b q) \<and> idxHolds idxs b q \<and> filesFrom logs idxs (b + int (length q)) rss rs k"

lemma filesFrom_nonempty: "filesFrom logs idxs b rss rs k \<Longrightarrow> [] \<notin> set rss"
  by (induction logs idxs b rss rs k rule: filesFrom.induct) auto

lemma filesFrom_above:
  "filesFrom logs idxs b rss rs k \<Longrightarrow> (\<And>x. b \<le> x \<Longrightarrow> map_of logs' x = map_of logs x) \<Longrightarrow>
   (\<And>x. b \<le> x \<Longrightarrow> map_of idxs' x = map_of idxs x) \<Longrightarrow> filesFrom logs' idxs' b rss rs k"
  by (induction logs idxs b rss rs k rule: filesFrom.induct) (auto simp: idxHolds_def)

text \<open>What the loop over the segment files has opened so far.\<close>

definition opened :: "segmentedLog \<Rightarrow> int \<Rightarrow> Record list list \<Rightarrow> bool" where
  "opened l s0 rss \<longleftrightarrow> chain (lg_logs l) s0 (lg_segments l) rss \<and> (rss \<noteq> [] \<longrightarrow> lg_startOffset l = s0
     \<and> lg_nextOffset l = s0 + int (length (concat rss)))"

lemma opened_step:
  assumes o: "opened l s0 opn" and ne: "[] \<notin> set opn" and b: "b = s0 + int (length (concat opn))"
    and seg: "sg_baseOffset seg = b" "sg_nextOffset seg = b + int (length rs)"
      "segHolds (AList.update b c (lg_logs l)) seg rs"
  shows "opened (l\<lparr>lg_logs := AList.update b c (lg_logs l), lg_idxs := idxs, lg_segments := lg_segments l @ [seg],
      lg_nextOffset := sg_nextOffset seg,
      lg_startOffset := (if length (lg_segments l @ [seg]) = 1 \<or> b < lg_startOffset l then b else lg_startOffset l)\<rparr>)
    s0 (opn @ [rs])"
proof -
  have "chain (AList.update b c (lg_logs l)) s0 (lg_segments l) opn"
    using o ne b by - (rule chain_beyond [of "lg_logs l"], auto simp: opened_def update_conv')
  moreover have "length (lg_segments l) = length opn" using o by (auto simp: opened_def dest: chain_length)
  ultimately show ?thesis using o b seg by (auto simp: opened_def chain_snoc)
qed

lemma openSegments_opened:
  assumes "filesFrom (lg_logs l) (lg_idxs l) b rss rs k" "opened l s0 opn" "[] \<notin> set opn"
    "b = s0 + int (length (concat opn))" "0 < cf_IndexInterval (lg_cfg l)"
  obtains l' m where "openSegments mtime l (bases b (rss @ [rs])) = Some (Inr l')" 
    "torn k (b + int (length (concat rss))) rs m" "opened l' s0 (opn @ rss @ [take m rs])" "lg_closed l' = lg_closed l"
    "lg_cfg l' = lg_cfg l" "lg_opts l' = lg_opts l" "fst ` set (lg_logs l') = fst ` set (lg_logs l)"
  using assms
proof (induction rss arbitrary: b l opn thesis)
  case Nil
  have f: "okSeg b rs" "length (segLog b rs) < 2 ^ 32" "map_of (lg_logs l) b = Some (take k (segLog b rs))"
    and ix: "\<And>m. torn k b rs m \<Longrightarrow> idxHolds (lg_idxs l) b (take m rs)"
    using Nil.prems(2) by simp_all
  obtain m idxs seg where m: "torn k b rs m"
    and o: "openSegment mtime l b True = Some (Inr (l\<lparr>lg_logs := AList.update b (segLog b (take m rs)) (lg_logs l), lg_idxs := idxs\<rparr>, seg))"
    and seg: "sg_baseOffset seg = b" "sg_nextOffset seg = b + int m"
      "segHolds (AList.update b (segLog b (take m rs)) (lg_logs l)) seg (take m rs)"
    by (rule openSegment_torn [OF f ix Nil.prems(6)]) blast+
  have len: "length (take m rs) = m" using m by (simp add: torn_def)
  let ?l = "l\<lparr>lg_logs := AList.update b (segLog b (take m rs)) (lg_logs l), lg_idxs := idxs, lg_segments := lg_segments l @ [seg],
      lg_nextOffset := sg_nextOffset seg,
      lg_startOffset := (if length (lg_segments l @ [seg]) = 1 \<or> b < lg_startOffset l then b else lg_startOffset l)\<rparr>"
  have st: "opened ?l s0 (opn @ [take m rs])"
    by (rule opened_step [OF Nil.prems(3,4,5) seg(1) _ seg(3)]) (simp only: seg(2) len)
  have e: "openSegments mtime l (bases b ([] @ [rs])) = Some (Inr ?l)" using o by (simp add: Let_def)
  have "b \<in> fst ` set (lg_logs l)" using f(3) by (auto simp: dom_map_of_conv_image_fst [symmetric])
  then show thesis by (intro Nil.prems(1) [OF e]) (use m st in \<open>simp_all add: fst_image_update insert_absorb\<close>)
next
  case (Cons q rss)
  have f: "okSeg b q" "length (segLog b q) < 2 ^ 32" "q \<noteq> []" "map_of (lg_logs l) b = Some (segLog b q)" "idxHolds (lg_idxs l) b q"
    and rest: "filesFrom (lg_logs l) (lg_idxs l) (b + int (length q)) rss rs k"
    using Cons.prems(2) by simp_all
  obtain idxs seg
    where o: "openSegment mtime l b True = Some (Inr (l\<lparr>lg_logs := AList.update b (segLog b q) (lg_logs l), lg_idxs := idxs\<rparr>, seg))"
    and ix: "\<And>k. k \<noteq> b \<Longrightarrow> map_of idxs k = map_of (lg_idxs l) k"
    and seg: "sg_baseOffset seg = b" "sg_nextOffset seg = b + int (length q)" "segHolds (AList.update b (segLog b q) (lg_logs l)) seg q"
  proof (rule openSegment_torn [OF f(1,2) _ _ Cons.prems(6), of "length (segLog b q)" mtime])
    fix m assume "torn (length (segLog b q)) b q m"
    then show "idxHolds (lg_idxs l) b (take m q)" using torn_whole [OF f(1)] f(5) by simp
  next
    fix m idxs seg
    assume m: "torn (length (segLog b q)) b q m"
    assume "openSegment mtime l b True = Some (Inr (l\<lparr>lg_logs := AList.update b (segLog b (take m q)) (lg_logs l), lg_idxs := idxs\<rparr>, seg))"
      "\<And>k. k \<noteq> b \<Longrightarrow> map_of idxs k = map_of (lg_idxs l) k" "sg_baseOffset seg = b" "sg_nextOffset seg = b + int m"
      "segHolds (AList.update b (segLog b (take m q)) (lg_logs l)) seg (take m q)"
    then show thesis using that torn_whole [OF f(1) m] by simp
  qed (use f in simp)
  let ?l = "l\<lparr>lg_logs := AList.update b (segLog b q) (lg_logs l), lg_idxs := idxs, lg_segments := lg_segments l @ [seg],
      lg_nextOffset := sg_nextOffset seg,
      lg_startOffset := (if length (lg_segments l @ [seg]) = 1 \<or> b < lg_startOffset l then b else lg_startOffset l)\<rparr>"
  have dom: "b \<in> fst ` set (lg_logs l)" using f(4) by (auto simp: dom_map_of_conv_image_fst [symmetric])
  have rest': "filesFrom (lg_logs ?l) (lg_idxs ?l) (b + int (length q)) rss rs k"
    using rest by (rule filesFrom_above) (use f(3) in \<open>auto simp: update_conv' intro!: ix\<close>)
  have op: "opened ?l s0 (opn @ [q])" by (rule opened_step [OF Cons.prems(3,4,5) seg])
  obtain l' m where "openSegments mtime ?l (bases (b + int (length q)) (rss @ [rs])) = Some (Inr l')"
    "torn k (b + int (length q) + int (length (concat rss))) rs m" "opened l' s0 ((opn @ [q]) @ rss @ [take m rs])"
    "lg_closed l' = lg_closed ?l" "lg_cfg l' = lg_cfg ?l" "lg_opts l' = lg_opts ?l" "fst ` set (lg_logs l') = fst ` set (lg_logs ?l)"
    by (rule Cons.IH [OF _ rest' op]) (use Cons.prems f(3) in \<open>auto simp: algebra_simps\<close>)
  moreover have "openSegments mtime l (bases b ((q # rss) @ [rs])) = openSegments mtime ?l (bases (b + int (length q)) (rss @ [rs]))"
    using o by (simp add: Let_def)
  ultimately show thesis
    using dom by (intro Cons.prems(1) [of l' m]) (simp_all add: fst_image_update insert_absorb algebra_simps)
qed

lemma recoverSegmentFile_torn:
  assumes ok: "okSeg b rs" "length (segLog b rs) < 2 ^ 32" "0 < cf_IndexInterval cfg"
  obtains m idx where "torn k b rs m" "recoverSegmentFile cfg (take k (segLog b rs)) b = Some (segLog b (take m rs), idx)"
    "loadIndex (Some idx) b = Inr (indexEntries (cf_IndexInterval cfg) 0 0 b (take m rs))"
proof -
  obtain m where m: "torn k b rs m"
    and sc: "scanSegment (take k (segLog b rs)) b = Some (b + int m, length (segLog b (take m rs)))"
    using scanSegment_cut [OF ok(1,2), of k] by (auto simp: torn_def)
  let ?c = "segLog b (take m rs)"
  have pre: "segLog b rs = ?c @ segLog (b + int m) (drop m rs)"
    using segLog_append [of b "take m rs" "drop m rs"] ok(1) m by (simp add: torn_def)
  have okm: "okSeg b (take m rs)" "length ?c < 2 ^ 32" using okSeg_take [OF ok(1)] ok(2) pre by simp_all
  have "length ?c \<le> k" using m by (simp add: torn_def)
  then have "(if length ?c < length (take k (segLog b rs)) then truncateTo (take k (segLog b rs)) (length ?c) else take k (segLog b rs)) = ?c"
    by (auto simp: pre min_def)
  then show thesis
    using that [OF m] sc rebuildIndex_log [OF okm ok(3)] loadIndex_okIndex [OF okm(1) indexEntries_okIndex [OF okm(1)] okm(2)]
    by (simp add: recoverSegmentFile_def Let_def)
qed

lemma torn_end:
  assumes "okSeg b rs" "torn (length (segLog b (take m rs))) b (take m rs) j"
  shows "take j (take m rs) = take m rs"
  using torn_whole [OF okSeg_take [OF assms(1)] assms(2)] by (simp only: take_all order_refl)

lemma recoverWalk_files:
  assumes "filesFrom logs [] b rss rs k" "0 < cf_IndexInterval cfg"
  obtains logs' idxs' m where "recoverWalk (\<lambda>n. False) cfg logs idxs (bases b (rss @ [rs])) = Some (logs', idxs', None)"
    "torn k (b + int (length (concat rss))) rs m"
    "filesFrom logs' idxs' b rss (take m rs) (length (segLog (b + int (length (concat rss))) (take m rs)))"
    "fst ` set logs' = fst ` set logs" "\<And>x. x < b \<Longrightarrow> map_of logs' x = map_of logs x" "\<And>x. x < b \<Longrightarrow> map_of idxs' x = map_of idxs x"
  using assms
proof (induction rss arbitrary: b logs idxs thesis)
  case Nil
  have f: "okSeg b rs" "length (segLog b rs) < 2 ^ 32" "map_of logs b = Some (take k (segLog b rs))"
    using Nil.prems(2) by simp_all
  obtain m idx where m: "torn k b rs m" and r: "recoverSegmentFile cfg (take k (segLog b rs)) b = Some (segLog b (take m rs), idx)"
    and ld: "loadIndex (Some idx) b = Inr (indexEntries (cf_IndexInterval cfg) 0 0 b (take m rs))"
    by (rule recoverSegmentFile_torn [OF f(1,2) Nil.prems(3)])
  have okm: "okSeg b (take m rs)" by (rule okSeg_take [OF f(1)])
  have "segLog b rs = segLog b (take m rs) @ segLog (b + int m) (drop m rs)"
    using segLog_append [of b "take m rs" "drop m rs"] f(1) m by (simp add: torn_def)
  then have len: "length (segLog b (take m rs)) < 2 ^ 32" using f(2) by simp
  have ix: "idxHolds (AList.update b idx idxs) b (take j (take m rs))"
    if "torn (length (segLog b (take m rs))) b (take m rs) j" for j
    using torn_end [OF f(1) that] ld indexEntries_okIndex [OF okm] by (auto simp: idxHolds_def update_conv')
  have "b \<in> fst ` set logs" using f(3) by (auto simp: dom_map_of_conv_image_fst [symmetric])
  then show thesis
    using r f(3) okm len ix m
    by (intro Nil.prems(1) [of "AList.update b (segLog b (take m rs)) logs" "AList.update b idx idxs" m])
      (simp_all add: fileOf_def fst_image_update insert_absorb update_conv')
next
  case (Cons q rss)
  have f: "okSeg b q" "length (segLog b q) < 2 ^ 32" "q \<noteq> []" "map_of logs b = Some (segLog b q)"
    and rest: "filesFrom logs [] (b + int (length q)) rss rs k"
    using Cons.prems(2) by simp_all
  obtain m idx where m: "torn (length (segLog b q)) b q m"
    and r: "recoverSegmentFile cfg (take (length (segLog b q)) (segLog b q)) b = Some (segLog b (take m q), idx)"
    and ld: "loadIndex (Some idx) b = Inr (indexEntries (cf_IndexInterval cfg) 0 0 b (take m q))"
    by (rule recoverSegmentFile_torn [OF f(1,2) Cons.prems(3)])
  have mq: "take m q = q" using torn_whole [OF f(1) m] by simp
  let ?logs = "AList.update b (segLog b q) logs" and ?idxs = "AList.update b idx idxs"
  have fr: "filesFrom ?logs [] (b + int (length q)) rss rs k"
    using rest by (rule filesFrom_above) (use f(3) in \<open>auto simp: update_conv'\<close>)
  obtain logs' idxs' j where ih: "recoverWalk (\<lambda>n. False) cfg ?logs ?idxs (bases (b + int (length q)) (rss @ [rs])) = Some (logs', idxs', None)"
    "torn k (b + int (length q) + int (length (concat rss))) rs j"
    "filesFrom logs' idxs' (b + int (length q)) rss (take j rs) (length (segLog (b + int (length q) + int (length (concat rss))) (take j rs)))"
    "fst ` set logs' = fst ` set ?logs"
    and low: "\<And>x. x < b + int (length q) \<Longrightarrow> map_of logs' x = map_of ?logs x"
      "\<And>x. x < b + int (length q) \<Longrightarrow> map_of idxs' x = map_of ?idxs x"
    by (rule Cons.IH [OF that fr Cons.prems(3)])
  have dom: "b \<in> fst ` set logs" using f(4) by (auto simp: dom_map_of_conv_image_fst [symmetric])
  have here: "map_of logs' b = Some (segLog b q)" "idxHolds idxs' b q"
    using low [of b] f(3) ld mq indexEntries_okIndex [OF f(1)] by (auto simp: idxHolds_def update_conv')
  show thesis
    using Cons.prems(1) [of logs' idxs' j] ih here f r mq dom low
    by (simp add: fileOf_def fst_image_update insert_absorb update_conv' algebra_simps)
qed

lemma opened_holding:
  assumes "opened l s0 (rss @ [rs])" "[] \<notin> set rss" "\<not> lg_closed l" "cf_IndexInterval (lg_cfg l) \<noteq> 0"
    "fst ` set (lg_logs l) = set (bases s0 (rss @ [rs]))"
  obtains pre a where "holding l pre a rss rs" "sg_nextOffset a = lg_nextOffset l"
proof -
  have ch: "chain (lg_logs l) s0 (lg_segments l) (rss @ [rs])" and so: "lg_startOffset l = s0" "lg_nextOffset l = s0 + int (length (concat (rss @ [rs])))"
    using assms(1) by (simp_all add: opened_def)
  obtain pre a where pa: "lg_segments l = pre @ [a]"
    using chain_length [OF ch] by (metis append_butlast_last_id length_0_conv length_append_singleton nat.simps(3))
  have "sg_baseOffset ` set segs = set (bases b qs)" if "chain logs b segs qs" for logs b segs qs
    using that by (induction logs b segs qs rule: chain.induct) auto
  from this [OF ch] have "fst ` set (lg_logs l) = sg_baseOffset ` set (pre @ [a])" using assms(5) pa by simp
  then show thesis using that [of pre a] ch pa so assms by (simp add: holding_def chain_snoc)
qed

lemma holding_represents: "holding l pre a rss rs \<Longrightarrow> sg_nextOffset a = lg_nextOffset l \<Longrightarrow> represents l (rss @ [rs])"
  by (auto simp: represents_def)

lemma bootstrap_files:
  assumes f: "filesFrom (lg_logs l) (lg_idxs l) b rss rs k" and dom: "fst ` set (lg_logs l) = set (bases b (rss @ [rs]))"
    and l: "lg_segments l = []" "\<not> lg_closed l" "0 < cf_IndexInterval (lg_cfg l)"
  obtains l' m rss' where "bootstrap mtime now l = Some (Inr l')" "torn k (b + int (length (concat rss))) rs m"
    "represents l' rss'" "concat rss' = concat rss @ take m rs" "lg_startOffset l' = b"
proof -
  have ne: "[] \<notin> set rss" by (rule filesFrom_nonempty [OF f])
  have "sorted_wrt (<) (bases b (rss @ [rs]))" by (rule bases_strict [OF ne])
  then have "sort (remdups (map fst (lg_logs l))) = bases b (rss @ [rs])"
    using dom by (intro sorted_distinct_set_unique) (auto simp: strict_sorted_iff)
  then have bs: "sort (remdups (map fst (lg_logs l))) = bases b (rss @ [rs])" "bases b (rss @ [rs]) \<noteq> []"
    by (simp_all add: bases_snoc)
  have "opened l b []" using l by (simp add: opened_def)
  then obtain l' m where o: "openSegments mtime l (bases b (rss @ [rs])) = Some (Inr l')"
    and m: "torn k (b + int (length (concat rss))) rs m" and op: "opened l' b ([] @ rss @ [take m rs])"
    and same: "lg_closed l' = lg_closed l" "lg_cfg l' = lg_cfg l" "fst ` set (lg_logs l') = fst ` set (lg_logs l)"
    by (rule openSegments_opened [OF f, of b "[]" mtime]) (use l in simp_all)
  have nb: "set (bases b (rss @ [rs])) = set (bases b (rss @ [take m rs]))" by (simp add: bases_snoc)
  obtain pre a where h: "holding l' pre a rss (take m rs)" "sg_nextOffset a = lg_nextOffset l'"
    by (rule opened_holding [of l' b rss "take m rs"]) (use op ne same l dom nb in simp_all)
  have segs: "lg_segments l' = pre @ [a]" using h by (simp add: holding_def)
  have so: "lg_startOffset l' = b" using op by (simp add: opened_def)
  have len: "length (take m rs) = m" using m by (simp add: torn_def)
  show thesis
  proof (cases "int (sg_size a) \<ge> cf_MaxSegmentBytes (lg_cfg l') \<and> sg_nextOffset a > sg_baseOffset a")
    case True
    then have r: "take m rs \<noteq> []" using h by (auto simp: holding_def)
    let ?l = "createSegment now l' (lg_nextOffset l')"
    obtain a' where "holding ?l (pre @ [a]) a' (rss @ [take m rs]) []" "sg_nextOffset a' = lg_nextOffset l'"
      "lg_startOffset ?l = lg_startOffset l'" "lg_nextOffset ?l = lg_nextOffset l'"
      by (rule createSegment_holding [OF h(1) r h(2)])
    moreover from this have "represents ?l ((rss @ [take m rs]) @ [[]])" by (intro holding_represents) simp_all
    ultimately show thesis
      using that [of ?l m] m so o bs segs True by (simp add: bootstrap_def)
  next
    case False
    then have "bootstrap mtime now l = Some (Inr l')"
      using o bs segs by (auto simp: bootstrap_def)
    then show thesis
      using that [of l' m "rss @ [take m rs]"] m so holding_represents [OF h] by simp
  qed
qed

text \<open>What a crash leaves of an open log: its files, the active one cut at byte \<open>k\<close>.\<close>

definition afterCrash :: "nat \<Rightarrow> files \<Rightarrow> segmentedLog \<Rightarrow> segmentedLog" where
  "afterCrash k idxs l = l\<lparr>lg_logs := AList.update (sg_baseOffset (active l))
       (take k (fileOf (lg_logs l) (sg_baseOffset (active l)))) (lg_logs l),
     lg_idxs := idxs, lg_segments := [], lg_nextOffset := 0, lg_startOffset := 0\<rparr>"

lemma chain_files:
  assumes "chain logs b segs rss" "[] \<notin> set rss" "\<And>s. s \<in> set segs \<Longrightarrow> sg_size s < 2 ^ 32"
    "okSeg (b + int (length (concat rss))) rs" "length (segLog (b + int (length (concat rss))) rs) < 2 ^ 32"
    "map_of logs (b + int (length (concat rss))) = Some (take k (segLog (b + int (length (concat rss))) rs))"
  shows "filesFrom logs [] b rss rs k"
  using assms
proof (induction logs b segs rss rule: chain.induct)
  case (2 logs b seg segs q rss)
  have "filesFrom logs [] (b + int (length q)) rss rs k"
    using "2.prems" by (intro "2.IH") (auto simp: algebra_simps)
  moreover have "length (segLog b q) < 2 ^ 32"
    using "2.prems"(1) "2.prems"(3) [of seg] by (simp add: segHolds_def)
  ultimately show ?case
    using "2.prems"(1,2) by (auto simp: segHolds_def idxHolds_def loadIndex_def)
qed (simp_all add: idxHolds_def loadIndex_def)

section \<open>An empty log\<close>

definition emptyLog :: "Config \<Rightarrow> LogOptions \<Rightarrow> segmentedLog" where
  "emptyLog cfg opts = \<lparr>lg_opts = opts, lg_cfg = cfg, lg_logs = [], lg_idxs = [], lg_segments = [],
     lg_nextOffset = 0, lg_startOffset = 0, lg_closed = False\<rparr>"

lemma bootstrap_empty:
  assumes "okSeg (lo_BaseOffset opts) []" "cf_IndexInterval cfg \<noteq> 0"
  obtains l where "bootstrap mtime now (emptyLog cfg opts) = Some (Inr l)" "represents l [[]]"
    "lg_startOffset l = lo_BaseOffset opts" "lg_nextOffset l = lo_BaseOffset opts" "lg_cfg l = cfg"
proof -
  let ?b = "lo_BaseOffset opts"
  let ?l = "createSegment now (emptyLog cfg opts) ?b"
  have "bootstrap mtime now (emptyLog cfg opts) = Some (Inr ?l)"
    by (simp add: bootstrap_def emptyLog_def)
  moreover have "represents ?l ([] @ [[]])"
    using assms by (intro holding_represents [where pre = "[]" and a = "active ?l"])
      (simp_all add: holding_def createSegment_def emptyLog_def active_def Let_def segHolds_def fileOf_def okIndex_def)
  moreover have "lg_startOffset ?l = ?b" "lg_nextOffset ?l = ?b" "lg_cfg ?l = cfg"
    by (simp_all add: createSegment_def emptyLog_def Let_def)
  ultimately show thesis using that by simp
qed

text \<open>A configuration without retention.\<close>

definition keepsAll :: "Config \<Rightarrow> bool" where
  "keepsAll cfg \<longleftrightarrow> cf_SegmentMaxAge cfg \<le> 0 \<and> cf_MaxLogBytes cfg \<le> 0"

lemma enforceRetention_keeps: "keepsAll (lg_cfg l) \<Longrightarrow> enforceRetentionLocked now l = l"
  by (simp add: enforceRetentionLocked_def keepsAll_def retainByAge.simps [of now l])

lemma AppendBatch_represents:
  assumes r: "represents l rss" and ne: "records \<noteq> []" and ok: "okSeg (lg_nextOffset l) (stamped clock records)"
    and one: "oneSegment l (stamped clock records)"
  obtains l' rss' k where "AppendBatch (\<lambda>n. False) clock now l records = (l', lg_nextOffset l, None)"
    "concat rss' = concat rss @ stamped clock records" "k < length rss'" "represents l' (drop k rss')"
    "lg_nextOffset l' = lg_nextOffset l + int (length records)" "lg_cfg l' = lg_cfg l"
    "lg_startOffset l' = lg_startOffset l + int (length (concat (take k rss')))" "keepsAll (lg_cfg l) \<Longrightarrow> k = 0"
    "length (concat (take k rss')) \<le> length (concat rss)"
proof -
  obtain l1 pre a rss' rs where 1: "appendLoop (\<lambda>n. False) clock now l records = (l1, None)" "holding l1 pre a rss' rs"
    "concat (rss' @ [rs]) = concat rss @ stamped clock records" "lg_cfg l1 = lg_cfg l" "lg_startOffset l1 = lg_startOffset l"
    "length (concat rss') \<le> length (concat rss)"
    by (rule appendLoop_batch [OF r ne ok one])
  let ?l2 = "setActive l1 ((active l1)\<lparr>sg_nextOffset := lg_nextOffset l1\<rparr>)"
  have segs: "lg_segments l1 = pre @ [a]" "\<not> lg_closed l" "lg_segments l \<noteq> []"
    using 1(2) r by (auto simp: represents_def holding_def)
  have "segHolds (lg_logs l1) (a\<lparr>sg_nextOffset := lg_nextOffset l1\<rparr>) rs = segHolds (lg_logs l1) a rs"
    by (simp add: segHolds_def)
  then have "holding ?l2 pre (a\<lparr>sg_nextOffset := lg_nextOffset l1\<rparr>) rss' rs"
    using 1(2) segs by (simp add: holding_def)
  then have "represents ?l2 (rss' @ [rs])" by (rule holding_represents) simp
  note t = enforceRetention_trimmed [OF this, of now]
  obtain k where k0: "keepsAll (lg_cfg l) \<Longrightarrow> k = 0" and k: "k < length (rss' @ [rs])" "represents (enforceRetentionLocked now ?l2) (drop k (rss' @ [rs]))"
    "lg_nextOffset (enforceRetentionLocked now ?l2) = lg_nextOffset l1" "lg_cfg (enforceRetentionLocked now ?l2) = lg_cfg l"
  proof (cases "keepsAll (lg_cfg l)")
    case True
    then show thesis using that [of 0] \<open>represents ?l2 (rss' @ [rs])\<close> 1(4) by (simp add: enforceRetention_keeps)
  next
    case False
    then show thesis using t 1(4) that by (auto simp: trimmed_def)
  qed
  have n: "lg_nextOffset l1 = lg_nextOffset l + int (length records)"
    using represents_next [OF \<open>represents ?l2 (rss' @ [rs])\<close>] represents_next [OF r] arg_cong [OF 1(3), of length] 1(5) by simp
  have "concat (rss' @ [rs]) = concat (take k (rss' @ [rs])) @ concat (drop k (rss' @ [rs]))"
    by (metis append_take_drop_id concat_append)
  then have "length (concat (rss' @ [rs])) = length (concat (take k (rss' @ [rs]))) + length (concat (drop k (rss' @ [rs])))"
    by simp
  then have "lg_startOffset (enforceRetentionLocked now ?l2) = lg_startOffset l + int (length (concat (take k (rss' @ [rs]))))"
    using represents_next [OF k(2)] represents_next [OF \<open>represents ?l2 (rss' @ [rs])\<close>] k(3) 1(5) by simp
  moreover have "AppendBatch (\<lambda>n. False) clock now l records = (enforceRetentionLocked now ?l2, lg_nextOffset l, None)"
    using segs ne 1(1) by (simp add: AppendBatch_def ensureActiveSegmentLocked_def Let_def)
  moreover have "length (concat (take k (rss' @ [rs]))) \<le> length (concat rss)"
  proof -
    have "length (concat rss') = length (concat (take k rss')) + length (concat (drop k rss'))"
      by (metis append_take_drop_id concat_append length_append)
    then show ?thesis using 1(6) k(1) by simp
  qed
  ultimately show thesis
    using k k0 n 1(3) by (intro that [of "enforceRetentionLocked now ?l2" "rss' @ [rs]" k]) simp_all
qed

section \<open>Properties\<close>

text \<open>C1: reading a log returns exactly what it holds.  For a log that holds the records \<open>concat rss\<close>
  from its start offset on, in however many segments, \<^verbatim>\<open>Read\<close> at any offset (before the start,
  inside any segment, past the end) returns the stored records from that offset on, in order and
  with their offsets and checksums, cut after the record whose value reaches the byte budget; a
  budget of zero or less returns them all.\<close>

theorem log_read_exact:
  assumes "represents l rss" "inS 32 maxBytes"
    and "smallValues maxBytes (fromOffset offset (storedFrom (lg_startOffset l) (concat rss)))"
  shows "Read (\<lambda>n. False) l offset maxBytes =
    Inr (budget maxBytes (fromOffset offset (storedFrom (lg_startOffset l) (concat rss))))"
  using assms by (rule Read_represents)

text \<open>C2: appending extends the log and retention drops whole segments at its start.  A batch that
  does not cross a segment boundary is acknowledged with the offset of its first record, the
  log then holds the old records followed by the batch with the timestamps filled in, except
  that retention may have removed the segments in front of some later one; the new end and
  the new start follow, and without a retention limit nothing is removed.\<close>

theorem log_append_extends:
  assumes "represents l rss" "records \<noteq> []" "okSeg (lg_nextOffset l) (stamped clock records)"
    "oneSegment l (stamped clock records)"
  shows "\<exists>l' rss' k. AppendBatch (\<lambda>n. False) clock now l records = (l', lg_nextOffset l, None)
    \<and> concat rss' = concat rss @ stamped clock records \<and> k < length rss' \<and> represents l' (drop k rss')
    \<and> lg_nextOffset l' = lg_nextOffset l + int (length records)
    \<and> lg_startOffset l' = lg_startOffset l + int (length (concat (take k rss')))
    \<and> (keepsAll (lg_cfg l) \<longrightarrow> k = 0)"
  by (rule AppendBatch_represents [OF assms]) blast

text \<open>C3: a restart after a crash.  When the process dies with the file of the active segment cut at
  any byte, whatever the index files hold, recovery and opening the log succeed, and the log
  holds every record of the closed segments and every whole record of the active one.\<close>

theorem log_restart_recovers:
  assumes r: "represents l (rss @ [rs])" and small: "\<forall>s\<in>set (lg_segments l). sg_size s < 2 ^ 32"
    and iv: "0 < cf_IndexInterval (lg_cfg l)"
  shows "\<exists>logs' idxs' l' rss' m. recoverWalk (\<lambda>n. False) (lg_cfg l) (lg_logs (afterCrash k idxs l)) idxs
        (sort (remdups (map fst (lg_logs (afterCrash k idxs l))))) = Some (logs', idxs', None)
    \<and> bootstrap mtime now ((afterCrash k idxs l)\<lparr>lg_logs := logs', lg_idxs := idxs'\<rparr>) = Some (Inr l')
    \<and> torn k (lg_startOffset l + int (length (concat rss))) rs m
    \<and> represents l' rss' \<and> concat rss' = concat rss @ take m rs \<and> lg_startOffset l' = lg_startOffset l"
proof -
  let ?b = "lg_startOffset l" and ?c = "afterCrash k idxs l"
  let ?e = "?b + int (length (concat rss))"
  obtain pre a where h: "holding l pre a rss rs" using r by (auto simp: represents_def)
  have segs: "lg_segments l = pre @ [a]" "sg_baseOffset a = ?e" "[] \<notin> set rss" "chain (lg_logs l) ?b pre rss"
    and sh: "segHolds (lg_logs l) a rs" using h by (simp_all add: holding_def)
  have sg: "okSeg ?e rs" "fileOf (lg_logs l) ?e = segLog ?e rs" "length (segLog ?e rs) < 2 ^ 32"
    using sh small segs(1,2) by (auto simp: segHolds_def fileOf_def)
  have logs: "lg_logs ?c = AList.update ?e (take k (segLog ?e rs)) (lg_logs l)" by (simp add: afterCrash_def segs sg)
  have "chain (lg_logs ?c) ?b pre rss"
    using segs(3,4) by - (rule chain_beyond [of "lg_logs l"], auto simp: logs update_conv')
  then have ff: "filesFrom (lg_logs ?c) [] ?b rss rs k"
    by (rule chain_files) (use small segs sg in \<open>auto simp: logs update_conv'\<close>)
  have "sg_baseOffset ` set ss = set (bases b qs)" if "chain fs b ss qs" for fs b ss qs
    using that by (induction fs b ss qs rule: chain.induct) auto
  from this [OF segs(4)] have dom: "fst ` set (lg_logs ?c) = set (bases ?b (rss @ [rs]))"
    using h by (auto simp: holding_def logs fst_image_update bases_snoc)
  have "sort (remdups (map fst (lg_logs ?c))) = bases ?b (rss @ [rs])"
    using dom bases_strict [OF segs(3)] by (intro sorted_distinct_set_unique) (auto simp: strict_sorted_iff)
  moreover obtain logs' idxs' m where w: "recoverWalk (\<lambda>n. False) (lg_cfg l) (lg_logs ?c) idxs (bases ?b (rss @ [rs])) = Some (logs', idxs', None)"
    "torn k ?e rs m" "filesFrom logs' idxs' ?b rss (take m rs) (length (segLog ?e (take m rs)))" "fst ` set logs' = fst ` set (lg_logs ?c)"
    by (rule recoverWalk_files [OF ff iv])
  moreover have "\<exists>l' rss'. bootstrap mtime now (?c\<lparr>lg_logs := logs', lg_idxs := idxs'\<rparr>) = Some (Inr l')
      \<and> represents l' rss' \<and> concat rss' = concat rss @ take m rs \<and> lg_startOffset l' = ?b"
  proof (rule bootstrap_files [of "?c\<lparr>lg_logs := logs', lg_idxs := idxs'\<rparr>" ?b rss "take m rs" "length (segLog ?e (take m rs))" mtime now])
    show "\<not> lg_closed (?c\<lparr>lg_logs := logs', lg_idxs := idxs'\<rparr>)" using represents_open [OF r] by (simp add: afterCrash_def)
    show "fst ` set (lg_logs (?c\<lparr>lg_logs := logs', lg_idxs := idxs'\<rparr>)) = set (bases ?b (rss @ [take m rs]))"
      using w(4) dom by (simp add: bases_snoc)
  qed (use w iv torn_end [OF sg(1)] in \<open>auto simp: afterCrash_def\<close>)
  ultimately show ?thesis by auto
qed

text \<open>C29: what retention keeps.  It removes whole segments from the start of the log and never the
  last one; afterwards the log fits the size limit or has a single segment; and it removes
  nothing from a log within its limits.\<close>

theorem retention_policy:
  assumes "represents l rss"
  shows "(\<exists>k < length rss. represents (enforceRetentionLocked now l) (drop k rss)
      \<and> lg_segments (enforceRetentionLocked now l) = drop k (lg_segments l)
      \<and> lg_nextOffset (enforceRetentionLocked now l) = lg_nextOffset l)
    \<and> (0 < cf_MaxLogBytes (lg_cfg l) \<longrightarrow> totalSizeLocked (enforceRetentionLocked now l) \<le> cf_MaxLogBytes (lg_cfg l)
      \<or> length (lg_segments (enforceRetentionLocked now l)) = 1)
    \<and> ((cf_SegmentMaxAge (lg_cfg l) \<le> 0 \<or> now - sg_createdAt (hd (lg_segments l)) \<le> cf_SegmentMaxAge (lg_cfg l)) \<and>
      (cf_MaxLogBytes (lg_cfg l) \<le> 0 \<or> totalSizeLocked l \<le> cf_MaxLogBytes (lg_cfg l)) \<longrightarrow> enforceRetentionLocked now l = l)"
proof (intro conjI impI)
  have "trimmed l (enforceRetentionLocked now l) rss" by (rule enforceRetention_trimmed [OF assms])
  then show "\<exists>k < length rss. represents (enforceRetentionLocked now l) (drop k rss)
      \<and> lg_segments (enforceRetentionLocked now l) = drop k (lg_segments l)
      \<and> lg_nextOffset (enforceRetentionLocked now l) = lg_nextOffset l"
    by (auto simp: trimmed_def)
next
  let ?a = "retainByAge now l"
  obtain k where "represents ?a (drop k rss)" and c: "lg_cfg ?a = lg_cfg l"
    using retainByAge_trimmed [OF assms] by (auto simp: trimmed_def)
  then obtain j where j: "lg_cfg (retainBySize ?a) = lg_cfg l" "represents (retainBySize ?a) (drop j (drop k rss))" "j < length (drop k rss)"
    using retainBySize_trimmed [of ?a "drop k rss"] by (auto simp: trimmed_def)
  assume "0 < cf_MaxLogBytes (lg_cfg l)"
  then show "totalSizeLocked (enforceRetentionLocked now l) \<le> cf_MaxLogBytes (lg_cfg l)
      \<or> length (lg_segments (enforceRetentionLocked now l)) = 1"
    using retainBySize_bound [of ?a] c j represents_length [OF j(2)]
    by (auto simp: enforceRetentionLocked_def Let_def)
next
  assume a: "(cf_SegmentMaxAge (lg_cfg l) \<le> 0 \<or> now - sg_createdAt (hd (lg_segments l)) \<le> cf_SegmentMaxAge (lg_cfg l)) \<and>
      (cf_MaxLogBytes (lg_cfg l) \<le> 0 \<or> totalSizeLocked l \<le> cf_MaxLogBytes (lg_cfg l))"
  then have "retainByAge now l = l" by (subst retainByAge.simps) auto
  then show "enforceRetentionLocked now l = l"
    using a by (auto simp: enforceRetentionLocked_def Let_def retainBySize.simps [of l])
qed

text \<open>A log for the witnesses: two records in one segment.\<close>

definition exampleConfig :: Config where
  "exampleConfig = \<lparr>cf_DataDir = ''d'', cf_MaxSegmentBytes = 100, cf_IndexInterval = 1, cf_SegmentMaxAge = 0,
     cf_SyncOnAppend = False, cf_MaxLogBytes = -1\<rparr>"

definition exampleOpts :: LogOptions where
  "exampleOpts = \<lparr>lo_BaseOffset = 0, lo_Topic = ''t'', lo_Partition = 0, lo_RetentionBytes = 0, lo_RetentionTime = 0\<rparr>"

lemma exampleStamped: "stamped clock [exampleRecord, exampleRecord] = [exampleRecord, exampleRecord]"
  by (simp add: stamp_def exampleRecord_def isZero_def)

lemma exampleEmpty:
  obtains l where "represents l [[]]" "lg_startOffset l = 0" "lg_nextOffset l = 0" "lg_cfg l = exampleConfig"
proof -
  have "okSeg (lo_BaseOffset exampleOpts) []" by (simp add: exampleOpts_def maxInt64Uint_def)
  then show thesis
    by (rule bootstrap_empty [of exampleOpts exampleConfig]) (auto simp: exampleConfig_def exampleOpts_def intro: that)
qed

lemma exampleOneSegment:
  assumes "represents l [[]]" "lg_nextOffset l = 0" "lg_cfg l = exampleConfig"
  shows "oneSegment l [exampleRecord, exampleRecord]"
proof -
  obtain pre a where "holding l pre a [] []" using assms(1) by (auto simp: represents_def)
  then have "sg_size (active l) = 0" using holding_size by fastforce
  then show ?thesis
    using assms(2,3) by (simp add: oneSegment_def landing_def rotates_def exampleConfig_def exampleSeg(2))
qed

lemma exampleLog:
  obtains l rss where "represents l rss" "concat rss = [exampleRecord, exampleRecord]" "lg_startOffset l = 0"
    "lg_cfg l = exampleConfig"
proof -
  obtain l where l: "represents l [[]]" "lg_startOffset l = 0" "lg_nextOffset l = 0" "lg_cfg l = exampleConfig"
    by (rule exampleEmpty)
  have "keepsAll (lg_cfg l)" by (simp add: l(4) keepsAll_def exampleConfig_def)
  then show thesis
    by - (rule AppendBatch_represents [OF l(1), of "[exampleRecord, exampleRecord]" "\<lambda>n. 0" 0];
      use l exampleSeg(1) exampleOneSegment [OF l(1,3,4)] in \<open>auto simp: exampleStamped simp del: stamped.simps intro: that\<close>)
qed

theorem log_read_exact_witness:
  "\<exists>l rss. represents l rss \<and> Read (\<lambda>n. False) l 1 2147483600 = Inr [stored 1 exampleRecord]"
proof -
  obtain l rss where l: "represents l rss" "concat rss = [exampleRecord, exampleRecord]" "lg_startOffset l = 0"
    by (rule exampleLog)
  have "fromOffset 1 (storedFrom (lg_startOffset l) (concat rss)) = [stored 1 exampleRecord]"
    using l by (simp add: fromOffset_def)
  with log_read_exact [OF l(1), of 2147483600 1] l(1) show ?thesis
    by (auto simp: inS_def smallValues_def exampleRecord_def)
qed

theorem log_append_extends_witness:
  "\<exists>l l' rss'. AppendBatch (\<lambda>n. False) (\<lambda>n. 0) 0 l [exampleRecord, exampleRecord] = (l', 0, None)
    \<and> represents l' rss' \<and> concat rss' = [exampleRecord, exampleRecord]"
proof -
  obtain l where l: "represents l [[]]" "lg_startOffset l = 0" "lg_nextOffset l = 0" "lg_cfg l = exampleConfig"
    by (rule exampleEmpty)
  have k: "keepsAll (lg_cfg l)" by (simp add: l(4) keepsAll_def exampleConfig_def)
  have "okSeg (lg_nextOffset l) (stamped (\<lambda>n. 0) [exampleRecord, exampleRecord])"
    "oneSegment l (stamped (\<lambda>n. 0) [exampleRecord, exampleRecord])"
    using exampleSeg(1) exampleOneSegment [OF l(1,3,4)] by (simp_all only: exampleStamped l)
  from log_append_extends [OF l(1) _ this, of 0] k show ?thesis
    unfolding exampleStamped l(3) by fastforce
qed

theorem log_restart_recovers_witness:
  "\<exists>l l' rss' logs' idxs'. bootstrap (\<lambda>b. 0) 0 ((afterCrash 50 [] l)\<lparr>lg_logs := logs', lg_idxs := idxs'\<rparr>) = Some (Inr l')
    \<and> represents l' rss' \<and> lg_startOffset l' = 0"
proof -
  obtain l where l: "represents l [[]]" "lg_startOffset l = 0" "lg_cfg l = exampleConfig"
    by (rule exampleEmpty)
  then have "\<forall>s\<in>set (lg_segments l). sg_size s < 2 ^ 32"
    by (auto simp: represents_def holding_def segHolds_def dest!: chain_length)
  moreover have "0 < cf_IndexInterval (lg_cfg l)" by (simp add: l exampleConfig_def)
  ultimately show ?thesis
    using log_restart_recovers [of l "[]" "[]" 50 "[]" "\<lambda>b. 0" 0] l by auto
qed

theorem retention_policy_witness:
  "\<exists>l. length (lg_segments (enforceRetentionLocked 7 l)) = 1 \<and> represents l [[]]"
proof -
  obtain l where l: "represents l [[]]" by (rule exampleEmpty)
  have "length (lg_segments (enforceRetentionLocked 7 l)) = 1"
    using retention_policy [OF l, of 7] represents_length [OF l] by auto
  with l show ?thesis by blast
qed

text \<open>A batch that crosses a segment boundary can hide records.  Two records appended as one batch to
  an empty log whose segments cannot hold both are acknowledged, but a read at the first offset returns the second record only:
  the closed segment still has the end offset from before the batch, and the read passes over it.\<close>

theorem batch_rotation_hides_records:
  assumes r: "represents l [[]]" and ok: "okSeg (lg_nextOffset l) (stamped clock [r1, r2])"
    and big: "cf_MaxSegmentBytes (lg_cfg l) < int (length (segLog (lg_nextOffset l) (stamped clock [r1, r2])))"
    and keep: "keepsAll (lg_cfg l)"
  shows "\<exists>l'. AppendBatch (\<lambda>n. False) clock now l [r1, r2] = (l', lg_nextOffset l, None)
    \<and> Read (\<lambda>n. False) l' (lg_nextOffset l) 0 = Inr [stored (lg_nextOffset l + 1) (stamp (clock 1) r2)]"
proof -
  let ?n = "lg_nextOffset l" and ?r1 = "stamp (clock 0) r1" and ?r2 = "stamp (clock 1) r2"
  obtain pre a where h: "holding l pre a [] []" and nx: "sg_nextOffset a = ?n" using r by (auto simp: represents_def)
  have base: "sg_baseOffset a = ?n" "pre = []" "lg_segments l = [a]" and so: "lg_startOffset l = ?n"
    using h by (auto simp: holding_def dest: chain_length)
  have nr: "\<not> rotates l (recFrame ?n ?r1)" using holding_size [OF h] by (simp add: rotates_def)
  have ok1: "okSeg (sg_baseOffset a) ([] @ [?r1])" and ok2: "okSeg (?n + 1) [?r2]"
    using ok base by (auto simp: okSeg_Cons)
  obtain l1 a1 where 1: "appendOne (clock 0) now l r1 = Inr l1" "holding l1 [] a1 [] [?r1]"
    "sg_nextOffset a1 = ?n" "lg_cfg l1 = lg_cfg l" "lg_startOffset l1 = ?n"
    by (rule appendOne_holding [OF h ok1 nr, of now]) (use base nx so that in auto)
  have n1: "lg_nextOffset l1 = ?n + 1" "sg_baseOffset a1 = ?n" "lg_segments l1 = [a1]" "\<not> lg_closed l1"
    and dom: "fst ` set (lg_logs l1) = {?n}"
    using 1 by (auto simp: holding_def)
  let ?f = "recFrame (?n + 1) ?r2" and ?l2 = "createSegment now l1 (?n + 1)"
  have "okAt (?n + 1) ?r2" using ok2 by (simp add: okSeg_Cons)
  then have enc: "encodeRecord_log (?r2\<lparr>r_Offset := ?n + 1\<rparr>) = Inr ?f" by (rule recFrame_parts)
  have "length (segLog ?n [?r1, ?r2]) = length (segLog ?n [?r1]) + length ?f"
    using ok ok2 by (simp add: segLog_Cons okSeg_Cons)
  then have "rotates l1 ?f"
    using big holding_size [OF 1(2)] n1 1(4) segLog_empty_iff [OF ok1] base by (auto simp: rotates_def)
  then have a2: "appendOne (clock 1) now l1 r2 = Inr (writeActive ?l2 (?n + 1) ?f)"
    using enc by (simp add: appendOne_split n1)
  let ?new = "\<lparr>sg_baseOffset = ?n + 1, sg_nextOffset = ?n + 1, sg_pos = 0, sg_size = 0, sg_createdAt = now,
                sg_idxPos = Some 8, sg_idx = []\<rparr>"
  have "map_of (lg_logs l1) (?n + 1) = None" using dom by (simp add: map_of_eq_None_iff)
  then have new: "fileOf (lg_logs l1) (?n + 1) = []" by (simp add: fileOf_def)
  have s2: "lg_segments ?l2 = [a1] @ [?new]" "lg_nextOffset ?l2 = ?n + 1" "lg_cfg ?l2 = lg_cfg l" "lg_closed ?l2 = lg_closed l1"
    "fileOf (lg_logs ?l2) (?n + 1) = []"
    using new by (simp_all add: createSegment_def Let_def n1 1 fileOf_def update_conv')
  obtain b where b: "lg_segments (writeActive ?l2 (?n + 1) ?f) = [a1] @ [b]" "sg_baseOffset b = ?n + 1" "sg_pos b = length ?f"
    "sg_size b = length ?f" "sg_idx b = [] \<or> sg_idx b = [(0, 0)]"
    by (rule writeActive_segments [OF s2(1), of "?n + 1" ?f]) auto
  have sf: "segLog (?n + 1) [?r2] = ?f" using ok2 by (simp add: segLog_Cons)
  define l3 where "l3 = writeActive ?l2 (?n + 1) ?f"
  have "map_of (lg_logs l3) (?n + 1) = Some ?f"
    by (simp add: l3_def writeActive_logs s2(1) active_def s2(5) update_conv' overwrite_end [where c = "[]", simplified])
  then have sh: "segHolds (lg_logs l3) (b\<lparr>sg_nextOffset := ?n + 2\<rparr>) [?r2]"
    using b ok2 sf by (auto simp: segHolds_def okIndex_def)
  have "inS 64 (?n + 2)" using ok by (simp add: okSeg_def inS_def maxInt64Uint_def)
  then have w: "wrapS 64 (?n + 2) = ?n + 2" by (intro wrapS_id) simp_all
  let ?l4 = "setActive l3 (b\<lparr>sg_nextOffset := ?n + 2\<rparr>)"
  have al: "appendLoop (\<lambda>n. False) clock now l [r1, r2] = (l3, None)" using 1(1) a2 by (simp add: l3_def)
  have b3: "lg_segments l3 = [a1] @ [b]" using b(1) by (simp only: l3_def)
  have n3: "lg_closed l3 = lg_closed l1" "lg_nextOffset l3 = ?n + 2" "active l3 = b" "lg_cfg l3 = lg_cfg l" "\<not> lg_closed l"
    using represents_open [OF r] b3 by (simp_all add: l3_def s2 w add.commute [of 2])
  have "AppendBatch (\<lambda>n. False) clock now l [r1, r2] = (?l4, ?n, None)"
    using al keep base(3) by (simp add: AppendBatch_def ensureActiveSegmentLocked_def Let_def n3 enforceRetention_keeps del: appendLoop.simps)
  moreover have "Read (\<lambda>n. False) ?l4 ?n 0 = Inr [stored (?n + 1) ?r2]"
  proof -
    have "readFromSegment (\<lambda>n. False) (lg_logs l3) (b\<lparr>sg_nextOffset := ?n + 2\<rparr>) (?n + 1) 0 = ([stored (?n + 1) ?r2], None, \<lambda>n. False)"
      using readFromSegment_holds [OF sh, of "?n + 1" 0] b(2) by (simp add: budget_all fromOffset_def)
    then show ?thesis
      using b(2) b3 n1 n3(1,2) 1(3) by (simp add: Read_def wrapS_def takeRecords_unbounded)
  qed
  ultimately show ?thesis by blast
qed

theorem batch_rotation_hides_records_witness:
  "\<exists>l l'. AppendBatch (\<lambda>n. False) (\<lambda>n. 0) 0 l [exampleRecord, exampleRecord] = (l', 0, None)
    \<and> Read (\<lambda>n. False) l' 0 0 = Inr [stored 1 exampleRecord]"
proof -
  have "okSeg (lo_BaseOffset exampleOpts) []" by (simp add: exampleOpts_def maxInt64Uint_def)
  then obtain l where l: "represents l [[]]" "lg_nextOffset l = 0" "lg_cfg l = exampleConfig\<lparr>cf_MaxSegmentBytes := 50\<rparr>"
    by (rule bootstrap_empty [of exampleOpts "exampleConfig\<lparr>cf_MaxSegmentBytes := 50\<rparr>"])
      (auto simp: exampleConfig_def exampleOpts_def intro: that)
  have "keepsAll (lg_cfg l)" by (simp add: l keepsAll_def exampleConfig_def)
  moreover have "okSeg (lg_nextOffset l) (stamped (\<lambda>n. 0) [exampleRecord, exampleRecord])"
    "cf_MaxSegmentBytes (lg_cfg l) < int (length (segLog (lg_nextOffset l) (stamped (\<lambda>n. 0) [exampleRecord, exampleRecord])))"
    using exampleSeg by (simp_all only: exampleStamped l) (simp add: exampleConfig_def)
  ultimately show ?thesis
    using batch_rotation_hides_records [OF l(1), of "\<lambda>n. 0" exampleRecord exampleRecord 0] exampleStamped [of "\<lambda>n. 0"]
    by (auto simp: l(2))
qed

end
