(* ===== verification/OffsetStore.thy ===== *)
theory OffsetStore
  imports Api Checksum Wal
begin

text \<open>
  The store of committed consumer offsets (\<^verbatim>\<open>internal/broker/offset_store.go\<close>): the
  append-only \<^verbatim>\<open>offsets.log\<close>, one record per commit, with recovery that truncates a malformed
  tail, and compaction that rewrites the log to one record per partition through a temporary
  file and a rename.
\<close>

section \<open>Records\<close>

definition toUint32Length_offsets :: "int \<Rightarrow> int result" where
  "toUint32Length_offsets n =
    (if n < 0 then Inl (Errorf ''negative length %d'')
     else if n > 4294967295 then Inl (Errorf ''length %d exceeds uint32 max'')
     else Inr n)"

definition toUint16Length :: "int \<Rightarrow> string \<Rightarrow> int result" where
  "toUint16Length n field =
    (if n < 0 \<or> n > 65535 then Inl (Errorf (field @ '' out of uint16 range: %d'')) else Inr n)"

definition toInt32 :: "int \<Rightarrow> string \<Rightarrow> int result" where
  "toInt32 n field =
    (if n < -2147483648 \<or> n > 2147483647 then Inl (Errorf (field @ '' out of int32 range: %d''))
     else Inr n)"

definition encodeOffsetRecord :: "string \<Rightarrow> string \<Rightarrow> int \<Rightarrow> int \<Rightarrow> bytes result" where
  "encodeOffsetRecord grp topic part offset =
    (if length grp > 65535 \<or> length topic > 65535 then Inl (Errorf ''string too long'')
     else bindE (writeAll
       [Inr (le32 0), Inr (le32 0),
        bindE (toUint16Length (int (length grp)) ''group length'') (\<lambda>n. Inr (le16 n)),
        Inr (string_bytes grp),
        bindE (toUint16Length (int (length topic)) ''topic length'') (\<lambda>n. Inr (le16 n)),
        Inr (string_bytes topic),
        bindE (toInt32 part ''partition'') (\<lambda>n. Inr (le32 n)),
        Inr (le64 offset)]) (\<lambda>b.
     bindE (toUint32Length_offsets (int (length b) - 4)) (\<lambda>len.
     Inr (le32 len @ le32 (crc32c (drop 8 b)) @ drop 8 b))))"

definition validateOffsetRecord :: "bytes \<Rightarrow> unit result" where
  "validateOffsetRecord rec =
    (if length rec < 4 + 2 + 2 + 4 + 8 then Inl (Errorf ''record too small'')
     else if val_uint LittleEndian (take 4 rec) \<noteq> crc32c (drop 4 rec)
       then Inl (Errorf ''crc mismatch'')
     else Inr ())"

definition decodeOffsetRecord :: "bytes \<Rightarrow> (string \<times> string \<times> int \<times> int) result" where
  "decodeOffsetRecord rec =
     bindE (getLU16 (drop 4 rec)) (\<lambda>(gl, buf).
     bindE (readFull (nat gl) buf) (\<lambda>(grp, buf).
     bindE (getLU16 buf) (\<lambda>(tl, buf).
     bindE (readFull (nat tl) buf) (\<lambda>(topic, buf).
     bindE (getLI32 buf) (\<lambda>(part, buf).
     bindE (getLI64 buf) (\<lambda>(off, buf).
     Inr (bytes_string grp, bytes_string topic, part, off)))))))"

section \<open>The store\<close>

text \<open>
  \<open>os_f\<close> is \<open>None\<close> for a nil file, after \<^verbatim>\<open>Close\<close>; \<open>os_disk\<close> is the file that the path names,
  which is the open file as long as there is one.
\<close>

record OffsetStore =
  os_f :: "gofile option"
  os_path :: string
  os_disk :: bytes

type_synonym offsets = "string \<rightharpoonup> (string \<rightharpoonup> (int \<rightharpoonup> int))"

definition NewOffsetStore :: "string \<Rightarrow> bytes option \<Rightarrow> OffsetStore result" where
  "NewOffsetStore dataDir disk =
    (if dataDir = '''' then Inl (Errorf ''data dir required for offset store'')
     else let c = (case disk of None \<Rightarrow> [] | Some b \<Rightarrow> b) in
       Inr \<lparr>os_f = Some \<lparr>f_content = c, f_pos = length c\<rparr>, os_path = dataDir @ ''/offsets.log'',
            os_disk = c\<rparr>)"

definition setFile :: "OffsetStore \<Rightarrow> gofile \<Rightarrow> OffsetStore" where
  "setFile s f = s\<lparr>os_f := Some f, os_disk := f_content f\<rparr>"

definition seekWritePosition :: "gofile \<Rightarrow> nat \<Rightarrow> gofile" where
  "seekWritePosition f pos = fileSeek f pos"

definition truncateTail :: "gofile \<Rightarrow> nat \<Rightarrow> gofile" where
  "truncateTail f pos = seekWritePosition (fileTruncate f pos) pos"

text \<open>The three assignments that store one recovered commit, creating inner maps on demand.\<close>

definition putOffset :: "offsets \<Rightarrow> string \<Rightarrow> string \<Rightarrow> int \<Rightarrow> int \<Rightarrow> offsets" where
  "putOffset offsets grp topic part off =
    (let o1 = (if grp \<in> dom offsets then offsets else offsets(grp \<mapsto> Map.empty));
         g1 = the (o1 grp);
         g2 = (if topic \<in> dom g1 then g1 else g1(topic \<mapsto> Map.empty))
     in o1(grp \<mapsto> g2(topic \<mapsto> (the (g2 topic))(part \<mapsto> off))))"

text \<open>
  The recovery loop over the contents \<open>c\<close> of the file: the offsets, what it does to the file
  when it stops (a truncation, a seek, nothing), and the error of the context.
\<close>

partial_function (option) recoverOffsets :: "(nat \<Rightarrow> bool) \<Rightarrow> bytes \<Rightarrow> offsets \<Rightarrow> nat \<Rightarrow>
    (offsets \<times> (gofile \<Rightarrow> gofile) \<times> go_error option) option" where
  "recoverOffsets ctx c offsets pos =
    (let size = length c in
     if ctx 0 then Some (offsets, (\<lambda>f. f), Some Canceled)
     else if pos + 4 > size
     then Some (offsets,
       (\<lambda>f. seekWritePosition (if pos < size then truncateTail f pos else f) pos), None)
     else case fileReadAt c 4 pos of
       Inl e \<Rightarrow> Some (offsets, (\<lambda>f. truncateTail f pos), None)
     | Inr header \<Rightarrow>
       (let len = val_uint LittleEndian header in
        if len > 2147483647 \<or> int pos + 4 + len > int size
        then Some (offsets, (\<lambda>f. truncateTail f pos), None)
        else case fileReadAt c (nat len) (pos + 4) of
          Inl e \<Rightarrow> Some (offsets, (\<lambda>f. truncateTail f pos), None)
        | Inr rec \<Rightarrow>
          (case validateOffsetRecord rec of
             Inl e \<Rightarrow> Some (offsets, (\<lambda>f. truncateTail f pos), None)
           | Inr _ \<Rightarrow>
             (case decodeOffsetRecord rec of
                Inl e \<Rightarrow> Some (offsets, (\<lambda>f. truncateTail f pos), None)
              | Inr (grp, topic, part, off) \<Rightarrow>
                 recoverOffsets (\<lambda>n. ctx (Suc n)) c (putOffset offsets grp topic part off)
                   (pos + nat ((4 + len) mod 2 ^ 32))))))"

definition Recover :: "(nat \<Rightarrow> bool) \<Rightarrow> OffsetStore \<Rightarrow> (OffsetStore \<times> offsets \<times> go_error option) option" where
  "Recover ctx s = (case os_f s of
       None \<Rightarrow> Some (s, Map.empty, Some ErrInvalid)
     | Some f \<Rightarrow> (case recoverOffsets ctx (f_content f) Map.empty 0 of
         None \<Rightarrow> None
       | Some (offsets, act, err) \<Rightarrow> Some (setFile s (act f), offsets, err)))"

definition AppendCommit :: "bool \<Rightarrow> OffsetStore \<Rightarrow> string \<Rightarrow> string \<Rightarrow> int \<Rightarrow> int \<Rightarrow> OffsetStore \<times> go_error option" where
  "AppendCommit done s grp topic part offset =
    (if done then (s, Some Canceled)
     else case encodeOffsetRecord grp topic part offset of
       Inl e \<Rightarrow> (s, Some e)
     | Inr rec \<Rightarrow> (case os_f s of
         None \<Rightarrow> (s, Some ErrInvalid)
       | Some f \<Rightarrow> (setFile s (fileWrite f rec), None)))"

definition Close_offsets :: "OffsetStore \<Rightarrow> OffsetStore \<times> go_error option" where
  "Close_offsets s = (s\<lparr>os_f := None\<rparr>, None)"

definition reopenWriterLocked :: "OffsetStore \<Rightarrow> OffsetStore" where
  "reopenWriterLocked s = setFile s \<lparr>f_content = os_disk s, f_pos = length (os_disk s)\<rparr>"

text \<open>
  The snapshot that compaction gets is a Go map of maps; ranging over it visits the entries in
  some order, the order of the association lists here.  The loop polls the context before
  every record; the result is the contents of the temporary file.
\<close>

type_synonym snapshot = "(string \<times> (string \<times> (int \<times> int) list) list) list"

definition snapshotRows :: "snapshot \<Rightarrow> (string \<times> string \<times> int \<times> int) list" where
  "snapshotRows sn = concat (map (\<lambda>(g, ts). concat (map (\<lambda>(t, ps). map (\<lambda>(p, off). (g, t, p, off)) ps) ts)) sn)"

fun compactRows :: "(nat \<Rightarrow> bool) \<Rightarrow> (string \<times> string \<times> int \<times> int) list \<Rightarrow> bytes result" where
  "compactRows ctx [] = Inr []"
| "compactRows ctx ((grp, topic, part, off) # rows) =
    (if ctx 0 then Inl Canceled
     else bindE (encodeOffsetRecord grp topic part off) (\<lambda>rec.
       bindE (compactRows (\<lambda>n. ctx (Suc n)) rows) (\<lambda>b. Inr (rec @ b))))"

text \<open>\<open>renameErr\<close> is what \<^verbatim>\<open>renameOffsetsLogFile\<close> returns.\<close>

definition Compact :: "(nat \<Rightarrow> bool) \<Rightarrow> go_error option \<Rightarrow> OffsetStore \<Rightarrow> snapshot \<Rightarrow> OffsetStore \<times> go_error option" where
  "Compact ctx renameErr s offsets = (case compactRows ctx (snapshotRows offsets) of
       Inl e \<Rightarrow> (s, Some e)
     | Inr tmp \<Rightarrow>
        (let s' = s\<lparr>os_f := None\<rparr> in
         case renameErr of
           Some e \<Rightarrow> (reopenWriterLocked s', Some e)
         | None \<Rightarrow> (reopenWriterLocked (s'\<lparr>os_disk := tmp\<rparr>), None)))"

section \<open>Records satisfy their contract\<close>

type_synonym commit = "string \<times> string \<times> int \<times> int"

fun okCommit :: "commit \<Rightarrow> bool" where
  "okCommit (g, t, p, off) \<longleftrightarrow> length g \<le> 65535 \<and> length t \<le> 65535 \<and> inS 32 p \<and> inS 64 off"

fun commitPayload :: "commit \<Rightarrow> bytes" where
  "commitPayload (g, t, p, off) = le16 (int (length g)) @ string_bytes g @ le16 (int (length t))
     @ string_bytes t @ le32 p @ le64 off"

definition commitRecord :: "commit \<Rightarrow> bytes" where
  "commitRecord c = le32 (crc32c (commitPayload c)) @ commitPayload c"

definition commitFrame :: "commit \<Rightarrow> bytes" where
  "commitFrame c = le32 (int (length (commitRecord c))) @ commitRecord c"

fun applyCommit :: "offsets \<Rightarrow> commit \<Rightarrow> offsets" where
  "applyCommit os (g, t, p, off) = putOffset os g t p off"

lemma length_commitRecord: "length (commitRecord (g, t, p, off)) = 20 + length g + length t"
  by (simp add: commitRecord_def)

lemma commitRecord_bound: "okCommit c \<Longrightarrow> length (commitRecord c) \<le> 131090"
  by (cases c) (simp add: length_commitRecord)

lemma encodeOffsetRecord_frame:
  assumes "okCommit (g, t, p, off)"
  shows "encodeOffsetRecord g t p off = Inr (commitFrame (g, t, p, off))"
  using assms
  by (simp add: encodeOffsetRecord_def toUint16Length_def toInt32_def toUint32Length_offsets_def inS_def
      commitFrame_def commitRecord_def algebra_simps)

lemma encodeOffsetRecord_Inr:
  assumes "encodeOffsetRecord g t p off = Inr b" "inS 64 off"
  shows "okCommit (g, t, p, off) \<and> b = commitFrame (g, t, p, off)"
proof -
  have "okCommit (g, t, p, off)"
    using assms by (auto simp: encodeOffsetRecord_def toInt32_def inS_def bindE_Inr_iff split: if_splits)
  then show ?thesis using assms(1) by (simp add: encodeOffsetRecord_frame)
qed

lemma validate_commitRecord: "validateOffsetRecord (commitRecord c) = Inr ()"
  using crc32c_range by (cases c) (simp add: validateOffsetRecord_def commitRecord_def)

lemma decode_commitRecord: "okCommit c \<Longrightarrow> decodeOffsetRecord (commitRecord c) = Inr c"
  by (cases c) (simp add: decodeOffsetRecord_def commitRecord_def inU_def)

section \<open>Recovery\<close>

definition scanOffsets :: "offsets \<Rightarrow> nat \<Rightarrow> bytes \<Rightarrow> (offsets \<times> nat) option" where
  "scanOffsets os pos c = map_option (\<lambda>(os', act, err). (os', f_pos (act \<lparr>f_content = c, f_pos = 0\<rparr>)))
     (recoverOffsets (\<lambda>n. False) c os pos)"

lemmas file_acts = truncateTail_def seekWritePosition_def fileSeek_def fileTruncate_def

lemma recoverOffsets_frame:
  assumes "okCommit r"
  shows "recoverOffsets (\<lambda>n. False) (p @ commitFrame r @ t) os (length p) =
    recoverOffsets (\<lambda>n. False) (p @ commitFrame r @ t) (applyCommit os r) (length p + length (commitFrame r))"
proof -
  let ?rec = "commitRecord r"
  let ?c = "p @ le32 (int (length ?rec)) @ ?rec @ t"
  have r1: "fileReadAt ?c 4 (length p) = Inr (le32 (int (length ?rec)))"
    by (rule fileReadAt_append) simp_all
  have "fileReadAt ((p @ le32 (int (length ?rec))) @ ?rec @ t) (length ?rec) (length p + 4) = Inr ?rec"
    by (rule fileReadAt_append) simp_all
  then have r2: "fileReadAt ?c (length ?rec) (length p + 4) = Inr ?rec" by simp
  have le: "length ?rec \<le> 131090" using assms(1) by (rule commitRecord_bound)
  then have u: "inU 32 (int (length ?rec))" by (simp add: inU_def)
  have adv: "(4 + int (length ?rec)) mod 4294967296 = int (4 + length ?rec)" using le by simp
  have nadv: "nat (4 + int (length ?rec)) = 4 + length ?rec" by simp
  show ?thesis unfolding commitFrame_def append.assoc
    by (subst recoverOffsets.simps)
      (use le in \<open>simp only: Let_def if_False r1 sum.case, simp add: r2 u adv nadv
        validate_commitRecord decode_commitRecord [OF assms(1)] split: prod.split\<close>)
qed

lemma recoverOffsets_torn:
  assumes "okCommit r" "k < length (commitFrame r)"
  shows "scanOffsets os (length p) (p @ take k (commitFrame r)) = Some (os, length p)"
proof (cases "k < 4")
  case True
  then show ?thesis using assms unfolding scanOffsets_def
    by (subst recoverOffsets.simps) (auto simp: Let_def file_acts)
next
  case False
  let ?rec = "commitRecord r"
  let ?c = "p @ le32 (int (length ?rec)) @ take (k - 4) ?rec"
  have c: "p @ take k (commitFrame r) = ?c" using False by (simp add: commitFrame_def)
  have r1: "fileReadAt ?c 4 (length p) = Inr (le32 (int (length ?rec)))"
    by (rule fileReadAt_append) simp_all
  have le: "length ?rec \<le> 131090" using assms(1) by (rule commitRecord_bound)
  then have u: "inU 32 (int (length ?rec))" by (simp add: inU_def)
  have k: "k - 4 < length ?rec" using assms(2) False by (simp add: commitFrame_def)
  show ?thesis unfolding scanOffsets_def c
    by (subst recoverOffsets.simps)
      (use k in \<open>simp only: Let_def if_False r1 sum.case, simp add: u min_absorb2 file_acts\<close>)
qed

interpretation offs: wal "\<lambda>s. commitFrame" applyCommit "\<lambda>s. okCommit" scanOffsets "\<lambda>c. True"
proof
  fix s p
  show "scanOffsets s (length p) p = Some (s, length p)"
    unfolding scanOffsets_def by (subst recoverOffsets.simps) (simp add: file_acts)
next
  fix s r p t
  assume "okCommit r"
  then show "scanOffsets s (length p) (p @ commitFrame r @ t) =
      scanOffsets (applyCommit s r) (length p + length (commitFrame r)) (p @ commitFrame r @ t)"
    unfolding scanOffsets_def by (simp add: recoverOffsets_frame)
next
  fix s r k p
  assume "okCommit r" "k < length (commitFrame r)"
  then show "scanOffsets s (length p) (p @ take k (commitFrame r)) = Some (s, length p)"
    by (rule recoverOffsets_torn)
qed

text \<open>The advance of one iteration: the loop moves forward and stays inside the file.\<close>

lemma offsets_advance:
  assumes "0 \<le> l" "\<not> (l > 2147483647 \<or> int pos + 4 + l > int n)"
  shows "pos < pos + nat ((4 + l) mod 2 ^ 32)" "pos + nat ((4 + l) mod 2 ^ 32) \<le> n"
proof -
  have "(4 + l) mod 2 ^ 32 = 4 + l" using assms by (intro mod_pos_pos_trivial) simp_all
  then show "pos < pos + nat ((4 + l) mod 2 ^ 32)" "pos + nat ((4 + l) mod 2 ^ 32) \<le> n"
    using assms by linarith+
qed

text \<open>An uncancelled recovery ends by truncating the file to the position it reached.\<close>

definition stopsAt :: "bytes \<Rightarrow> (gofile \<Rightarrow> gofile) \<Rightarrow> nat \<Rightarrow> bool" where
  "stopsAt c act p \<longleftrightarrow> (\<forall>f. f_content f = c \<longrightarrow> act f = \<lparr>f_content = take p c, f_pos = p\<rparr>)"

lemma stopsAt_truncate: "pos \<le> length c \<Longrightarrow> stopsAt c (\<lambda>f. truncateTail f pos) pos"
  by (simp add: stopsAt_def file_acts)

lemma stopsAt_end:
  "pos \<le> length c \<Longrightarrow>
   stopsAt c (\<lambda>f. seekWritePosition (if pos < length c then truncateTail f pos else f) pos) pos"
  by (auto simp: stopsAt_def file_acts)

lemma recoverOffsets_result:
  "recoverOffsets ctx c os pos = Some y \<Longrightarrow> ctx = (\<lambda>n. False) \<Longrightarrow> pos \<le> length c \<Longrightarrow>
   snd (snd y) = None \<and> (\<exists>p. stopsAt c (fst (snd y)) p)"
proof (induction rule: recoverOffsets.raw_induct [rotated 1, consumes 1, case_names step])
  case (step rc ctx c os pos y)
  note t = stopsAt_truncate [OF step.prems(2)] and e = stopsAt_end [OF step.prems(2)]
  have ih: "rc (\<lambda>n. False) c os' pos' = Some y \<Longrightarrow> pos' \<le> length c \<Longrightarrow>
      snd (snd y) = None \<and> (\<exists>p. stopsAt c (fst (snd y)) p)" for os' pos'
    by (rule step.IH) (simp_all add: step.prems)
  show ?case
  proof (cases "pos + 4 > length c")
    case True
    then have "y = (os, (\<lambda>f. seekWritePosition (if pos < length c then truncateTail f pos else f) pos), None)"
      using step.hyps by (simp add: Let_def step.prems)
    then show ?thesis using e by auto
  next
    case False
    then obtain h where h: "fileReadAt c 4 pos = Inr h" by (simp add: fileReadAt_def)
    let ?l = "val_uint LittleEndian h"
    have l: "0 \<le> ?l" using val_uint_bounds by simp
    show ?thesis
    proof (cases "?l > 2147483647 \<or> int pos + 4 + ?l > int (length c)")
      case True
      then have "y = (os, (\<lambda>f. truncateTail f pos), None)"
        using step.hyps False h by (simp add: Let_def step.prems)
      then show ?thesis using t by auto
    next
      case ok: False
      note adv = offsets_advance(2) [OF l ok]
      show ?thesis
        using step.hyps False ok h t ih [OF _ adv] step.prems
        by (auto simp: Let_def split: sum.splits prod.splits)
    qed
  qed
qed

lemma recoverOffsets_terminates: "\<exists>y. recoverOffsets ctx c os pos = Some y"
proof (induction "length c - pos" arbitrary: ctx os pos rule: less_induct)
  case less
  show ?case
  proof (cases "pos + 4 > length c")
    case True
    then show ?thesis by (subst recoverOffsets.simps) (auto simp: Let_def)
  next
    case False
    then obtain h where h: "fileReadAt c 4 pos = Inr h" by (simp add: fileReadAt_def)
    let ?l = "val_uint LittleEndian h"
    have l: "0 \<le> ?l" using val_uint_bounds by simp
    show ?thesis
    proof (cases "?l > 2147483647 \<or> int pos + 4 + ?l > int (length c)")
      case True
      then show ?thesis by (subst recoverOffsets.simps) (use False h in \<open>auto simp: Let_def\<close>)
    next
      case ok: False
      have "length c - (pos + nat ((4 + ?l) mod 2 ^ 32)) < length c - pos"
        using offsets_advance [OF l ok] by linarith
      note ih = less [OF this]
      show ?thesis
        by (subst recoverOffsets.simps)
          (use ih False h ok in \<open>auto simp: Let_def split: sum.split\<close>)
    qed
  qed
qed

text \<open>Looking up one partition, and what a sequence of commits leaves there.\<close>

definition offsetOf :: "offsets \<Rightarrow> string \<times> string \<times> int \<Rightarrow> int option" where
  "offsetOf os = (\<lambda>(g, t, p). Option.bind (os g) (\<lambda>ts. Option.bind (ts t) (\<lambda>ps. ps p)))"

fun commitEntry :: "commit \<Rightarrow> (string \<times> string \<times> int) \<times> int" where
  "commitEntry (g, t, p, off) = ((g, t, p), off)"

lemma offsetOf_empty [simp]: "offsetOf Map.empty k = None"
  by (cases k) (simp add: offsetOf_def)

lemma offsetOf_putOffset:
  "offsetOf (putOffset os g t p off) = (offsetOf os)((g, t, p) \<mapsto> off)"
  by (auto simp: offsetOf_def putOffset_def Let_def fun_eq_iff dom_def split: option.splits prod.splits)

lemma offsetOf_foldl:
  "offsetOf (foldl applyCommit os cs) = offsetOf os ++ map_of (rev (map commitEntry cs))"
proof (induction cs arbitrary: os)
  case (Cons c cs)
  then show ?case by (cases c) (simp add: offsetOf_putOffset map_add_def fun_eq_iff split: option.split)
qed simp

text \<open>The abstract content of a log: the last commit of every partition.\<close>

definition lastCommits :: "commit list \<Rightarrow> (string \<times> string \<times> int) \<rightharpoonup> int" where
  "lastCommits cs = map_of (rev (map commitEntry cs))"

definition commitLog :: "commit list \<Rightarrow> bytes" where
  "commitLog cs = concat (map commitFrame cs)"

definition holdsCommits :: "OffsetStore \<Rightarrow> commit list \<Rightarrow> bool" where
  "holdsCommits s cs \<longleftrightarrow> os_disk s = commitLog cs
     \<and> os_f s = Some \<lparr>f_content = commitLog cs, f_pos = length (commitLog cs)\<rparr>"

lemma commitLog_snoc [simp]: "commitLog (cs @ [c]) = commitLog cs @ commitFrame c"
  by (simp add: commitLog_def)

text \<open>Recovering a store whose file is \<open>c\<close>, from the scan of \<open>c\<close>.\<close>

lemma Recover_scan:
  assumes "os_f s = Some f" "f_content f = c" "scanOffsets Map.empty 0 c = Some (os, p)"
  shows "Recover (\<lambda>n. False) s = Some (setFile s \<lparr>f_content = take p c, f_pos = p\<rparr>, os, None)"
proof -
  obtain act err where r: "recoverOffsets (\<lambda>n. False) c Map.empty 0 = Some (os, act, err)"
    and p: "f_pos (act \<lparr>f_content = c, f_pos = 0\<rparr>) = p"
    using assms(3) by (auto simp: scanOffsets_def)
  obtain q where "err = None" and q: "stopsAt c act q" using recoverOffsets_result [OF r] by auto
  moreover have "q = p" using q p by (simp add: stopsAt_def)
  ultimately show ?thesis using assms(1,2) r by (simp add: Recover_def stopsAt_def)
qed

lemma scan_commitLog:
  assumes "list_all okCommit cs"
  shows "\<exists>os. scanOffsets Map.empty 0 (commitLog cs) = Some (os, length (commitLog cs))
    \<and> offsetOf os = lastCommits cs"
proof -
  have "offsetOf (foldl applyCommit Map.empty cs) = lastCommits cs"
    by (simp add: offsetOf_foldl lastCommits_def map_add_def fun_eq_iff split: option.split)
  then show ?thesis
    using offs.scan_log [of Map.empty cs "[]"] assms
    by (simp add: wal_ok_const wal_log_const commitLog_def)
qed

lemma scan_commitLog_cut:
  assumes "list_all okCommit cs"
  obtains m os where "m \<le> length cs" "length (commitLog (take m cs)) \<le> k"
    and "m < length cs \<longrightarrow> k < length (commitLog (take (Suc m) cs))"
    and "scanOffsets Map.empty 0 (take k (commitLog cs)) = Some (os, length (commitLog (take m cs)))"
    and "offsetOf os = lastCommits (take m cs)"
proof -
  let ?w = "wal_whole (\<lambda>s. commitFrame) applyCommit Map.empty cs k"
  obtain m where m: "m \<le> length cs" "?w = take m cs" "length (commitLog (take m cs)) \<le> k"
    "m < length cs \<longrightarrow> k < length (commitLog (take (Suc m) cs))"
    using wal_whole_longest [of cs "\<lambda>s. commitFrame" applyCommit Map.empty k]
    unfolding wal_log_const commitLog_def [symmetric] by blast
  have "offsetOf (foldl applyCommit Map.empty (take m cs)) = lastCommits (take m cs)"
    by (simp add: offsetOf_foldl lastCommits_def map_add_def fun_eq_iff split: option.split)
  moreover have "scanOffsets Map.empty 0 (take k (commitLog cs)) =
      Some (foldl applyCommit Map.empty (take m cs), length (commitLog (take m cs)))"
    using offs.scan_cut [of Map.empty cs "[]" k] assms
    by (simp add: m(2) wal_ok_const wal_log_const commitLog_def)
  ultimately show thesis using m that by blast
qed

section \<open>Runs of commits\<close>

fun commitAll :: "OffsetStore \<Rightarrow> (bool \<times> commit) list \<Rightarrow> OffsetStore \<times> commit list" where
  "commitAll s [] = (s, [])"
| "commitAll s ((done, g, t, p, off) # cs) =
    (let (s', err) = AppendCommit done s g t p off; (s'', acked) = commitAll s' cs
     in (s'', if err = None then (g, t, p, off) # acked else acked))"

lemma AppendCommit_holds:
  assumes "holdsCommits s cs" "inS 64 off" "AppendCommit done s g t p off = (s', err)"
  shows "if err = None then okCommit (g, t, p, off) \<and> holdsCommits s' (cs @ [(g, t, p, off)]) else s' = s"
proof (cases "encodeOffsetRecord g t p off")
  case (Inl e)
  then show ?thesis using assms(3) by (auto simp: AppendCommit_def split: if_splits)
next
  case (Inr b)
  note b = encodeOffsetRecord_Inr [OF Inr assms(2)]
  show ?thesis
    using assms(1,3) Inr b
    by (auto simp: AppendCommit_def holdsCommits_def setFile_def fileWrite_def split: if_splits)
qed

lemma commitAll_holds:
  "holdsCommits s cs \<Longrightarrow> list_all okCommit cs \<Longrightarrow> list_all (\<lambda>(d, g, t, p, off). inS 64 off) es \<Longrightarrow>
   holdsCommits (fst (commitAll s es)) (cs @ snd (commitAll s es))
   \<and> list_all okCommit (cs @ snd (commitAll s es))"
proof (induction es arbitrary: s cs)
  case (Cons e es)
  obtain d g t p off where e: "e = (d, g, t, p, off)" by (cases e) auto
  obtain s1 err where a: "AppendCommit d s g t p off = (s1, err)" by fastforce
  have i: "inS 64 off" "list_all (\<lambda>(d, g, t, p, off). inS 64 off) es" using Cons.prems(3) by (simp_all add: e)
  note step = AppendCommit_holds [OF Cons.prems(1) i(1) a]
  show ?case
  proof (cases "err = None")
    case True
    then show ?thesis using Cons.IH [of s1 "cs @ [(g, t, p, off)]"] step Cons.prems(2) i(2)
      by (simp add: e a case_prod_unfold Let_def)
  next
    case False
    then show ?thesis using Cons.IH [of s cs] step Cons.prems(1,2) i(2)
      by (auto simp: e a case_prod_unfold Let_def)
  qed
qed simp

lemma NewOffsetStore_file:
  "NewOffsetStore dir (Some c) = Inr s \<Longrightarrow>
   os_f s = Some \<lparr>f_content = c, f_pos = length c\<rparr> \<and> os_disk s = c"
  by (auto simp: NewOffsetStore_def split: if_splits)

lemma reopen_recovers:
  assumes "NewOffsetStore dir (Some c) = Inr s" "scanOffsets Map.empty 0 c = Some (os, length (commitLog cs))"
    and "take (length (commitLog cs)) c = commitLog cs"
  shows "\<exists>s'. Recover (\<lambda>n. False) s = Some (s', os, None) \<and> holdsCommits s' cs"
  using NewOffsetStore_file [OF assms(1)] Recover_scan [OF _ _ assms(2), of s] assms(3)
  by (simp add: holdsCommits_def setFile_def)

section \<open>Compaction\<close>

text \<open>A snapshot of a Go map: distinct keys on every level, and values the format can hold.\<close>

definition snapLookup :: "snapshot \<Rightarrow> string \<times> string \<times> int \<Rightarrow> int option" where
  "snapLookup sn = (\<lambda>(g, t, p). Option.bind (map_of sn g) (\<lambda>ts. Option.bind (map_of ts t) (\<lambda>ps. map_of ps p)))"

definition okSnapshot :: "snapshot \<Rightarrow> bool" where
  "okSnapshot sn \<longleftrightarrow> distinct (map fst sn) \<and> (\<forall>(g, ts) \<in> set sn. distinct (map fst ts)
     \<and> (\<forall>(t, ps) \<in> set ts. distinct (map fst ps)))
     \<and> list_all okCommit (snapshotRows sn)"

lemma map_of_functional:
  assumes "\<And>k v. (k, v) \<in> set xs \<longleftrightarrow> m k = Some v"
  shows "map_of xs = m"
proof
  fix k
  show "map_of xs k = m k"
  proof (cases "map_of xs k")
    case None
    then have "k \<notin> fst ` set xs" by (simp add: map_of_eq_None_iff)
    then show ?thesis using None assms by (cases "m k") force+
  next
    case (Some v)
    then show ?thesis using map_of_SomeD [OF Some] assms by simp
  qed
qed

lemma rows_mem:
  "(g, t, p, off) \<in> set (snapshotRows sn) \<longleftrightarrow>
   (\<exists>ts ps. (g, ts) \<in> set sn \<and> (t, ps) \<in> set ts \<and> (p, off) \<in> set ps)"
proof
  assume "(g, t, p, off) \<in> set (snapshotRows sn)"
  then show "\<exists>ts ps. (g, ts) \<in> set sn \<and> (t, ps) \<in> set ts \<and> (p, off) \<in> set ps"
    by (auto simp: snapshotRows_def)
next
  assume "\<exists>ts ps. (g, ts) \<in> set sn \<and> (t, ps) \<in> set ts \<and> (p, off) \<in> set ps"
  then obtain ts ps where m: "(g, ts) \<in> set sn" "(t, ps) \<in> set ts" "(p, off) \<in> set ps" by blast
  have "(g, t, p, off) \<in> set (map (\<lambda>(p, off). (g, t, p, off)) ps)"
    using m(3) by (simp add: image_iff)
  then have "(g, t, p, off) \<in> set (concat (map (\<lambda>(t, ps). map (\<lambda>(p, off). (g, t, p, off)) ps) ts))"
    using m(2) by (simp add: Bex_def) (metis case_prod_conv)
  then show "(g, t, p, off) \<in> set (snapshotRows sn)"
    using m(1) by (simp add: snapshotRows_def Bex_def) (metis case_prod_conv)
qed

lemma rows_lookup:
  assumes "okSnapshot sn"
  shows "lastCommits (snapshotRows sn) = snapLookup sn"
  unfolding lastCommits_def
proof (rule map_of_functional)
  fix k :: "string \<times> string \<times> int" and v
  obtain g t p where k: "k = (g, t, p)" by (cases k) auto
  have d: "distinct (map fst sn)" "\<And>ts. (g, ts) \<in> set sn \<Longrightarrow> distinct (map fst ts)"
      "\<And>ts ps. (g, ts) \<in> set sn \<Longrightarrow> (t, ps) \<in> set ts \<Longrightarrow> distinct (map fst ps)"
    using assms by (auto simp: okSnapshot_def)
  have "snapLookup sn k = Some v \<longleftrightarrow>
      (\<exists>ts ps. (g, ts) \<in> set sn \<and> (t, ps) \<in> set ts \<and> (p, v) \<in> set ps)"
    using d by (auto simp: snapLookup_def k bind_eq_Some_conv map_of_eq_Some_iff) blast
  also have "\<dots> \<longleftrightarrow> (g, t, p, v) \<in> set (snapshotRows sn)"
    by (simp add: rows_mem)
  also have "\<dots> \<longleftrightarrow> (k, v) \<in> set (rev (map commitEntry (snapshotRows sn)))"
    by (force simp: k)
  finally show "(k, v) \<in> set (rev (map commitEntry (snapshotRows sn))) \<longleftrightarrow> snapLookup sn k = Some v"
    by simp
qed

lemma compactRows_log:
  "list_all okCommit rows \<Longrightarrow> (\<And>n. n < length rows \<Longrightarrow> \<not> ctx n) \<Longrightarrow> compactRows ctx rows = Inr (commitLog rows)"
proof (induction rows arbitrary: ctx)
  case (Cons r rows)
  obtain g t p off where r: "r = (g, t, p, off)" by (cases r) auto
  have "compactRows (\<lambda>n. ctx (Suc n)) rows = Inr (commitLog rows)"
    using Cons.prems by (intro Cons.IH) auto
  then show ?case using Cons.prems(1) Cons.prems(2) [of 0]
    by (simp add: r encodeOffsetRecord_frame commitLog_def)
qed (simp add: commitLog_def)

lemma compactRows_Inr:
  "compactRows ctx rows = Inr b \<Longrightarrow> list_all okCommit rows \<Longrightarrow> b = commitLog rows"
proof (induction rows arbitrary: ctx b)
  case (Cons r rows)
  obtain g t p off where r: "r = (g, t, p, off)" by (cases r) auto
  then show ?case using Cons
    by (auto simp: encodeOffsetRecord_frame commitLog_def bindE_Inr_iff split: if_splits)
qed (simp add: commitLog_def)

lemma Compact_ok:
  assumes "okSnapshot sn"
  shows "Compact (\<lambda>n. False) None s sn =
    (s\<lparr>os_f := Some \<lparr>f_content = commitLog (snapshotRows sn), f_pos = length (commitLog (snapshotRows sn))\<rparr>,
       os_disk := commitLog (snapshotRows sn)\<rparr>, None)"
proof -
  have "compactRows (\<lambda>n. False) (snapshotRows sn) = Inr (commitLog (snapshotRows sn))"
    using assms by (intro compactRows_log) (simp_all add: okSnapshot_def)
  then show ?thesis by (simp add: Compact_def reopenWriterLocked_def setFile_def)
qed

section \<open>Properties\<close>

text \<open>An opened store and a snapshot for the witnesses.\<close>

definition openedOffsets :: "bytes \<Rightarrow> OffsetStore" where
  "openedOffsets c = \<lparr>os_f = Some \<lparr>f_content = c, f_pos = length c\<rparr>, os_path = ''data/offsets.log'', os_disk = c\<rparr>"

definition exampleSnapshot :: snapshot where
  "exampleSnapshot = [(''g'', [(''t'', [(0, 7), (1, 3)])])]"

lemma NewOffsetStore_example: "NewOffsetStore ''data'' (Some c) = Inr (openedOffsets c)"
  by (simp add: NewOffsetStore_def openedOffsets_def)

lemma exampleSnapshot_ok: "okSnapshot exampleSnapshot"
  by (simp add: okSnapshot_def exampleSnapshot_def snapshotRows_def inS_def)

lemma openedOffsets_holds: "holdsCommits (openedOffsets []) []"
  by (simp add: holdsCommits_def openedOffsets_def commitLog_def)

text \<open>C23: committed offsets survive a restart.  From a store that holds the commits \<open>cs\<close>, after
  any run of further commits (some cancelled, some refused), a store opened on the file
  recovers for every group, topic and partition the offset of the last acknowledged commit,
  and no offset where none was committed.\<close>

theorem offsets_commit_recover:
  assumes "holdsCommits s cs" "list_all okCommit cs" "list_all (\<lambda>(d, g, t, p, off). inS 64 off) es"
    and "commitAll s es = (s1, acked)" "NewOffsetStore dir (Some (os_disk s1)) = Inr s2"
  shows "\<exists>s3 os. Recover (\<lambda>n. False) s2 = Some (s3, os, None) \<and> offsetOf os = lastCommits (cs @ acked)
    \<and> holdsCommits s3 (cs @ acked)"
proof -
  have h: "holdsCommits s1 (cs @ acked)" "list_all okCommit (cs @ acked)"
    using commitAll_holds [OF assms(1-3)] assms(4) by simp_all
  then have d: "os_disk s1 = commitLog (cs @ acked)" by (simp add: holdsCommits_def)
  obtain os where "scanOffsets Map.empty 0 (commitLog (cs @ acked)) = Some (os, length (commitLog (cs @ acked)))"
    "offsetOf os = lastCommits (cs @ acked)"
    using scan_commitLog [OF h(2)] by blast
  then show ?thesis using reopen_recovers [OF assms(5)] unfolding d by fastforce
qed

theorem offsets_commit_recover_witness:
  "\<exists>s1 s3 os. commitAll (openedOffsets []) [(False, ''g'', ''t'', 0, 5), (True, ''g'', ''t'', 0, 6), (False, ''g'', ''t'', 0, 7)]
     = (s1, [(''g'', ''t'', 0, 5), (''g'', ''t'', 0, 7)])
   \<and> Recover (\<lambda>n. False) (openedOffsets (os_disk s1)) = Some (s3, os, None) \<and> offsetOf os (''g'', ''t'', 0) = Some 7"
proof -
  let ?es = "[(False, ''g'', ''t'', 0, 5), (True, ''g'', ''t'', 0, 6), (False, ''g'', ''t'', 0, 7)]"
  have ok: "okCommit (''g'', ''t'', 0, 5)" "okCommit (''g'', ''t'', 0, 7)" by (simp_all add: inS_def)
  obtain s1 where a: "commitAll (openedOffsets []) ?es = (s1, [(''g'', ''t'', 0, 5), (''g'', ''t'', 0, 7)])"
    using encodeOffsetRecord_frame [OF ok(1)] encodeOffsetRecord_frame [OF ok(2)]
    by (simp add: AppendCommit_def openedOffsets_def setFile_def)
  have "list_all (\<lambda>(d, g, t, p, off). inS 64 off) ?es" by (simp add: inS_def)
  from offsets_commit_recover [OF openedOffsets_holds _ this a NewOffsetStore_example]
  show ?thesis using a by (auto simp: lastCommits_def)
qed

text \<open>C24: crash recovery of \<^verbatim>\<open>offsets.log\<close>.  When the file is cut at any byte, recovery returns,
  for every partition, the last of the commits whose frames lie wholly before the cut, and
  truncates the file to exactly those commits.\<close>

theorem offsets_crash_recovery:
  assumes "list_all okCommit cs" "NewOffsetStore dir (Some (take k (commitLog cs))) = Inr s"
  shows "\<exists>m s' os. m \<le> length cs \<and> length (commitLog (take m cs)) \<le> k
    \<and> (m < length cs \<longrightarrow> k < length (commitLog (take (Suc m) cs)))
    \<and> Recover (\<lambda>n. False) s = Some (s', os, None) \<and> offsetOf os = lastCommits (take m cs)
    \<and> holdsCommits s' (take m cs)"
proof -
  obtain m os where m: "m \<le> length cs" "length (commitLog (take m cs)) \<le> k"
      "m < length cs \<longrightarrow> k < length (commitLog (take (Suc m) cs))"
    and r: "scanOffsets Map.empty 0 (take k (commitLog cs)) = Some (os, length (commitLog (take m cs)))"
    and o: "offsetOf os = lastCommits (take m cs)"
    using scan_commitLog_cut [OF assms(1)] .
  have "commitLog cs = commitLog (take m cs) @ commitLog (drop m cs)"
    unfolding commitLog_def by (metis append_take_drop_id concat_append map_append)
  then have "take (length (commitLog (take m cs))) (take k (commitLog cs)) = commitLog (take m cs)"
    using m(2) by (simp add: min_absorb1)
  then show ?thesis using reopen_recovers [OF assms(2) r] m o by blast
qed

theorem offsets_crash_recovery_witness:
  "\<exists>m s' os. length (commitLog (take m [(''g'', ''t'', 0, 5), (''g'', ''t'', 0, 7)])) \<le> 40
    \<and> Recover (\<lambda>n. False) (openedOffsets (take 40 (commitLog [(''g'', ''t'', 0, 5), (''g'', ''t'', 0, 7)])))
       = Some (s', os, None) \<and> offsetOf os = lastCommits (take m [(''g'', ''t'', 0, 5), (''g'', ''t'', 0, 7)])"
proof -
  have "list_all okCommit [(''g'', ''t'', 0, 5), (''g'', ''t'', 0, 7)]" by (simp add: inS_def)
  from offsets_crash_recovery [OF this NewOffsetStore_example, of 40] show ?thesis by blast
qed

text \<open>Recovery of the offsets always returns, on any file of any length and contents and
  whenever the context is cancelled; uncancelled it reports no error and keeps a prefix of the
  file.\<close>

theorem offsets_recover_terminates:
  "\<exists>s' os err. Recover ctx s = Some (s', os, err)
   \<and> (ctx = (\<lambda>n. False) \<and> os_f s \<noteq> None \<longrightarrow> err = None \<and> (\<exists>p. os_disk s' = take p (f_content (the (os_f s)))))"
proof (cases "os_f s")
  case None
  then show ?thesis by (simp add: Recover_def)
next
  case (Some f)
  obtain os act err where r: "recoverOffsets ctx (f_content f) Map.empty 0 = Some (os, act, err)"
    using recoverOffsets_terminates by (metis prod_cases3)
  have "ctx = (\<lambda>n. False) \<Longrightarrow> err = None \<and> (\<exists>p. stopsAt (f_content f) act p)"
    using recoverOffsets_result [OF r] by simp
  then show ?thesis using Some r by (auto simp: Recover_def setFile_def stopsAt_def) blast
qed

theorem offsets_recover_terminates_witness:
  "\<exists>s' os. Recover (\<lambda>n. False) (openedOffsets [9,0,0,0,1,2,3]) = Some (s', os, None)
   \<and> (\<exists>p. os_disk s' = take p [9,0,0,0,1,2,3])"
  using offsets_recover_terminates [of "\<lambda>n. False" "openedOffsets [9,0,0,0,1,2,3]"]
  by (auto simp: openedOffsets_def)

text \<open>C25: compaction preserves the offsets and is atomic.  A compaction that succeeds leaves a
  file from which exactly the offsets of the snapshot are recovered and to which the next
  commit is appended; one that fails (a cancelled context, an entry that cannot be encoded, a
  failed rename) leaves the file as it was.\<close>

theorem compaction_atomic:
  assumes "okSnapshot sn" "Compact ctx renameErr s sn = (s', err)"
    and "NewOffsetStore dir (Some (os_disk s')) = Inr s2"
  shows "if err = None
    then holdsCommits s' (snapshotRows sn)
      \<and> (\<exists>s3 os. Recover (\<lambda>n. False) s2 = Some (s3, os, None) \<and> offsetOf os = snapLookup sn)
    else os_disk s' = os_disk s"
proof (cases "compactRows ctx (snapshotRows sn)")
  case (Inl e)
  then show ?thesis using assms(2) by (auto simp: Compact_def)
next
  case (Inr tmp)
  have rows: "list_all okCommit (snapshotRows sn)" using assms(1) by (simp add: okSnapshot_def)
  have tmp: "tmp = commitLog (snapshotRows sn)" using compactRows_Inr [OF Inr rows] .
  obtain os where os: "scanOffsets Map.empty 0 (commitLog (snapshotRows sn)) = Some (os, length (commitLog (snapshotRows sn)))"
    "offsetOf os = lastCommits (snapshotRows sn)"
    using scan_commitLog [OF rows] by blast
  show ?thesis
  proof (cases renameErr)
    case None
    then have s': "err = None" "holdsCommits s' (snapshotRows sn)"
      using assms(2) Inr tmp
      by (auto simp: Compact_def reopenWriterLocked_def setFile_def holdsCommits_def)
    then have d: "os_disk s' = commitLog (snapshotRows sn)" by (simp add: holdsCommits_def)
    show ?thesis
      using reopen_recovers [OF assms(3) [unfolded d] os(1)] s' os(2) rows_lookup [OF assms(1)] by auto
  next
    case (Some e)
    then show ?thesis using assms(2) Inr
      by (auto simp: Compact_def reopenWriterLocked_def setFile_def)
  qed
qed

theorem compaction_atomic_witness:
  "\<exists>s' s3 os. Compact (\<lambda>n. False) None (openedOffsets []) exampleSnapshot = (s', None)
   \<and> Recover (\<lambda>n. False) (openedOffsets (os_disk s')) = Some (s3, os, None)
   \<and> offsetOf os = snapLookup exampleSnapshot"
proof -
  obtain s' where c: "Compact (\<lambda>n. False) None (openedOffsets []) exampleSnapshot = (s', None)"
    using Compact_ok [OF exampleSnapshot_ok] by blast
  from compaction_atomic [OF exampleSnapshot_ok c NewOffsetStore_example] show ?thesis using c by auto
qed

text \<open>Compaction from a stale snapshot loses a commit.  A commit that is acknowledged after
  the snapshot was taken and before \<^verbatim>\<open>Compact\<close> runs with it is gone after a restart: the
  recovered offset of its partition is the one of the snapshot.\<close>

theorem stale_compaction_loses_commit:
  assumes "AppendCommit False s g t p off = (s1, None)" "okSnapshot sn"
    and "Compact (\<lambda>n. False) None s1 sn = (s2, None)"
    and "NewOffsetStore dir (Some (os_disk s2)) = Inr s3"
  shows "\<exists>s4 os. Recover (\<lambda>n. False) s3 = Some (s4, os, None) \<and> offsetOf os (g, t, p) = snapLookup sn (g, t, p)"
proof -
  have d: "os_disk s2 = commitLog (snapshotRows sn)"
    using assms(3) Compact_ok [OF assms(2), of s1] by auto
  obtain os where "scanOffsets Map.empty 0 (commitLog (snapshotRows sn)) = Some (os, length (commitLog (snapshotRows sn)))"
    "offsetOf os = lastCommits (snapshotRows sn)"
    using scan_commitLog [of "snapshotRows sn"] assms(2) by (auto simp: okSnapshot_def)
  then show ?thesis
    using reopen_recovers [OF assms(4) [unfolded d]] rows_lookup [OF assms(2)] by fastforce
qed

theorem stale_compaction_loses_commit_witness:
  "\<exists>s1 s2 s4 os. AppendCommit False (openedOffsets []) ''g'' ''t'' 0 9 = (s1, None)
   \<and> Compact (\<lambda>n. False) None s1 exampleSnapshot = (s2, None)
   \<and> Recover (\<lambda>n. False) (openedOffsets (os_disk s2)) = Some (s4, os, None)
   \<and> offsetOf os (''g'', ''t'', 0) = Some 7"
proof -
  have "okCommit (''g'', ''t'', 0, 9)" by (simp add: inS_def)
  then obtain s1 where a: "AppendCommit False (openedOffsets []) ''g'' ''t'' 0 9 = (s1, None)"
    using encodeOffsetRecord_frame by (simp add: AppendCommit_def openedOffsets_def)
  obtain s2 where c: "Compact (\<lambda>n. False) None s1 exampleSnapshot = (s2, None)"
    using Compact_ok [OF exampleSnapshot_ok] by blast
  have "snapLookup exampleSnapshot (''g'', ''t'', 0) = Some 7"
    by (simp add: snapLookup_def exampleSnapshot_def)
  then show ?thesis
    using stale_compaction_loses_commit [OF a exampleSnapshot_ok c NewOffsetStore_example] a c by auto
qed

end
