(* ===== verification/MetadataStore.thy ===== *)
theory MetadataStore
  imports Api Checksum Wal
begin

text \<open>
  The metadata store (\<^verbatim>\<open>internal/metadata/store.go\<close>): the append-only \<^verbatim>\<open>metadata.log\<close> of
  create-topic events, with validation, the two versions of the event format, the framing
  with length and CRC-32C, appending, and the replay that truncates a malformed tail.
\<close>

section \<open>Events\<close>

record ReplicaSpec =
  rs_BrokerID :: int
  rs_Role :: PartitionRole
  rs_LeaderEpoch :: int

record PartitionSpec =
  ps_ID :: int
  ps_Replicas :: "ReplicaSpec list"

record CreateTopicEvent =
  ev_Name :: string
  ev_NumPartitions :: int
  ev_ReplicationFactor :: int
  ev_RetentionBytes :: int
  ev_RetentionTime :: int
  ev_Partitions :: "PartitionSpec list"

record TopicState =
  ts_Name :: string
  ts_NumPartitions :: int
  ts_ReplicationFactor :: int
  ts_RetentionBytes :: int
  ts_RetentionTime :: int
  ts_Partitions :: "PartitionSpec list"

text \<open>The conversion \<^verbatim>\<open>TopicState(e)\<close>.\<close>

definition toTopicState :: "CreateTopicEvent \<Rightarrow> TopicState" where
  "toTopicState e = \<lparr>ts_Name = ev_Name e, ts_NumPartitions = ev_NumPartitions e,
     ts_ReplicationFactor = ev_ReplicationFactor e, ts_RetentionBytes = ev_RetentionBytes e,
     ts_RetentionTime = ev_RetentionTime e, ts_Partitions = ev_Partitions e\<rparr>"

text \<open>What \<^verbatim>\<open>decodeRecord\<close> returns as an interface value.\<close>

datatype event = CreateTopic CreateTopicEvent | unknownEvent byte

definition minRecordSize :: nat where "minRecordSize = 4 + 2"
definition minPayloadSize :: nat where "minPayloadSize = 2"
definition eventVersionV1 :: byte where "eventVersionV1 = 1"
definition eventVersionV2 :: byte where "eventVersionV2 = 2"
definition eventTypeCreateTopic :: byte where "eventTypeCreateTopic = 1"

lemmas event_consts = minRecordSize_def minPayloadSize_def eventVersionV1_def eventVersionV2_def
  eventTypeCreateTopic_def

section \<open>Checked conversions\<close>

definition toUint32Length :: "int \<Rightarrow> int result" where
  "toUint32Length n =
    (if n < 0 then Inl (Errorf ''negative length %d'')
     else if n > 4294967295 then Inl (Errorf ''length %d exceeds uint32 max'')
     else Inr n)"

definition toUint16 :: "string \<Rightarrow> int \<Rightarrow> int result" where
  "toUint16 field n =
    (if n < 0 \<or> n > 65535 then Inl (Errorf (field @ '' out of range: %d'')) else Inr n)"

definition validatePartitionRole :: "PartitionRole \<Rightarrow> unit result" where
  "validatePartitionRole role =
    (if role = RoleLeader \<or> role = RoleFollower then Inr ()
     else Inl (Errorf ''invalid partition role: %d''))"

definition partitionRoleToByte :: "PartitionRole \<Rightarrow> byte result" where
  "partitionRoleToByte role = bindE (validatePartitionRole role) (\<lambda>_. Inr (word_of_int role))"

definition partitionRoleFromByte :: "byte \<Rightarrow> PartitionRole result" where
  "partitionRoleFromByte b =
    (let role = uint b in bindE (validatePartitionRole role) (\<lambda>_. Inr role))"

section \<open>Validation\<close>

text \<open>The inner loop over replicas, with the brokers seen and the leaders counted so far.\<close>

fun validateReplicas :: "int set \<Rightarrow> int \<Rightarrow> ReplicaSpec list \<Rightarrow> int result" where
  "validateReplicas seen leaders [] = Inr leaders"
| "validateReplicas seen leaders (r # rs) =
    (if rs_BrokerID r \<le> 0 then Inl (Errorf ''partition %d has invalid broker id %d'')
     else if rs_BrokerID r \<in> seen
       then Inl (Errorf ''partition %d has duplicate replica broker id %d'')
     else case validatePartitionRole (rs_Role r) of
        Inl e \<Rightarrow> Inl (Errorf ''partition %d: %w'')
      | Inr _ \<Rightarrow> validateReplicas (insert (rs_BrokerID r) seen)
          (if rs_Role r = RoleLeader then leaders + 1 else leaders) rs)"

fun validatePartitions :: "int \<Rightarrow> int set \<Rightarrow> PartitionSpec list \<Rightarrow> unit result" where
  "validatePartitions rf seen [] = Inr ()"
| "validatePartitions rf seen (p # ps) =
    (if ps_ID p < 0 then Inl (Errorf ''invalid negative partition id %d'')
     else if ps_ID p \<in> seen then Inl (Errorf ''duplicate partition id %d'')
     else if length (ps_Replicas p) = 0 then Inl (Errorf ''partition %d has no replicas'')
     else if rf > 0 \<and> int (length (ps_Replicas p)) \<noteq> rf
       then Inl (Errorf ''partition %d replica count %d != rf %d'')
     else if length (ps_Replicas p) > 65535
       then Inl (Errorf ''too many replicas for partition %d'')
     else bindE (validateReplicas {} 0 (ps_Replicas p)) (\<lambda>leaders.
       if leaders \<noteq> 1
       then Inl (Errorf ''partition %d must have exactly one leader replica, got %d'')
       else validatePartitions rf (insert (ps_ID p) seen) ps))"

definition validateCreateTopicEvent :: "CreateTopicEvent \<Rightarrow> unit result" where
  "validateCreateTopicEvent ev =
    (if ev_Name ev = '''' then Inl (Errorf ''topic name required'')
     else if ev_NumPartitions ev \<le> 0 then Inl (Errorf ''partitions must be >0'')
     else if ev_ReplicationFactor ev \<le> 0 then Inl (Errorf ''replication factor must be >0'')
     else if ev_RetentionBytes ev < -1 then Inl (Errorf ''retention bytes must be >= -1'')
     else if ev_RetentionTime ev < 0 then Inl (Errorf ''retention time must be >= 0'')
     else if int (length (ev_Partitions ev)) \<noteq> ev_NumPartitions ev
       then Inl (Errorf ''partition specs must match num partitions'')
     else validatePartitions (ev_ReplicationFactor ev) {} (ev_Partitions ev))"

section \<open>Encoding\<close>

text \<open>The bodies of the two encoding loops, then the whole event.\<close>

definition putReplicaSpec :: "ReplicaSpec \<Rightarrow> bytes result" where
  "putReplicaSpec r = writeAll
     [Inr (le32 (rs_BrokerID r)), bindE (partitionRoleToByte (rs_Role r)) (\<lambda>b. Inr [b]),
      Inr (le32 (rs_LeaderEpoch r))]"

definition putPartitionSpec :: "PartitionSpec \<Rightarrow> bytes result" where
  "putPartitionSpec p = writeAll
     (Inr (le32 (ps_ID p))
      # bindE (toUint16 ''partition %d replica count'' (int (length (ps_Replicas p)))) (\<lambda>n. Inr (le16 n))
      # map putReplicaSpec (ps_Replicas p))"

definition encodeCreateTopicEvent :: "CreateTopicEvent \<Rightarrow> bytes result" where
  "encodeCreateTopicEvent ev =
    bindE (validateCreateTopicEvent ev) (\<lambda>_.
    if length (ev_Name ev) > 65535 then Inl (Errorf ''topic name too long'')
    else writeAll
     (Inr [eventVersionV2] # Inr [eventTypeCreateTopic]
      # bindE (toUint16 ''topic name length'' (int (length (ev_Name ev)))) (\<lambda>n. Inr (le16 n))
      # Inr (string_bytes (ev_Name ev))
      # bindE (toUint16 ''num partitions'' (ev_NumPartitions ev)) (\<lambda>n. Inr (le16 n))
      # bindE (toUint16 ''replication factor'' (ev_ReplicationFactor ev)) (\<lambda>n. Inr (le16 n))
      # Inr (le64 (ev_RetentionBytes ev))
      # Inr (le64 (ev_RetentionTime ev))
      # bindE (toUint16 ''partition spec count'' (int (length (ev_Partitions ev)))) (\<lambda>n. Inr (le16 n))
      # map putPartitionSpec (ev_Partitions ev)))"

definition wrapRecord :: "bytes \<Rightarrow> bytes result" where
  "wrapRecord payload =
    (let b = le32 0 @ le32 0 @ payload in
     bindE (toUint32Length (int (length b) - 4)) (\<lambda>recordLen.
     Inr (le32 recordLen @ le32 (crc32c (drop 8 b)) @ drop 8 b)))"

section \<open>Decoding\<close>

definition readByte :: "bytes \<Rightarrow> (byte \<times> bytes) result" where
  "readByte b = (case b of [] \<Rightarrow> Inl EOF | x # xs \<Rightarrow> Inr (x, xs))"

definition readReplicaSpec :: "bytes \<Rightarrow> (ReplicaSpec \<times> bytes) result" where
  "readReplicaSpec r =
     bindE (getLI32 r) (\<lambda>(brokerID, r).
     bindE (readByte r) (\<lambda>(roleByte, r).
     bindE (partitionRoleFromByte roleByte) (\<lambda>role.
     bindE (getLI32 r) (\<lambda>(epoch, r).
     Inr (\<lparr>rs_BrokerID = brokerID, rs_Role = role, rs_LeaderEpoch = epoch\<rparr>, r)))))"

definition decodeReplicaSpecs :: "bytes \<Rightarrow> int \<Rightarrow> (ReplicaSpec list \<times> bytes) result" where
  "decodeReplicaSpecs reader replicaCount = readItems readReplicaSpec (nat replicaCount) reader"

definition readPartitionSpec :: "bytes \<Rightarrow> (PartitionSpec \<times> bytes) result" where
  "readPartitionSpec r =
     bindE (getLI32 r) (\<lambda>(pid, r).
     bindE (getLU16 r) (\<lambda>(replicaCount, r).
     bindE (decodeReplicaSpecs r replicaCount) (\<lambda>(replicas, r).
     Inr (\<lparr>ps_ID = pid, ps_Replicas = replicas\<rparr>, r))))"

definition decodePartitionSpecs :: "bytes \<Rightarrow> int \<Rightarrow> (PartitionSpec list \<times> bytes) result" where
  "decodePartitionSpecs reader specCount = readItems readPartitionSpec (nat specCount) reader"

definition decodeCreateTopicEventV2 :: "bytes \<Rightarrow> CreateTopicEvent result" where
  "decodeCreateTopicEventV2 data =
     bindE (getLU16 data) (\<lambda>(nameLen, r).
     bindE (readFull (nat nameLen) r) (\<lambda>(name, r).
     bindE (getLU16 r) (\<lambda>(parts, r).
     bindE (getLU16 r) (\<lambda>(rf, r).
     bindE (getLI64 r) (\<lambda>(retentionBytes, r).
     bindE (getLI64 r) (\<lambda>(retentionNanos, r).
     if retentionBytes < -1 then Inl (Errorf ''invalid retention bytes %d'')
     else if retentionNanos < 0 then Inl (Errorf ''invalid retention duration %d'')
     else bindE (getLU16 r) (\<lambda>(specCount, r).
     bindE (decodePartitionSpecs r specCount) (\<lambda>(partitions, r).
     let ev = \<lparr>ev_Name = bytes_string name, ev_NumPartitions = parts, ev_ReplicationFactor = rf,
               ev_RetentionBytes = retentionBytes, ev_RetentionTime = retentionNanos,
               ev_Partitions = partitions\<rparr>
     in bindE (validateCreateTopicEvent ev) (\<lambda>_. Inr ev)))))))))"

definition decodeCreateTopicEventV1 :: "bytes \<Rightarrow> CreateTopicEvent result" where
  "decodeCreateTopicEventV1 data =
     bindE (getLU16 data) (\<lambda>(nameLen, r).
     bindE (readFull (nat nameLen) r) (\<lambda>(name, r).
     bindE (getLU16 r) (\<lambda>(parts, r).
     bindE (getLU16 r) (\<lambda>(rf, r).
     bindE (getLU16 r) (\<lambda>(specCount, r).
     bindE (decodePartitionSpecs r specCount) (\<lambda>(partitions, r).
     let ev = \<lparr>ev_Name = bytes_string name, ev_NumPartitions = parts, ev_ReplicationFactor = rf,
               ev_RetentionBytes = 0, ev_RetentionTime = 0, ev_Partitions = partitions\<rparr>
     in bindE (validateCreateTopicEvent ev) (\<lambda>_. Inr ev)))))))"

definition decodeCreateTopicEvent :: "byte \<Rightarrow> bytes \<Rightarrow> CreateTopicEvent result" where
  "decodeCreateTopicEvent version data =
    (if version = eventVersionV1 then decodeCreateTopicEventV1 data
     else if version = eventVersionV2 then decodeCreateTopicEventV2 data
     else Inl (Errorf ''unsupported create-topic version %d''))"

definition decodeRecord_meta :: "bytes \<Rightarrow> event result" where
  "decodeRecord_meta rec =
    (if length rec < minRecordSize then Inl (Errorf ''record too small'')
     else if val_uint LittleEndian (take 4 rec) \<noteq> crc32c (drop 4 rec)
       then Inl (Errorf ''crc mismatch'')
     else let payload = drop 4 rec in
       if length payload < minPayloadSize then Inl (Errorf ''payload too small'')
       else let version = payload ! 0; typ = payload ! 1; body = drop 2 payload in
         if typ = eventTypeCreateTopic
         then bindE (decodeCreateTopicEvent version body) (\<lambda>ev. Inr (CreateTopic ev))
         else Inr (unknownEvent typ))"

section \<open>The store\<close>

record Store =
  ms_f :: gofile
  ms_closed :: bool
  ms_path :: string
  ms_end :: nat

text \<open>\<open>disk\<close> is the file that \<^verbatim>\<open>OpenFile\<close> finds, \<open>None\<close> when it creates it.\<close>

definition NewStore :: "BrokerConfig \<Rightarrow> bytes option \<Rightarrow> Store result" where
  "NewStore cfg disk =
    (if bc_DataDir cfg = '''' then Inl (Errorf ''data dir required for metadata store'')
     else let c = (case disk of None \<Rightarrow> [] | Some b \<Rightarrow> b) in
       Inr \<lparr>ms_f = \<lparr>f_content = c, f_pos = 0\<rparr>, ms_closed = False,
            ms_path = bc_DataDir cfg @ ''/metadata.log'', ms_end = length c\<rparr>)"

definition AppendCreateTopic :: "bool \<Rightarrow> Store \<Rightarrow> CreateTopicEvent \<Rightarrow> Store \<times> go_error option" where
  "AppendCreateTopic done s ev =
    (if done then (s, Some Canceled)
     else case encodeCreateTopicEvent ev of
       Inl e \<Rightarrow> (s, Some e)
     | Inr payload \<Rightarrow> (case wrapRecord payload of
         Inl e \<Rightarrow> (s, Some e)
       | Inr rec \<Rightarrow>
          (if ms_closed s then (s, Some ErrClosed)
           else (s\<lparr>ms_f := fileWrite (fileSeek (ms_f s) (ms_end s)) rec,
                   ms_end := ms_end s + length rec\<rparr>, None))))"

text \<open>
  The replay loop: \<open>ctx n\<close> is the answer of the \<open>n\<close>-th poll of the context from here on (one
  per iteration), \<open>c\<close> the file.  It
  returns the topics, the position reached, whether the tail is truncated there, and an error.
  The advance is computed in \<^verbatim>\<open>uint32\<close>, as \<^verbatim>\<open>int64(4 + length)\<close> is.
\<close>

partial_function (option) recoverLoop :: "(nat \<Rightarrow> bool) \<Rightarrow> bytes \<Rightarrow> (string \<rightharpoonup> TopicState) \<Rightarrow> nat \<Rightarrow>
    ((string \<rightharpoonup> TopicState) \<times> nat \<times> bool \<times> go_error option) option" where
  "recoverLoop ctx c topics pos =
    (if ctx 0 then Some (topics, pos, False, Some Canceled)
     else case fileReadAt c 4 pos of
       Inl e \<Rightarrow> Some (topics, pos, True, None)
     | Inr lenBuf \<Rightarrow>
       (let len = val_uint LittleEndian lenBuf in
        if len = 0 then Some (topics, pos, True, None)
        else case fileReadAt c (nat len) (pos + 4) of
          Inl e \<Rightarrow> Some (topics, pos, True, None)
        | Inr rec \<Rightarrow>
          (case decodeRecord_meta rec of
             Inl e \<Rightarrow> Some (topics, pos, True, None)
           | Inr (CreateTopic e) \<Rightarrow>
              if ev_Name e \<in> dom topics
              then recoverLoop (\<lambda>n. ctx (Suc n)) c topics (pos + nat ((4 + len) mod 2 ^ 32))
              else recoverLoop (\<lambda>n. ctx (Suc n)) c (topics(ev_Name e \<mapsto> toTopicState e))
                     (pos + nat ((4 + len) mod 2 ^ 32))
           | Inr (unknownEvent t) \<Rightarrow>
              recoverLoop (\<lambda>n. ctx (Suc n)) c topics (pos + nat ((4 + len) mod 2 ^ 32)))))"

definition RecoverTopics :: "(nat \<Rightarrow> bool) \<Rightarrow> Store \<Rightarrow>
    (Store \<times> (string \<rightharpoonup> TopicState) \<times> go_error option) option" where
  "RecoverTopics ctx s =
    (if ms_closed s
     then Some (s\<lparr>ms_end := 0\<rparr>, Map.empty, Some (if ctx 0 then Canceled else ErrClosed))
     else case recoverLoop ctx (f_content (ms_f s)) Map.empty 0 of
       None \<Rightarrow> None
     | Some (topics, pos, trunc, err) \<Rightarrow>
        (let f = (if trunc then fileTruncate (ms_f s) pos else ms_f s)
         in Some (s\<lparr>ms_f := fileSeek f pos, ms_end := pos\<rparr>, topics, err)))"

definition Close_meta :: "Store \<Rightarrow> Store \<times> go_error option" where
  "Close_meta s = (if ms_closed s then (s, Some ErrClosed) else (s\<lparr>ms_closed := True\<rparr>, None))"

section \<open>Validation decides the layout rules\<close>

text \<open>What a partition layout has to satisfy, stated without the loops.\<close>

definition validReplicas :: "ReplicaSpec list \<Rightarrow> bool" where
  "validReplicas rs \<longleftrightarrow> (\<forall>r\<in>set rs. 0 < rs_BrokerID r \<and> rs_Role r \<in> {RoleLeader, RoleFollower})
     \<and> distinct (map rs_BrokerID rs)"

definition validPartition :: "int \<Rightarrow> PartitionSpec \<Rightarrow> bool" where
  "validPartition rf p \<longleftrightarrow> 0 \<le> ps_ID p \<and> ps_Replicas p \<noteq> [] \<and> (0 < rf \<longrightarrow> int (length (ps_Replicas p)) = rf)
     \<and> length (ps_Replicas p) \<le> 65535 \<and> validReplicas (ps_Replicas p)
     \<and> length (filter (\<lambda>r. rs_Role r = RoleLeader) (ps_Replicas p)) = 1"

definition validEvent :: "CreateTopicEvent \<Rightarrow> bool" where
  "validEvent ev \<longleftrightarrow> ev_Name ev \<noteq> '''' \<and> 0 < ev_ReplicationFactor ev
     \<and> -1 \<le> ev_RetentionBytes ev \<and> 0 \<le> ev_RetentionTime ev
     \<and> ev_Partitions ev \<noteq> [] \<and> int (length (ev_Partitions ev)) = ev_NumPartitions ev
     \<and> distinct (map ps_ID (ev_Partitions ev))
     \<and> (\<forall>p\<in>set (ev_Partitions ev). validPartition (ev_ReplicationFactor ev) p)"

lemma validateReplicas_Inr:
  "validateReplicas seen n rs = Inr m \<longleftrightarrow> validReplicas rs \<and> rs_BrokerID ` set rs \<inter> seen = {}
     \<and> m = n + int (length (filter (\<lambda>r. rs_Role r = RoleLeader) rs))"
proof (induction rs arbitrary: seen n)
  case (Cons r rs)
  then show ?case
    by (auto simp: validReplicas_def validatePartitionRole_def not_le)
qed (auto simp: validReplicas_def)

lemma validatePartitions_Cons:
  "validatePartitions rf seen (p # ps) = Inr () \<longleftrightarrow> validPartition rf p \<and> ps_ID p \<notin> seen
     \<and> validatePartitions rf (insert (ps_ID p) seen) ps = Inr ()"
proof (cases "validateReplicas {} 0 (ps_Replicas p)")
  case (Inl e)
  then have "\<not> validReplicas (ps_Replicas p)" using validateReplicas_Inr [of "{}" 0 "ps_Replicas p"] by auto
  then show ?thesis using Inl by (simp add: validPartition_def)
next
  case (Inr n)
  then have "validReplicas (ps_Replicas p)"
      "n = int (length (filter (\<lambda>r. rs_Role r = RoleLeader) (ps_Replicas p)))"
    using validateReplicas_Inr [of "{}" 0 "ps_Replicas p"] by auto
  then show ?thesis using Inr by (auto simp: validPartition_def not_less)
qed

lemma validatePartitions_Inr:
  "validatePartitions rf seen ps = Inr () \<longleftrightarrow> (\<forall>p\<in>set ps. validPartition rf p)
     \<and> distinct (map ps_ID ps) \<and> ps_ID ` set ps \<inter> seen = {}"
proof (induction ps arbitrary: seen)
  case (Cons p ps)
  then show ?case unfolding validatePartitions_Cons by auto
qed simp

lemma validateCreateTopicEvent_Inr: "validateCreateTopicEvent ev = Inr () \<longleftrightarrow> validEvent ev"
proof -
  have "int (length (ev_Partitions ev)) = ev_NumPartitions ev \<Longrightarrow>
      ev_NumPartitions ev \<le> 0 \<longleftrightarrow> ev_Partitions ev = []" by (cases "ev_Partitions ev") auto
  then show ?thesis
    by (auto simp: validateCreateTopicEvent_def validEvent_def validatePartitions_Inr)
qed

section \<open>Events satisfy the codec contract\<close>

definition okReplica :: "ReplicaSpec \<Rightarrow> bool" where
  "okReplica r \<longleftrightarrow> inS 32 (rs_BrokerID r) \<and> rs_Role r \<in> {RoleLeader, RoleFollower}
     \<and> inS 32 (rs_LeaderEpoch r)"

definition okPartitionSpec :: "PartitionSpec \<Rightarrow> bool" where
  "okPartitionSpec p \<longleftrightarrow> inS 32 (ps_ID p) \<and> length (ps_Replicas p) \<le> 65535
     \<and> list_all okReplica (ps_Replicas p)"

text \<open>
  An event that can be stored: its integers have their Go types (part of every Go value), it
  is valid, and its counts fit the format.
\<close>

definition okEvent :: "CreateTopicEvent \<Rightarrow> bool" where
  "okEvent ev \<longleftrightarrow> validEvent ev \<and> inS 64 (ev_RetentionBytes ev) \<and> inS 64 (ev_RetentionTime ev)
     \<and> list_all okPartitionSpec (ev_Partitions ev) \<and> length (ev_Name ev) \<le> 65535
     \<and> ev_NumPartitions ev \<le> 65535 \<and> ev_ReplicationFactor ev \<le> 65535"

lemma toUint16_ok [simp]: "0 \<le> n \<Longrightarrow> n \<le> 65535 \<Longrightarrow> toUint16 f n = Inr n"
  by (simp add: toUint16_def)

lemma inU16_ok [simp]: "0 \<le> n \<Longrightarrow> n \<le> 65535 \<Longrightarrow> inU 16 n"
  by (simp add: inU_def)

interpretation rspec: codec putReplicaSpec readReplicaSpec okReplica
  by unfold_locales
    (auto simp: putReplicaSpec_def readReplicaSpec_def okReplica_def readByte_def
      partitionRoleToByte_def partitionRoleFromByte_def validatePartitionRole_def
      RoleLeader_def RoleFollower_def)

interpretation pspec: codec putPartitionSpec readPartitionSpec okPartitionSpec
proof
  fix p :: PartitionSpec and bs rest
  let ?rs = "ps_Replicas p"
  assume ok: "okPartitionSpec p"
  then have oks: "list_all okReplica ?rs" by (simp add: okPartitionSpec_def)
  then obtain b where b: "writeAll (map putReplicaSpec ?rs) = Inr b" using rspec.items_total by blast
  have w: "putPartitionSpec p = Inr (le32 (ps_ID p) @ le16 (int (length ?rs)) @ b)"
    using ok by (simp add: putPartitionSpec_def okPartitionSpec_def b)
  then show "\<exists>bs. putPartitionSpec p = Inr bs" by blast
  assume "putPartitionSpec p = Inr bs"
  then have bs: "bs = le32 (ps_ID p) @ le16 (int (length ?rs)) @ b" using w by simp
  show "readPartitionSpec (bs @ rest) = Inr (p, rest)"
    using ok rspec.items_dec_enc [OF oks b, of rest]
    by (simp add: bs readPartitionSpec_def decodeReplicaSpecs_def okPartitionSpec_def)
qed

lemma encodeCreateTopicEvent_ok:
  assumes "okEvent ev"
  obtains body where "encodeCreateTopicEvent ev = Inr (2 # 1 # body)"
    and "decodeCreateTopicEventV2 body = Inr ev"
proof -
  let ?ps = "ev_Partitions ev"
  have oks: "list_all okPartitionSpec ?ps" and v: "validEvent ev"
    using assms by (simp_all add: okEvent_def)
  obtain b where b: "writeAll (map putPartitionSpec ?ps) = Inr b" using pspec.items_total [OF oks] by blast
  let ?body = "le16 (int (length (ev_Name ev))) @ string_bytes (ev_Name ev)
    @ le16 (ev_NumPartitions ev) @ le16 (ev_ReplicationFactor ev) @ le64 (ev_RetentionBytes ev)
    @ le64 (ev_RetentionTime ev) @ le16 (int (length ?ps)) @ b"
  have r: "0 \<le> ev_NumPartitions ev" "ev_NumPartitions ev \<le> 65535" "0 \<le> ev_ReplicationFactor ev"
    "ev_ReplicationFactor ev \<le> 65535" "length (ev_Name ev) \<le> 65535" "length ?ps \<le> 65535"
    "\<not> ev_RetentionBytes ev < -1" "\<not> ev_RetentionTime ev < 0" "int (length ?ps) = ev_NumPartitions ev"
    using assms v by (simp_all add: okEvent_def validEvent_def)
  have vi: "validateCreateTopicEvent ev = Inr ()" using v by (simp add: validateCreateTopicEvent_Inr)
  have e: "encodeCreateTopicEvent ev = Inr (2 # 1 # ?body)"
    using r by (simp add: encodeCreateTopicEvent_def vi b event_consts)
  have sur: "\<lparr>ev_Name = ev_Name ev, ev_NumPartitions = ev_NumPartitions ev,
      ev_ReplicationFactor = ev_ReplicationFactor ev, ev_RetentionBytes = ev_RetentionBytes ev,
      ev_RetentionTime = ev_RetentionTime ev, ev_Partitions = ?ps\<rparr> = ev" by simp
  have "nat (ev_NumPartitions ev) = length ?ps" using r by simp
  then have "decodeCreateTopicEventV2 ?body = Inr ev"
    using r vi assms pspec.items_dec_enc [OF oks b, of "[]"]
    by (simp add: decodeCreateTopicEventV2_def decodePartitionSpecs_def okEvent_def Let_def sur)
  with e show thesis by (rule that)
qed

lemma wrapRecord_ok:
  "int (length payload) + 4 \<le> 4294967295 \<Longrightarrow>
   wrapRecord payload = Inr (le32 (int (length payload) + 4) @ le32 (crc32c payload) @ payload)"
  by (simp add: wrapRecord_def toUint32Length_def Let_def add.commute)

lemma decodeRecord_damaged:
  assumes "j < length p" "x \<noteq> p ! j"
  shows "isErr (decodeRecord_meta (le32 (crc32c p) @ p[j := x]))"
  using crc32c_update [OF assms] crc32c_range [of p] by (auto simp: decodeRecord_meta_def)

lemma decodeRecord_wrap:
  assumes "decodeCreateTopicEventV2 body = Inr ev"
  shows "decodeRecord_meta (le32 (crc32c (2 # 1 # body)) @ 2 # 1 # body) = Inr (CreateTopic ev)"
  using assms crc32c_range
  by (simp add: decodeRecord_meta_def decodeCreateTopicEvent_def event_consts Let_def)

text \<open>The bytes that one append adds to the file.\<close>

definition eventFrame :: "CreateTopicEvent \<Rightarrow> bytes" where
  "eventFrame ev = (case bindE (encodeCreateTopicEvent ev) wrapRecord of Inl e \<Rightarrow> [] | Inr b \<Rightarrow> b)"

text \<open>An event small enough for the length field of its frame.\<close>

definition storable :: "CreateTopicEvent \<Rightarrow> bool" where
  "storable ev \<longleftrightarrow> okEvent ev \<and> (case encodeCreateTopicEvent ev of Inl e \<Rightarrow> False
     | Inr b \<Rightarrow> int (length b) + 4 \<le> 4294967291)"

lemma eventFrame_parts:
  assumes "storable ev"
  obtains rec payload where "eventFrame ev = le32 (int (length rec)) @ rec"
    and "bindE (encodeCreateTopicEvent ev) wrapRecord = Inr (eventFrame ev)"
    and "rec = le32 (crc32c payload) @ payload" "0 < length rec" "length rec \<le> 4294967291" "decodeRecord_meta rec = Inr (CreateTopic ev)"
proof -
  have ok: "okEvent ev" using assms by (simp add: storable_def)
  obtain body where e: "encodeCreateTopicEvent ev = Inr (2 # 1 # body)"
    and d: "decodeCreateTopicEventV2 body = Inr ev"
    using encodeCreateTopicEvent_ok [OF ok] .
  let ?rec = "le32 (crc32c (2 # 1 # body)) @ 2 # 1 # body"
  have l: "length body + 6 \<le> 4294967291" using assms by (simp add: storable_def e)
  have w: "wrapRecord (2 # 1 # body) = Inr (le32 (int (length ?rec)) @ ?rec)"
    using l by (subst wrapRecord_ok) (simp_all add: add.commute)
  show thesis
    using that [of ?rec "2 # 1 # body"] l w decodeRecord_wrap [OF d] by (simp add: eventFrame_def e)
qed

section \<open>Replay and crash recovery\<close>

definition addTopic :: "(string \<rightharpoonup> TopicState) \<Rightarrow> CreateTopicEvent \<Rightarrow> (string \<rightharpoonup> TopicState)" where
  "addTopic topics ev = (if ev_Name ev \<in> dom topics then topics
     else topics(ev_Name ev \<mapsto> toTopicState ev))"

definition replay :: "(string \<rightharpoonup> TopicState) \<Rightarrow> nat \<Rightarrow> bytes \<Rightarrow> ((string \<rightharpoonup> TopicState) \<times> nat) option" where
  "replay topics pos c = map_option (\<lambda>(t, p, trunc, err). (t, p)) (recoverLoop (\<lambda>n. False) c topics pos)"

lemma recoverLoop_stop:
  "fileReadAt c 4 pos = Inl e \<Longrightarrow> recoverLoop (\<lambda>n. False) c topics pos = Some (topics, pos, True, None)"
  by (subst recoverLoop.simps) simp

lemma recoverLoop_frame:
  assumes "storable ev" "length (p @ eventFrame ev @ t) < 2 ^ 32"
  shows "recoverLoop (\<lambda>n. False) (p @ eventFrame ev @ t) topics (length p) =
    recoverLoop (\<lambda>n. False) (p @ eventFrame ev @ t) (addTopic topics ev) (length p + length (eventFrame ev))"
proof -
  obtain rec where f: "eventFrame ev = le32 (int (length rec)) @ rec" and pos: "0 < length rec"
    and le: "length rec \<le> 4294967291" and d: "decodeRecord_meta rec = Inr (CreateTopic ev)"
    using eventFrame_parts [OF assms(1)] by metis
  let ?c = "p @ le32 (int (length rec)) @ rec @ t"
  have r1: "fileReadAt ?c 4 (length p) = Inr (le32 (int (length rec)))"
    by (rule fileReadAt_append) simp_all
  have "fileReadAt ((p @ le32 (int (length rec))) @ rec @ t) (length rec) (length p + 4) = Inr rec"
    by (rule fileReadAt_append) simp_all
  then have r2: "fileReadAt ?c (length rec) (length p + 4) = Inr rec" by simp
  have u: "inU 32 (int (length rec))" using le by (simp add: inU_def)
  have adv: "(4 + int (length rec)) mod 4294967296 = int (4 + length rec)"
    using assms(2) by (simp add: f)
  have nadv: "nat (4 + int (length rec)) = 4 + length rec" by simp
  have ne: "rec \<noteq> []" using pos by auto
  show ?thesis unfolding f append.assoc
    by (subst recoverLoop.simps)
      (simp only: r1 sum.case if_False, simp add: r2 u ne d adv nadv addTopic_def Let_def)
qed

lemma recoverLoop_torn:
  assumes "storable ev" "k < length (eventFrame ev)"
  shows "recoverLoop (\<lambda>n. False) (p @ take k (eventFrame ev)) topics (length p) =
    Some (topics, length p, True, None)"
proof -
  obtain rec where f: "eventFrame ev = le32 (int (length rec)) @ rec" and pos: "0 < length rec"
    and le: "length rec \<le> 4294967291"
    using eventFrame_parts [OF assms(1)] by metis
  show ?thesis
  proof (cases "k < 4")
    case True
    then show ?thesis by (intro recoverLoop_stop [of _ _ EOF]) (simp add: f)
  next
    case False
    then have t: "take k (eventFrame ev) = le32 (int (length rec)) @ take (k - 4) rec" by (simp add: f)
    have r1: "fileReadAt (p @ le32 (int (length rec)) @ take (k - 4) rec) 4 (length p)
        = Inr (le32 (int (length rec)))"
      by (rule fileReadAt_append) simp_all
    have r2: "fileReadAt (p @ le32 (int (length rec)) @ take (k - 4) rec) (length rec) (length p + 4)
        = Inl EOF"
      using False assms(2) by (intro fileReadAt_short) (simp add: f)
    have u: "inU 32 (int (length rec))" using le by (simp add: inU_def)
    have ne: "rec \<noteq> []" using pos by auto
    show ?thesis unfolding t
      by (subst recoverLoop.simps) (simp only: r1 sum.case if_False, simp add: r2 u ne Let_def)
  qed
qed

interpretation meta: wal "\<lambda>s. eventFrame" addTopic "\<lambda>s. storable" replay "\<lambda>c. length c < 2 ^ 32"
proof
  fix s p
  show "replay s (length p) p = Some (s, length p)"
    unfolding replay_def by (subst recoverLoop_stop [of _ _ EOF]) simp_all
next
  fix s r p t
  assume "storable r" "length (p @ eventFrame r @ t) < 2 ^ 32"
  then show "replay s (length p) (p @ eventFrame r @ t) =
      replay (addTopic s r) (length p + length (eventFrame r)) (p @ eventFrame r @ t)"
    unfolding replay_def by (subst recoverLoop_frame) simp_all
next
  fix s r k p
  assume "storable r" "k < length (eventFrame r)"
  then show "replay s (length p) (p @ take k (eventFrame r)) = Some (s, length p)"
    unfolding replay_def by (simp add: recoverLoop_torn)
qed

lemma foldl_addTopic:
  "foldl addTopic t evs = map_of (map (\<lambda>e. (ev_Name e, toTopicState e)) evs) ++ t"
proof (induction evs arbitrary: t)
  case (Cons e evs)
  then show ?case by (auto simp: addTopic_def map_add_def fun_eq_iff split: option.split)
qed simp

lemma recoverLoop_uncancelled:
  "recoverLoop ctx c topics pos = Some y \<Longrightarrow> ctx = (\<lambda>n. False) \<Longrightarrow> fst (snd (snd y)) \<and> snd (snd (snd y)) = None"
proof (induction rule: recoverLoop.raw_induct [rotated 1, consumes 1, case_names step])
  case (step f ctx c topics pos y)
  have ih: "f (\<lambda>n. ctx (Suc n)) c t p = Some y \<Longrightarrow> fst (snd (snd y)) \<and> snd (snd (snd y)) = None" for t p y
    by (rule step.IH) (simp_all add: step.prems)
  show ?case using step.hyps
    by (auto simp: Let_def step.prems split: sum.splits event.splits if_splits
        dest: ih [unfolded step.prems])
qed

lemma recoverLoop_terminates:
  assumes "length c < 2 ^ 32"
  shows "\<exists>y. recoverLoop ctx c topics pos = Some y"
proof (induction "length c - pos" arbitrary: ctx topics pos rule: less_induct)
  case less
  show ?case
  proof (cases "fileReadAt c 4 pos")
    case (Inl e)
    then show ?thesis by (subst recoverLoop.simps) auto
  next
    case (Inr b)
    show ?thesis
    proof (cases "fileReadAt c (nat (val_uint LittleEndian b)) (pos + 4)")
      case Inl2: (Inl e)
      then show ?thesis by (subst recoverLoop.simps) (auto simp: Inr Let_def)
    next
      case Inr2: (Inr r)
      have "length c - (pos + nat ((4 + val_uint LittleEndian b) mod 2 ^ 32)) < length c - pos"
        using advance_ok [OF assms Inr Inr2] by linarith
      note ih = less [OF this]
      show ?thesis
        by (subst recoverLoop.simps)
          (use ih in \<open>auto simp: Inr Inr2 Let_def split: sum.split event.split\<close>)
    qed
  qed
qed

text \<open>
  The file and write position of a store that holds the events \<open>evs\<close>, and a store opened on
  given file contents.
\<close>

definition eventLog :: "CreateTopicEvent list \<Rightarrow> bytes" where
  "eventLog evs = concat (map eventFrame evs)"

definition topicsOf :: "CreateTopicEvent list \<Rightarrow> (string \<rightharpoonup> TopicState)" where
  "topicsOf evs = map_of (map (\<lambda>e. (ev_Name e, toTopicState e)) evs)"

definition holds :: "Store \<Rightarrow> CreateTopicEvent list \<Rightarrow> bool" where
  "holds s evs \<longleftrightarrow> \<not> ms_closed s \<and> f_content (ms_f s) = eventLog evs \<and> ms_end s = length (eventLog evs)"

lemma NewStore_file:
  "NewStore cfg (Some c) = Inr s \<Longrightarrow> \<not> ms_closed s \<and> f_content (ms_f s) = c \<and> ms_end s = length c"
  by (auto simp: NewStore_def Let_def split: if_splits)

lemma RecoverTopics_replay:
  assumes "\<not> ms_closed s" "f_content (ms_f s) = c" "replay Map.empty 0 c = Some (topics, pos)"
  shows "RecoverTopics (\<lambda>n. False) s = Some (s\<lparr>ms_f := fileSeek (fileTruncate (ms_f s) pos) pos, ms_end := pos\<rparr>, topics, None)"
proof -
  obtain tr err where r: "recoverLoop (\<lambda>n. False) c Map.empty 0 = Some (topics, pos, tr, err)"
    using assms(3) by (auto simp: replay_def)
  have "tr \<and> err = None" using recoverLoop_uncancelled [OF r] by simp
  then show ?thesis using assms(1,2) r by (simp add: RecoverTopics_def Let_def)
qed

lemma RecoverTopics_holds:
  assumes "\<not> ms_closed s" "f_content (ms_f s) = eventLog evs @ t"
    and "replay Map.empty 0 (eventLog evs @ t) = Some (topicsOf evs, length (eventLog evs))"
  shows "\<exists>s'. RecoverTopics (\<lambda>n. False) s = Some (s', topicsOf evs, None) \<and> holds s' evs"
  using RecoverTopics_replay [OF assms] assms(1,2)
  by (simp add: holds_def fileSeek_def fileTruncate_def)

lemma foldl_addTopic_empty: "foldl addTopic Map.empty evs = topicsOf evs"
  by (simp add: foldl_addTopic topicsOf_def)

lemma replay_cut:
  assumes "list_all storable evs" "length (eventLog evs) < 2 ^ 32"
  obtains m where "m \<le> length evs" "length (eventLog (take m evs)) \<le> k"
    and "m < length evs \<longrightarrow> k < length (eventLog (take (Suc m) evs))"
    and "replay Map.empty 0 (take k (eventLog evs)) = Some (topicsOf (take m evs), length (eventLog (take m evs)))"
proof -
  let ?w = "wal_whole (\<lambda>s. eventFrame) addTopic Map.empty evs k"
  obtain m where m: "m \<le> length evs" "?w = take m evs" "length (eventLog (take m evs)) \<le> k"
    "m < length evs \<longrightarrow> k < length (eventLog (take (Suc m) evs))"
    using wal_whole_longest [of evs "\<lambda>s. eventFrame" addTopic Map.empty k]
    unfolding wal_log_const eventLog_def [symmetric] by blast
  have "replay Map.empty 0 (take k (eventLog evs)) = Some (topicsOf (take m evs), length (eventLog (take m evs)))"
    using meta.scan_cut [of Map.empty evs "[]" k] assms
    by (simp add: m(2) wal_ok_const wal_log_const eventLog_def foldl_addTopic_empty)
  then show thesis using m that by blast
qed

lemma replay_log:
  assumes "list_all storable evs" "length (eventLog evs) < 2 ^ 32"
  shows "replay Map.empty 0 (eventLog evs) = Some (topicsOf evs, length (eventLog evs))"
  using meta.scan_log [of Map.empty evs "[]"] assms
  by (simp add: wal_ok_const wal_log_const eventLog_def foldl_addTopic_empty)

lemma NewStore_recover:
  assumes "NewStore cfg (Some c) = Inr s" "replay Map.empty 0 c = Some (topicsOf evs, length (eventLog evs))"
    and "take (length (eventLog evs)) c = eventLog evs"
  shows "\<exists>s'. RecoverTopics (\<lambda>n. False) s = Some (s', topicsOf evs, None) \<and> holds s' evs"
proof -
  have "c = eventLog evs @ drop (length (eventLog evs)) c" using assms(3) by (metis append_take_drop_id)
  then show ?thesis using NewStore_file [OF assms(1)] assms(2) RecoverTopics_holds by metis
qed

section \<open>Appending\<close>

definition typedEvent :: "CreateTopicEvent \<Rightarrow> bool" where
  "typedEvent ev \<longleftrightarrow> inS 64 (ev_RetentionBytes ev) \<and> inS 64 (ev_RetentionTime ev)
     \<and> list_all (\<lambda>p. inS 32 (ps_ID p) \<and> list_all (\<lambda>r. inS 32 (rs_BrokerID r) \<and> inS 32 (rs_LeaderEpoch r))
         (ps_Replicas p)) (ev_Partitions ev)"

lemma toUint16_Inr: "toUint16 f n = Inr v \<longleftrightarrow> v = n \<and> 0 \<le> n \<and> n \<le> 65535"
  by (auto simp: toUint16_def)

lemma encode_okEvent:
  assumes "encodeCreateTopicEvent ev = Inr b" "typedEvent ev"
  shows "okEvent ev"
proof -
  have v: "validEvent ev" and n: "length (ev_Name ev) \<le> 65535"
    and c: "ev_NumPartitions ev \<le> 65535" "ev_ReplicationFactor ev \<le> 65535"
    using assms(1) by (auto simp: encodeCreateTopicEvent_def bindE_Inr_iff toUint16_Inr
        validateCreateTopicEvent_Inr split: if_splits)
  have "okPartitionSpec p" if "p \<in> set (ev_Partitions ev)" for p
  proof -
    have "validPartition (ev_ReplicationFactor ev) p" using v that by (simp add: validEvent_def)
    then show ?thesis
      using assms(2) that
      by (auto simp: okPartitionSpec_def validPartition_def validReplicas_def okReplica_def
          typedEvent_def list_all_iff)
  qed
  then show ?thesis using v n c assms(2) by (simp add: okEvent_def typedEvent_def list_all_iff)
qed

lemma encode_storable:
  assumes "encodeCreateTopicEvent ev = Inr b" "wrapRecord b = Inr rec" "typedEvent ev"
    "length rec < 2 ^ 32"
  shows "storable ev \<and> rec = eventFrame ev"
proof -
  have "length rec = length b + 8"
    using assms(2) by (auto simp: wrapRecord_def Let_def bindE_Inr_iff)
  then show ?thesis
    using assms encode_okEvent [OF assms(1,3)] by (simp add: storable_def eventFrame_def)
qed

lemma eventLog_snoc [simp]: "eventLog (evs @ [ev]) = eventLog evs @ eventFrame ev"
  by (simp add: eventLog_def)

text \<open>One append keeps the log a log of whole events, and adds its event exactly if it succeeds.\<close>

lemma append_holds:
  assumes "holds s evs" "typedEvent ev" "AppendCreateTopic done s ev = (s', err)"
    "length (f_content (ms_f s')) < 2 ^ 32"
  shows "if err = None then storable ev \<and> holds s' (evs @ [ev]) else s' = s"
proof (cases "bindE (encodeCreateTopicEvent ev) wrapRecord")
  case (Inl e)
  then show ?thesis using assms
    by (auto simp: AppendCreateTopic_def holds_def bindE_def split: sum.splits if_splits)
next
  case (Inr rec)
  then obtain b where b: "encodeCreateTopicEvent ev = Inr b" "wrapRecord b = Inr rec"
    by (auto elim!: bindE_Inr_E)
  show ?thesis
  proof (cases "done")
    case True
    then show ?thesis using assms(3) by (auto simp: AppendCreateTopic_def)
  next
    case False
    have s': "err = None" "\<not> ms_closed s'" "f_content (ms_f s') = eventLog evs @ rec"
      "ms_end s' = length (eventLog evs @ rec)"
      using assms(1,3) False b
      by (auto simp: AppendCreateTopic_def holds_def fileWrite_def fileSeek_def)
    then have "storable ev \<and> rec = eventFrame ev"
      using encode_storable [OF b assms(2)] assms(4) by simp
    then show ?thesis using s' by (simp add: holds_def)
  qed
qed

text \<open>A run of appends, with the events that were acknowledged.\<close>

fun appendAll :: "Store \<Rightarrow> (bool \<times> CreateTopicEvent) list \<Rightarrow> Store \<times> CreateTopicEvent list" where
  "appendAll s [] = (s, [])"
| "appendAll s ((done, ev) # es) =
    (let (s', err) = AppendCreateTopic done s ev; (s'', acked) = appendAll s' es
     in (s'', if err = None then ev # acked else acked))"

definition atEnd :: "Store \<Rightarrow> bool" where
  "atEnd s \<longleftrightarrow> \<not> ms_closed s \<and> ms_end s = length (f_content (ms_f s))"

lemma append_atEnd:
  assumes "atEnd s" "AppendCreateTopic done s ev = (s', err)"
  shows "atEnd s' \<and> length (f_content (ms_f s)) \<le> length (f_content (ms_f s'))"
  using assms
  by (auto simp: AppendCreateTopic_def atEnd_def fileWrite_def fileSeek_def split: if_splits sum.splits)

lemma appendAll_grows:
  "atEnd s \<Longrightarrow> length (f_content (ms_f s)) \<le> length (f_content (ms_f (fst (appendAll s es))))"
proof (induction es arbitrary: s)
  case (Cons e es)
  obtain d ev s1 err where e: "e = (d, ev)" "AppendCreateTopic d s ev = (s1, err)" by fastforce
  then show ?case using Cons.IH [of s1] append_atEnd [OF Cons.prems e(2)] by (simp add: case_prod_unfold Let_def)
qed simp

lemma appendAll_holds:
  "holds s evs \<Longrightarrow> list_all storable evs \<Longrightarrow> list_all (\<lambda>(d, ev). typedEvent ev) es \<Longrightarrow>
   length (f_content (ms_f (fst (appendAll s es)))) < 2 ^ 32 \<Longrightarrow>
   holds (fst (appendAll s es)) (evs @ snd (appendAll s es))
   \<and> list_all storable (evs @ snd (appendAll s es))"
proof (induction es arbitrary: s evs)
  case (Cons e es)
  obtain d ev s1 err where e: "e = (d, ev)" and a: "AppendCreateTopic d s ev = (s1, err)" by fastforce
  have fin: "length (f_content (ms_f (fst (appendAll s1 es)))) < 2 ^ 32"
    using Cons.prems(4) by (simp add: e a case_prod_unfold Let_def)
  have t: "typedEvent ev" "list_all (\<lambda>(d, ev). typedEvent ev) es" using Cons.prems(3) by (simp_all add: e)
  have "atEnd s" using Cons.prems(1) by (simp add: atEnd_def holds_def)
  then have "length (f_content (ms_f s1)) < 2 ^ 32"
    using append_atEnd [OF _ a] appendAll_grows [of s1 es] fin by fastforce
  note step = append_holds [OF Cons.prems(1) t(1) a this]
  show ?case
  proof (cases "err = None")
    case True
    then show ?thesis using Cons.IH [of s1 "evs @ [ev]"] step Cons.prems(2) t(2) fin
      by (simp add: e a case_prod_unfold Let_def)
  next
    case False
    then show ?thesis using Cons.IH [of s evs] step Cons.prems(1,2) t(2) fin
      by (auto simp: e a case_prod_unfold Let_def)
  qed
qed simp

text \<open>Replay stops in front of a frame whose record does not decode.\<close>

lemma replay_damaged:
  assumes "list_all storable evs" "int (length rec) < 2 ^ 32" "isErr (decodeRecord_meta rec)"
    and "length (eventLog evs @ le32 (int (length rec)) @ rec @ t) < 2 ^ 32"
  shows "replay Map.empty 0 (eventLog evs @ le32 (int (length rec)) @ rec @ t) =
    Some (topicsOf evs, length (eventLog evs))"
proof -
  let ?p = "eventLog evs"
  let ?c = "?p @ le32 (int (length rec)) @ rec @ t"
  have r1: "fileReadAt ?c 4 (length ?p) = Inr (le32 (int (length rec)))"
    by (rule fileReadAt_append) simp_all
  have "fileReadAt ((?p @ le32 (int (length rec))) @ rec @ t) (length rec) (length ?p + 4) = Inr rec"
    by (rule fileReadAt_append) simp_all
  then have r2: "fileReadAt ?c (length rec) (length ?p + 4) = Inr rec" by simp
  obtain e where d: "decodeRecord_meta rec = Inl e" using assms(3) by (auto simp: isErr_def split: sum.splits)
  have u: "inU 32 (int (length rec))" using assms(2) by (simp add: inU_def)
  have "recoverLoop (\<lambda>n. False) ?c topics (length ?p) = Some (topics, length ?p, True, None)" for topics
    by (subst recoverLoop.simps) (simp only: r1 sum.case if_False, simp add: r2 u d Let_def)
  then have stop: "replay topics (length ?p) ?c = Some (topics, length ?p)" for topics
    by (simp add: replay_def)
  show ?thesis
    using meta.scan_through [of Map.empty evs "[]" "le32 (int (length rec)) @ rec @ t"] assms(1,4) stop
    by (simp add: wal_ok_const wal_log_const eventLog_def foldl_addTopic_empty)
qed

section \<open>Properties\<close>

text \<open>A topic of one partition on broker 1, an event for the witnesses.\<close>

definition exampleEvent :: CreateTopicEvent where
  "exampleEvent = \<lparr>ev_Name = ''t'', ev_NumPartitions = 1, ev_ReplicationFactor = 1,
     ev_RetentionBytes = -1, ev_RetentionTime = 0,
     ev_Partitions = [\<lparr>ps_ID = 0, ps_Replicas = [\<lparr>rs_BrokerID = 1, rs_Role = 0, rs_LeaderEpoch = 0\<rparr>]\<rparr>]\<rparr>"

definition exampleConfig :: BrokerConfig where
  "exampleConfig = \<lparr>bc_BrokerID = 1, bc_ReplicationFactor = 1, bc_DataDir = ''data'', bc_BinaryAddr = '''',
     bc_MQTTAddr = '''', bc_HTTPAddr = '''', bc_MaxSegmentBytes = 0, bc_RetentionBytes = -1,
     bc_RetentionTime = 0, bc_ClusterID = '''', bc_ControllerAddr = '''', bc_AdvertisedAddr = '''',
     bc_StaticCluster = None, bc_ControllerMode = '''', bc_RaftDir = '''', bc_RaftBindAddr = '''',
     bc_RaftPeers = [], bc_Replication = False\<rparr>"

definition openedOn :: "bytes \<Rightarrow> Store" where
  "openedOn c = \<lparr>ms_f = \<lparr>f_content = c, f_pos = 0\<rparr>, ms_closed = False, ms_path = ''data/metadata.log'',
     ms_end = length c\<rparr>"

lemma NewStore_example: "NewStore exampleConfig (Some c) = Inr (openedOn c)"
  by (simp add: NewStore_def exampleConfig_def openedOn_def)

lemma exampleEvent_encode: "\<exists>b. encodeCreateTopicEvent exampleEvent = Inr b \<and> length b = 42"
  by (simp add: encodeCreateTopicEvent_def validateCreateTopicEvent_def exampleEvent_def
      validatePartitionRole_def RoleLeader_def RoleFollower_def putPartitionSpec_def putReplicaSpec_def
      partitionRoleToByte_def)

lemma exampleEvent_typed: "typedEvent exampleEvent"
  by (simp add: typedEvent_def exampleEvent_def inS_def)

lemma exampleEvent_storable: "storable exampleEvent \<and> length (eventFrame exampleEvent) = 50"
proof -
  obtain b where b: "encodeCreateTopicEvent exampleEvent = Inr b" "length b = 42"
    using exampleEvent_encode by blast
  show ?thesis using encode_okEvent [OF b(1) exampleEvent_typed] b
    by (simp add: storable_def eventFrame_def wrapRecord_ok)
qed

lemma append_cancelled: "AppendCreateTopic True s ev = (s, Some Canceled)"
  by (simp add: AppendCreateTopic_def)

lemma exampleEvent_append:
  "AppendCreateTopic False (openedOn []) exampleEvent =
   ((openedOn [])\<lparr>ms_f := \<lparr>f_content = eventFrame exampleEvent, f_pos = 50\<rparr>, ms_end := 50\<rparr>, None)"
proof -
  obtain b where b: "encodeCreateTopicEvent exampleEvent = Inr b" "length b = 42"
    using exampleEvent_encode by blast
  show ?thesis
    using b by (simp add: AppendCreateTopic_def eventFrame_def wrapRecord_ok openedOn_def fileWrite_def
        fileSeek_def overwrite_def)
qed

text \<open>C21: acknowledged topics survive a restart.  Starting from a store that holds the events
  \<open>evs\<close>, after any run of appends (some cancelled, some invalid) a store opened on the file
  recovers, for every topic name, the state of the first acknowledged event with that name,
  and nothing else; the file then holds exactly the acknowledged events.\<close>

theorem metadata_append_recover:
  assumes "holds s evs" "list_all storable evs" "list_all (\<lambda>(d, ev). typedEvent ev) es"
    and "appendAll s es = (s1, acked)" "length (f_content (ms_f s1)) < 2 ^ 32"
    and "NewStore cfg (Some (f_content (ms_f s1))) = Inr s2"
  shows "\<exists>s3. RecoverTopics (\<lambda>n. False) s2 = Some (s3, topicsOf (evs @ acked), None)
    \<and> holds s3 (evs @ acked)"
proof -
  have h: "holds s1 (evs @ acked)" "list_all storable (evs @ acked)"
    using appendAll_holds [OF assms(1-3)] assms(4,5) by simp_all
  then have c: "f_content (ms_f s1) = eventLog (evs @ acked)" by (simp add: holds_def)
  show ?thesis
    using NewStore_recover [OF assms(6)] replay_log [OF h(2)] assms(5) unfolding c by simp
qed

theorem metadata_append_recover_witness:
  "\<exists>s1 s3. appendAll (openedOn []) [(False, exampleEvent), (True, exampleEvent)] = (s1, [exampleEvent])
    \<and> RecoverTopics (\<lambda>n. False) (openedOn (f_content (ms_f s1)))
       = Some (s3, [''t'' \<mapsto> toTopicState exampleEvent], None)"
proof -
  let ?es = "[(False, exampleEvent), (True, exampleEvent)]"
  obtain s1 where a: "appendAll (openedOn []) ?es = (s1, [exampleEvent])"
    and l: "f_content (ms_f s1) = eventFrame exampleEvent"
    by (simp add: exampleEvent_append append_cancelled)
  have h: "holds (openedOn []) []" by (simp add: holds_def openedOn_def eventLog_def)
  have "topicsOf [exampleEvent] = [''t'' \<mapsto> toTopicState exampleEvent]"
    by (simp add: topicsOf_def exampleEvent_def)
  then show ?thesis
    using metadata_append_recover [OF h _ _ a _ NewStore_example] a l exampleEvent_typed
      exampleEvent_storable by auto
qed

text \<open>C22: crash recovery of \<^verbatim>\<open>metadata.log\<close>.  When the file is cut at any byte, a store opened
  on what is left recovers the longest prefix of the events whose frames lie before the cut,
  without an error, and truncates the file to exactly those events, so that the next append
  continues a well-formed log.\<close>

theorem metadata_crash_recovery:
  assumes "list_all storable evs" "length (eventLog evs) < 2 ^ 32"
    and "NewStore cfg (Some (take k (eventLog evs))) = Inr s"
  shows "\<exists>m s'. m \<le> length evs \<and> length (eventLog (take m evs)) \<le> k
    \<and> (m < length evs \<longrightarrow> k < length (eventLog (take (Suc m) evs)))
    \<and> RecoverTopics (\<lambda>n. False) s = Some (s', topicsOf (take m evs), None) \<and> holds s' (take m evs)"
proof -
  obtain m where m: "m \<le> length evs" "length (eventLog (take m evs)) \<le> k"
      "m < length evs \<longrightarrow> k < length (eventLog (take (Suc m) evs))"
    and r: "replay Map.empty 0 (take k (eventLog evs)) = Some (topicsOf (take m evs), length (eventLog (take m evs)))"
    using replay_cut [OF assms(1,2)] .
  have "eventLog evs = eventLog (take m evs) @ eventLog (drop m evs)"
    unfolding eventLog_def by (metis append_take_drop_id concat_append map_append)
  then have "take (length (eventLog (take m evs))) (take k (eventLog evs)) = eventLog (take m evs)"
    using m(2) by (simp add: min_absorb1)
  then show ?thesis using NewStore_recover [OF assms(3) r] m by blast
qed

theorem metadata_crash_recovery_witness:
  "\<exists>m s'. length (eventLog (take m [exampleEvent, exampleEvent])) \<le> 60
    \<and> RecoverTopics (\<lambda>n. False) (openedOn (take 60 (eventLog [exampleEvent, exampleEvent])))
       = Some (s', topicsOf (take m [exampleEvent, exampleEvent]), None)
    \<and> holds s' (take m [exampleEvent, exampleEvent])"
proof -
  have "list_all storable [exampleEvent, exampleEvent]" "length (eventLog [exampleEvent, exampleEvent]) < 2 ^ 32"
    using exampleEvent_storable by (simp_all add: eventLog_def)
  from metadata_crash_recovery [OF this NewStore_example, of 60] show ?thesis by blast
qed

text \<open>C27: replay always ends.  On any file of less than 4 GiB, whatever it holds and whenever
  the context is cancelled, the replay returns, and the store's end is within the file.\<close>

theorem metadata_replay_terminates:
  assumes "length (f_content (ms_f s)) < 2 ^ 32"
  shows "\<exists>s' topics err. RecoverTopics ctx s = Some (s', topics, err)"
  using recoverLoop_terminates [OF assms, of ctx Map.empty 0]
  by (auto simp: RecoverTopics_def Let_def)

theorem metadata_replay_terminates_witness:
  "\<exists>s' topics err. RecoverTopics (\<lambda>n. n = 3) (openedOn [5,0,0,0,1,2,3]) = Some (s', topics, err)"
  by (rule metadata_replay_terminates) (simp add: openedOn_def)

text \<open>A damaged event is never replayed.  If one byte of the checksummed part of an event's
  frame is changed, replay returns exactly the topics of the events before it, drops it and
  everything behind it, and truncates the file there.\<close>

theorem metadata_corruption_detected:
  assumes "list_all storable evs" "storable ev"
    and "8 \<le> i" "i < length (eventFrame ev)" "x \<noteq> eventFrame ev ! i"
    and "NewStore cfg (Some (eventLog evs @ (eventFrame ev)[i := x] @ rest)) = Inr s"
    and "length (eventLog evs @ (eventFrame ev)[i := x] @ rest) < 2 ^ 32"
  shows "\<exists>s'. RecoverTopics (\<lambda>n. False) s = Some (s', topicsOf evs, None) \<and> holds s' evs"
proof -
  obtain rec payload where f: "eventFrame ev = le32 (int (length rec)) @ rec"
    and p: "rec = le32 (crc32c payload) @ payload" and le: "length rec \<le> 4294967291"
    using eventFrame_parts [OF assms(2)] by metis
  let ?rec = "le32 (crc32c payload) @ payload[i - 8 := x]"
  obtain j where i: "i = 8 + j" using assms(3) le_Suc_ex by blast
  have f': "(eventFrame ev)[i := x] = le32 (int (length ?rec)) @ ?rec"
    by (simp add: i f p list_update_append)
  have "i - 8 < length payload" "x \<noteq> payload ! (i - 8)"
    using assms(4,5) by (simp_all add: i f p nth_append)
  then have d: "isErr (decodeRecord_meta ?rec)" by (rule decodeRecord_damaged)
  have "int (length ?rec) < 2 ^ 32" using le p by simp
  then have r: "replay Map.empty 0 (eventLog evs @ (eventFrame ev)[i := x] @ rest) =
      Some (topicsOf evs, length (eventLog evs))"
    using replay_damaged [OF assms(1) _ d, of rest] assms(7) unfolding f' by simp
  show ?thesis using NewStore_recover [OF assms(6) r] by simp
qed

theorem metadata_corruption_detected_witness:
  "\<exists>s' x. RecoverTopics (\<lambda>n. False)
      (openedOn (eventLog [exampleEvent] @ (eventFrame exampleEvent)[20 := x] @ []))
    = Some (s', topicsOf [exampleEvent], None) \<and> holds s' [exampleEvent]"
proof -
  let ?x = "eventFrame exampleEvent ! 20 + 1"
  have "\<exists>s'. RecoverTopics (\<lambda>n. False) (openedOn (eventLog [exampleEvent] @ (eventFrame exampleEvent)[20 := ?x] @ []))
    = Some (s', topicsOf [exampleEvent], None) \<and> holds s' [exampleEvent]"
    using exampleEvent_storable
    by (intro metadata_corruption_detected [OF _ _ _ _ _ NewStore_example, where i = 20]) (auto simp: eventLog_def)
  then show ?thesis by blast
qed

text \<open>C28: validation accepts an event exactly if its layout is sound: a name, at least one
  partition, as many partition specs as declared with distinct non-negative ids, and for every
  partition as many replicas as the replication factor, on distinct brokers with positive ids,
  exactly one of them the leader; and every decoded create-topic record passes it.\<close>

theorem validate_decides_layout:
  "(validateCreateTopicEvent ev = Inr () \<longleftrightarrow> validEvent ev)
   \<and> (decodeRecord_meta rec = Inr (CreateTopic e) \<longrightarrow> validEvent e)"
  by (auto simp: validateCreateTopicEvent_Inr decodeRecord_meta_def decodeCreateTopicEvent_def
      decodeCreateTopicEventV1_def decodeCreateTopicEventV2_def Let_def bindE_Inr_iff
      split: if_splits)

theorem validate_decides_layout_witness:
  "\<exists>rec. (validateCreateTopicEvent exampleEvent = Inr () \<longleftrightarrow> validEvent exampleEvent)
    \<and> decodeRecord_meta rec = Inr (CreateTopic exampleEvent) \<and> validEvent exampleEvent"
proof -
  obtain rec where "decodeRecord_meta rec = Inr (CreateTopic exampleEvent)"
    using eventFrame_parts exampleEvent_storable by metis
  then show ?thesis using validate_decides_layout [of exampleEvent rec exampleEvent] by blast
qed

end
