(* ===== verification/Controller.thy ===== *)
theory Controller
  imports MetadataStore "HOL-Library.List_Lexorder" "HOL-Library.Char_ord"
begin

text \<open>
  Cluster metadata (\<^verbatim>\<open>internal/controller\<close>): the single-node controller, the state machine that
  the Raft controller replicates, and the publisher that hands new versions to watchers.

  Both controllers keep a \<open>ClusterMetadata\<close>.  \<^verbatim>\<open>sort.Slice\<close> sorts the broker list of the state in
  place, which the operations below write back.  A command of the Raft log reaches the state
  machine decoded: the JSON encoding of commands and snapshots and the consensus itself
  belong to the libraries.
\<close>

section \<open>Placement\<close>

definition normalizeReplicationFactor :: "int \<Rightarrow> int \<Rightarrow> int" where
  "normalizeReplicationFactor defaultRF rf =
    (let rf1 = (if rf \<le> 0 then defaultRF else rf) in if rf1 \<le> 0 then 1 else rf1)"

definition normalizeTopicConfig :: "int \<Rightarrow> TopicConfig \<Rightarrow> TopicConfig" where
  "normalizeTopicConfig defaultRF cfg =
    (let cfg1 = (if tc_Partitions cfg \<le> 0 then cfg\<lparr>tc_Partitions := 1\<rparr> else cfg)
     in cfg1\<lparr>tc_ReplicationFactor := normalizeReplicationFactor defaultRF (tc_ReplicationFactor cfg1)\<rparr>)"

definition topicAssigned :: "PartitionAssignment list \<Rightarrow> string \<Rightarrow> bool" where
  "topicAssigned assignments name = list_ex (\<lambda>p. pa_Topic p = name) assignments"

definition brokerInfoEqual :: "BrokerInfo \<Rightarrow> BrokerInfo \<Rightarrow> bool" where
  "brokerInfoEqual a b \<longleftrightarrow> bi_BrokerID a = bi_BrokerID b \<and> bi_Host a = bi_Host b \<and> bi_Port a = bi_Port b
     \<and> bi_Rack a = bi_Rack b \<and> bi_HTTPAddr a = bi_HTTPAddr b \<and> bi_ControllerAddr a = bi_ControllerAddr b"

definition brokerPresent :: "int \<Rightarrow> BrokerInfo list \<Rightarrow> bool" where
  "brokerPresent i brokers = list_ex (\<lambda>b. bi_BrokerID b = i) brokers"

definition brokersFromInts :: "int list \<Rightarrow> BrokerInfo list" where
  "brokersFromInts ids = map (\<lambda>i. \<lparr>bi_BrokerID = i, bi_Host = '''', bi_Port = 0, bi_Rack = '''',
     bi_HTTPAddr = '''', bi_ControllerAddr = ''''\<rparr>) ids"

definition contains :: "int list \<Rightarrow> int \<Rightarrow> bool" where
  "contains xs i = list_ex (\<lambda>v. v = i) xs"

definition removeID :: "int list \<Rightarrow> int \<Rightarrow> int list" where
  "removeID xs i = filter (\<lambda>v. v \<noteq> i) xs"

definition ensureLeaderInISR :: "int \<Rightarrow> int list \<Rightarrow> int list" where
  "ensureLeaderInISR leader isr = (if contains isr leader then isr else isr @ [leader])"

definition sortBrokers :: "BrokerInfo list \<Rightarrow> BrokerInfo list" where
  "sortBrokers brokers = sort_key bi_BrokerID brokers"

text \<open>The body of the loop of \<^verbatim>\<open>assignTopicPartitions\<close>; \<open>brokers\<close> is sorted and not empty.\<close>

definition assignPartition :: "BrokerInfo list \<Rightarrow> string \<Rightarrow> nat \<Rightarrow> nat \<Rightarrow> nat \<Rightarrow> PartitionAssignment" where
  "assignPartition brokers name replicaCount counter pid =
    (let leaderIdx = counter mod length brokers;
         replicas = map (\<lambda>i. bi_BrokerID (brokers ! ((leaderIdx + i) mod length brokers))) [0..<replicaCount]
     in \<lparr>pa_Topic = name, pa_Partition = int pid, pa_Replicas = replicas, pa_ISR = replicas,
         pa_Leader = replicas ! 0, pa_LeaderEpoch = 0\<rparr>)"

definition assignTopicPartitions :: "BrokerConfig \<Rightarrow> BrokerInfo list \<Rightarrow> string \<Rightarrow> int \<Rightarrow> int \<Rightarrow>
    PartitionAssignment list \<Rightarrow> PartitionAssignment list" where
  "assignTopicPartitions cfg brokers name partitions rf existing =
    (if brokers = [] then []
     else
       (let bs = sortBrokers brokers;
            rf1 = normalizeReplicationFactor (bc_ReplicationFactor cfg) rf;
            partitions1 = (if partitions < 0 then 0 else partitions);
            replicaCount = (if rf1 > int (length bs) then length bs else nat rf1)
        in map (\<lambda>pid. assignPartition bs name replicaCount (length existing + pid) pid) [0..<nat partitions1]))"

definition replicaEpoch :: "int \<Rightarrow> ReplicaSpec list \<Rightarrow> int" where
  "replicaEpoch i replicas = (case find (\<lambda>r. rs_BrokerID r = i) replicas of
       Some r \<Rightarrow> rs_LeaderEpoch r
     | None \<Rightarrow> (case replicas of [] \<Rightarrow> 0 | r # _ \<Rightarrow> rs_LeaderEpoch r))"

text \<open>The recovered topics are a Go map: an association list with distinct keys.\<close>

fun buildTopics :: "BrokerConfig \<Rightarrow> BrokerInfo list \<Rightarrow> (string \<times> TopicState) list \<Rightarrow> string list \<Rightarrow>
    PartitionAssignment list \<Rightarrow> PartitionAssignment list" where
  "buildTopics cfg brokers topics [] res = res"
| "buildTopics cfg brokers topics (name # names) res = (case map_of topics name of
       None \<Rightarrow> buildTopics cfg brokers topics names res
     | Some state \<Rightarrow>
       (let parts = sort_key ps_ID (ts_Partitions state);
            rf = normalizeReplicationFactor (bc_ReplicationFactor cfg) (ts_ReplicationFactor state);
            assignments = assignTopicPartitions cfg brokers name (int (length parts)) rf res;
            assignments' = map2 (\<lambda>a ps. a\<lparr>pa_Partition := ps_ID ps,
              pa_LeaderEpoch := replicaEpoch (pa_Leader a) (ps_Replicas ps)\<rparr>) assignments parts
        in buildTopics cfg brokers topics names (res @ assignments')))"

definition buildAssignments :: "BrokerConfig \<Rightarrow> BrokerInfo list \<Rightarrow> (string \<times> TopicState) list \<Rightarrow> PartitionAssignment list" where
  "buildAssignments cfg brokers topics =
    (if brokers = [] then []
     else buildTopics cfg (sortBrokers brokers) topics (sort (map fst topics)) [])"

definition resolveBrokers :: "BrokerConfig \<Rightarrow> (BrokerInfo list \<times> string) result" where
  "resolveBrokers cfg = (case bc_StaticCluster cfg of
       None \<Rightarrow>
         (let host = (if bc_AdvertisedAddr cfg = '''' then bc_BinaryAddr cfg else bc_AdvertisedAddr cfg)
          in Inr ([\<lparr>bi_BrokerID = bc_BrokerID cfg, bi_Host = host, bi_Port = 0, bi_Rack = '''',
                    bi_HTTPAddr = '''', bi_ControllerAddr = ''''\<rparr>], bc_ClusterID cfg))
     | Some sc \<Rightarrow>
         (if sc_Brokers sc = [] then Inl (Errorf ''static cluster must list brokers'')
          else if \<not> brokerPresent (bc_BrokerID cfg) (sc_Brokers sc)
            then Inl (Errorf ''local broker %d not in static cluster'')
          else Inr (sc_Brokers sc, if sc_ClusterID sc = '''' then bc_ClusterID cfg else sc_ClusterID sc)))"

section \<open>Transitions of the metadata\<close>

text \<open>
  The transitions of the single-node controller: replacing or adding a broker, placing a topic, and moving a replica in or out of the
  in-sync set.  \<open>None\<close> means that nothing changed.  The Raft state machine has copies of its own of them, which follow below.
\<close>

fun replaceBroker :: "BrokerInfo \<Rightarrow> BrokerInfo list \<Rightarrow> BrokerInfo list option" where
  "replaceBroker info [] = Some [info]"
| "replaceBroker info (b # bs) =
    (if bi_BrokerID b \<noteq> bi_BrokerID info then map_option (Cons b) (replaceBroker info bs)
     else if brokerInfoEqual b info then None
     else Some (info # bs))"

definition upsertBroker :: "ClusterMetadata \<Rightarrow> BrokerInfo \<Rightarrow> ClusterMetadata" where
  "upsertBroker meta info = (case replaceBroker info (cm_Brokers meta) of
       None \<Rightarrow> meta
     | Some bs \<Rightarrow> meta\<lparr>cm_Brokers := sortBrokers bs, cm_Version := wrapS 64 (cm_Version meta + 1)\<rparr>)"

definition placeTopic :: "BrokerConfig \<Rightarrow> ClusterMetadata \<Rightarrow> string \<Rightarrow> TopicConfig \<Rightarrow> ClusterMetadata result" where
  "placeTopic cfg meta name tcfg =
    (if name = '''' then Inl (Errorf ''topic name is required'')
     else if topicAssigned (cm_Partitions meta) name then Inl CtrlTopicExists
     else if tc_Partitions tcfg < 0 then Inl (Errorf ''partitions must be >= 0'')
     else
       (let tcfg' = normalizeTopicConfig (bc_ReplicationFactor cfg) tcfg;
            newParts = assignTopicPartitions cfg (cm_Brokers meta) name (tc_Partitions tcfg')
                         (tc_ReplicationFactor tcfg') (cm_Partitions meta)
        in Inr (meta\<lparr>cm_Brokers := sortBrokers (cm_Brokers meta), cm_Partitions := cm_Partitions meta @ newParts,
             cm_Version := wrapS 64 (cm_Version meta + 1)\<rparr>)))"

fun findPartition :: "string \<Rightarrow> int \<Rightarrow> PartitionAssignment list \<Rightarrow> nat option" where
  "findPartition topic part [] = None"
| "findPartition topic part (p # ps) =
    (if pa_Topic p = topic \<and> pa_Partition p = part then Some 0 else map_option Suc (findPartition topic part ps))"

definition progressISR :: "PartitionAssignment \<Rightarrow> int \<Rightarrow> int \<Rightarrow> int \<Rightarrow> PartitionAssignment" where
  "progressISR assign brokerID lastOffset leaderHighWatermark =
    (let shouldBeISR = (lastOffset \<ge> leaderHighWatermark);
         isr = ensureLeaderInISR (pa_Leader assign) (pa_ISR assign);
         inISR = contains isr brokerID
     in assign\<lparr>pa_ISR :=
          (if shouldBeISR \<and> \<not> inISR then isr @ [brokerID]
           else if \<not> shouldBeISR \<and> inISR \<and> brokerID \<noteq> pa_Leader assign then removeID isr brokerID
           else isr)\<rparr>)"

text \<open>A progress report as a function on the metadata; the code has it twice, in the methods of the two controllers.\<close>

definition reportProgress :: "ClusterMetadata \<Rightarrow> string \<Rightarrow> int \<Rightarrow> int \<Rightarrow> int \<Rightarrow> int \<Rightarrow> ClusterMetadata result" where
  "reportProgress meta topic part brokerID lastOffset leaderHighWatermark =
    (case findPartition topic part (cm_Partitions meta) of
       None \<Rightarrow> Inl (Errorf ''partition not found'')
     | Some idx \<Rightarrow>
       (let assign = cm_Partitions meta ! idx in
        if \<not> contains (pa_Replicas assign) brokerID then Inl (Errorf ''broker %d not in replicas'')
        else Inr (meta\<lparr>cm_Partitions := (cm_Partitions meta)[idx := progressISR assign brokerID lastOffset leaderHighWatermark],
               cm_Version := wrapS 64 (cm_Version meta + 1)\<rparr>)))"

section \<open>The single-node controller\<close>

record SingleNodeController =
  sn_meta :: ClusterMetadata
  sn_cfg :: BrokerConfig

definition NewSingleNodeController :: "BrokerConfig \<Rightarrow> (string \<times> TopicState) list \<Rightarrow> SingleNodeController result" where
  "NewSingleNodeController cfg topics = bindE (resolveBrokers cfg) (\<lambda>(brokers, clusterID).
     Inr \<lparr>sn_meta = \<lparr>cm_ClusterID = clusterID, cm_Version = 1, cm_Brokers = sortBrokers brokers,
            cm_Partitions = buildAssignments cfg brokers topics\<rparr>, sn_cfg = cfg\<rparr>)"

definition GetClusterMetadata_single :: "SingleNodeController \<Rightarrow> ClusterMetadata result" where
  "GetClusterMetadata_single c = Inr (sn_meta c)"

definition RegisterBroker_single :: "SingleNodeController \<Rightarrow> BrokerInfo \<Rightarrow> SingleNodeController \<times> go_error option" where
  "RegisterBroker_single c info =
    (if bi_BrokerID info \<le> 0 then (c, Some (Errorf ''invalid broker id %d''))
     else case bc_StaticCluster (sn_cfg c) of
       None \<Rightarrow>
         (if bi_BrokerID info \<noteq> bc_BrokerID (sn_cfg c)
          then (c, Some (Errorf ''single-node controller refuses broker %d (local %d)''))
          else (c\<lparr>sn_meta := upsertBroker (sn_meta c) info\<rparr>, None))
     | Some sc \<Rightarrow>
         (if \<not> brokerPresent (bi_BrokerID info) (sc_Brokers sc)
          then (c, Some (Errorf ''broker %d not in static cluster''))
          else (c\<lparr>sn_meta := upsertBroker (sn_meta c) info\<rparr>, None)))"

definition AssignTopic_single :: "SingleNodeController \<Rightarrow> string \<Rightarrow> TopicConfig \<Rightarrow> SingleNodeController \<times> ClusterMetadata result" where
  "AssignTopic_single c name tcfg = (case placeTopic (sn_cfg c) (sn_meta c) name tcfg of
       Inl e \<Rightarrow> (c, Inl e)
     | Inr meta \<Rightarrow> (c\<lparr>sn_meta := meta\<rparr>, Inr meta))"

text \<open>The membership test goes through \<^verbatim>\<open>brokerPresent\<close> and \<^verbatim>\<open>brokersFromInts\<close> here; the metadata is returned beside an error.\<close>

definition ReportReplicaProgress_single :: "SingleNodeController \<Rightarrow> string \<Rightarrow> int \<Rightarrow> int \<Rightarrow> int \<Rightarrow> int \<Rightarrow>
    SingleNodeController \<times> ClusterMetadata \<times> go_error option" where
  "ReportReplicaProgress_single c topic part brokerID lastOffset leaderHighWatermark =
    (let meta = sn_meta c in case findPartition topic part (cm_Partitions meta) of
       None \<Rightarrow> (c, meta, Some (Errorf ''partition not found''))
     | Some idx \<Rightarrow>
       (let assign = cm_Partitions meta ! idx in
        if \<not> brokerPresent brokerID (brokersFromInts (pa_Replicas assign))
        then (c, meta, Some (Errorf ''broker %d not in replicas''))
        else
          (let meta' = meta\<lparr>cm_Partitions := (cm_Partitions meta)[idx := progressISR assign brokerID lastOffset leaderHighWatermark],
                 cm_Version := wrapS 64 (cm_Version meta + 1)\<rparr>
           in (c\<lparr>sn_meta := meta'\<rparr>, meta', None))))"

section \<open>The replicated state machine\<close>

type_synonym commandType = int

definition cmdAssignTopic :: commandType where "cmdAssignTopic = 1"
definition cmdReportReplicaProgress :: commandType where "cmdReportReplicaProgress = 2"
definition cmdRegisterBroker :: commandType where "cmdRegisterBroker = 3"

lemmas commandType_defs = cmdAssignTopic_def cmdReportReplicaProgress_def cmdRegisterBroker_def

record raftCommand =
  rc_Type :: commandType
  rc_Topic :: string
  rc_Part :: int
  rc_Broker :: int
  rc_TopicConfig :: TopicConfig
  rc_LastOffset :: int
  rc_LeaderHighWatermark :: int
  rc_BrokerInfo :: "BrokerInfo option"

record raftMetadataFSM =
  fsm_meta :: ClusterMetadata
  fsm_cfg :: BrokerConfig

definition newRaftMetadataFSM :: "BrokerConfig \<Rightarrow> ClusterMetadata \<Rightarrow> raftMetadataFSM" where
  "newRaftMetadataFSM cfg initial = \<lparr>fsm_meta = initial, fsm_cfg = cfg\<rparr>"

fun partitionIndex :: "PartitionAssignment list \<Rightarrow> nat \<Rightarrow> string \<Rightarrow> int \<Rightarrow> int" where
  "partitionIndex [] i topic part = -1"
| "partitionIndex (p # ps) i topic part =
    (if pa_Topic p = topic \<and> pa_Partition p = part then int i else partitionIndex ps (Suc i) topic part)"

definition applyReplicaProgressLocked :: "raftMetadataFSM \<Rightarrow> string \<Rightarrow> int \<Rightarrow> int \<Rightarrow> int \<Rightarrow> int \<Rightarrow>
    raftMetadataFSM \<times> go_error option" where
  "applyReplicaProgressLocked f topic part brokerID lastOffset leaderHighWatermark =
    (let idx = partitionIndex (cm_Partitions (fsm_meta f)) 0 topic part in
     if idx = -1 then (f, Some (Errorf ''partition not found''))
     else let assign = cm_Partitions (fsm_meta f) ! nat idx in
       if \<not> contains (pa_Replicas assign) brokerID then (f, Some (Errorf ''broker %d not in replicas''))
       else
         (let shouldBeISR = (lastOffset \<ge> leaderHighWatermark);
              assign1 = assign\<lparr>pa_ISR := ensureLeaderInISR (pa_Leader assign) (pa_ISR assign)\<rparr>;
              inISR = contains (pa_ISR assign1) brokerID;
              assign2 =
                (if shouldBeISR \<and> \<not> inISR then assign1\<lparr>pa_ISR := pa_ISR assign1 @ [brokerID]\<rparr>
                 else if \<not> shouldBeISR \<and> inISR \<and> brokerID \<noteq> pa_Leader assign1
                 then assign1\<lparr>pa_ISR := removeID (pa_ISR assign1) brokerID\<rparr>
                 else assign1)
          in (f\<lparr>fsm_meta := (fsm_meta f)\<lparr>cm_Partitions := (cm_Partitions (fsm_meta f))[nat idx := assign2],
                cm_Version := wrapS 64 (cm_Version (fsm_meta f) + 1)\<rparr>\<rparr>, None)))"

text \<open>The loop over the brokers with the comparison of the fields: \<open>Inl\<close> for the return when nothing changes, else the brokers and
  \<^verbatim>\<open>updated\<close>.\<close>

fun overwriteBroker :: "BrokerInfo list \<Rightarrow> BrokerInfo \<Rightarrow> unit + BrokerInfo list \<times> bool" where
  "overwriteBroker [] info = Inr ([], False)"
| "overwriteBroker (b # bs) info =
    (if bi_BrokerID b = bi_BrokerID info
     then (if bi_Host b = bi_Host info \<and> bi_Port b = bi_Port info \<and> bi_Rack b = bi_Rack info
             \<and> bi_HTTPAddr b = bi_HTTPAddr info \<and> bi_ControllerAddr b = bi_ControllerAddr info
           then Inl ()
           else Inr (info # bs, True))
     else case overwriteBroker bs info of Inl u \<Rightarrow> Inl u | Inr (bs', updated) \<Rightarrow> Inr (b # bs', updated))"

definition applyRegisterBrokerLocked :: "raftMetadataFSM \<Rightarrow> BrokerInfo \<Rightarrow> raftMetadataFSM \<times> go_error option" where
  "applyRegisterBrokerLocked f info =
    (if bi_BrokerID info \<le> 0 then (f, Some (Errorf ''invalid broker id %d''))
     else case overwriteBroker (cm_Brokers (fsm_meta f)) info of
       Inl _ \<Rightarrow> (f, None)
     | Inr (bs, updated) \<Rightarrow>
       (let bs' = (if \<not> updated then bs @ [info] else bs)
        in (f\<lparr>fsm_meta := (fsm_meta f)\<lparr>cm_Brokers := sort_key bi_BrokerID bs', cm_Version := wrapS 64 (cm_Version (fsm_meta f) + 1)\<rparr>\<rparr>, None)))"

text \<open>\<open>Apply\<close> also tells whether the new metadata is published.\<close>

definition Apply_fsm :: "raftMetadataFSM \<Rightarrow> raftCommand result \<Rightarrow> raftMetadataFSM \<times> go_error option \<times> ClusterMetadata option" where
  "Apply_fsm f decoded = (case decoded of
       Inl e \<Rightarrow> (f, Some e, None)
     | Inr cmd \<Rightarrow>
       (let (f', err) =
          (if rc_Type cmd = cmdAssignTopic
           then (if rc_Topic cmd = '''' then (f, Some (Errorf ''topic name is required''))
             else if topicAssigned (cm_Partitions (fsm_meta f)) (rc_Topic cmd) then (f, Some CtrlTopicExists)
             else if tc_Partitions (rc_TopicConfig cmd) < 0 then (f, Some (Errorf ''partitions must be >= 0''))
             else
               (let meta = fsm_meta f;
                    normalizedCfg = normalizeTopicConfig (bc_ReplicationFactor (fsm_cfg f)) (rc_TopicConfig cmd);
                    newParts = assignTopicPartitions (fsm_cfg f) (cm_Brokers meta) (rc_Topic cmd) (tc_Partitions normalizedCfg)
                      (tc_ReplicationFactor normalizedCfg) (cm_Partitions meta)
                in (f\<lparr>fsm_meta := meta\<lparr>cm_Brokers := sortBrokers (cm_Brokers meta), cm_Partitions := cm_Partitions meta @ newParts,
                      cm_Version := wrapS 64 (cm_Version meta + 1)\<rparr>\<rparr>, None)))
           else if rc_Type cmd = cmdReportReplicaProgress
           then applyReplicaProgressLocked f (rc_Topic cmd) (rc_Part cmd) (rc_Broker cmd) (rc_LastOffset cmd) (rc_LeaderHighWatermark cmd)
           else if rc_Type cmd = cmdRegisterBroker
           then (case rc_BrokerInfo cmd of
               None \<Rightarrow> (f, Some (Errorf ''missing broker info''))
             | Some info \<Rightarrow> applyRegisterBrokerLocked f info)
           else (f, Some (Errorf ''unknown command type %d'')))
        in (f', err, if err = None \<and> cm_Version (fsm_meta f') \<noteq> cm_Version (fsm_meta f) then Some (fsm_meta f') else None)))"

definition Restore_fsm :: "raftMetadataFSM \<Rightarrow> ClusterMetadata result \<Rightarrow> raftMetadataFSM \<times> go_error option \<times> ClusterMetadata option" where
  "Restore_fsm f decoded = (case decoded of
       Inl e \<Rightarrow> (f, Some e, None)
     | Inr meta \<Rightarrow> (f\<lparr>fsm_meta := meta\<rparr>, None, Some meta))"

text \<open>The commands that the methods of \<^verbatim>\<open>RaftController\<close> submit.\<close>

definition emptyTopicConfig :: TopicConfig where
  "emptyTopicConfig = \<lparr>tc_Partitions = 0, tc_ReplicationFactor = 0, tc_RetentionBytes = 0, tc_RetentionTime = 0\<rparr>"

definition RegisterBroker_cmd :: "BrokerInfo \<Rightarrow> raftCommand" where
  "RegisterBroker_cmd info = \<lparr>rc_Type = cmdRegisterBroker, rc_Topic = '''', rc_Part = 0, rc_Broker = 0,
     rc_TopicConfig = emptyTopicConfig, rc_LastOffset = 0, rc_LeaderHighWatermark = 0, rc_BrokerInfo = Some info\<rparr>"

definition AssignTopic_cmd :: "string \<Rightarrow> TopicConfig \<Rightarrow> raftCommand" where
  "AssignTopic_cmd name cfg = \<lparr>rc_Type = cmdAssignTopic, rc_Topic = name, rc_Part = 0, rc_Broker = 0,
     rc_TopicConfig = cfg, rc_LastOffset = 0, rc_LeaderHighWatermark = 0, rc_BrokerInfo = None\<rparr>"

definition ReportReplicaProgress_cmd :: "string \<Rightarrow> int \<Rightarrow> int \<Rightarrow> int \<Rightarrow> int \<Rightarrow> raftCommand" where
  "ReportReplicaProgress_cmd topic part brokerID lastOffset leaderHighWatermark =
     \<lparr>rc_Type = cmdReportReplicaProgress, rc_Topic = topic, rc_Part = part, rc_Broker = brokerID,
      rc_TopicConfig = emptyTopicConfig, rc_LastOffset = lastOffset, rc_LeaderHighWatermark = leaderHighWatermark,
      rc_BrokerInfo = None\<rparr>"

text \<open>\<^verbatim>\<open>buildServers\<close>: the voters of the first configuration, each id once.\<close>

fun addServers :: "(string \<times> string) list \<Rightarrow> (string \<times> string) list \<Rightarrow> (string \<times> string) list" where
  "addServers servers [] = servers"
| "addServers servers ((i, addr) # rest) =
    (if i \<in> fst ` set servers then addServers servers rest else addServers (servers @ [(i, addr)]) rest)"

definition buildServers :: "BrokerConfig \<Rightarrow> string \<Rightarrow> string \<Rightarrow> (string \<times> string) list" where
  "buildServers cfg localID localAddr = addServers [] ((localID, localAddr) # map (\<lambda>p. (p, p)) (bc_RaftPeers cfg))"

section \<open>Publishing to watchers\<close>

text \<open>
  A watcher has a channel of one slot.  \<open>send\<close> fills it, dropping the unread snapshot when it is
  full; \<open>w_done\<close> is a cancelled context, which wins over a free slot when \<open>pick\<close> says so.
\<close>

record metadataWatcher =
  w_id :: nat
  w_ch :: "ClusterMetadata option"
  w_lastSent :: int
  w_done :: bool
  w_closed :: bool

definition send :: "bool \<Rightarrow> metadataWatcher \<Rightarrow> ClusterMetadata \<Rightarrow> metadataWatcher \<times> bool" where
  "send pick w meta =
    (if w_done w \<and> (pick \<or> w_ch w \<noteq> None) then (w, False)
     else (w\<lparr>w_ch := Some meta, w_lastSent := cm_Version meta\<rparr>, True))"

definition watch :: "metadataWatcher list \<Rightarrow> nat \<Rightarrow> bool \<Rightarrow> bool \<Rightarrow> int \<Rightarrow> ClusterMetadata \<Rightarrow> metadataWatcher list" where
  "watch ws newID pick done sinceVersion initial =
    (let w = \<lparr>w_id = newID, w_ch = None, w_lastSent = sinceVersion, w_done = done, w_closed = False\<rparr>
     in if cm_Version initial > sinceVersion then ws @ [fst (send pick w initial)] else ws @ [w])"

definition removeWatcher :: "metadataWatcher list \<Rightarrow> nat \<Rightarrow> metadataWatcher list" where
  "removeWatcher ws target = filter (\<lambda>w. w_id w \<noteq> target) ws"

text \<open>One watcher in the loop of \<open>publish\<close>: \<open>None\<close> when it is removed.\<close>

definition publishTo :: "bool \<Rightarrow> ClusterMetadata \<Rightarrow> metadataWatcher \<Rightarrow> metadataWatcher option" where
  "publishTo pick meta w =
    (if cm_Version meta \<le> w_lastSent w then Some w
     else let (w', ok) = send pick w meta in if ok then Some w' else None)"

definition publish :: "bool \<Rightarrow> metadataWatcher list \<Rightarrow> ClusterMetadata \<Rightarrow> metadataWatcher list" where
  "publish pick ws meta = List.map_filter (publishTo pick meta) ws"

section \<open>The Raft controller\<close>

text \<open>
  What \<^verbatim>\<open>RaftController\<close> does around the library: \<open>obs\<close> are the successive observations of the
  node (whether it is the leader, and the hint about who is), \<open>evs\<close> the events that wake the
  waiting loop, which does not return while none is left.
\<close>

datatype waitEvent = CtxDone | Timeout | Tick

fun waitLoop :: "(nat \<Rightarrow> bool \<times> string) \<Rightarrow> waitEvent list \<Rightarrow> unit result option" where
  "waitLoop obs [] = None"
| "waitLoop obs (CtxDone # evs) = Some (Inl Canceled)"
| "waitLoop obs (Timeout # evs) =
    (if snd (obs 0) \<noteq> '''' then Some (Inl (CtrlNotLeaderError (snd (obs 0)))) else Some (Inl CtrlLeaderNotElected))"
| "waitLoop obs (Tick # evs) =
    (if fst (obs 0) then Some (Inr ())
     else if snd (obs 0) \<noteq> '''' then Some (Inl (CtrlNotLeaderError (snd (obs 0))))
     else waitLoop (\<lambda>n. obs (Suc n)) evs)"

definition waitForLeader :: "(nat \<Rightarrow> bool \<times> string) \<Rightarrow> waitEvent list \<Rightarrow> unit result option" where
  "waitForLeader obs evs =
    (if fst (obs 0) then Some (Inr ())
     else if snd (obs 0) \<noteq> '''' then Some (Inl (CtrlNotLeaderError (snd (obs 0))))
     else waitLoop (\<lambda>n. obs (Suc n)) evs)"

text \<open>The future of \<^verbatim>\<open>raft.Apply\<close>: refused, failed, or the command went through the log.\<close>

datatype raftFuture = FutureNotLeader | FutureError go_error | FutureApplied

definition normalizeApplyError :: "string \<Rightarrow> raftFuture \<Rightarrow> go_error option" where
  "normalizeApplyError hint fut = (case fut of
       FutureNotLeader \<Rightarrow> Some (CtrlNotLeaderError hint)
     | FutureError e \<Rightarrow> Some e
     | FutureApplied \<Rightarrow> None)"

definition applyCommand :: "unit result \<Rightarrow> string \<Rightarrow> bool \<Rightarrow> raftFuture \<Rightarrow> raftMetadataFSM \<Rightarrow> raftCommand \<Rightarrow>
    raftMetadataFSM \<times> go_error option" where
  "applyCommand waited hint ctxDone fut f cmd = (case waited of
       Inl e \<Rightarrow> (f, Some e)
     | Inr _ \<Rightarrow>
       (let (f', applyErr, _) = (if fut = FutureApplied then Apply_fsm f (Inr cmd) else (f, None, None))
        in (f', if ctxDone then Some Canceled
                else case normalizeApplyError hint fut of
                  Some e \<Rightarrow> Some e
                | None \<Rightarrow> Option.bind applyErr (\<lambda>e. normalizeApplyError hint (FutureError e)))))"

definition RegisterBroker_raft :: "unit result \<Rightarrow> string \<Rightarrow> bool \<Rightarrow> raftFuture \<Rightarrow> raftMetadataFSM \<Rightarrow> BrokerInfo \<Rightarrow>
    raftMetadataFSM \<times> go_error option" where
  "RegisterBroker_raft waited hint ctxDone fut f info = applyCommand waited hint ctxDone fut f (RegisterBroker_cmd info)"

definition AssignTopic_raft :: "unit result \<Rightarrow> string \<Rightarrow> bool \<Rightarrow> raftFuture \<Rightarrow> raftMetadataFSM \<Rightarrow> string \<Rightarrow> TopicConfig \<Rightarrow>
    raftMetadataFSM \<times> ClusterMetadata result" where
  "AssignTopic_raft waited hint ctxDone fut f name cfg =
    (case applyCommand waited hint ctxDone fut f (AssignTopic_cmd name cfg) of
       (f', Some e) \<Rightarrow> (f', Inl e) | (f', None) \<Rightarrow> (f', Inr (fsm_meta f')))"

definition ReportReplicaProgress_raft :: "unit result \<Rightarrow> string \<Rightarrow> bool \<Rightarrow> raftFuture \<Rightarrow> raftMetadataFSM \<Rightarrow> string \<Rightarrow> int \<Rightarrow> int \<Rightarrow>
    int \<Rightarrow> int \<Rightarrow> raftMetadataFSM \<times> ClusterMetadata result" where
  "ReportReplicaProgress_raft waited hint ctxDone fut f topic part brokerID lastOffset hw =
    (case applyCommand waited hint ctxDone fut f (ReportReplicaProgress_cmd topic part brokerID lastOffset hw) of
       (f', Some e) \<Rightarrow> (f', Inl e) | (f', None) \<Rightarrow> (f', Inr (fsm_meta f')))"

text \<open>The metadata a Raft node starts from: what an earlier run stored, else the resolved brokers.\<close>

definition resolveInitialMetadata :: "ClusterMetadata option \<Rightarrow> ClusterMetadata \<Rightarrow> ClusterMetadata" where
  "resolveInitialMetadata stored initialMeta = (case stored of Some m \<Rightarrow> m | None \<Rightarrow> initialMeta)"

definition NewController :: "BrokerConfig \<Rightarrow> (string \<times> TopicState) list \<Rightarrow> ClusterMetadata option \<Rightarrow>
    (SingleNodeController + raftMetadataFSM) result" where
  "NewController cfg topics stored =
    (let mode = (if bc_ControllerMode cfg = '''' then ControllerModeSingle else bc_ControllerMode cfg) in
     if mode = ControllerModeSingle then bindE (NewSingleNodeController cfg topics) (\<lambda>c. Inr (Inl c))
     else if mode = ControllerModeRaft then bindE (resolveBrokers cfg) (\<lambda>(brokers, clusterID).
       let initial = \<lparr>cm_ClusterID = clusterID, cm_Version = 1, cm_Brokers = brokers, cm_Partitions = []\<rparr>
       in Inr (Inr (newRaftMetadataFSM cfg (resolveInitialMetadata stored initial))))
     else Inl (Errorf ''unknown controller mode: %s''))"

section \<open>Well-formed metadata\<close>

lemma contains_iff [simp]: "contains xs i \<longleftrightarrow> i \<in> set xs"
  by (auto simp: contains_def list_ex_iff)

lemma brokerPresent_iff: "brokerPresent i bs \<longleftrightarrow> i \<in> bi_BrokerID ` set bs"
  by (auto simp: brokerPresent_def list_ex_iff)

lemma set_sortBrokers [simp]: "set (sortBrokers bs) = set bs" "length (sortBrokers bs) = length bs"
  by (simp_all add: sortBrokers_def)

lemma sortBrokers_Nil [simp]: "sortBrokers bs = [] \<longleftrightarrow> bs = []"
  by (metis length_0_conv set_sortBrokers(2))

lemma distinct_sortBrokers: "distinct (map bi_BrokerID (sortBrokers bs)) \<longleftrightarrow> distinct (map bi_BrokerID bs)"
  by (simp add: distinct_map sortBrokers_def)

lemma sorted_sortBrokers: "sorted (map bi_BrokerID (sortBrokers bs))"
  by (simp add: sortBrokers_def)

definition goodAssignment :: "int set \<Rightarrow> PartitionAssignment \<Rightarrow> bool" where
  "goodAssignment ids p \<longleftrightarrow> distinct (pa_Replicas p) \<and> set (pa_Replicas p) \<subseteq> ids
     \<and> distinct (pa_ISR p) \<and> set (pa_ISR p) \<subseteq> set (pa_Replicas p)
     \<and> pa_Leader p \<in> set (pa_ISR p)"

definition partKey :: "PartitionAssignment \<Rightarrow> string \<times> int" where
  "partKey p = (pa_Topic p, pa_Partition p)"

definition goodMeta :: "ClusterMetadata \<Rightarrow> bool" where
  "goodMeta meta \<longleftrightarrow> distinct (map bi_BrokerID (cm_Brokers meta)) \<and> sorted (map bi_BrokerID (cm_Brokers meta))
     \<and> (\<forall>p\<in>set (cm_Partitions meta). goodAssignment (bi_BrokerID ` set (cm_Brokers meta)) p)
     \<and> distinct (map partKey (cm_Partitions meta))"

lemma goodAssignment_mono: "goodAssignment A p \<Longrightarrow> A \<subseteq> B \<Longrightarrow> goodAssignment B p"
  by (auto simp: goodAssignment_def)

subsection \<open>Placement\<close>

lemma normalizeReplicationFactor_pos: "1 \<le> normalizeReplicationFactor d rf"
  by (simp add: normalizeReplicationFactor_def Let_def)

lemma rotation_eq:
  assumes "i \<le> j" "j < n" "(k + i) mod n = (k + j) mod (n :: nat)"
  shows "i = j"
proof -
  have "n dvd j - i" using assms mod_eq_dvd_iff_nat [of "k + i" "k + j" n] by simp
  then show ?thesis using assms by (metis diff_is_0_eq le_antisym less_imp_diff_less nat_dvd_not_less not_gr0)
qed

lemma rotation_distinct:
  assumes "distinct xs" "n \<le> length xs"
  shows "distinct (map (\<lambda>i. xs ! ((k + i) mod length xs)) [0..<n])"
proof -
  have "inj_on (\<lambda>i. xs ! ((k + i) mod length xs)) {0..<n}"
  proof (rule linorder_inj_onI)
    fix i j assume ij: "i < j" "i \<in> {0..<n}" "j \<in> {0..<n}"
    then have "0 < length xs" "j < length xs" using assms(2) by auto
    then show "xs ! ((k + i) mod length xs) \<noteq> xs ! ((k + j) mod length xs)"
      using rotation_eq [of i j "length xs" k] ij(1) assms(1) by (auto simp: nth_eq_iff_index_eq)
  qed auto
  then show ?thesis by (simp add: distinct_map)
qed

definition replicaCountOf :: "int \<Rightarrow> BrokerInfo list \<Rightarrow> nat" where
  "replicaCountOf rf bs = min (nat rf) (length bs)"

lemma assignPartition_good:
  assumes "distinct (map bi_BrokerID bs)" "bs \<noteq> []" "0 < rc" "rc \<le> length bs"
  shows "goodAssignment (bi_BrokerID ` set bs) (assignPartition bs name rc c pid)"
proof -
  let ?rs = "map (\<lambda>i. bi_BrokerID (bs ! ((c mod length bs + i) mod length bs))) [0..<rc]"
  have "distinct (map (\<lambda>i. map bi_BrokerID bs ! ((c mod length bs + i) mod length (map bi_BrokerID bs))) [0..<rc])"
    using assms by (intro rotation_distinct) simp_all
  moreover have "map (\<lambda>i. map bi_BrokerID bs ! ((c mod length bs + i) mod length (map bi_BrokerID bs))) [0..<rc] = ?rs"
    using assms(2) by simp
  ultimately have "distinct ?rs" by (simp only:)
  moreover have "set ?rs \<subseteq> bi_BrokerID ` set bs" using assms(2) by (auto intro!: imageI nth_mem)
  moreover have "?rs ! 0 \<in> set ?rs" using assms(3) by (intro nth_mem) simp
  ultimately show ?thesis by (simp add: goodAssignment_def assignPartition_def Let_def)
qed

lemma assignTopicPartitions_eq:
  assumes "brokers \<noteq> []"
  shows "assignTopicPartitions cfg brokers name partitions rf existing =
    map (\<lambda>pid. assignPartition (sortBrokers brokers) name
      (replicaCountOf (normalizeReplicationFactor (bc_ReplicationFactor cfg) rf) brokers) (length existing + pid) pid) [0..<nat partitions]"
  using assms by (auto simp: assignTopicPartitions_def Let_def replicaCountOf_def min_def)

lemma replicaCountOf_bounds: "1 \<le> rf \<Longrightarrow> bs \<noteq> [] \<Longrightarrow> 0 < replicaCountOf rf bs \<and> replicaCountOf rf bs \<le> length bs"
  by (simp add: replicaCountOf_def)

lemma assignTopicPartitions_good:
  assumes "distinct (map bi_BrokerID brokers)"
  shows "\<forall>p\<in>set (assignTopicPartitions cfg brokers name partitions rf existing).
      goodAssignment (bi_BrokerID ` set brokers) p \<and> pa_Topic p = name"
    and "map partKey (assignTopicPartitions cfg brokers name partitions rf existing) =
      (if brokers = [] then [] else map (\<lambda>i. (name, int i)) [0..<nat partitions])"
proof -
  show "\<forall>p\<in>set (assignTopicPartitions cfg brokers name partitions rf existing).
      goodAssignment (bi_BrokerID ` set brokers) p \<and> pa_Topic p = name"
  proof (cases "brokers = []")
    case False
    let ?bs = "sortBrokers brokers" and ?rf = "normalizeReplicationFactor (bc_ReplicationFactor cfg) rf"
    have "goodAssignment (bi_BrokerID ` set ?bs) (assignPartition ?bs name (replicaCountOf ?rf brokers) c pid)" for c pid
      using assms False replicaCountOf_bounds [OF normalizeReplicationFactor_pos False]
      by (intro assignPartition_good) (simp_all add: distinct_sortBrokers)
    then show ?thesis using False by (auto simp: assignTopicPartitions_eq assignPartition_def Let_def)
  qed (simp add: assignTopicPartitions_def)
  show "map partKey (assignTopicPartitions cfg brokers name partitions rf existing) =
      (if brokers = [] then [] else map (\<lambda>i. (name, int i)) [0..<nat partitions])"
    by (simp add: assignTopicPartitions_eq partKey_def assignPartition_def Let_def) (simp add: assignTopicPartitions_def)
qed

subsection \<open>Every transition keeps the metadata well formed\<close>

lemma replaceBroker_ids:
  "replaceBroker info bs = Some bs' \<Longrightarrow> bi_BrokerID ` set bs' = insert (bi_BrokerID info) (bi_BrokerID ` set bs)"
proof (induction bs arbitrary: bs')
  case (Cons b bs)
  show ?case
  proof (cases "bi_BrokerID b = bi_BrokerID info")
    case True
    then show ?thesis using Cons.prems by (auto split: if_splits)
  next
    case False
    then obtain cs where "replaceBroker info bs = Some cs" "bs' = b # cs" using Cons.prems by auto
    then show ?thesis using Cons.IH [of cs] by (simp add: insert_commute)
  qed
qed simp

lemma replaceBroker_distinct:
  "replaceBroker info bs = Some bs' \<Longrightarrow> distinct (map bi_BrokerID bs) \<Longrightarrow> distinct (map bi_BrokerID bs')"
proof (induction bs arbitrary: bs')
  case (Cons b bs)
  show ?case
  proof (cases "bi_BrokerID b = bi_BrokerID info")
    case True
    then show ?thesis using Cons.prems by (auto split: if_splits)
  next
    case False
    then obtain cs where "replaceBroker info bs = Some cs" "bs' = b # cs" using Cons.prems(1) by auto
    then show ?thesis
      using Cons.IH [of cs] Cons.prems(2) replaceBroker_ids [of info bs cs] False by (auto simp flip: image_set)
  qed
qed simp

lemma upsertBroker_good: "goodMeta meta \<Longrightarrow> goodMeta (upsertBroker meta info)"
proof (cases "replaceBroker info (cm_Brokers meta)")
  case (Some bs)
  assume g: "goodMeta meta"
  then have "distinct (map bi_BrokerID bs)" using replaceBroker_distinct [OF Some] by (simp add: goodMeta_def)
  moreover have "bi_BrokerID ` set (cm_Brokers meta) \<subseteq> bi_BrokerID ` set bs" using replaceBroker_ids [OF Some] by auto
  ultimately show ?thesis
    using g Some by (auto simp: upsertBroker_def goodMeta_def distinct_sortBrokers sorted_sortBrokers intro: goodAssignment_mono)
qed (simp add: upsertBroker_def)

lemma sortBrokers_sorted: "sorted (map bi_BrokerID bs) \<Longrightarrow> sortBrokers bs = bs"
  by (simp add: sortBrokers_def sort_key_id_if_sorted)

lemma topicAssigned_iff: "topicAssigned ps name \<longleftrightarrow> name \<in> pa_Topic ` set ps"
  by (auto simp: topicAssigned_def list_ex_iff)

lemma goodMeta_extend:
  assumes g: "goodMeta meta" and f: "name \<notin> pa_Topic ` set (cm_Partitions meta)"
    and ps: "\<forall>p\<in>set ps. goodAssignment (bi_BrokerID ` set (cm_Brokers meta)) p \<and> pa_Topic p = name" "distinct (map partKey ps)"
  shows "goodMeta (meta\<lparr>cm_Partitions := cm_Partitions meta @ ps\<rparr>)"
proof -
  have "set (map partKey (cm_Partitions meta)) \<inter> set (map partKey ps) = {}"
    using f ps(1) by (force simp: partKey_def)
  then show ?thesis using g ps by (auto simp: goodMeta_def)
qed

lemma placeTopic_good: "placeTopic cfg meta name tcfg = Inr meta' \<Longrightarrow> goodMeta meta \<Longrightarrow> goodMeta meta'"
proof -
  assume p: "placeTopic cfg meta name tcfg = Inr meta'" and g: "goodMeta meta"
  define ps where "ps = (let tcfg' = normalizeTopicConfig (bc_ReplicationFactor cfg) tcfg in
    assignTopicPartitions cfg (cm_Brokers meta) name (tc_Partitions tcfg') (tc_ReplicationFactor tcfg') (cm_Partitions meta))"
  have m: "meta' = meta\<lparr>cm_Brokers := sortBrokers (cm_Brokers meta), cm_Partitions := cm_Partitions meta @ ps,
      cm_Version := wrapS 64 (cm_Version meta + 1)\<rparr>" and n: "name \<notin> pa_Topic ` set (cm_Partitions meta)"
    using p by (auto simp: placeTopic_def ps_def Let_def topicAssigned_iff split: if_splits)
  have d: "distinct (map bi_BrokerID (cm_Brokers meta))" "sorted (map bi_BrokerID (cm_Brokers meta))"
    using g by (simp_all add: goodMeta_def)
  have "\<forall>p\<in>set ps. goodAssignment (bi_BrokerID ` set (cm_Brokers meta)) p \<and> pa_Topic p = name"
    unfolding ps_def Let_def by (rule assignTopicPartitions_good(1) [OF d(1)])
  moreover have "distinct (map partKey ps)"
    unfolding ps_def Let_def assignTopicPartitions_good(2) [OF d(1)] by (simp add: distinct_map inj_on_def)
  ultimately have "goodMeta (meta\<lparr>cm_Partitions := cm_Partitions meta @ ps\<rparr>)"
    by (intro goodMeta_extend [OF g n])
  then show ?thesis by (simp add: m goodMeta_def sortBrokers_sorted [OF d(2)])
qed

lemma findPartition_nth:
  "findPartition t p ps = Some i \<Longrightarrow> i < length ps \<and> pa_Topic (ps ! i) = t \<and> pa_Partition (ps ! i) = p"
  by (induction ps arbitrary: i) (auto split: if_splits)

lemma findPartition_None: "findPartition t p ps = None \<longleftrightarrow> (t, p) \<notin> partKey ` set ps"
  by (induction ps) (auto simp: partKey_def)

lemma progressISR_fields [simp]:
  "pa_Topic (progressISR a b l h) = pa_Topic a" "pa_Partition (progressISR a b l h) = pa_Partition a"
  "pa_Replicas (progressISR a b l h) = pa_Replicas a" "pa_Leader (progressISR a b l h) = pa_Leader a"
  "pa_LeaderEpoch (progressISR a b l h) = pa_LeaderEpoch a"
  by (simp_all add: progressISR_def Let_def)

lemma progressISR_good:
  "goodAssignment ids a \<Longrightarrow> b \<in> set (pa_Replicas a) \<Longrightarrow> goodAssignment ids (progressISR a b l h)"
  by (auto simp: goodAssignment_def progressISR_def Let_def ensureLeaderInISR_def removeID_def)

lemma reportProgress_good:
  assumes "reportProgress meta t p b l h = Inr meta'" "goodMeta meta"
  shows "goodMeta meta'"
proof -
  obtain i where i: "findPartition t p (cm_Partitions meta) = Some i" and b: "b \<in> set (pa_Replicas (cm_Partitions meta ! i))"
    and m: "meta' = meta\<lparr>cm_Partitions := (cm_Partitions meta)[i := progressISR (cm_Partitions meta ! i) b l h],
       cm_Version := wrapS 64 (cm_Version meta + 1)\<rparr>"
    using assms(1) by (auto simp: reportProgress_def Let_def split: option.splits if_splits)
  have len: "i < length (cm_Partitions meta)" using findPartition_nth [OF i] by simp
  have "goodAssignment (bi_BrokerID ` set (cm_Brokers meta)) (progressISR (cm_Partitions meta ! i) b l h)"
    using assms(2) len b by (intro progressISR_good) (auto simp: goodMeta_def)
  moreover have "map partKey ((cm_Partitions meta)[i := progressISR (cm_Partitions meta ! i) b l h]) = map partKey (cm_Partitions meta)"
    using len by (simp add: map_update partKey_def list_update_same_conv)
  ultimately show ?thesis
    using assms(2) by (auto simp: m goodMeta_def dest!: set_update_subset_insert [THEN subsetD])
qed

section \<open>Machines that keep cluster metadata\<close>

text \<open>
  What the broker and the replication manager rely on in a controller: every step keeps the
  metadata well formed, and changes it only together with the version.
\<close>

locale metadata_machine =
  fixes step :: "'s \<Rightarrow> 'c \<Rightarrow> 's" and meta :: "'s \<Rightarrow> ClusterMetadata"
  assumes step_good: "goodMeta (meta s) \<Longrightarrow> goodMeta (meta (step s c))"
    and step_version: "meta (step s c) = meta s \<or> cm_Version (meta (step s c)) = wrapS 64 (cm_Version (meta s) + 1)"
begin

lemma run_good: "goodMeta (meta s) \<Longrightarrow> goodMeta (meta (foldl step s cs))"
  by (induction cs arbitrary: s) (simp_all add: step_good)

lemma step_version_bounds:
  "inS 64 (cm_Version (meta s) + 1) \<Longrightarrow> cm_Version (meta s) \<le> cm_Version (meta (step s c)) \<and> cm_Version (meta (step s c)) \<le> cm_Version (meta s) + 1"
  using step_version [of s c] by (auto simp: wrapS_id)

lemma run_version_bounds:
  "0 \<le> cm_Version (meta s) \<Longrightarrow> cm_Version (meta s) + int (length cs) < 2 ^ 63 \<Longrightarrow>
   cm_Version (meta s) \<le> cm_Version (meta (foldl step s cs)) \<and> cm_Version (meta (foldl step s cs)) \<le> cm_Version (meta s) + int (length cs)"
proof (induction cs arbitrary: s)
  case (Cons c cs)
  have "inS 64 (cm_Version (meta s) + 1)" using Cons.prems by (simp add: inS_def)
  note b = step_version_bounds [OF this, of c]
  then show ?case using Cons.IH [of "step s c"] Cons.prems by simp
qed simp

text \<open>The version identifies the metadata: two states of a run with one version are equal.\<close>

lemma run_version_identifies:
  assumes "0 \<le> cm_Version (meta s)" "cm_Version (meta s) + int (length cs) < 2 ^ 63"
    "cm_Version (meta (foldl step s cs)) = cm_Version (meta s)"
  shows "meta (foldl step s cs) = meta s"
  using assms
proof (induction cs arbitrary: s)
  case (Cons c cs)
  have in64: "inS 64 (cm_Version (meta s) + 1)" using Cons.prems(1,2) by (simp add: inS_def)
  note b = step_version_bounds [OF in64, of c]
  have r: "cm_Version (meta (step s c)) \<le> cm_Version (meta (foldl step (step s c) cs))"
    using run_version_bounds [of "step s c" cs] b Cons.prems(1,2) by simp
  then have v: "cm_Version (meta (step s c)) = cm_Version (meta s)" using b Cons.prems(3) by simp
  then have "meta (step s c) = meta s" using step_version [of s c] in64 by (auto simp: wrapS_id)
  moreover have "meta (foldl step (step s c) cs) = meta (step s c)"
    using Cons.prems v by (intro Cons.IH) simp_all
  ultimately show ?case by simp
qed simp
end

text \<open>The operations of a controller, and the two controllers as machines over them.\<close>

datatype ctrlOp = OpRegister BrokerInfo | OpAssign string TopicConfig | OpReport string int int int int

fun singleStep :: "SingleNodeController \<Rightarrow> ctrlOp \<Rightarrow> SingleNodeController" where
  "singleStep c (OpRegister info) = fst (RegisterBroker_single c info)"
| "singleStep c (OpAssign name cfg) = fst (AssignTopic_single c name cfg)"
| "singleStep c (OpReport t p b l h) = fst (ReportReplicaProgress_single c t p b l h)"

fun opCommand :: "ctrlOp \<Rightarrow> raftCommand" where
  "opCommand (OpRegister info) = RegisterBroker_cmd info"
| "opCommand (OpAssign name cfg) = AssignTopic_cmd name cfg"
| "opCommand (OpReport t p b l h) = ReportReplicaProgress_cmd t p b l h"

text \<open>The transitions of the Raft state machine, written out a second time in the code, are those of the single-node controller.\<close>

lemma partitionIndex_eq:
  "partitionIndex ps i topic part = (case findPartition topic part ps of None \<Rightarrow> -1 | Some idx \<Rightarrow> int (i + idx))"
  by (induction ps arbitrary: i) (auto split: option.splits)

lemma overwriteBroker_eq:
  "replaceBroker info bs = (case overwriteBroker bs info of
     Inl _ \<Rightarrow> None | Inr (bs', updated) \<Rightarrow> Some (if updated then bs' else bs' @ [info]))"
  by (induction bs) (auto simp: brokerInfoEqual_def split: sum.splits)

lemma applyReplicaProgressLocked_eq:
  "applyReplicaProgressLocked f topic part brokerID lastOffset leaderHighWatermark =
    (case reportProgress (fsm_meta f) topic part brokerID lastOffset leaderHighWatermark of
       Inl e \<Rightarrow> (f, Some e)
     | Inr meta \<Rightarrow> (f\<lparr>fsm_meta := meta\<rparr>, None))"
  by (auto simp: applyReplicaProgressLocked_def reportProgress_def progressISR_def partitionIndex_eq Let_def split: option.split)

lemma applyRegisterBrokerLocked_eq:
  "applyRegisterBrokerLocked f info =
    (if bi_BrokerID info \<le> 0 then (f, Some (Errorf ''invalid broker id %d''))
     else (f\<lparr>fsm_meta := upsertBroker (fsm_meta f) info\<rparr>, None))"
  by (auto simp: applyRegisterBrokerLocked_def upsertBroker_def overwriteBroker_eq sortBrokers_def Let_def split: sum.split)

lemma Apply_fsm_eq:
  "Apply_fsm f (Inr cmd) =
    (let (f', err) =
       (if rc_Type cmd = cmdAssignTopic
        then (case placeTopic (fsm_cfg f) (fsm_meta f) (rc_Topic cmd) (rc_TopicConfig cmd) of
            Inl e \<Rightarrow> (f, Some e)
          | Inr meta \<Rightarrow> (f\<lparr>fsm_meta := meta\<rparr>, None))
        else if rc_Type cmd = cmdReportReplicaProgress
        then applyReplicaProgressLocked f (rc_Topic cmd) (rc_Part cmd) (rc_Broker cmd) (rc_LastOffset cmd) (rc_LeaderHighWatermark cmd)
        else if rc_Type cmd = cmdRegisterBroker
        then (case rc_BrokerInfo cmd of
            None \<Rightarrow> (f, Some (Errorf ''missing broker info''))
          | Some info \<Rightarrow> applyRegisterBrokerLocked f info)
        else (f, Some (Errorf ''unknown command type %d'')))
     in (f', err, if err = None \<and> cm_Version (fsm_meta f') \<noteq> cm_Version (fsm_meta f) then Some (fsm_meta f') else None))"
  by (simp add: Apply_fsm_def placeTopic_def Let_def)

lemmas fsm_eqs = Apply_fsm_eq applyReplicaProgressLocked_eq applyRegisterBrokerLocked_eq

definition fsmStep :: "raftMetadataFSM \<Rightarrow> raftCommand \<Rightarrow> raftMetadataFSM" where
  "fsmStep f cmd = fst (Apply_fsm f (Inr cmd))"

lemma upsertBroker_version: "upsertBroker meta info = meta \<or> cm_Version (upsertBroker meta info) = wrapS 64 (cm_Version meta + 1)"
  by (simp add: upsertBroker_def split: option.split)

lemma placeTopic_version: "placeTopic cfg meta name tcfg = Inr meta' \<Longrightarrow> cm_Version meta' = wrapS 64 (cm_Version meta + 1)"
  by (auto simp: placeTopic_def Let_def split: if_splits)

lemma reportProgress_version: "reportProgress meta t p b l h = Inr meta' \<Longrightarrow> cm_Version meta' = wrapS 64 (cm_Version meta + 1)"
  by (auto simp: reportProgress_def Let_def split: option.splits if_splits)

lemma brokersFromInts_present: "brokerPresent i (brokersFromInts ids) \<longleftrightarrow> i \<in> set ids"
  by (simp add: brokerPresent_iff brokersFromInts_def image_image)

lemma ReportReplicaProgress_single_eq:
  "ReportReplicaProgress_single c t p b l h = (case reportProgress (sn_meta c) t p b l h of
     Inl e \<Rightarrow> (c, sn_meta c, Some e) | Inr meta \<Rightarrow> (c\<lparr>sn_meta := meta\<rparr>, meta, None))"
  by (simp add: ReportReplicaProgress_single_def reportProgress_def Let_def brokersFromInts_present split: option.split)

interpretation sn: metadata_machine singleStep sn_meta
proof
  fix s c
  show "goodMeta (sn_meta s) \<Longrightarrow> goodMeta (sn_meta (singleStep s c))"
    by (cases c) (auto simp: RegisterBroker_single_def AssignTopic_single_def ReportReplicaProgress_single_eq upsertBroker_good
        split: option.split sum.split intro: placeTopic_good reportProgress_good)
  show "sn_meta (singleStep s c) = sn_meta s \<or> cm_Version (sn_meta (singleStep s c)) = wrapS 64 (cm_Version (sn_meta s) + 1)"
    using upsertBroker_version by (cases c) (auto simp: RegisterBroker_single_def AssignTopic_single_def
        ReportReplicaProgress_single_eq split: option.split sum.split dest: placeTopic_version reportProgress_version)
qed

interpretation fsm: metadata_machine fsmStep fsm_meta
proof
  fix s c
  show "goodMeta (fsm_meta s) \<Longrightarrow> goodMeta (fsm_meta (fsmStep s c))"
    by (auto simp: fsmStep_def fsm_eqs upsertBroker_good Let_def
        split: option.split sum.split intro: placeTopic_good reportProgress_good)
  show "fsm_meta (fsmStep s c) = fsm_meta s \<or> cm_Version (fsm_meta (fsmStep s c)) = wrapS 64 (cm_Version (fsm_meta s) + 1)"
    using upsertBroker_version by (auto simp: fsmStep_def fsm_eqs
        Let_def split: option.split sum.split dest: placeTopic_version reportProgress_version)
qed

subsection \<open>The first metadata of a single-node controller\<close>

definition soundTopics :: "(string \<times> TopicState) list \<Rightarrow> bool" where
  "soundTopics topics \<longleftrightarrow> distinct (map fst topics) \<and> (\<forall>(name, st)\<in>set topics. distinct (map ps_ID (ts_Partitions st)))"

lemma distinct_sort_key: "distinct (map f (sort_key f xs)) \<longleftrightarrow> distinct (map f xs)"
  by (simp add: distinct_map)

lemma goodAssignment_relabel: "goodAssignment ids (a\<lparr>pa_Partition := x, pa_LeaderEpoch := y\<rparr>) = goodAssignment ids a"
  by (simp add: goodAssignment_def)

lemma relabel_good:
  assumes "\<forall>a\<in>set as. goodAssignment ids a \<and> pa_Topic a = name" "length as = length ps" "distinct (map ps_ID ps)"
  defines "qs \<equiv> map2 (\<lambda>a p. a\<lparr>pa_Partition := ps_ID p, pa_LeaderEpoch := replicaEpoch (pa_Leader a) (ps_Replicas p)\<rparr>) as ps"
  shows "\<forall>q\<in>set qs. goodAssignment ids q \<and> pa_Topic q = name" "distinct (map partKey qs)"
proof -
  show g: "\<forall>q\<in>set qs. goodAssignment ids q \<and> pa_Topic q = name"
    using assms(1) by (auto simp: qs_def goodAssignment_relabel dest: set_zip_leftD)
  have "map pa_Partition qs = map ps_ID ps"
    unfolding qs_def using assms(2) by (induction as ps rule: list_induct2) simp_all
  then have "distinct (map pa_Partition qs)" using assms(3) by simp
  then show "distinct (map partKey qs)"
    by (auto simp: distinct_map partKey_def inj_on_def)
qed

lemma buildTopics_good:
  assumes "goodMeta \<lparr>cm_ClusterID = cid, cm_Version = v, cm_Brokers = bs, cm_Partitions = res\<rparr>" "soundTopics topics"
    "distinct names" "set names \<inter> pa_Topic ` set res = {}" "bs \<noteq> []"
  shows "goodMeta \<lparr>cm_ClusterID = cid, cm_Version = v, cm_Brokers = bs, cm_Partitions = buildTopics cfg bs topics names res\<rparr>"
  using assms
proof (induction names arbitrary: res)
  case (Cons name names)
  show ?case
  proof (cases "map_of topics name")
    case None
    then show ?thesis using Cons by simp
  next
    case (Some st)
    let ?parts = "sort_key ps_ID (ts_Partitions st)" and ?meta = "\<lparr>cm_ClusterID = cid, cm_Version = v, cm_Brokers = bs, cm_Partitions = res\<rparr>"
    define as where "as = assignTopicPartitions cfg bs name (int (length ?parts))
        (normalizeReplicationFactor (bc_ReplicationFactor cfg) (ts_ReplicationFactor st)) res"
    define qs where "qs = map2 (\<lambda>a ps. a\<lparr>pa_Partition := ps_ID ps, pa_LeaderEpoch := replicaEpoch (pa_Leader a) (ps_Replicas ps)\<rparr>) as ?parts"
    have d: "distinct (map bi_BrokerID bs)" using Cons.prems(1) by (simp add: goodMeta_def)
    have "distinct (map ps_ID (ts_Partitions st))"
      using Cons.prems(2) map_of_SomeD [OF Some] by (auto simp: soundTopics_def)
    then have dp: "distinct (map ps_ID ?parts)" by (simp add: distinct_sort_key)
    have "\<forall>a\<in>set as. goodAssignment (bi_BrokerID ` set bs) a \<and> pa_Topic a = name"
      unfolding as_def by (rule assignTopicPartitions_good(1) [OF d])
    moreover have "length as = length ?parts"
      using Cons.prems(5) by (simp add: as_def assignTopicPartitions_eq)
    ultimately have qs: "\<forall>q\<in>set qs. goodAssignment (bi_BrokerID ` set bs) q \<and> pa_Topic q = name" "distinct (map partKey qs)"
      unfolding qs_def using relabel_good [OF _ _ dp] by blast+
    have "goodMeta (?meta\<lparr>cm_Partitions := cm_Partitions ?meta @ qs\<rparr>)"
      using Cons.prems(4) qs by (intro goodMeta_extend [OF Cons.prems(1), of name]) auto
    moreover have "set names \<inter> pa_Topic ` set (res @ qs) = {}" using Cons.prems(3,4) qs(1) by auto
    ultimately have "goodMeta \<lparr>cm_ClusterID = cid, cm_Version = v, cm_Brokers = bs, cm_Partitions = buildTopics cfg bs topics names (res @ qs)\<rparr>"
      using Cons.prems by (intro Cons.IH) simp_all
    then show ?thesis using Some by (simp add: Let_def as_def qs_def)
  qed
qed simp

lemma NewSingleNodeController_good:
  assumes "NewSingleNodeController cfg topics = Inr c" "soundTopics topics"
    "\<forall>sc. bc_StaticCluster cfg = Some sc \<longrightarrow> distinct (map bi_BrokerID (sc_Brokers sc))"
  shows "goodMeta (sn_meta c)" "cm_Version (sn_meta c) = 1" "sn_cfg c = cfg"
proof -
  obtain bs cid where r: "resolveBrokers cfg = Inr (bs, cid)"
    and c: "c = \<lparr>sn_meta = \<lparr>cm_ClusterID = cid, cm_Version = 1, cm_Brokers = sortBrokers bs,
            cm_Partitions = buildAssignments cfg bs topics\<rparr>, sn_cfg = cfg\<rparr>"
    using assms(1) by (auto simp: NewSingleNodeController_def bindE_Inr_iff)
  have bs: "bs \<noteq> []" "distinct (map bi_BrokerID bs)"
    using r assms(3) by (auto simp: resolveBrokers_def split: option.splits if_splits)
  have "goodMeta \<lparr>cm_ClusterID = cid, cm_Version = 1, cm_Brokers = sortBrokers bs,
            cm_Partitions = buildTopics cfg (sortBrokers bs) topics (sort (map fst topics)) []\<rparr>"
    using assms(2) bs by (intro buildTopics_good) (simp_all add: goodMeta_def distinct_sortBrokers sorted_sortBrokers soundTopics_def)
  then show "goodMeta (sn_meta c)" using bs by (simp add: c buildAssignments_def)
  show "cm_Version (sn_meta c) = 1" "sn_cfg c = cfg" by (simp_all add: c)
qed

section \<open>Properties\<close>

text \<open>C9: a controller never leaves the well-formed states.  Started from recovered topics with distinct
  partition ids and brokers with distinct ids, after any sequence of registrations, topic
  assignments and progress reports every partition has distinct replicas among the known
  brokers, its in-sync set lies within its replicas and contains the leader, and no partition is
  assigned twice.  Every operation either leaves the metadata as it is or raises the version by exactly one, so that the version never
  goes down and two moments of a run with one version have the same metadata.\<close>

theorem controller_invariant:
  assumes "NewSingleNodeController cfg topics = Inr c" "soundTopics topics"
    "\<forall>sc. bc_StaticCluster cfg = Some sc \<longrightarrow> distinct (map bi_BrokerID (sc_Brokers sc))"
    "1 + int (length (before @ op # after)) < 2 ^ 63"
  shows "let m1 = sn_meta (foldl singleStep c before); m2 = sn_meta (foldl singleStep c (before @ [op]));
      m3 = sn_meta (foldl singleStep c (before @ op # after)) in
    goodMeta m1 \<and> goodMeta m2 \<and> goodMeta m3
    \<and> (m2 = m1 \<or> cm_Version m2 = cm_Version m1 + 1)
    \<and> 1 \<le> cm_Version m1 \<and> cm_Version m1 \<le> cm_Version m2 \<and> cm_Version m2 \<le> cm_Version m3
    \<and> (cm_Version m3 = cm_Version m1 \<longrightarrow> m3 = m1)"
proof -
  note g = NewSingleNodeController_good [OF assms(1-3)]
  let ?s = "foldl singleStep c before"
  have 1: "1 \<le> cm_Version (sn_meta ?s)" "cm_Version (sn_meta ?s) \<le> 1 + int (length before)"
    using sn.run_version_bounds [of c before] g(2) assms(4) by simp_all
  have 2: "sn_meta (singleStep ?s op) = sn_meta ?s \<or> cm_Version (sn_meta (singleStep ?s op)) = cm_Version (sn_meta ?s) + 1"
    using sn.step_version [of ?s op] 1 assms(4) by (auto simp: wrapS_id inS_def)
  have 3: "cm_Version (sn_meta (singleStep ?s op)) \<le> cm_Version (sn_meta (foldl singleStep (singleStep ?s op) after))"
    using sn.run_version_bounds [of "singleStep ?s op" after] 1 2 assms(4) by auto
  have 4: "cm_Version (sn_meta (foldl singleStep ?s (op # after))) = cm_Version (sn_meta ?s) \<longrightarrow>
      sn_meta (foldl singleStep ?s (op # after)) = sn_meta ?s"
    using sn.run_version_identifies [of ?s "op # after"] 1 assms(4) by simp
  show ?thesis
    using sn.run_good [OF g(1), of before] sn.run_good [OF g(1), of "before @ [op]"] sn.run_good [OF g(1), of "before @ op # after"] 1 2 3 4
    by (auto simp: Let_def)
qed

definition exampleBroker :: "int \<Rightarrow> BrokerInfo" where
  "exampleBroker i = \<lparr>bi_BrokerID = i, bi_Host = ''h'', bi_Port = 1, bi_Rack = '''', bi_HTTPAddr = '''', bi_ControllerAddr = ''''\<rparr>"

definition exampleBrokerConfig :: "int \<Rightarrow> BrokerConfig" where
  "exampleBrokerConfig rf = \<lparr>bc_BrokerID = 1, bc_ReplicationFactor = rf, bc_DataDir = ''d'', bc_BinaryAddr = ''a'', bc_MQTTAddr = '''',
     bc_HTTPAddr = '''', bc_MaxSegmentBytes = 0, bc_RetentionBytes = 0, bc_RetentionTime = 0, bc_ClusterID = ''c'', bc_ControllerAddr = '''',
     bc_AdvertisedAddr = '''', bc_StaticCluster = Some \<lparr>sc_ClusterID = '''', sc_Brokers = [exampleBroker 1, exampleBroker 2]\<rparr>,
     bc_ControllerMode = '''', bc_RaftDir = '''', bc_RaftBindAddr = '''', bc_RaftPeers = [], bc_Replication = True\<rparr>"

definition exampleMeta :: ClusterMetadata where
  "exampleMeta = \<lparr>cm_ClusterID = ''c'', cm_Version = 1, cm_Brokers = [exampleBroker 1, exampleBroker 2], cm_Partitions = []\<rparr>"

definition exampleTopic :: "int \<Rightarrow> TopicConfig" where
  "exampleTopic rf = \<lparr>tc_Partitions = 3, tc_ReplicationFactor = rf, tc_RetentionBytes = 0, tc_RetentionTime = 0\<rparr>"

lemma exampleController:
  "NewSingleNodeController (exampleBrokerConfig rf) [] = Inr \<lparr>sn_meta = exampleMeta, sn_cfg = exampleBrokerConfig rf\<rparr>"
  by (simp add: NewSingleNodeController_def exampleBrokerConfig_def resolveBrokers_def brokerPresent_def exampleMeta_def
      buildAssignments_def sortBrokers_def exampleBroker_def)

theorem controller_invariant_witness:
  "let run = (\<lambda>ops. sn_meta (foldl singleStep \<lparr>sn_meta = exampleMeta, sn_cfg = exampleBrokerConfig 2\<rparr> ops)) in
    goodMeta (run [OpAssign ''t'' (exampleTopic 0), OpReport ''t'' 0 2 4 9])
    \<and> cm_Version (run [OpAssign ''t'' (exampleTopic 0)]) = 2
    \<and> cm_Version (run [OpAssign ''t'' (exampleTopic 0), OpReport ''t'' 0 2 4 9]) \<in> {2, 3}"
proof -
  have s: "soundTopics []" by (simp add: soundTopics_def)
  have d: "\<forall>sc. bc_StaticCluster (exampleBrokerConfig 2) = Some sc \<longrightarrow> distinct (map bi_BrokerID (sc_Brokers sc))"
    by (simp add: exampleBrokerConfig_def exampleBroker_def)
  have v: "cm_Version (sn_meta (foldl singleStep \<lparr>sn_meta = exampleMeta, sn_cfg = exampleBrokerConfig 2\<rparr> [OpAssign ''t'' (exampleTopic 0)])) = 2"
    by (simp add: AssignTopic_single_def placeTopic_def topicAssigned_def exampleMeta_def exampleTopic_def normalizeTopicConfig_def Let_def wrapS_def)
  show ?thesis
    using controller_invariant [OF exampleController s d, of "[OpAssign ''t'' (exampleTopic 0)]" "OpReport ''t'' 0 2 4 9" "[]"] v
    by (auto simp: Let_def)
qed

text \<open>C31: placement of a new topic.  A topic name that is not assigned yet gets partitions
  \<open>0, 1, ...\<close>, at least one and otherwise as many as asked for; the partition that is the \<open>i\<close>-th of
  the whole cluster is led by broker \<open>i mod n\<close> of the \<open>n\<close> sorted brokers, so leaders are dealt
  round robin across topics; its replicas are the next brokers in order, as many as the
  replication factor or all of them, and all start in sync.  Older assignments do not change.\<close>

theorem placement_round_robin:
  assumes "name \<noteq> ''''" "\<not> topicAssigned (cm_Partitions meta) name" "0 \<le> tc_Partitions tcfg" "cm_Brokers meta \<noteq> []"
  shows "\<exists>new. placeTopic cfg meta name tcfg = Inr (meta\<lparr>cm_Brokers := sortBrokers (cm_Brokers meta),
        cm_Partitions := cm_Partitions meta @ new, cm_Version := wrapS 64 (cm_Version meta + 1)\<rparr>)
    \<and> length new = nat (max 1 (tc_Partitions tcfg))
    \<and> (\<forall>pid < length new.
         let n = length (cm_Brokers meta); p = new ! pid;
             b = (\<lambda>i. bi_BrokerID (sortBrokers (cm_Brokers meta) ! ((length (cm_Partitions meta) + pid + i) mod n)))
         in pa_Topic p = name \<and> pa_Partition p = int pid \<and> pa_Leader p = b 0
          \<and> pa_Replicas p = map b [0..<min n (nat (normalizeReplicationFactor (bc_ReplicationFactor cfg) (tc_ReplicationFactor tcfg)))]
          \<and> pa_ISR p = pa_Replicas p)"
proof -
  let ?bs = "cm_Brokers meta" and ?k = "length (cm_Partitions meta)"
  let ?rf = "normalizeReplicationFactor (bc_ReplicationFactor cfg) (tc_ReplicationFactor tcfg)"
  let ?rc = "replicaCountOf ?rf ?bs" and ?P = "nat (max 1 (tc_Partitions tcfg))"
  define new where "new = map (\<lambda>pid. assignPartition (sortBrokers ?bs) name ?rc (?k + pid) pid) [0..<?P]"
  have idem: "normalizeReplicationFactor (bc_ReplicationFactor cfg) ?rf = ?rf"
    using normalizeReplicationFactor_pos [of "bc_ReplicationFactor cfg" "tc_ReplicationFactor tcfg"]
    by (simp add: normalizeReplicationFactor_def [of _ ?rf])
  have tc: "tc_ReplicationFactor (normalizeTopicConfig (bc_ReplicationFactor cfg) tcfg) = ?rf"
    "nat (tc_Partitions (normalizeTopicConfig (bc_ReplicationFactor cfg) tcfg)) = ?P"
    using assms(3) by (simp_all add: normalizeTopicConfig_def Let_def max_def)
  have "placeTopic cfg meta name tcfg = Inr (meta\<lparr>cm_Brokers := sortBrokers ?bs,
        cm_Partitions := cm_Partitions meta @ new, cm_Version := wrapS 64 (cm_Version meta + 1)\<rparr>)"
    using assms by (simp add: placeTopic_def Let_def assignTopicPartitions_eq tc idem new_def)
  moreover have "let n = length ?bs; p = new ! pid; b = (\<lambda>i. bi_BrokerID (sortBrokers ?bs ! ((?k + pid + i) mod n)))
         in pa_Topic p = name \<and> pa_Partition p = int pid \<and> pa_Leader p = b 0
          \<and> pa_Replicas p = map b [0..<min n (nat ?rf)] \<and> pa_ISR p = pa_Replicas p" if "pid < length new" for pid
  proof -
    have "0 < ?rc" using replicaCountOf_bounds [OF normalizeReplicationFactor_pos assms(4)] by simp
    then show ?thesis using that
      by (simp add: new_def assignPartition_def Let_def mod_add_left_eq replicaCountOf_def min.commute)
  qed
  ultimately show ?thesis by (intro exI [of _ new]) (simp add: new_def)
qed

theorem placement_round_robin_witness:
  "\<exists>new. placeTopic (exampleBrokerConfig 2) exampleMeta ''t'' (exampleTopic 0) = Inr (exampleMeta\<lparr>cm_Brokers := sortBrokers (cm_Brokers exampleMeta),
     cm_Partitions := cm_Partitions exampleMeta @ new, cm_Version := wrapS 64 (cm_Version exampleMeta + 1)\<rparr>) \<and> length new = 3"
proof -
  have "cm_Brokers exampleMeta \<noteq> []" "\<not> topicAssigned (cm_Partitions exampleMeta) ''t''" "0 \<le> tc_Partitions (exampleTopic 0)"
    by (simp_all add: exampleMeta_def exampleTopic_def topicAssigned_def)
  from placement_round_robin [OF _ this(2,3,1), of "exampleBrokerConfig 2"] show ?thesis
    by (auto simp: exampleTopic_def)
qed

text \<open>Progress reports and the in-sync set.  A report for a replica of an assigned partition
  succeeds; afterwards the replica is in the in-sync set exactly when it has reached the
  leader's high watermark or is the leader, every other broker is in it exactly when it was
  before or is the leader, and only this partition's in-sync set and the version have changed.
  Reports for unknown partitions or foreign brokers change nothing.\<close>

theorem progress_updates_isr:
  assumes "goodMeta meta"
  shows "case reportProgress meta topic part brokerID lastOffset hw of
      Inl e \<Rightarrow> (\<forall>p\<in>set (cm_Partitions meta). partKey p = (topic, part) \<longrightarrow> brokerID \<notin> set (pa_Replicas p))
    | Inr meta' \<Rightarrow> cm_Brokers meta' = cm_Brokers meta \<and> cm_ClusterID meta' = cm_ClusterID meta
        \<and> cm_Version meta' = wrapS 64 (cm_Version meta + 1)
        \<and> (\<exists>i < length (cm_Partitions meta). \<exists>isr. partKey (cm_Partitions meta ! i) = (topic, part)
            \<and> cm_Partitions meta' = (cm_Partitions meta)[i := (cm_Partitions meta ! i)\<lparr>pa_ISR := isr\<rparr>]
            \<and> (\<forall>b. b \<in> set isr \<longleftrightarrow>
                (if b = pa_Leader (cm_Partitions meta ! i) then True
                 else if b = brokerID then lastOffset \<ge> hw
                 else b \<in> set (pa_ISR (cm_Partitions meta ! i)))))"
proof (cases "findPartition topic part (cm_Partitions meta)")
  case None
  then have "(topic, part) \<notin> partKey ` set (cm_Partitions meta)" by (simp add: findPartition_None)
  then show ?thesis using None by (force simp: reportProgress_def)
next
  case (Some i)
  let ?ps = "cm_Partitions meta"
  have i: "i < length ?ps" "partKey (?ps ! i) = (topic, part)"
    using findPartition_nth [OF Some] by (simp_all add: partKey_def)
  have only: "p = ?ps ! i" if p: "p \<in> set ?ps" "partKey p = (topic, part)" for p
    using assms i p by (auto simp: goodMeta_def distinct_map inj_on_def)
  let ?q = "progressISR (?ps ! i) brokerID lastOffset hw"
  have q: "?q = (?ps ! i)\<lparr>pa_ISR := pa_ISR ?q\<rparr>" by (simp add: progressISR_def Let_def)
  have "b \<in> set (pa_ISR ?q) \<longleftrightarrow>
      (if b = pa_Leader (?ps ! i) then True else if b = brokerID then lastOffset \<ge> hw else b \<in> set (pa_ISR (?ps ! i)))" for b
    by (auto simp: progressISR_def Let_def ensureLeaderInISR_def removeID_def)
  then obtain isr where isr: "?ps[i := ?q] = ?ps[i := (?ps ! i)\<lparr>pa_ISR := isr\<rparr>]"
    "\<forall>b. b \<in> set isr \<longleftrightarrow>
      (if b = pa_Leader (?ps ! i) then True else if b = brokerID then lastOffset \<ge> hw else b \<in> set (pa_ISR (?ps ! i)))"
    using q by metis
  show ?thesis
  proof (cases "brokerID \<in> set (pa_Replicas (?ps ! i))")
    case True
    then have "reportProgress meta topic part brokerID lastOffset hw =
        Inr (meta\<lparr>cm_Partitions := ?ps[i := ?q], cm_Version := wrapS 64 (cm_Version meta + 1)\<rparr>)"
      using Some by (simp add: reportProgress_def Let_def)
    moreover have "\<exists>j < length ?ps. \<exists>isr. partKey (?ps ! j) = (topic, part) \<and> ?ps[i := ?q] = ?ps[j := (?ps ! j)\<lparr>pa_ISR := isr\<rparr>]
        \<and> (\<forall>b. b \<in> set isr \<longleftrightarrow> (if b = pa_Leader (?ps ! j) then True else if b = brokerID then lastOffset \<ge> hw
              else b \<in> set (pa_ISR (?ps ! j))))"
      using i isr by blast
    ultimately show ?thesis by simp
  next
    case False
    then show ?thesis using Some only by (force simp: reportProgress_def)
  qed
qed

theorem progress_updates_isr_witness:
  "\<exists>meta'. reportProgress (sn_meta (foldl singleStep \<lparr>sn_meta = exampleMeta, sn_cfg = exampleBrokerConfig 2\<rparr> [OpAssign ''t'' (exampleTopic 0)]))
      ''t'' 1 1 3 9 = Inr meta'
    \<and> pa_ISR (cm_Partitions meta' ! 1) = [2]"
proof -
  let ?m = "sn_meta (foldl singleStep \<lparr>sn_meta = exampleMeta, sn_cfg = exampleBrokerConfig 2\<rparr> [OpAssign ''t'' (exampleTopic 0)])"
  have g: "goodMeta exampleMeta" by (simp add: goodMeta_def exampleMeta_def exampleBroker_def)
  have "goodMeta ?m" by (rule sn.run_good) (simp add: g)
  note th = progress_updates_isr [OF this, of "''t''" 1 1 3 9]
  show ?thesis using th
    by (simp add: AssignTopic_single_def placeTopic_def topicAssigned_def exampleMeta_def exampleTopic_def normalizeTopicConfig_def
        normalizeReplicationFactor_def exampleBrokerConfig_def assignTopicPartitions_def sortBrokers_def exampleBroker_def
        assignPartition_def upt_rec reportProgress_def Let_def numeral_3_eq_3 progressISR_def ensureLeaderInISR_def removeID_def)
qed

text \<open>The registrations that a single-node controller accepts.\<close>

definition admits :: "BrokerConfig \<Rightarrow> ctrlOp \<Rightarrow> bool" where
  "admits cfg op = (case op of
       OpRegister info \<Rightarrow> (case bc_StaticCluster cfg of
           None \<Rightarrow> bi_BrokerID info = bc_BrokerID cfg
         | Some sc \<Rightarrow> brokerPresent (bi_BrokerID info) (sc_Brokers sc))
     | _ \<Rightarrow> True)"

lemma fsmStep_matches:
  assumes "admits (sn_cfg c) op" "sn_meta c = fsm_meta f" "sn_cfg c = fsm_cfg f"
  shows "sn_meta (singleStep c op) = fsm_meta (fsmStep f (opCommand op)) \<and> sn_cfg (singleStep c op) = fsm_cfg (fsmStep f (opCommand op))
    \<and> sn_cfg (singleStep c op) = sn_cfg c"
  using assms by (cases op) (auto simp: admits_def fsmStep_def fsm_eqs RegisterBroker_cmd_def AssignTopic_cmd_def ReportReplicaProgress_cmd_def
      commandType_defs RegisterBroker_single_def AssignTopic_single_def ReportReplicaProgress_single_eq split: option.splits sum.splits)

lemma placeTopic_rf:
  "bc_ReplicationFactor cfg = bc_ReplicationFactor cfg' \<Longrightarrow> placeTopic cfg meta name tcfg = placeTopic cfg' meta name tcfg"
  by (simp add: placeTopic_def assignTopicPartitions_def Let_def)

lemma fsmStep_agree:
  assumes "fsm_meta f = fsm_meta g" "bc_ReplicationFactor (fsm_cfg f) = bc_ReplicationFactor (fsm_cfg g)"
  shows "fsm_meta (fsmStep f cmd) = fsm_meta (fsmStep g cmd) \<and> fsm_cfg (fsmStep f cmd) = fsm_cfg f \<and> fsm_cfg (fsmStep g cmd) = fsm_cfg g"
  using assms placeTopic_rf [OF assms(2), of "fsm_meta f"]
  by (auto simp: fsmStep_def fsm_eqs Let_def split: sum.split option.split)

lemma fsmSteps_match:
  assumes "list_all (admits (sn_cfg c)) ops" "sn_meta c = fsm_meta f" "sn_cfg c = fsm_cfg f"
  shows "sn_meta (foldl singleStep c ops) = fsm_meta (foldl fsmStep f (map opCommand ops))"
  using assms
proof (induction ops arbitrary: c f)
  case (Cons op ops)
  have "admits (sn_cfg c) op" using Cons.prems(1) by simp
  note m = fsmStep_matches [OF this Cons.prems(2,3)]
  have "list_all (admits (sn_cfg (singleStep c op))) ops" using conjunct2 [OF conjunct2 [OF m]] Cons.prems(1) by (simp only: list.pred_inject)
  then have "sn_meta (foldl singleStep (singleStep c op) ops) = fsm_meta (foldl fsmStep (fsmStep f (opCommand op)) (map opCommand ops))"
    by (rule Cons.IH) (simp_all only: m)
  then show ?case by simp
qed simp

lemma fsmSteps_agree:
  assumes "fsm_meta f = fsm_meta g" "bc_ReplicationFactor (fsm_cfg f) = bc_ReplicationFactor (fsm_cfg g)"
  shows "fsm_meta (foldl fsmStep f cmds) = fsm_meta (foldl fsmStep g cmds)"
  using assms
proof (induction cmds arbitrary: f g)
  case (Cons cmd cmds)
  note m = fsmStep_agree [OF Cons.prems, of cmd]
  have "fsm_meta (foldl fsmStep (fsmStep f cmd) cmds) = fsm_meta (foldl fsmStep (fsmStep g cmd) cmds)"
    by (rule Cons.IH) (simp_all only: m Cons.prems)
  then show ?case by simp
qed simp

text \<open>C32: the replicated state machine does what the single-node controller does.  Fed the commands of
  the same operations, from the same metadata and with the same configuration, it goes
  through the same metadata, provided that the single-node controller admits the brokers; and
  replicas of the state machine that agree on the default replication factor agree on the
  metadata after every log.\<close>

theorem raft_fsm_agrees:
  assumes "list_all (admits cfg) ops"
  shows "sn_meta (foldl singleStep \<lparr>sn_meta = meta, sn_cfg = cfg\<rparr> ops)
      = fsm_meta (foldl fsmStep (newRaftMetadataFSM cfg meta) (map opCommand ops))
    \<and> (bc_ReplicationFactor cfg = bc_ReplicationFactor cfg' \<longrightarrow>
        fsm_meta (foldl fsmStep (newRaftMetadataFSM cfg meta) cmds) = fsm_meta (foldl fsmStep (newRaftMetadataFSM cfg' meta) cmds))"
  unfolding newRaftMetadataFSM_def using assms by (intro conjI impI fsmSteps_match fsmSteps_agree) simp_all

theorem raft_fsm_agrees_witness:
  "sn_meta (foldl singleStep \<lparr>sn_meta = exampleMeta, sn_cfg = exampleBrokerConfig 2\<rparr> [OpRegister ((exampleBroker 2)\<lparr>bi_Host := ''x''\<rparr>)])
   = fsm_meta (foldl fsmStep (newRaftMetadataFSM (exampleBrokerConfig 2) exampleMeta) (map opCommand [OpRegister ((exampleBroker 2)\<lparr>bi_Host := ''x''\<rparr>)]))"
proof -
  have "list_all (admits (exampleBrokerConfig 2)) [OpRegister ((exampleBroker 2)\<lparr>bi_Host := ''x''\<rparr>)]"
    by (simp add: admits_def exampleBrokerConfig_def exampleBroker_def brokerPresent_def)
  from raft_fsm_agrees [OF this] show ?thesis by blast
qed

text \<open>Nodes of one Raft group may disagree.  The state machine fills in a missing replication factor
  from the configuration of the node it runs on: two nodes with one and the same log, but
  with different defaults, end in different metadata.\<close>

theorem raft_fsm_diverges:
  "\<exists>cfg cfg' meta cmd. fsm_meta (fsmStep (newRaftMetadataFSM cfg meta) cmd) \<noteq> fsm_meta (fsmStep (newRaftMetadataFSM cfg' meta) cmd)"
proof -
  let ?c = "\<lambda>rf. fsmStep (newRaftMetadataFSM (exampleBrokerConfig rf) exampleMeta) (AssignTopic_cmd ''t'' (exampleTopic 0))"
  have "map (\<lambda>p. length (pa_Replicas p)) (cm_Partitions (fsm_meta (?c 1))) = [1, 1, 1]"
    "map (\<lambda>p. length (pa_Replicas p)) (cm_Partitions (fsm_meta (?c 2))) = [2, 2, 2]"
    by (simp_all add: fsmStep_def fsm_eqs AssignTopic_cmd_def cmdAssignTopic_def newRaftMetadataFSM_def placeTopic_def topicAssigned_def
        exampleMeta_def exampleTopic_def normalizeTopicConfig_def normalizeReplicationFactor_def exampleBrokerConfig_def
        assignTopicPartitions_def sortBrokers_def exampleBroker_def assignPartition_def upt_rec Let_def numeral_3_eq_3)
  then have "fsm_meta (?c 1) \<noteq> fsm_meta (?c 2)" by auto
  then show ?thesis by blast
qed

section \<open>Watchers\<close>

text \<open>
  One watcher with a live context, as its publishers and its reader see it.  A publisher reads
  \<open>w_lastSent\<close> and, in a second step, sends (\<^verbatim>\<open>publish\<close> holds no lock between the two);
  \<open>pending\<close> are the snapshots whose publishers have passed the test; \<open>got\<close> is what the reader
  has received, newest first.
\<close>

record watchState =
  ws_watcher :: metadataWatcher
  ws_pending :: "ClusterMetadata list"
  ws_got :: "ClusterMetadata list"

inductive watchStep :: "watchState \<Rightarrow> watchState \<Rightarrow> bool" where
  check: "cm_Version m > w_lastSent (ws_watcher s) \<Longrightarrow> watchStep s (s\<lparr>ws_pending := m # ws_pending s\<rparr>)"
| skip: "cm_Version (m :: ClusterMetadata) \<le> w_lastSent (ws_watcher s) \<Longrightarrow> watchStep s s"
| send: "m \<in> set (ws_pending s) \<Longrightarrow>
    watchStep s (s\<lparr>ws_watcher := fst (send False (ws_watcher s) m), ws_pending := remove1 m (ws_pending s)\<rparr>)"
| receive: "w_ch (ws_watcher s) = Some m \<Longrightarrow>
    watchStep s (s\<lparr>ws_watcher := (ws_watcher s)\<lparr>w_ch := None\<rparr>, ws_got := m # ws_got s\<rparr>)"

text \<open>Publishers that do not overlap: the test and the send are one step.\<close>

inductive serialStep :: "watchState \<Rightarrow> watchState \<Rightarrow> bool" where
  publish: "publishTo False m (ws_watcher s) = Some w \<Longrightarrow> serialStep s (s\<lparr>ws_watcher := w\<rparr>)"
| receive: "w_ch (ws_watcher s) = Some m \<Longrightarrow>
    serialStep s (s\<lparr>ws_watcher := (ws_watcher s)\<lparr>w_ch := None\<rparr>, ws_got := m # ws_got s\<rparr>)"

inductive_cases serialStepE: "serialStep s t"

definition watchInv :: "watchState \<Rightarrow> bool" where
  "watchInv s \<longleftrightarrow> \<not> w_done (ws_watcher s) \<and> sorted_wrt (\<lambda>a b. cm_Version b < cm_Version a) (ws_got s)
     \<and> (case w_ch (ws_watcher s) of
          None \<Rightarrow> (\<forall>m\<in>set (ws_got s). cm_Version m \<le> w_lastSent (ws_watcher s))
        | Some c \<Rightarrow> cm_Version c = w_lastSent (ws_watcher s) \<and> (\<forall>m\<in>set (ws_got s). cm_Version m < cm_Version c))"

lemma serialStep_inv: "serialStep s t \<Longrightarrow> watchInv s \<Longrightarrow> watchInv t"
proof (induction rule: serialStep.induct)
  case (publish m s w)
  show ?case
  proof (cases "cm_Version m \<le> w_lastSent (ws_watcher s)")
    case True
    then show ?thesis using publish by (auto simp: publishTo_def watchInv_def split: option.splits)
  next
    case False
    then have "w = (ws_watcher s)\<lparr>w_ch := Some m, w_lastSent := cm_Version m\<rparr>"
      using publish by (auto simp: publishTo_def send_def watchInv_def split: if_splits)
    then show ?thesis using False publish by (auto simp: watchInv_def split: option.splits)
  qed
next
  case (receive s m)
  then show ?case by (auto simp: watchInv_def)
qed

inductive serialRun :: "watchState \<Rightarrow> watchState \<Rightarrow> bool" where
  refl: "serialRun s s"
| step: "serialRun s t \<Longrightarrow> serialStep t u \<Longrightarrow> serialRun s u"

lemma serialRun_inv: "serialRun s t \<Longrightarrow> watchInv s \<Longrightarrow> watchInv t"
  by (induction rule: serialRun.induct) (auto intro: serialStep_inv)

definition freshWatch :: "int \<Rightarrow> watchState" where
  "freshWatch since = \<lparr>ws_watcher = \<lparr>w_id = 0, w_ch = None, w_lastSent = since, w_done = False, w_closed = False\<rparr>,
     ws_pending = [], ws_got = []\<rparr>"

lemma freshWatch_inv: "watchInv (freshWatch since)"
  by (simp add: watchInv_def freshWatch_def)

text \<open>Watchers when publishers take turns.  However publishing and reading are interleaved, the
  reader receives strictly increasing versions, and after a newer version is published the
  slot holds exactly that version, whatever it held before: a slow reader loses only
  snapshots that are out of date.\<close>

theorem watcher_sees_latest:
  assumes "serialRun (freshWatch since) s"
  shows "sorted_wrt (\<lambda>a b. cm_Version b < cm_Version a) (ws_got s)
    \<and> (w_lastSent (ws_watcher s) < cm_Version m \<longrightarrow>
        (\<exists>w. publishTo False m (ws_watcher s) = Some w \<and> w_ch w = Some m \<and> w_lastSent w = cm_Version m
          \<and> (\<forall>g\<in>set (ws_got s). cm_Version g < cm_Version m)))"
proof -
  have "watchInv s" by (rule serialRun_inv [OF assms freshWatch_inv])
  then show ?thesis by (auto simp: watchInv_def publishTo_def send_def split: option.splits)
qed

theorem watcher_sees_latest_witness:
  "\<exists>s w. serialRun (freshWatch 0) s \<and> publishTo False (exampleMeta\<lparr>cm_Version := 5\<rparr>) (ws_watcher s) = Some w
    \<and> w_ch w = Some (exampleMeta\<lparr>cm_Version := 5\<rparr>)"
proof -
  have r: "serialRun (freshWatch 0) (freshWatch 0)" by (rule serialRun.refl)
  show ?thesis
    using watcher_sees_latest [OF r, of "exampleMeta\<lparr>cm_Version := 5\<rparr>"] r by (auto simp: freshWatch_def)
qed

inductive watchRun :: "watchState \<Rightarrow> watchState \<Rightarrow> bool" where
  refl: "watchRun s s"
| step: "watchRun s t \<Longrightarrow> watchStep t u \<Longrightarrow> watchRun s u"

text \<open>Overlapping publishers can leave a watcher behind.  The controllers publish after they release
  their lock: for any two snapshots newer than what was sent, with the first one older than
  the second, there is an interleaving in which the second is dropped unread, the slot holds
  the first, no publisher is pending, and the reader has received nothing.\<close>

theorem publish_race_loses_latest:
  fixes old new :: ClusterMetadata
  assumes "since < cm_Version old" "cm_Version old < cm_Version new"
  shows "\<exists>s. watchRun (freshWatch since) s \<and> ws_pending s = [] \<and> ws_got s = [] \<and> w_ch (ws_watcher s) = Some old"
proof -
  let ?s0 = "freshWatch since"
  let ?s1 = "?s0\<lparr>ws_pending := old # ws_pending ?s0\<rparr>"
  let ?s2 = "?s1\<lparr>ws_pending := new # ws_pending ?s1\<rparr>"
  let ?s3 = "?s2\<lparr>ws_watcher := fst (send False (ws_watcher ?s2) new), ws_pending := remove1 new (ws_pending ?s2)\<rparr>"
  let ?s4 = "?s3\<lparr>ws_watcher := fst (send False (ws_watcher ?s3) old), ws_pending := remove1 old (ws_pending ?s3)\<rparr>"
  have "watchRun ?s0 ?s0" by (rule watchRun.refl)
  moreover have "watchStep ?s0 ?s1" using assms by (intro watchStep.check) (simp add: freshWatch_def)
  moreover have "watchStep ?s1 ?s2" using assms by (intro watchStep.check) (simp add: freshWatch_def)
  moreover have "watchStep ?s2 ?s3" by (rule watchStep.send) simp
  moreover have "watchStep ?s3 ?s4" by (rule watchStep.send) (simp add: freshWatch_def)
  ultimately have "watchRun ?s0 ?s4" by (blast intro: watchRun.step)
  then show ?thesis by (rule exI [of _ ?s4, OF conjI]) (simp add: freshWatch_def send_def)
qed

theorem publish_race_loses_latest_witness:
  "\<exists>s. watchRun (freshWatch 1) s \<and> w_ch (ws_watcher s) = Some (exampleMeta\<lparr>cm_Version := 5\<rparr>)"
  using publish_race_loses_latest [of 1 "exampleMeta\<lparr>cm_Version := 5\<rparr>" "exampleMeta\<lparr>cm_Version := 6\<rparr>"] by auto

end
