(* ===== verification/Broker.thy ===== *)
theory Broker
  imports SegmentedLog OffsetStore Controller
begin

text \<open>
  The broker (\<^verbatim>\<open>internal/broker/broker.go\<close>): topics with their partitions, producing and fetching,
  the view of the cluster, and the summaries that the other servers show.  Consumer groups are in
  \<^verbatim>\<open>ConsumerGroups\<close>.

  Go maps are association lists with distinct keys, whose order is the order in which a \<^verbatim>\<open>range\<close>
  loop visits them.  The log of a partition is a reference: the manager's entry of its topic and
  number, which the replication sinks append to as well.  The cluster controller is an interface value,
  a record of operations with their state; metrics are left out.  An operation that opens logs
  returns \<open>None\<close> when the scan of a segment does not end.
\<close>

section \<open>State\<close>

record 'c MetadataAPI =
  mapi_GetClusterMetadata :: "'c \<Rightarrow> ClusterMetadata result"
  mapi_AssignTopic :: "'c \<Rightarrow> string \<Rightarrow> TopicConfig \<Rightarrow> 'c \<times> ClusterMetadata result"

record Partition =
  pt_Metadata :: PartitionMetadata

record Topic =
  tp_Name :: string
  tp_Partitions :: "(int \<times> Partition) list"
  tp_ReplicationFactor :: int

record GroupMember =
  gm_ClientID :: string
  gm_Topics :: "string list"
  gm_Assignments :: "(string \<times> int list) list"

record ConsumerGroup =
  cg_Name :: string
  cg_Members :: "(string \<times> GroupMember) list"
  cg_Offsets :: "(string \<times> (int \<times> int) list) list"
  cg_assignments :: "(string \<times> (string \<times> int list) list) list"

record 'c Broker =
  b_cfg :: BrokerConfig
  b_storage :: Manager
  b_offsets :: OffsetStore
  b_meta :: Store
  b_cluster :: "('c MetadataAPI \<times> 'c) option"
  b_topics :: "(string \<times> Topic) list"
  b_groups :: "(string \<times> ConsumerGroup) list"
  b_known :: "(string \<times> TopicState) list"
  b_closed :: bool
  b_commitCount :: int
  b_metaVersion :: int

type_synonym assignmentMap = "(int \<times> PartitionAssignment) list"

text \<open>The single-node controller as the interface value.\<close>

definition singleNodeAPI :: "SingleNodeController MetadataAPI" where
  "singleNodeAPI = \<lparr>mapi_GetClusterMetadata = GetClusterMetadata_single, mapi_AssignTopic = AssignTopic_single\<rparr>"

definition isClustered :: "'c Broker \<Rightarrow> bool" where
  "isClustered b \<longleftrightarrow> b_cluster b \<noteq> None"

definition clusterMetadata :: "'c Broker \<Rightarrow> ClusterMetadata result option" where
  "clusterMetadata b = map_option (\<lambda>(api, c). mapi_GetClusterMetadata api c) (b_cluster b)"

text \<open>The log a partition refers to, and what an update through the reference does.\<close>

definition partLog :: "'c Broker \<Rightarrow> string \<Rightarrow> int \<Rightarrow> segmentedLog" where
  "partLog b topic pid = the (map_of (mg_logs (b_storage b)) (topic, pid))"

definition setPartLog :: "'c Broker \<Rightarrow> string \<Rightarrow> int \<Rightarrow> segmentedLog \<Rightarrow> 'c Broker" where
  "setPartLog b topic pid l = b\<lparr>b_storage := (b_storage b)\<lparr>mg_logs := AList.update (topic, pid) l (mg_logs (b_storage b))\<rparr>\<rparr>"

definition setPartition :: "'c Broker \<Rightarrow> string \<Rightarrow> int \<Rightarrow> Partition \<Rightarrow> 'c Broker" where
  "setPartition b topic pid p = (case map_of (b_topics b) topic of
       None \<Rightarrow> b
     | Some t \<Rightarrow> b\<lparr>b_topics := AList.update topic (t\<lparr>tp_Partitions := AList.update pid p (tp_Partitions t)\<rparr>) (b_topics b)\<rparr>)"

text \<open>A partition with its lock held for reading; the slices are values here.\<close>

definition metadataSnapshot :: "Partition \<Rightarrow> PartitionMetadata" where
  "metadataSnapshot p = pt_Metadata p"

definition containsInt :: "int list \<Rightarrow> int \<Rightarrow> bool" where
  "containsInt xs i = list_ex (\<lambda>v. v = i) xs"

lemma containsInt_iff [simp]: "containsInt xs i \<longleftrightarrow> i \<in> set xs"
  by (simp add: containsInt_def list_ex_iff)

section \<open>Views of the cluster metadata\<close>

definition emptyAssignment :: PartitionAssignment where
  "emptyAssignment = \<lparr>pa_Topic = '''', pa_Partition = 0, pa_Replicas = [], pa_ISR = [], pa_Leader = 0, pa_LeaderEpoch = 0\<rparr>"

fun upsertPartitionSpec :: "PartitionSpec list \<Rightarrow> PartitionSpec \<Rightarrow> PartitionSpec list" where
  "upsertPartitionSpec [] ps = [ps]"
| "upsertPartitionSpec (existing # parts) ps =
    (if ps_ID existing = ps_ID ps then ps # parts else existing # upsertPartitionSpec parts ps)"

definition partitionSpecFromAssignment :: "PartitionAssignment \<Rightarrow> PartitionSpec" where
  "partitionSpecFromAssignment assign =
    \<lparr>ps_ID = wrapS 32 (pa_Partition assign),
     ps_Replicas = map (\<lambda>i. \<lparr>rs_BrokerID = wrapS 32 i,
        rs_Role = (if i = pa_Leader assign then RoleLeader else RoleFollower),
        rs_LeaderEpoch = pa_LeaderEpoch assign\<rparr>) (pa_Replicas assign)\<rparr>"

definition servedBy :: "int \<Rightarrow> PartitionAssignment \<Rightarrow> bool" where
  "servedBy brokerID p \<longleftrightarrow> pa_Leader p = brokerID \<or> containsInt (pa_Replicas p) brokerID"

fun assignmentsForBroker :: "assignmentMap \<Rightarrow> PartitionAssignment list \<Rightarrow> string \<Rightarrow> int \<Rightarrow> assignmentMap" where
  "assignmentsForBroker result [] topic brokerID = result"
| "assignmentsForBroker result (p # ps) topic brokerID =
    (if pa_Topic p \<noteq> topic then assignmentsForBroker result ps topic brokerID
     else if \<not> servedBy brokerID p then assignmentsForBroker result ps topic brokerID
     else assignmentsForBroker (AList.update (pa_Partition p) p result) ps topic brokerID)"

text \<open>\<^verbatim>\<open>assignments[p.Topic][p.Partition] = p\<close>, creating the inner map on demand.\<close>

definition putAssignment :: "PartitionAssignment \<Rightarrow> (string \<times> assignmentMap) list \<Rightarrow> (string \<times> assignmentMap) list" where
  "putAssignment p assignments =
    (let inner = (case map_of assignments (pa_Topic p) of None \<Rightarrow> [] | Some m \<Rightarrow> m)
     in AList.update (pa_Topic p) (AList.update (pa_Partition p) p inner) assignments)"

definition emptyTopicState :: "string \<Rightarrow> TopicState" where
  "emptyTopicState name = \<lparr>ts_Name = name, ts_NumPartitions = 0, ts_ReplicationFactor = 0, ts_RetentionBytes = 0,
     ts_RetentionTime = 0, ts_Partitions = []\<rparr>"

definition addPartitionState :: "PartitionAssignment \<Rightarrow> (string \<times> TopicState) list \<Rightarrow> (string \<times> TopicState) list" where
  "addPartitionState p topics =
    (let state0 = (case map_of topics (pa_Topic p) of None \<Rightarrow> emptyTopicState '''' | Some s \<Rightarrow> s);
         state = (if ts_Name state0 = '''' then emptyTopicState (pa_Topic p) else state0);
         ps = partitionSpecFromAssignment p;
         parts = upsertPartitionSpec (ts_Partitions state) ps;
         rf = int (length (ps_Replicas ps))
     in AList.update (pa_Topic p) (state\<lparr>ts_Partitions := parts, ts_NumPartitions := int (length parts),
          ts_ReplicationFactor := (if rf > ts_ReplicationFactor state then rf else ts_ReplicationFactor state)\<rparr>) topics)"

fun topicsFromPartitions :: "PartitionAssignment list \<Rightarrow> int \<Rightarrow> (string \<times> TopicState) list \<Rightarrow> (string \<times> assignmentMap) list \<Rightarrow>
    (string \<times> TopicState) list \<times> (string \<times> assignmentMap) list" where
  "topicsFromPartitions [] brokerID topics assignments = (topics, assignments)"
| "topicsFromPartitions (p # ps) brokerID topics assignments =
    (if \<not> servedBy brokerID p then topicsFromPartitions ps brokerID topics assignments
     else topicsFromPartitions ps brokerID (addPartitionState p topics) (putAssignment p assignments))"

definition topicsFromClusterMetadata :: "ClusterMetadata \<Rightarrow> int \<Rightarrow> (string \<times> TopicState) list \<times> (string \<times> assignmentMap) list" where
  "topicsFromClusterMetadata meta brokerID = topicsFromPartitions (cm_Partitions meta) brokerID [] []"

definition topicExists :: "ClusterMetadata \<Rightarrow> string \<Rightarrow> bool" where
  "topicExists meta name = list_ex (\<lambda>p. pa_Topic p = name) (cm_Partitions meta)"

definition leaderFor :: "'c Broker \<Rightarrow> string \<Rightarrow> int \<Rightarrow> int" where
  "leaderFor b topic part = (case clusterMetadata b of
       None \<Rightarrow> 0
     | Some (Inl e) \<Rightarrow> 0
     | Some (Inr meta) \<Rightarrow>
       (case find (\<lambda>p. pa_Topic p = topic \<and> pa_Partition p = part) (cm_Partitions meta) of
          None \<Rightarrow> 0 | Some p \<Rightarrow> pa_Leader p))"

text \<open>The result is \<open>Inr None\<close> for the nil map of a broker outside a cluster.\<close>

definition clusterAssignments :: "'c Broker \<Rightarrow> (string \<times> assignmentMap) list option result" where
  "clusterAssignments b = (case clusterMetadata b of
       None \<Rightarrow> Inr None
     | Some (Inl e) \<Rightarrow> Inl e
     | Some (Inr meta) \<Rightarrow> Inr (Some (fold putAssignment (cm_Partitions meta) [])))"

definition clusterAssignmentsBestEffort :: "'c Broker \<Rightarrow> (string \<times> assignmentMap) list option" where
  "clusterAssignmentsBestEffort b = (case clusterAssignments b of Inl e \<Rightarrow> None | Inr a \<Rightarrow> a)"

text \<open>\<^verbatim>\<open>assignments[topic]\<close> of a possibly nil map of maps.\<close>

definition topicAssignments :: "(string \<times> assignmentMap) list option \<Rightarrow> string \<Rightarrow> assignmentMap option" where
  "topicAssignments assignments topic = (case assignments of None \<Rightarrow> None | Some m \<Rightarrow> map_of m topic)"

definition partitionAssignments :: "'c Broker \<Rightarrow> string \<Rightarrow> assignmentMap option" where
  "partitionAssignments b topic = topicAssignments (clusterAssignmentsBestEffort b) topic"

section \<open>Opening partitions\<close>

definition replicaForPartition :: "BrokerConfig \<Rightarrow> PartitionSpec \<Rightarrow> ReplicaSpec" where
  "replicaForPartition cfg ps = (case find (\<lambda>r. rs_BrokerID r = bc_BrokerID cfg) (ps_Replicas ps) of
       Some r \<Rightarrow> r
     | None \<Rightarrow> (case ps_Replicas ps of
         r # _ \<Rightarrow> r
       | [] \<Rightarrow> \<lparr>rs_BrokerID = wrapS 32 (bc_BrokerID cfg), rs_Role = RoleLeader, rs_LeaderEpoch = 0\<rparr>))"

text \<open>The metadata that \<^verbatim>\<open>loadTopicLocked\<close> gives a partition whose log it has opened.\<close>

definition partitionMetadata :: "BrokerConfig \<Rightarrow> string \<Rightarrow> assignmentMap option \<Rightarrow> PartitionSpec \<Rightarrow> segmentedLog \<Rightarrow> PartitionMetadata" where
  "partitionMetadata cfg name assignments ps log =
    (let pid = ps_ID ps;
         assign = (case assignments of
             None \<Rightarrow> emptyAssignment
           | Some m \<Rightarrow> (case map_of m pid of None \<Rightarrow> emptyAssignment | Some a \<Rightarrow> a));
         given = (assignments \<noteq> None);
         replica = replicaForPartition cfg ps;
         role = (if given \<and> pa_Leader assign = bc_BrokerID cfg then RoleLeader
                 else if given \<and> containsInt (pa_Replicas assign) (bc_BrokerID cfg) then RoleFollower
                 else rs_Role replica);
         epoch = (if given \<and> pa_LeaderEpoch assign \<noteq> 0 then pa_LeaderEpoch assign else rs_LeaderEpoch replica);
         self = (if given then wrapS 32 (bc_BrokerID cfg) else rs_BrokerID replica)
     in \<lparr>pm_Replica = \<lparr>pr_Topic = name, pr_Partition = pid, pr_BrokerID = self, pr_Role = role, pr_LeaderEpoch = epoch\<rparr>,
         pm_StartOffset = StartOffset log,
         pm_HighWatermark = HighWatermark log,
         pm_Leader = (if given \<and> pa_Leader assign \<noteq> 0 then pa_Leader assign else self),
         pm_Replicas = (if given \<and> pa_Replicas assign \<noteq> [] then pa_Replicas assign else [self]),
         pm_ISR = (if given \<and> pa_ISR assign \<noteq> [] then pa_ISR assign else [self])\<rparr>)"

text \<open>
  The loop of \<^verbatim>\<open>loadTopicLocked\<close>: partitions that exist are passed over; the context is polled before
  a log is opened, and the polls that are left are returned.
\<close>

fun loadPartitions :: "(int \<Rightarrow> int) \<Rightarrow> int \<Rightarrow> (nat \<Rightarrow> bool) \<Rightarrow> BrokerConfig \<Rightarrow> TopicState \<Rightarrow> assignmentMap option \<Rightarrow>
    Manager \<Rightarrow> (int \<times> Partition) list \<Rightarrow> PartitionSpec list \<Rightarrow>
    (Manager \<times> (int \<times> Partition) list \<times> go_error option \<times> (nat \<Rightarrow> bool)) option" where
  "loadPartitions mtime now ctx cfg state assignments m parts [] = Some (m, parts, None, ctx)"
| "loadPartitions mtime now ctx cfg state assignments m parts (ps # specs) =
    (if ps_ID ps \<in> fst ` set parts then loadPartitions mtime now ctx cfg state assignments m parts specs
     else if ctx 0 then Some (m, parts, Some Canceled, \<lambda>n. ctx (Suc n))
     else case OpenLog mtime now m \<lparr>lo_BaseOffset = 0, lo_Topic = ts_Name state, lo_Partition = ps_ID ps,
             lo_RetentionBytes = ts_RetentionBytes state, lo_RetentionTime = ts_RetentionTime state\<rparr> of
         None \<Rightarrow> None
       | Some (m', Inl e) \<Rightarrow> Some (m', parts, Some e, \<lambda>n. ctx (Suc n))
       | Some (m', Inr log) \<Rightarrow>
           loadPartitions mtime now (\<lambda>n. ctx (Suc n)) cfg state assignments m'
             (AList.update (ps_ID ps) \<lparr>pt_Metadata = partitionMetadata cfg (ts_Name state) assignments ps log\<rparr> parts) specs)"

definition loadTopicLocked :: "(int \<Rightarrow> int) \<Rightarrow> int \<Rightarrow> (nat \<Rightarrow> bool) \<Rightarrow> 'c Broker \<Rightarrow> TopicState \<Rightarrow> assignmentMap option \<Rightarrow>
    ('c Broker \<times> go_error option \<times> (nat \<Rightarrow> bool)) option" where
  "loadTopicLocked mtime now ctx b state assignments =
    (let specs = sort_key ps_ID (ts_Partitions state) in
     case map_of (b_topics b) (ts_Name state) of
       None \<Rightarrow>
         (if ts_Partitions state = [] then Some (b, None, ctx)
          else case loadPartitions mtime now ctx (b_cfg b) state assignments (b_storage b) [] specs of
            None \<Rightarrow> None
          | Some (m, parts, Some e, ctx') \<Rightarrow> Some (b\<lparr>b_storage := m\<rparr>, Some e, ctx')
          | Some (m, parts, None, ctx') \<Rightarrow>
              Some (b\<lparr>b_storage := m, b_topics := AList.update (ts_Name state)
                \<lparr>tp_Name = ts_Name state, tp_Partitions = parts, tp_ReplicationFactor = ts_ReplicationFactor state\<rparr>
                (b_topics b)\<rparr>, None, ctx'))
     | Some t \<Rightarrow>
         (case loadPartitions mtime now ctx (b_cfg b) state assignments (b_storage b) (tp_Partitions t) specs of
            None \<Rightarrow> None
          | Some (m, parts, err, ctx') \<Rightarrow>
              Some (b\<lparr>b_storage := m, b_topics := AList.update (ts_Name state)
                (t\<lparr>tp_Partitions := parts, tp_ReplicationFactor :=
                  (if ts_ReplicationFactor state > tp_ReplicationFactor t then ts_ReplicationFactor state
                   else tp_ReplicationFactor t)\<rparr>) (b_topics b)\<rparr>, err, ctx')))"

fun loadTopics :: "(int \<Rightarrow> int) \<Rightarrow> int \<Rightarrow> (nat \<Rightarrow> bool) \<Rightarrow> 'c Broker \<Rightarrow> (string \<times> assignmentMap) list option \<Rightarrow>
    (string \<times> TopicState) list \<Rightarrow> ('c Broker \<times> go_error option) option" where
  "loadTopics mtime now ctx b assignments [] = Some (b, None)"
| "loadTopics mtime now ctx b assignments ((name, state) # topics) =
    (case assignments of
       None \<Rightarrow>
         (case loadTopicLocked mtime now ctx b state None of
            None \<Rightarrow> None
          | Some (b', Some e, ctx') \<Rightarrow> Some (b', Some e)
          | Some (b', None, ctx') \<Rightarrow> loadTopics mtime now ctx' b' assignments topics)
     | Some asg \<Rightarrow>
         (case map_of asg name of
            None \<Rightarrow> loadTopics mtime now ctx b assignments topics
          | Some ta \<Rightarrow>
            (if ta = [] then loadTopics mtime now ctx b assignments topics
             else case loadTopicLocked mtime now ctx b state (Some ta) of
               None \<Rightarrow> None
             | Some (b', Some e, ctx') \<Rightarrow> Some (b', Some e)
             | Some (b', None, ctx') \<Rightarrow> loadTopics mtime now ctx' b' assignments topics)))"

definition bootstrapTopicsFromMetadata :: "(int \<Rightarrow> int) \<Rightarrow> int \<Rightarrow> (nat \<Rightarrow> bool) \<Rightarrow> 'c Broker \<Rightarrow> (string \<times> TopicState) list \<Rightarrow>
    (string \<times> assignmentMap) list option \<Rightarrow> ('c Broker \<times> go_error option) option" where
  "bootstrapTopicsFromMetadata mtime now ctx b topics assignments = loadTopics mtime now ctx b assignments topics"

section \<open>Creating topics\<close>

definition CreateTopicEvent_of :: "TopicState \<Rightarrow> CreateTopicEvent" where
  "CreateTopicEvent_of s = \<lparr>ev_Name = ts_Name s, ev_NumPartitions = ts_NumPartitions s,
     ev_ReplicationFactor = ts_ReplicationFactor s, ev_RetentionBytes = ts_RetentionBytes s,
     ev_RetentionTime = ts_RetentionTime s, ev_Partitions = ts_Partitions s\<rparr>"

text \<open>The tail that both ways of creating a topic share: the duplicate checks, the event, loading.\<close>

definition registerTopic :: "(int \<Rightarrow> int) \<Rightarrow> int \<Rightarrow> (nat \<Rightarrow> bool) \<Rightarrow> 'c Broker \<Rightarrow> string \<Rightarrow> TopicState \<Rightarrow> assignmentMap option \<Rightarrow>
    ('c Broker \<times> go_error option) option" where
  "registerTopic mtime now ctx b name state assignments =
    (if map_of (b_topics b) name \<noteq> None then Some (b, Some TopicExists)
     else if map_of (b_known b) name \<noteq> None then Some (b, Some TopicExists)
     else case AppendCreateTopic (ctx 0) (b_meta b) (CreateTopicEvent_of state) of
       (meta, Some e) \<Rightarrow> Some (b\<lparr>b_meta := meta\<rparr>, Some e)
     | (meta, None) \<Rightarrow>
         map_option (\<lambda>(b', err, _). (b', err))
           (loadTopicLocked mtime now (\<lambda>n. ctx (Suc n))
             (b\<lparr>b_meta := meta, b_known := AList.update name state (b_known b)\<rparr>) state assignments))"

definition topicConfigDefaults :: "BrokerConfig \<Rightarrow> TopicConfig \<Rightarrow> TopicConfig" where
  "topicConfigDefaults bcfg cfg =
    (let partitions = (if tc_Partitions cfg \<le> 0 then 1 else tc_Partitions cfg);
         rf0 = (if tc_ReplicationFactor cfg \<le> 0 then bc_ReplicationFactor bcfg else tc_ReplicationFactor cfg);
         rf = (if rf0 \<le> 0 then 1 else rf0)
     in cfg\<lparr>tc_Partitions := partitions, tc_ReplicationFactor := rf\<rparr>)"

definition localTopicState :: "BrokerConfig \<Rightarrow> string \<Rightarrow> TopicConfig \<Rightarrow> TopicState" where
  "localTopicState bcfg name cfg =
    \<lparr>ts_Name = name, ts_NumPartitions = tc_Partitions cfg, ts_ReplicationFactor = tc_ReplicationFactor cfg,
     ts_RetentionBytes = tc_RetentionBytes cfg, ts_RetentionTime = tc_RetentionTime cfg,
     ts_Partitions = map (\<lambda>p. \<lparr>ps_ID = wrapS 32 (int p),
        ps_Replicas = map (\<lambda>i. \<lparr>rs_BrokerID = wrapS 32 (bc_BrokerID bcfg),
           rs_Role = (if i > 0 then RoleFollower else RoleLeader), rs_LeaderEpoch = 0\<rparr>)
          [0..<nat (tc_ReplicationFactor cfg)]\<rparr>) [0..<nat (tc_Partitions cfg)]\<rparr>"

text \<open>\<^verbatim>\<open>CreateTopicWithAssignments\<close> in a cluster, with assignments.\<close>

definition keepsAssignment :: "BrokerConfig \<Rightarrow> string \<Rightarrow> PartitionAssignment \<Rightarrow> bool" where
  "keepsAssignment cfg name assign \<longleftrightarrow>
     \<not> (pa_Topic assign \<noteq> '''' \<and> pa_Topic assign \<noteq> name) \<and> servedBy (bc_BrokerID cfg) assign"

definition createTopicAssigned :: "(int \<Rightarrow> int) \<Rightarrow> int \<Rightarrow> (nat \<Rightarrow> bool) \<Rightarrow> 'c Broker \<Rightarrow> string \<Rightarrow> TopicConfig \<Rightarrow> assignmentMap \<Rightarrow>
    ('c Broker \<times> go_error option) option" where
  "createTopicAssigned mtime now ctx b name cfg assignments =
    (let filtered = filter (\<lambda>(pid, assign). keepsAssignment (b_cfg b) name assign) assignments;
         specs = map (\<lambda>(pid, assign). partitionSpecFromAssignment assign) filtered;
         rf = foldl (\<lambda>rf ps. if int (length (ps_Replicas ps)) > rf then int (length (ps_Replicas ps)) else rf) 0 specs;
         state = \<lparr>ts_Name = name, ts_NumPartitions = int (length specs), ts_ReplicationFactor = rf,
           ts_RetentionBytes = tc_RetentionBytes cfg, ts_RetentionTime = tc_RetentionTime cfg,
           ts_Partitions = sort_key ps_ID specs\<rparr>
     in if filtered = [] then Some (b, None)
        else registerTopic mtime now ctx b name state (Some filtered))"

definition createTopicFromClusterAssignments :: "(int \<Rightarrow> int) \<Rightarrow> int \<Rightarrow> (nat \<Rightarrow> bool) \<Rightarrow> 'c Broker \<Rightarrow> 'c MetadataAPI \<Rightarrow> 'c \<Rightarrow>
    string \<Rightarrow> TopicConfig \<Rightarrow> ('c Broker \<times> go_error option) option" where
  "createTopicFromClusterAssignments mtime now ctx b api c name cfg = (case mapi_GetClusterMetadata api c of
       Inl e \<Rightarrow> Some (b, Some e)
     | Inr meta0 \<Rightarrow>
       (if topicExists meta0 name then Some (b, Some TopicExists)
        else case mapi_AssignTopic api c name cfg of
          (c', Inl e) \<Rightarrow> Some (b\<lparr>b_cluster := Some (api, c')\<rparr>, Some e)
        | (c', Inr meta) \<Rightarrow>
          (let b' = b\<lparr>b_cluster := Some (api, c')\<rparr>;
               assignments = assignmentsForBroker [] (cm_Partitions meta) name (bc_BrokerID (b_cfg b))
           in if assignments = [] then Some (b', None)
              else createTopicAssigned mtime now ctx b' name cfg assignments)))"

definition CreateTopic_broker :: "(int \<Rightarrow> int) \<Rightarrow> int \<Rightarrow> (nat \<Rightarrow> bool) \<Rightarrow> 'c Broker \<Rightarrow> string \<Rightarrow> TopicConfig \<Rightarrow>
    ('c Broker \<times> go_error option) option" where
  "CreateTopic_broker mtime now ctx b name cfg0 =
    (if name = '''' then Some (b, Some (Errorf ''topic name is required''))
     else let cfg = topicConfigDefaults (b_cfg b) cfg0 in
       case b_cluster b of
         Some (api, c) \<Rightarrow> createTopicFromClusterAssignments mtime now ctx b api c name cfg
       | None \<Rightarrow> registerTopic mtime now ctx b name (localTopicState (b_cfg b) name cfg) None)"

definition CreateTopicWithAssignments :: "(int \<Rightarrow> int) \<Rightarrow> int \<Rightarrow> (nat \<Rightarrow> bool) \<Rightarrow> 'c Broker \<Rightarrow> string \<Rightarrow> TopicConfig \<Rightarrow> assignmentMap \<Rightarrow>
    ('c Broker \<times> go_error option) option" where
  "CreateTopicWithAssignments mtime now ctx b name cfg assignments =
    (if \<not> isClustered b \<or> assignments = [] then CreateTopic_broker mtime now ctx b name cfg
     else createTopicAssigned mtime now ctx b name cfg assignments)"

section \<open>Starting\<close>

text \<open>
  A \<^verbatim>\<open>range\<close> over a map visits its keys in some order: \<open>order\<close>, which the caller fixes.
\<close>

definition rangeMap :: "'k list \<Rightarrow> ('k \<rightharpoonup> 'v) \<Rightarrow> ('k \<times> 'v) list" where
  "rangeMap order m = List.map_filter (\<lambda>k. map_option (Pair k) (m k)) order"

definition rangeOffsets :: "(string \<times> (string \<times> int list) list) list \<Rightarrow> offsets \<Rightarrow> snapshot" where
  "rangeOffsets order m = List.map_filter (\<lambda>(g, ts). map_option (\<lambda>tm.
     (g, List.map_filter (\<lambda>(t, ps). map_option (\<lambda>pm. (t, rangeMap ps pm)) (tm t)) ts)) (m g)) order"

definition newGroup :: "string \<Rightarrow> ConsumerGroup" where
  "newGroup name = \<lparr>cg_Name = name, cg_Members = [], cg_Offsets = [], cg_assignments = []\<rparr>"

definition recoveredGroups :: "snapshot \<Rightarrow> (string \<times> ConsumerGroup) list" where
  "recoveredGroups offsetData = map (\<lambda>(g, topics). (g, (newGroup g)\<lparr>cg_Offsets := topics\<rparr>)) offsetData"

definition reconcileClusterMetadata :: "'c Broker \<Rightarrow> 'c MetadataAPI \<Rightarrow> 'c \<Rightarrow> ClusterMetadata option \<Rightarrow>
    ('c Broker \<times> (string \<times> TopicState) list \<times> (string \<times> assignmentMap) list) result" where
  "reconcileClusterMetadata b api c initial =
    bindE (case initial of Some m \<Rightarrow> Inr m | None \<Rightarrow> mapi_GetClusterMetadata api c) (\<lambda>meta.
      let (topics, assignments) = topicsFromClusterMetadata meta (bc_BrokerID (b_cfg b))
      in Inr (b\<lparr>b_metaVersion := cm_Version meta\<rparr>, topics, assignments))"

text \<open>
  \<open>NewBroker\<close> with a storage, an offset store, and a metadata store that may be nil; \<open>gorder\<close> and
  \<open>torder\<close> are the orders in which the recovered maps are visited.  Recovery runs with the background
  context, which is never cancelled.
\<close>

definition NewBroker :: "(int \<Rightarrow> int) \<Rightarrow> int \<Rightarrow> (string \<times> (string \<times> int list) list) list \<Rightarrow> string list \<Rightarrow> BrokerConfig \<Rightarrow>
    Manager option \<Rightarrow> OffsetStore option \<Rightarrow> Store option \<Rightarrow> ('c MetadataAPI \<times> 'c) option \<Rightarrow> ClusterMetadata option \<Rightarrow>
    'c Broker result option" where
  "NewBroker mtime now gorder torder cfg storage offsets meta cluster initialMeta =
    (case (storage, offsets, meta) of
       (None, _, _) \<Rightarrow> Some (Inl (Errorf ''storage is required''))
     | (_, None, _) \<Rightarrow> Some (Inl (Errorf ''offset store is required''))
     | (_, _, None) \<Rightarrow> Some (Inl (Errorf ''metadata store is required''))
     | (Some st, Some os, Some ms) \<Rightarrow>
       if bc_ReplicationFactor cfg < 1 then Some (Inl (Errorf ''replication factor must be >= 1''))
       else case Recover (\<lambda>n. False) os of
         None \<Rightarrow> None
       | Some (os', offsetData, Some e) \<Rightarrow> Some (Inl e)
       | Some (os', offsetData, None) \<Rightarrow>
         (case RecoverTopics (\<lambda>n. False) ms of
            None \<Rightarrow> None
          | Some (ms', recovered, Some e) \<Rightarrow> Some (Inl e)
          | Some (ms', recovered, None) \<Rightarrow>
            (let b0 = \<lparr>b_cfg = cfg, b_storage = st, b_offsets = os', b_meta = ms', b_cluster = cluster, b_topics = [],
                   b_groups = recoveredGroups (rangeOffsets gorder offsetData), b_known = [], b_closed = False,
                   b_commitCount = 0, b_metaVersion = 0\<rparr>
             in case (case cluster of
                   None \<Rightarrow> Inr (b0, rangeMap torder recovered, None)
                 | Some (api, c) \<Rightarrow> bindE (reconcileClusterMetadata b0 api c initialMeta)
                     (\<lambda>(b, topics, assignments). Inr (b, topics, Some assignments))) of
               Inl e \<Rightarrow> Some (Inl e)
             | Inr (b1, topics, assignments) \<Rightarrow>
               (case bootstrapTopicsFromMetadata mtime now (\<lambda>n. False) (b1\<lparr>b_known := topics\<rparr>) topics assignments of
                  None \<Rightarrow> None
                | Some (b2, Some e) \<Rightarrow> Some (Inl e)
                | Some (b2, None) \<Rightarrow> Some (Inr b2)))))"

section \<open>Following the cluster\<close>

definition updatePartition :: "int \<Rightarrow> PartitionAssignment \<Rightarrow> Partition \<Rightarrow> Partition" where
  "updatePartition brokerID assign part =
    (let md = pt_Metadata part; r = pm_Replica md in
     part\<lparr>pt_Metadata := md
       \<lparr>pm_Replica := r\<lparr>pr_Role := (if pa_Leader assign = brokerID then RoleLeader else RoleFollower),
           pr_LeaderEpoch := (if pa_LeaderEpoch assign \<noteq> 0 then pa_LeaderEpoch assign else pr_LeaderEpoch r)\<rparr>,
        pm_Leader := (if pa_Leader assign \<noteq> 0 then pa_Leader assign else pm_Leader md),
        pm_Replicas := (if pa_Replicas assign \<noteq> [] then pa_Replicas assign else pm_Replicas md),
        pm_ISR := (if pa_ISR assign \<noteq> [] then pa_ISR assign else pm_ISR md)\<rparr>\<rparr>)"

definition updatePartitionMetadata :: "'c Broker \<Rightarrow> (string \<times> assignmentMap) list option \<Rightarrow> 'c Broker" where
  "updatePartitionMetadata b assignments = (case assignments of
       None \<Rightarrow> b
     | Some asg \<Rightarrow> b\<lparr>b_topics := map (\<lambda>(name, t). (name,
         case map_of asg name of
           None \<Rightarrow> t
         | Some ta \<Rightarrow> t\<lparr>tp_Partitions := map (\<lambda>(pid, part). (pid,
             case map_of ta pid of
               None \<Rightarrow> part
             | Some assign \<Rightarrow> updatePartition (bc_BrokerID (b_cfg b)) assign part)) (tp_Partitions t)\<rparr>)) (b_topics b)\<rparr>)"

definition handleClusterMetadataUpdate :: "(int \<Rightarrow> int) \<Rightarrow> int \<Rightarrow> (nat \<Rightarrow> bool) \<Rightarrow> 'c Broker \<Rightarrow> ClusterMetadata \<Rightarrow>
    ('c Broker \<times> go_error option) option" where
  "handleClusterMetadataUpdate mtime now ctx b meta =
    (if \<not> isClustered b then Some (b, None)
     else if cm_Version meta \<le> b_metaVersion b then Some (b, None)
     else let (topics, assignments) = topicsFromClusterMetadata meta (bc_BrokerID (b_cfg b)) in
       case bootstrapTopicsFromMetadata mtime now ctx b topics (Some assignments) of
         None \<Rightarrow> None
       | Some (b', Some e) \<Rightarrow> Some (b', Some e)
       | Some (b', None) \<Rightarrow>
           Some ((updatePartitionMetadata b' (Some assignments))\<lparr>b_metaVersion := cm_Version meta\<rparr>, None))"

text \<open>
  The goroutine of \<^verbatim>\<open>StartClusterMetadataWatcher\<close>: every update in turn, each with the polls of the
  context during it; an error is only logged.
\<close>

fun followMetadata :: "(int \<Rightarrow> int) \<Rightarrow> int \<Rightarrow> 'c Broker \<Rightarrow> ((nat \<Rightarrow> bool) \<times> ClusterMetadata) list \<Rightarrow> 'c Broker option" where
  "followMetadata mtime now b [] = Some b"
| "followMetadata mtime now b ((ctx, meta) # updates) =
    (case handleClusterMetadataUpdate mtime now ctx b meta of
       None \<Rightarrow> None
     | Some (b', err) \<Rightarrow> followMetadata mtime now b' updates)"

section \<open>Producing and fetching\<close>

definition fnvOffset32 :: "32 word" where "fnvOffset32 = 2166136261"
definition fnvPrime32 :: "32 word" where "fnvPrime32 = 16777619"

text \<open>\<^verbatim>\<open>fnv.New32a\<close>: exclusive-or with the byte, then multiplication, modulo \<open>2 ^ 32\<close>.\<close>

definition fnv32a :: "bytes \<Rightarrow> 32 word" where
  "fnv32a key = foldl (\<lambda>h c. xor h (ucast c) * fnvPrime32) fnvOffset32 key"

definition sortedPartitions :: "Topic \<Rightarrow> int list" where
  "sortedPartitions t = sort (map fst (tp_Partitions t))"

definition topicPartitionIDs :: "'c Broker \<Rightarrow> string \<Rightarrow> int list" where
  "topicPartitionIDs b topic = (case partitionAssignments b topic of
       Some (a # as) \<Rightarrow> sort (map fst (a # as))
     | _ \<Rightarrow> (case map_of (b_topics b) topic of None \<Rightarrow> [] | Some t \<Rightarrow> sortedPartitions t))"

definition partitionForKey :: "'c Broker \<Rightarrow> string \<Rightarrow> bytes option \<Rightarrow> int \<times> go_error option" where
  "partitionForKey b topic key =
    (case key of
       None \<Rightarrow> (-1, Some (Errorf ''key is required for hash routing''))
     | Some k \<Rightarrow>
       (if k = [] then (-1, Some (Errorf ''key is required for hash routing''))
        else let partitions = topicPartitionIDs b topic in
          if partitions = [] then (-1, Some TopicNotFound)
          else (partitions ! (unat (fnv32a k) mod (length partitions mod 2 ^ 32)), None)))"

text \<open>What \<open>Produce\<close> and \<open>Fetch\<close> check under the broker's lock, and the leadership check under the partition's.\<close>

definition lookupPartition :: "'c Broker \<Rightarrow> string \<Rightarrow> int \<Rightarrow> Partition result" where
  "lookupPartition b topic part =
    (if b_closed b then Inl (Errorf ''broker closed'')
     else case map_of (b_topics b) topic of
       None \<Rightarrow> Inl TopicNotFound
     | Some t \<Rightarrow> (case map_of (tp_Partitions t) part of
         None \<Rightarrow> Inl PartitionNotFound
       | Some p \<Rightarrow> Inr p))"

definition notLeader :: "'c Broker \<Rightarrow> string \<Rightarrow> int \<Rightarrow> Partition \<Rightarrow> go_error option" where
  "notLeader b topic part p =
    (if isClustered b \<and> pr_Role (pm_Replica (pt_Metadata p)) \<noteq> RoleLeader
     then let leader = pm_Leader (pt_Metadata p) in
       Some (NotLeaderError topic part (if leader = 0 then leaderFor b topic part else leader))
     else None)"

definition Produce :: "(nat \<Rightarrow> bool) \<Rightarrow> (nat \<Rightarrow> int) \<Rightarrow> int \<Rightarrow> 'c Broker \<Rightarrow> string \<Rightarrow> int \<Rightarrow> Record list \<Rightarrow>
    'c Broker \<times> int \<times> go_error option" where
  "Produce ctx clock now b topic part records = (case lookupPartition b topic part of
       Inl e \<Rightarrow> (b, -1, Some e)
     | Inr p \<Rightarrow> (case notLeader b topic part p of
         Some e \<Rightarrow> (b, -1, Some e)
       | None \<Rightarrow>
         (let md = pt_Metadata p in
          if records = [] then (b, wrapS 64 (pm_HighWatermark md + 1), None)
          else case AppendBatch ctx clock now (partLog b topic part) records of
            (l, base, Some e) \<Rightarrow> (setPartLog b topic part l, -1, Some e)
          | (l, base, None) \<Rightarrow>
            (let hw = wrapS 64 (base + int (length records - 1))
             in (setPartition (setPartLog b topic part l) topic part
                   (if hw > pm_HighWatermark md then p\<lparr>pt_Metadata := md\<lparr>pm_HighWatermark := hw\<rparr>\<rparr> else p), base, None)))))"

definition withKey :: "bytes option \<Rightarrow> Record \<Rightarrow> Record" where
  "withKey key r = (if blen (r_Key r) = 0 then r\<lparr>r_Key := key\<rparr> else r)"

definition ProduceByKey :: "(nat \<Rightarrow> bool) \<Rightarrow> (nat \<Rightarrow> int) \<Rightarrow> int \<Rightarrow> 'c Broker \<Rightarrow> string \<Rightarrow> bytes option \<Rightarrow> Record list \<Rightarrow>
    'c Broker \<times> int \<times> int \<times> go_error option" where
  "ProduceByKey ctx clock now b topic key records = (case partitionForKey b topic key of
       (_, Some e) \<Rightarrow> (b, -1, -1, Some e)
     | (part, None) \<Rightarrow>
       (case Produce ctx clock now b topic part (map (withKey key) records) of
          (b', base, Some e) \<Rightarrow> (b', part, -1, Some e)
        | (b', base, None) \<Rightarrow> (b', part, base, None)))"

definition Fetch :: "(nat \<Rightarrow> bool) \<Rightarrow> 'c Broker \<Rightarrow> string \<Rightarrow> int \<Rightarrow> int \<Rightarrow> int \<Rightarrow> Record list result" where
  "Fetch ctx b topic part offset maxBytes = bindE (lookupPartition b topic part) (\<lambda>p.
     case notLeader b topic part p of
       Some e \<Rightarrow> Inl e
     | None \<Rightarrow> if offset > pm_HighWatermark (pt_Metadata p) then Inr []
               else Read ctx (partLog b topic part) offset maxBytes)"

definition ListOffsets :: "'c Broker \<Rightarrow> string \<Rightarrow> int \<Rightarrow> int \<times> int \<times> go_error option" where
  "ListOffsets b topic part = (case lookupPartition b topic part of
       Inl e \<Rightarrow> (-1, -1, Some e)
     | Inr p \<Rightarrow> (StartOffset (partLog b topic part), HighWatermark (partLog b topic part), None))"

section \<open>Metadata and summaries\<close>

definition metadataRow :: "'c Broker \<Rightarrow> assignmentMap option \<Rightarrow> string \<Rightarrow> int \<times> Partition \<Rightarrow> PartitionMetadata" where
  "metadataRow b ta name = (\<lambda>(pid, p).
    (let assign = (case ta of None \<Rightarrow> None | Some m \<Rightarrow> map_of m pid);
         r = pm_Replica (metadataSnapshot p);
         self = bc_BrokerID (b_cfg b)
     in \<lparr>pm_Replica = \<lparr>pr_Topic = name, pr_Partition = pid, pr_BrokerID = self,
           pr_Role = (case assign of None \<Rightarrow> pr_Role r | Some a \<Rightarrow> if pa_Leader a = self then RoleLeader else RoleFollower),
           pr_LeaderEpoch = (case assign of None \<Rightarrow> pr_LeaderEpoch r
             | Some a \<Rightarrow> if pa_LeaderEpoch a \<noteq> 0 then pa_LeaderEpoch a else pr_LeaderEpoch r)\<rparr>,
         pm_StartOffset = StartOffset (partLog b name pid),
         pm_HighWatermark = HighWatermark (partLog b name pid),
         pm_Leader = (case assign of None \<Rightarrow> pr_BrokerID r | Some a \<Rightarrow> pa_Leader a),
         pm_Replicas = (case assign of None \<Rightarrow> [pr_BrokerID r] | Some a \<Rightarrow> pa_Replicas a),
         pm_ISR = (case assign of None \<Rightarrow> [pr_BrokerID r] | Some a \<Rightarrow> pa_ISR a)\<rparr>))"

definition Metadata :: "'c Broker \<Rightarrow> string list \<Rightarrow> PartitionMetadata list result" where
  "Metadata b topics = bindE (clusterAssignments b) (\<lambda>assignments.
     Inr (concat (map (\<lambda>(name, t).
       if topics \<noteq> [] \<and> name \<notin> set topics then []
       else map (metadataRow b (topicAssignments assignments name) name) (tp_Partitions t)) (b_topics b))))"

text \<open>\<^verbatim>\<open>Close\<close> closes both stores; their errors are joined.\<close>

definition Close_broker :: "'c Broker \<Rightarrow> 'c Broker \<times> go_error option" where
  "Close_broker b =
    (if b_closed b then (b, None)
     else
       (let (os, e1) = Close_offsets (b_offsets b);
            (ms, e2) = Close_meta (b_meta b)
        in (b\<lparr>b_closed := True, b_offsets := os, b_meta := ms\<rparr>,
            if e1 \<noteq> None then Some (Errorf ''close offset store: %w'')
            else if e2 \<noteq> None then Some (Errorf ''close metadata store: %w'') else None)))"

definition isLeaderPartition :: "'c Broker \<Rightarrow> assignmentMap option \<Rightarrow> int \<Rightarrow> Partition \<Rightarrow> bool" where
  "isLeaderPartition b ta pid p =
    (let assign = (case ta of None \<Rightarrow> None | Some m \<Rightarrow> map_of m pid) in
     if (case assign of None \<Rightarrow> False | Some a \<Rightarrow> pa_Leader a \<noteq> bc_BrokerID (b_cfg b)) then False
     else \<not> isClustered b \<or> pr_Role (pm_Replica (metadataSnapshot p)) = RoleLeader)"

definition leaderPartitionCount :: "'c Broker \<Rightarrow> Topic \<Rightarrow> assignmentMap option \<Rightarrow> int" where
  "leaderPartitionCount b t ta = int (length (filter (\<lambda>(pid, p). isLeaderPartition b ta pid p) (tp_Partitions t)))"

definition TopicAndPartitionCounts :: "'c Broker \<Rightarrow> int \<times> int" where
  "TopicAndPartitionCounts b =
    (let assignments = clusterAssignmentsBestEffort b;
         counts = map (\<lambda>(_, t). leaderPartitionCount b t (topicAssignments assignments (tp_Name t))) (b_topics b)
     in (int (length (filter (\<lambda>n. n > 0 \<or> \<not> isClustered b) counts)), sum_list counts))"

text \<open>The \<^verbatim>\<open>float64\<close> counters are integers here, exact below \<open>2 ^ 53\<close>.\<close>

definition partitionDurableMessageCount :: "segmentedLog \<Rightarrow> int" where
  "partitionDurableMessageCount log =
    (let start = StartOffset log; high = HighWatermark log
     in if high < start \<or> high < 0 then 0 else (high - start) + 1)"

definition ProducedMessagesCount :: "'c Broker \<Rightarrow> int" where
  "ProducedMessagesCount b =
    (let assignments = clusterAssignmentsBestEffort b in
     sum_list (concat (map (\<lambda>(name, t). map (\<lambda>(pid, p). partitionDurableMessageCount (partLog b name pid))
       (filter (\<lambda>(pid, p). isLeaderPartition b (topicAssignments assignments name) pid p) (tp_Partitions t))) (b_topics b))))"

definition LocalPartitionsSnapshot :: "'c Broker \<Rightarrow> PartitionAssignment list result" where
  "LocalPartitionsSnapshot b = (let self = bc_BrokerID (b_cfg b) in case clusterMetadata b of
       None \<Rightarrow> Inr (concat (map (\<lambda>(name, t). map (\<lambda>(pid, p).
         \<lparr>pa_Topic = name, pa_Partition = pid, pa_Replicas = [self], pa_ISR = [self], pa_Leader = self, pa_LeaderEpoch = 0\<rparr>)
         (tp_Partitions t)) (b_topics b)))
     | Some (Inl e) \<Rightarrow> Inl e
     | Some (Inr meta) \<Rightarrow> Inr (filter (\<lambda>p. pa_Leader p = self) (cm_Partitions meta)))"

record TopicSummary =
  tsum_Name :: string
  tsum_Partitions :: int
  tsum_ReplicationFactor :: int

record PartitionInfo =
  pi_ID :: int
  pi_Leader :: int
  pi_Role :: string
  pi_HighWatermark :: int
  pi_StartOffset :: int
  pi_Replicas :: "int list"
  pi_ISR :: "int list"
  pi_LeaderEpoch :: int

record TopicDetailInfo =
  td_Name :: string
  td_PartitionCount :: int
  td_ReplicationFactor :: int
  td_Partitions :: "PartitionInfo list"

definition TopicsSnapshot :: "'c Broker \<Rightarrow> TopicSummary list" where
  "TopicsSnapshot b =
    (let assignments = clusterAssignmentsBestEffort b in
     List.map_filter (\<lambda>(_, t).
       (let leaderParts = leaderPartitionCount b t (topicAssignments assignments (tp_Name t)) in
        if isClustered b \<and> leaderParts = 0 then None
        else Some \<lparr>tsum_Name = tp_Name t, tsum_Partitions = leaderParts, tsum_ReplicationFactor = tp_ReplicationFactor t\<rparr>))
       (b_topics b))"

definition roleString :: "PartitionRole \<Rightarrow> string" where
  "roleString role =
    (if role = RoleLeader then ''leader'' else if role = RoleFollower then ''follower'' else ''unknown'')"

definition containsBroker :: "int list \<Rightarrow> int \<Rightarrow> bool" where
  "containsBroker brokers i = list_ex (\<lambda>b. b = i) brokers"

definition partitionInfo :: "'c Broker \<Rightarrow> string \<Rightarrow> assignmentMap option \<Rightarrow> int \<times> Partition \<Rightarrow> PartitionInfo option" where
  "partitionInfo b name ta = (\<lambda>(pid, p).
    (let assign = (case ta of None \<Rightarrow> None | Some m \<Rightarrow> map_of m pid);
         self = bc_BrokerID (b_cfg b);
         r = pm_Replica (metadataSnapshot p);
         info = \<lparr>pi_ID = pid, pi_Leader = pr_BrokerID r, pi_Role = roleString (pr_Role r),
           pi_HighWatermark = HighWatermark (partLog b name pid), pi_StartOffset = StartOffset (partLog b name pid),
           pi_Replicas = [pr_BrokerID r], pi_ISR = [pr_BrokerID r], pi_LeaderEpoch = pr_LeaderEpoch r\<rparr>
     in if isClustered b \<and> (case assign of
             Some a \<Rightarrow> \<not> containsBroker (pa_Replicas a) self
           | None \<Rightarrow> pr_BrokerID r \<noteq> self) then None
        else Some (case assign of
             None \<Rightarrow> info
           | Some a \<Rightarrow> (if pa_Replicas a = [] then info
               else info\<lparr>pi_Leader := pa_Leader a, pi_Replicas := pa_Replicas a, pi_ISR := pa_ISR a,
                      pi_LeaderEpoch := pa_LeaderEpoch a\<rparr>))))"

definition TopicDetail :: "'c Broker \<Rightarrow> string \<Rightarrow> TopicDetailInfo option" where
  "TopicDetail b name = (case map_of (b_topics b) name of
       None \<Rightarrow> None
     | Some t \<Rightarrow>
       (let parts = List.map_filter (partitionInfo b name (partitionAssignments b name)) (tp_Partitions t)
        in Some \<lparr>td_Name = tp_Name t, td_PartitionCount = int (length parts),
             td_ReplicationFactor = tp_ReplicationFactor t, td_Partitions = parts\<rparr>))"

section \<open>Browsing messages\<close>

text \<open>\<^verbatim>\<open>strconv.ParseInt(s, 10, 64)\<close>: an optional sign, then digits; \<open>None\<close> for a syntax or range error.\<close>

definition digitVal :: "char \<Rightarrow> int option" where
  "digitVal c = (let n = of_char c :: int in if 48 \<le> n \<and> n \<le> 57 then Some (n - 48) else None)"

fun digitsVal :: "int \<Rightarrow> string \<Rightarrow> int option" where
  "digitsVal acc [] = Some acc"
| "digitsVal acc (c # cs) = (case digitVal c of None \<Rightarrow> None | Some d \<Rightarrow> digitsVal (10 * acc + d) cs)"

definition parseInt64 :: "string \<Rightarrow> int option" where
  "parseInt64 s =
    (let (neg, ds) = (case s of [] \<Rightarrow> (False, []) | c # cs \<Rightarrow>
           if c = CHR ''-'' then (True, cs) else if c = CHR ''+'' then (False, cs) else (False, s))
     in if ds = [] then None
        else case digitsVal 0 ds of
          None \<Rightarrow> None
        | Some v \<Rightarrow> (let x = (if neg then - v else v) in if inS 64 x then Some x else None))"

text \<open>
  \<^verbatim>\<open>FetchMessages\<close>; \<open>None\<close> is the panic of the last slice expression, for a negative limit.
\<close>

definition FetchMessages :: "(nat \<Rightarrow> bool) \<Rightarrow> 'c Broker \<Rightarrow> string \<Rightarrow> int \<Rightarrow> string \<Rightarrow> int \<Rightarrow>
    (int \<times> Record list \<times> go_error option) option" where
  "FetchMessages ctx b topic part offsetParam limit = (case ListOffsets b topic part of
       (_, _, Some e) \<Rightarrow> Some (0, [], Some e)
     | (earliest, latest, None) \<Rightarrow>
       (case (if offsetParam = '''' then Some latest else parseInt64 offsetParam) of
          None \<Rightarrow> Some (0, [], Some (Errorf ''invalid offset''))
        | Some target0 \<Rightarrow>
          (let target = (if target0 < earliest then earliest else target0);
               start0 = wrapS 64 (wrapS 64 (target - limit) + 1);
               start1 = (if start0 < earliest then earliest else start0);
               start = (if start1 < 0 then 0 else start1)
           in case Fetch ctx b topic part start 10485760 of
             Inl e \<Rightarrow> Some (0, [], Some e)
           | Inr recs \<Rightarrow>
             (let filtered = filter (\<lambda>r. \<not> r_Offset r > target \<and> \<not> r_Offset r < start) recs in
              if int (length filtered) > limit
              then if limit < 0 then None else Some (start, drop (length filtered - nat limit) filtered, None)
              else Some (start, filtered, None)))))"

section \<open>High watermarks of consumer groups\<close>

definition localHighWatermarks :: "'c Broker \<Rightarrow> (string \<times> (int \<times> int) list) list" where
  "localHighWatermarks b = map (\<lambda>(name, t). (name,
     map (\<lambda>(pid, p). (pid, HighWatermark (partLog b name pid))) (tp_Partitions t))) (b_topics b)"

definition putWatermark :: "PartitionMetadata \<Rightarrow> (string \<times> (int \<times> int) list) list \<Rightarrow> (string \<times> (int \<times> int) list) list" where
  "putWatermark m hwm =
    (let t = pr_Topic (pm_Replica m);
         inner = (case map_of hwm t of None \<Rightarrow> [] | Some i \<Rightarrow> i)
     in AList.update t (AList.update (pr_Partition (pm_Replica m)) (pm_HighWatermark m) inner) hwm)"

definition consumerGroupHighWatermarks :: "'c Broker \<Rightarrow> (string \<times> (int \<times> int) list) list" where
  "consumerGroupHighWatermarks b = (case Metadata b [] of
       Inl e \<Rightarrow> localHighWatermarks b
     | Inr meta \<Rightarrow> fold putWatermark meta [])"

record ConsumerAssignment =
  ca_Topic :: string
  ca_Partition :: int
  ca_CommittedOffset :: int
  ca_HighWatermark :: int
  ca_Lag :: int

record ConsumerGroupInfo =
  gi_Name :: string
  gi_Members :: int
  gi_Assignments :: "ConsumerAssignment list"

definition consumerLag :: "int \<Rightarrow> int \<Rightarrow> int" where
  "consumerLag h off =
    (if h \<ge> 0 \<and> h > off then let lag = wrapS 64 (h - off - 1) in if lag < 0 then 0 else lag else 0)"

definition ConsumerGroupsSnapshot :: "'c Broker \<Rightarrow> ConsumerGroupInfo list" where
  "ConsumerGroupsSnapshot b =
    (let hwm = consumerGroupHighWatermarks b in
     map (\<lambda>(name, g). \<lparr>gi_Name = name, gi_Members = int (length (cg_Members g)),
       gi_Assignments = concat (map (\<lambda>(topic, parts). map (\<lambda>(pid, off).
         (let h = (case map_of hwm topic of None \<Rightarrow> 0 | Some m \<Rightarrow> (case map_of m pid of None \<Rightarrow> 0 | Some x \<Rightarrow> x))
          in \<lparr>ca_Topic = topic, ca_Partition = pid, ca_CommittedOffset = off, ca_HighWatermark = h,
              ca_Lag = consumerLag h off\<rparr>)) parts) (cg_Offsets g))\<rparr>) (b_groups b))"

end
