(* ===== verification/ConsumerGroups.thy ===== *)
theory ConsumerGroups
  imports Broker
begin

text \<open>
  Consumer groups of the broker (\<^verbatim>\<open>internal/broker/broker.go\<close>): committing and fetching offsets, joining
  and leaving a group, and the assignment of partitions to its members.

  A lock that the goroutine itself holds for writing cannot be taken again: \<open>snapshotOffsetsLocked\<close>
  is given the names of the groups whose lock the caller holds and is \<open>None\<close> when it blocks.
\<close>

section \<open>Committed offsets\<close>

definition snapshotOffsetsLocked :: "string set \<Rightarrow> 'c Broker \<Rightarrow> snapshot option" where
  "snapshotOffsetsLocked held b =
    (if \<exists>g\<in>fst ` set (b_groups b). g \<in> held then None
     else Some (map (\<lambda>(g, cg). (g, cg_Offsets cg)) (b_groups b)))"

text \<open>\<^verbatim>\<open>b.groups[group]\<close>, created when it is missing.\<close>

definition groupOf :: "'c Broker \<Rightarrow> string \<Rightarrow> ConsumerGroup" where
  "groupOf b grp = (case map_of (b_groups b) grp of None \<Rightarrow> newGroup grp | Some g \<Rightarrow> g)"

definition setGroup :: "'c Broker \<Rightarrow> string \<Rightarrow> ConsumerGroup \<Rightarrow> 'c Broker" where
  "setGroup b grp g = b\<lparr>b_groups := AList.update grp g (b_groups b)\<rparr>"

definition offsetsOf :: "ConsumerGroup \<Rightarrow> string \<Rightarrow> (int \<times> int) list" where
  "offsetsOf g topic = (case map_of (cg_Offsets g) topic of None \<Rightarrow> [] | Some m \<Rightarrow> m)"

text \<open>
  \<^verbatim>\<open>CommitOffset\<close>: the broker, the error, and the snapshot that a compaction in the background is
  started with; \<open>None\<close> when the call blocks for ever.
\<close>

definition CommitOffset :: "bool \<Rightarrow> 'c Broker \<Rightarrow> string \<Rightarrow> string \<Rightarrow> int \<Rightarrow> int \<Rightarrow>
    ('c Broker \<times> go_error option \<times> snapshot option) option" where
  "CommitOffset done b grp topic part offset =
    (let g0 = groupOf b grp;
         parts = offsetsOf g0 topic;
         g1 = g0\<lparr>cg_Offsets := AList.update topic parts (cg_Offsets g0)\<rparr>;
         b1 = setGroup b grp g1
     in if (case map_of parts part of None \<Rightarrow> False | Some current \<Rightarrow> offset < current)
        then Some (b1, Some (Errorf ''offset regression: current=%d new=%d''), None)
        else case AppendCommit done (b_offsets b1) grp topic part offset of
          (os, Some e) \<Rightarrow> Some (b1\<lparr>b_offsets := os\<rparr>, Some e, None)
        | (os, None) \<Rightarrow>
          (let g2 = g1\<lparr>cg_Offsets := AList.update topic (AList.update part offset parts) (cg_Offsets g1)\<rparr>;
               count = wrapS 64 (b_commitCount b + 1);
               b2 = (setGroup b1 grp g2)\<lparr>b_offsets := os, b_commitCount := count\<rparr>
           in if count mod 1000 = 0
              then (case snapshotOffsetsLocked {grp} b2 of None \<Rightarrow> None | Some sn \<Rightarrow> Some (b2, None, Some sn))
              else Some (b2, None, None)))"

text \<open>The body of the goroutine that compacts in the background; its error is only logged.\<close>

definition compactInBackground :: "go_error option \<Rightarrow> 'c Broker \<Rightarrow> snapshot \<Rightarrow> 'c Broker" where
  "compactInBackground renameErr b sn = b\<lparr>b_offsets := fst (Compact (\<lambda>n. False) renameErr (b_offsets b) sn)\<rparr>"

definition FetchCommitted :: "'c Broker \<Rightarrow> string \<Rightarrow> string \<Rightarrow> int \<Rightarrow> int \<times> go_error option" where
  "FetchCommitted b grp topic part = (case map_of (b_groups b) grp of
       None \<Rightarrow> (-1, Some (Errorf ''group not found''))
     | Some g \<Rightarrow> (case map_of (cg_Offsets g) topic of
         None \<Rightarrow> (-1, Some (Errorf ''topic not found''))
       | Some m \<Rightarrow> (case map_of m part of
           None \<Rightarrow> (-1, Some (Errorf ''partition not found''))
         | Some off \<Rightarrow> (off, None))))"

section \<open>Membership\<close>

definition sortedMembers :: "ConsumerGroup \<Rightarrow> string list" where
  "sortedMembers g = sort (map fst (cg_Members g))"

text \<open>The loop of \<^verbatim>\<open>rebalanceTopic\<close>; \<open>i\<close> counts the partitions handed out.\<close>

fun assignRoundRobin :: "string list \<Rightarrow> nat \<Rightarrow> (string \<times> int list) list \<Rightarrow> int list \<Rightarrow> (string \<times> int list) list" where
  "assignRoundRobin memberIDs i assign [] = assign"
| "assignRoundRobin memberIDs i assign (pid # parts) =
    (let member = memberIDs ! (i mod length memberIDs);
         old = (case map_of assign member of None \<Rightarrow> [] | Some ps \<Rightarrow> ps)
     in assignRoundRobin memberIDs (Suc i) (AList.update member (old @ [pid]) assign) parts)"

definition rebalanceTopic :: "Topic \<Rightarrow> ConsumerGroup \<Rightarrow> (string \<times> int list) list" where
  "rebalanceTopic t g =
    (let memberIDs = sortedMembers g in
     if memberIDs = [] then [] else assignRoundRobin memberIDs 0 [] (sortedPartitions t))"

definition updateMemberAssignments :: "ConsumerGroup \<Rightarrow> string \<Rightarrow> ConsumerGroup" where
  "updateMemberAssignments g topic =
    g\<lparr>cg_Members := map (\<lambda>(i, m). (i, m\<lparr>gm_Assignments :=
        (case map_of (cg_assignments g) topic of
           Some ass \<Rightarrow> AList.update topic (case map_of ass i of None \<Rightarrow> [] | Some ps \<Rightarrow> ps) (gm_Assignments m)
         | None \<Rightarrow> AList.delete topic (gm_Assignments m))\<rparr>)) (cg_Members g)\<rparr>"

definition rebalanceGroup :: "Topic \<Rightarrow> string \<Rightarrow> ConsumerGroup \<Rightarrow> ConsumerGroup" where
  "rebalanceGroup t topic g =
    updateMemberAssignments (g\<lparr>cg_assignments := AList.update topic (rebalanceTopic t g) (cg_assignments g)\<rparr>) topic"

fun joinTopics :: "(string \<times> Topic) list \<Rightarrow> ConsumerGroup \<Rightarrow> string list \<Rightarrow> ConsumerGroup \<times> go_error option" where
  "joinTopics ts g [] = (g, None)"
| "joinTopics ts g (topic # topics) = (case map_of ts topic of
       None \<Rightarrow> (g, Some (Errorf ''topic not found''))
     | Some t \<Rightarrow> joinTopics ts (rebalanceGroup t topic g) topics)"

definition addMember :: "ConsumerGroup \<Rightarrow> string \<Rightarrow> string list \<Rightarrow> ConsumerGroup" where
  "addMember g memberID topics =
    g\<lparr>cg_Members := AList.update memberID
       (case map_of (cg_Members g) memberID of
          None \<Rightarrow> \<lparr>gm_ClientID = memberID, gm_Topics = topics, gm_Assignments = []\<rparr>
        | Some m \<Rightarrow> m\<lparr>gm_Topics := topics\<rparr>) (cg_Members g)\<rparr>"

definition JoinGroup :: "'c Broker \<Rightarrow> string \<Rightarrow> string \<Rightarrow> string list \<Rightarrow> 'c Broker \<times> (string \<times> int list) list result" where
  "JoinGroup b grp memberID topics =
    (if memberID = '''' then (b, Inl (Errorf ''memberID required''))
     else if topics = [] then (b, Inl (Errorf ''at least one topic required''))
     else let (g, err) = joinTopics (b_topics b) (addMember (groupOf b grp) memberID topics) topics
       in (setGroup b grp g, case err of
             Some e \<Rightarrow> Inl e
           | None \<Rightarrow> Inr (gm_Assignments (the (map_of (cg_Members g) memberID)))))"

text \<open>The loop of \<^verbatim>\<open>LeaveGroup\<close> over the topics the group has assignments of.\<close>

fun leaveTopics :: "(string \<times> Topic) list \<Rightarrow> string \<Rightarrow> ConsumerGroup \<Rightarrow> string list \<Rightarrow> ConsumerGroup" where
  "leaveTopics ts memberID g [] = g"
| "leaveTopics ts memberID g (topic # topics) =
    (let members = the (map_of (cg_assignments g) topic);
         g1 = g\<lparr>cg_assignments := AList.update topic (AList.delete memberID members) (cg_assignments g)\<rparr>
     in leaveTopics ts memberID (case map_of ts topic of None \<Rightarrow> g1 | Some t \<Rightarrow> rebalanceGroup t topic g1) topics)"

definition LeaveGroup :: "'c Broker \<Rightarrow> string \<Rightarrow> string \<Rightarrow> 'c Broker \<times> go_error option" where
  "LeaveGroup b grp memberID = (case map_of (b_groups b) grp of
       None \<Rightarrow> (b, Some (Errorf ''group not found''))
     | Some g \<Rightarrow>
       (let g1 = g\<lparr>cg_Members := AList.delete memberID (cg_Members g)\<rparr>;
            g2 = leaveTopics (b_topics b) memberID g1 (map fst (cg_assignments g1));
            g3 = (if cg_Members g2 = [] then g2\<lparr>cg_assignments := []\<rparr> else g2)
        in (setGroup b grp g3, None)))"

section \<open>Round-robin shares\<close>

text \<open>The partitions that the member of rank \<open>j\<close> among \<open>k\<close> gets: every \<open>k\<close>-th one from \<open>j\<close> on.\<close>

definition share :: "nat \<Rightarrow> nat \<Rightarrow> int list \<Rightarrow> int list" where
  "share k j parts = map (\<lambda>n. parts ! n) (filter (\<lambda>n. n mod k = j) [0..<length parts])"

definition lookupList :: "('k \<times> 'v list) list \<Rightarrow> 'k \<Rightarrow> 'v list" where
  "lookupList m k = (case map_of m k of None \<Rightarrow> [] | Some vs \<Rightarrow> vs)"

lemma lookupList_update: "lookupList (AList.update k v m) x = (if x = k then v else lookupList m x)"
  by (simp add: lookupList_def update_conv')

lemma lookupList_Nil [simp]: "lookupList [] x = []"
  by (simp add: lookupList_def)

lemma assignRoundRobin_lookup:
  assumes "distinct ms" "j < length ms"
  shows "lookupList (assignRoundRobin ms i assign parts) (ms ! j) =
    lookupList assign (ms ! j) @ map (\<lambda>n. parts ! n) (filter (\<lambda>n. (i + n) mod length ms = j) [0..<length parts])"
proof (induction parts arbitrary: i assign)
  case (Cons p parts)
  let ?k = "length ms"
  have "i mod ?k < ?k" using assms(2) by (cases ms) (simp_all add: mod_less_divisor)
  then have eq: "ms ! (i mod ?k) = ms ! j \<longleftrightarrow> i mod ?k = j" using assms by (simp add: nth_eq_iff_index_eq)
  then have eq': "ms ! j = ms ! (i mod ?k) \<longleftrightarrow> i mod ?k = j" by metis
  have up: "[0..<length (p # parts)] = 0 # map Suc [0..<length parts]"
    by (simp add: upt_conv_Cons map_Suc_upt del: upt_Suc)
  show ?case unfolding up
    by (auto simp: Cons.IH lookupList_update eq eq' filter_map comp_def Let_def
        simp flip: lookupList_def simp del: upt_Suc)
qed simp

lemma assignRoundRobin_outside:
  "ms \<noteq> [] \<Longrightarrow> m \<notin> set ms \<Longrightarrow> lookupList (assignRoundRobin ms i assign parts) m = lookupList assign m"
  by (induction parts arbitrary: i assign) (auto simp: Let_def lookupList_update simp flip: lookupList_def)

lemma length_share_upt:
  "j < k \<Longrightarrow> length (filter (\<lambda>n. n mod k = j) [0..<N]) = N div k + (if j < N mod k then 1 else 0)"
proof (induction N)
  case (Suc N)
  then have "0 < k" by simp
  then have "N mod k < k" by simp
  then show ?case using Suc by (auto simp: div_Suc mod_Suc)
qed simp

lemma share_props:
  assumes "distinct parts" "sorted parts" "j < k"
  shows "distinct (share k j parts)" "sorted (share k j parts)" "set (share k j parts) \<subseteq> set parts"
    "length (share k j parts) = length parts div k + (if j < length parts mod k then 1 else 0)"
proof -
  have inj: "inj_on (\<lambda>n. parts ! n) {..<length parts}"
    using assms(1) by (simp add: inj_on_nth)
  show "distinct (share k j parts)" unfolding share_def distinct_map
    by (auto intro!: inj_on_subset [OF inj])
  show "sorted (share k j parts)"
    unfolding share_def sorted_map
    by (rule sorted_wrt_mono_rel [of _ "(<)"])
      (use assms(2) in \<open>auto intro!: sorted_wrt_filter simp: sorted_iff_nth_mono_less less_imp_le\<close>)
  show "set (share k j parts) \<subseteq> set parts" by (auto simp: share_def)
  show "length (share k j parts) = length parts div k + (if j < length parts mod k then 1 else 0)"
    using length_share_upt [OF assms(3)] by (simp add: share_def)
qed

lemma share_unique:
  assumes "distinct parts" "p \<in> set parts" "0 < k"
  shows "\<exists>!j. j < k \<and> p \<in> set (share k j parts)"
proof -
  obtain n where n: "n < length parts" "parts ! n = p" using assms(2) by (auto simp: in_set_conv_nth)
  have "p \<in> set (share k j parts) \<longleftrightarrow> n mod k = j" for j
    using n assms(1) by (auto simp: share_def nth_eq_iff_index_eq)
  then show ?thesis using assms(3) by auto
qed

section \<open>Groups\<close>

definition memberParts :: "ConsumerGroup \<Rightarrow> string \<Rightarrow> string \<Rightarrow> int list" where
  "memberParts g topic i = (case map_of (cg_Members g) i of
       None \<Rightarrow> [] | Some m \<Rightarrow> lookupList (gm_Assignments m) topic)"

text \<open>No partition of a topic is assigned to two members of the group.\<close>

definition exclusive :: "ConsumerGroup \<Rightarrow> bool" where
  "exclusive g \<longleftrightarrow> distinct (map fst (cg_Members g))
     \<and> (\<forall>topic i j. i \<noteq> j \<longrightarrow> set (memberParts g topic i) \<inter> set (memberParts g topic j) = {})"

text \<open>Every partition of the topic is assigned to one member, and their numbers differ by one at most.\<close>

definition covered :: "ConsumerGroup \<Rightarrow> string \<Rightarrow> int list \<Rightarrow> bool" where
  "covered g topic parts \<longleftrightarrow>
     (\<forall>p\<in>set parts. \<exists>!i. p \<in> set (memberParts g topic i))
     \<and> (\<forall>i\<in>fst ` set (cg_Members g). set (memberParts g topic i) \<subseteq> set parts \<and> distinct (memberParts g topic i)
          \<and> sorted (memberParts g topic i)
          \<and> length (memberParts g topic i) \<in> {length parts div length (cg_Members g), length parts div length (cg_Members g) + 1})"

lemma map_of_mapped: "map_of (map (\<lambda>(i, m). (i, f i m)) xs) k = map_option (f k) (map_of xs k)"
  by (induction xs) auto

lemma sortedMembers_props:
  assumes "distinct (map fst (cg_Members g))"
  shows "distinct (sortedMembers g)" "length (sortedMembers g) = length (cg_Members g)"
    "set (sortedMembers g) = fst ` set (cg_Members g)"
  using assms by (simp_all add: sortedMembers_def)

lemma rebalanceTopic_member:
  assumes "distinct (map fst (cg_Members g))" "j < length (cg_Members g)"
  shows "lookupList (rebalanceTopic t g) (sortedMembers g ! j) = share (length (cg_Members g)) j (sortedPartitions t)"
  using assignRoundRobin_lookup [of "sortedMembers g" j 0 "[]" "sortedPartitions t"] sortedMembers_props [OF assms(1)] assms
  by (auto simp: rebalanceTopic_def Let_def share_def)

lemma rebalanceTopic_outside: "i \<notin> fst ` set (cg_Members g) \<Longrightarrow> lookupList (rebalanceTopic t g) i = []"
  using assignRoundRobin_outside [of "sortedMembers g" i 0 "[]" "sortedPartitions t"]
  by (auto simp: rebalanceTopic_def Let_def sortedMembers_def)

lemma rebalanceGroup_members [simp]:
  "map fst (cg_Members (rebalanceGroup t topic g)) = map fst (cg_Members g)"
  "length (cg_Members (rebalanceGroup t topic g)) = length (cg_Members g)"
  by (auto simp: rebalanceGroup_def updateMemberAssignments_def)

lemma rebalanceGroup_keys [simp]:
  "fst ` set (cg_Members (rebalanceGroup t topic g)) = fst ` set (cg_Members g)"
  by (metis list.set_map rebalanceGroup_members(1))

lemma memberParts_rebalance:
  "memberParts (rebalanceGroup t topic g) topic' i =
    (if topic' = topic then lookupList (rebalanceTopic t g) i else memberParts g topic' i)"
proof (cases "map_of (cg_Members g) i")
  case None
  then have "lookupList (rebalanceTopic t g) i = []" by (intro rebalanceTopic_outside) (simp add: map_of_eq_None_iff)
  then show ?thesis using None
    by (simp add: memberParts_def rebalanceGroup_def updateMemberAssignments_def map_of_mapped)
next
  case (Some m)
  then show ?thesis
    by (simp add: memberParts_def rebalanceGroup_def updateMemberAssignments_def map_of_mapped lookupList_update
        update_conv' lookupList_def)
qed

text \<open>A member of the group has a rank, and the partitions of a topic are shared out by rank.\<close>

lemma member_rank:
  assumes "distinct (map fst (cg_Members g))" "i \<in> fst ` set (cg_Members g)"
  obtains j where "j < length (cg_Members g)" "sortedMembers g ! j = i"
  using sortedMembers_props [OF assms(1)] assms(2) that by (metis in_set_conv_nth)

lemma rebalanceTopic_disjoint:
  assumes "distinct (map fst (cg_Members g))" "distinct (map fst (tp_Partitions t))" "i \<noteq> i'"
  shows "set (lookupList (rebalanceTopic t g) i) \<inter> set (lookupList (rebalanceTopic t g) i') = {}"
proof (cases "i \<in> fst ` set (cg_Members g) \<and> i' \<in> fst ` set (cg_Members g)")
  case True
  let ?k = "length (cg_Members g)"
  obtain j j' where j: "j < ?k" "sortedMembers g ! j = i" and j': "j' < ?k" "sortedMembers g ! j' = i'"
    using True member_rank [OF assms(1)] by metis
  have d: "distinct (sortedPartitions t)" using assms(2) by (simp add: sortedPartitions_def)
  have "j \<noteq> j'" using assms(3) j j' by auto
  then have "set (share ?k j (sortedPartitions t)) \<inter> set (share ?k j' (sortedPartitions t)) = {}"
    using share_unique [OF d, of _ ?k] j j' share_props(3) [of "sortedPartitions t"] d
    by (auto simp: share_def nth_eq_iff_index_eq)
  then show ?thesis using rebalanceTopic_member [OF assms(1)] j j' by metis
next
  case False
  then show ?thesis using rebalanceTopic_outside by fastforce
qed

lemma exclusive_rebalance:
  assumes "exclusive g" "distinct (map fst (tp_Partitions t))"
  shows "exclusive (rebalanceGroup t topic g)"
  using assms rebalanceTopic_disjoint [OF _ assms(2), of g]
  by (auto simp: exclusive_def memberParts_rebalance)

lemma covered_rebalance:
  assumes d: "distinct (map fst (cg_Members g))" and ne: "cg_Members g \<noteq> []"
    and t: "distinct (map fst (tp_Partitions t))"
  shows "covered (rebalanceGroup t topic g) topic (map fst (tp_Partitions t))"
proof -
  let ?g = "rebalanceGroup t topic g" and ?k = "length (cg_Members g)" and ?ps = "sortedPartitions t"
  have ps: "distinct ?ps" "sorted ?ps" "set ?ps = set (map fst (tp_Partitions t))" "length ?ps = length (map fst (tp_Partitions t))"
    using t by (simp_all add: sortedPartitions_def)
  have at: "memberParts ?g topic (sortedMembers g ! j) = share ?k j ?ps" if "j < ?k" for j
    using rebalanceTopic_member [OF d that] by (simp add: memberParts_rebalance)
  have out: "memberParts ?g topic i = []" if "i \<notin> fst ` set (cg_Members g)" for i
    using rebalanceTopic_outside [OF that] by (simp add: memberParts_rebalance)
  have "\<exists>!i. p \<in> set (memberParts ?g topic i)" if p: "p \<in> set ?ps" for p
  proof -
    obtain j where j: "j < ?k" "p \<in> set (share ?k j ?ps)" and u: "\<And>j'. j' < ?k \<Longrightarrow> p \<in> set (share ?k j' ?ps) \<Longrightarrow> j' = j"
      using share_unique [OF ps(1) p, of ?k] ne by auto
    show ?thesis
    proof
      show "p \<in> set (memberParts ?g topic (sortedMembers g ! j))" using at j by simp
    next
      fix i assume i: "p \<in> set (memberParts ?g topic i)"
      then have "i \<in> fst ` set (cg_Members g)" using out by fastforce
      then obtain j' where "j' < ?k" "sortedMembers g ! j' = i" by (rule member_rank [OF d])
      then show "i = sortedMembers g ! j" using i at u by metis
    qed
  qed
  moreover have "set (memberParts ?g topic i) \<subseteq> set ?ps \<and> distinct (memberParts ?g topic i) \<and> sorted (memberParts ?g topic i)
      \<and> length (memberParts ?g topic i) \<in> {length ?ps div ?k, length ?ps div ?k + 1}"
    if i: "i \<in> fst ` set (cg_Members g)" for i
  proof -
    obtain j where j: "j < ?k" "sortedMembers g ! j = i" using i by (rule member_rank [OF d])
    then have "memberParts ?g topic i = share ?k j ?ps" using at by auto
    then show ?thesis using share_props [OF ps(1,2) j(1)] by simp
  qed
  ultimately show ?thesis unfolding covered_def rebalanceGroup_members rebalanceGroup_keys ps(3,4) [symmetric] by blast
qed

section \<open>Joining and leaving\<close>

text \<open>The topics of a broker: the partitions of every topic are a map.\<close>

definition okTopics :: "(string \<times> Topic) list \<Rightarrow> bool" where
  "okTopics ts \<longleftrightarrow> (\<forall>t\<in>snd ` set ts. distinct (map fst (tp_Partitions t)))"

lemma okTopics_map_of: "okTopics ts \<Longrightarrow> map_of ts name = Some t \<Longrightarrow> distinct (map fst (tp_Partitions t))"
  by (force simp: okTopics_def dest: map_of_SomeD)

lemma memberParts_assignments [simp]: "memberParts (g\<lparr>cg_assignments := x\<rparr>) topic i = memberParts g topic i"
  by (simp add: memberParts_def)

lemma group_assignments [simp]:
  "exclusive (g\<lparr>cg_assignments := x\<rparr>) = exclusive g"
  "covered (g\<lparr>cg_assignments := x\<rparr>) topic parts = covered g topic parts"
  by (simp_all add: exclusive_def covered_def)

lemma memberParts_delete:
  "memberParts (g\<lparr>cg_Members := AList.delete i (cg_Members g)\<rparr>) topic j = (if j = i then [] else memberParts g topic j)"
  by (simp add: memberParts_def delete_conv')

lemma covered_other:
  "topic \<noteq> tp \<Longrightarrow> covered (rebalanceGroup t tp g) topic parts = covered g topic parts"
  unfolding covered_def rebalanceGroup_members rebalanceGroup_keys by (simp add: memberParts_rebalance)

lemma joinTopics_exclusive:
  "okTopics ts \<Longrightarrow> exclusive g \<Longrightarrow> exclusive (fst (joinTopics ts g topics))"
  by (induction ts g topics rule: joinTopics.induct)
    (auto split: option.split intro: exclusive_rebalance okTopics_map_of)

lemma joinTopics_members [simp]: "map fst (cg_Members (fst (joinTopics ts g topics))) = map fst (cg_Members g)"
  by (induction ts g topics rule: joinTopics.induct) (auto split: option.split)

lemma joinTopics_covered:
  assumes "okTopics ts" "distinct (map fst (cg_Members g))" "cg_Members g \<noteq> []"
  shows "joinTopics ts g topics = (g', None) \<Longrightarrow> topic \<in> set topics \<or>
      covered g topic (map fst (tp_Partitions (the (map_of ts topic)))) \<Longrightarrow>
    covered g' topic (map fst (tp_Partitions (the (map_of ts topic))))"
  using assms
proof (induction ts g topics rule: joinTopics.induct)
  case (2 ts g tp topics)
  then obtain t where t: "map_of ts tp = Some t" by (auto split: option.splits)
  have d: "distinct (map fst (tp_Partitions t))" by (rule okTopics_map_of [OF "2.prems"(3) t])
  have c: "covered (rebalanceGroup t tp g) topic (map fst (tp_Partitions (the (map_of ts topic))))"
    if "topic = tp \<or> covered g topic (map fst (tp_Partitions (the (map_of ts topic))))"
    using that covered_rebalance [OF "2.prems"(4,5) d, of tp] t
    by (cases "topic = tp") (simp_all add: covered_other)
  have ne: "cg_Members (rebalanceGroup t tp g) \<noteq> []" using "2.prems"(5) rebalanceGroup_members(2) [of t tp g] by (metis length_0_conv)
  show ?case
    by (rule "2.IH" [OF t]) (use "2.prems" t c ne in auto)
qed simp

lemma exclusive_addMember:
  assumes "exclusive g"
  shows "exclusive (addMember g memberID topics)"
proof -
  have "memberParts (addMember g memberID topics) topic i = memberParts g topic i" for topic i
    by (simp add: memberParts_def addMember_def update_conv' lookupList_def split: option.split)
  then show ?thesis using assms by (auto simp: exclusive_def addMember_def intro: distinct_update)
qed

lemma exclusive_newGroup: "exclusive (newGroup grp)"
  by (simp add: exclusive_def newGroup_def memberParts_def)

lemma leaveTopics_exclusive:
  "okTopics ts \<Longrightarrow> exclusive g \<Longrightarrow> exclusive (leaveTopics ts memberID g topics)"
proof (induction topics arbitrary: g)
  case (Cons topic topics)
  have "exclusive (rebalanceGroup t topic (g\<lparr>cg_assignments := x\<rparr>))" if "map_of ts topic = Some t" for t x
    using Cons.prems okTopics_map_of [OF _ that] by (intro exclusive_rebalance) simp_all
  then show ?case using Cons by (simp add: Let_def split: option.split)
qed simp

lemma leaveTopics_members [simp]:
  "map fst (cg_Members (leaveTopics ts memberID g topics)) = map fst (cg_Members g)"
  by (induction ts memberID g topics rule: leaveTopics.induct) (auto simp: Let_def split: option.split)

lemma leaveTopics_covered:
  assumes "okTopics ts" "distinct (map fst (cg_Members g))" "cg_Members g \<noteq> []" "map_of ts topic = Some t"
  shows "topic \<in> set topics \<or> covered g topic (map fst (tp_Partitions t)) \<Longrightarrow>
    covered (leaveTopics ts memberID g topics) topic (map fst (tp_Partitions t))"
  using assms
proof (induction ts memberID g topics rule: leaveTopics.induct)
  case (2 ts memberID g tp topics)
  let ?g1 = "g\<lparr>cg_assignments := AList.update tp (AList.delete memberID (the (map_of (cg_assignments g) tp))) (cg_assignments g)\<rparr>"
  let ?g2 = "case map_of ts tp of None \<Rightarrow> ?g1 | Some t \<Rightarrow> rebalanceGroup t tp ?g1"
  have c: "covered ?g2 topic (map fst (tp_Partitions t))"
    if "topic = tp \<or> covered g topic (map fst (tp_Partitions t))"
  proof (cases "map_of ts tp")
    case None
    then show ?thesis using that "2.prems"(5) by auto
  next
    case (Some t')
    have "covered (rebalanceGroup t' tp ?g1) tp (map fst (tp_Partitions t'))"
      using "2.prems"(3,4) okTopics_map_of [OF "2.prems"(2) Some] by (intro covered_rebalance) simp_all
    then show ?thesis using that Some "2.prems"(5) by (cases "topic = tp") (simp_all add: covered_other)
  qed
  have m: "map fst (cg_Members ?g2) = map fst (cg_Members g)" by (auto split: option.split)
  then have ne: "cg_Members ?g2 \<noteq> []" using "2.prems"(4) by (metis list.map_disc_iff)
  have "covered (leaveTopics ts memberID ?g2 topics) topic (map fst (tp_Partitions t))"
    by (rule "2.IH") (use "2.prems" c m ne in auto)
  then show ?case by (simp add: Let_def)
qed simp

text \<open>Requests to the groups of a broker, in any order.\<close>

datatype groupRequest = Join string string "string list" | Leave string string

fun groupStep :: "'c Broker \<Rightarrow> groupRequest \<Rightarrow> 'c Broker" where
  "groupStep b (Join grp memberID topics) = fst (JoinGroup b grp memberID topics)"
| "groupStep b (Leave grp memberID) = fst (LeaveGroup b grp memberID)"

definition exclusiveGroups :: "'c Broker \<Rightarrow> bool" where
  "exclusiveGroups b \<longleftrightarrow> (\<forall>grp g. map_of (b_groups b) grp = Some g \<longrightarrow> exclusive g)"

lemma exclusiveGroups_set: "exclusiveGroups b \<Longrightarrow> exclusive g \<Longrightarrow> exclusiveGroups (setGroup b grp g)"
  by (simp add: exclusiveGroups_def setGroup_def update_conv')

lemma exclusive_groupOf: "exclusiveGroups b \<Longrightarrow> exclusive (groupOf b grp)"
  by (auto simp: exclusiveGroups_def groupOf_def exclusive_newGroup split: option.split)

lemma exclusive_delete:
  assumes "exclusive g"
  shows "exclusive (g\<lparr>cg_Members := AList.delete i (cg_Members g)\<rparr>)"
  using assms by (simp add: exclusive_def memberParts_delete distinct_delete)

lemma groupStep_topics [simp]: "b_topics (groupStep b r) = b_topics b"
  by (cases r) (auto simp: JoinGroup_def LeaveGroup_def setGroup_def Let_def split: prod.split option.split)

lemma groupStep_exclusive:
  assumes "okTopics (b_topics b)" "exclusiveGroups b"
  shows "exclusiveGroups (groupStep b r)"
proof (cases r)
  case (Join grp m topics)
  have "exclusive (fst (joinTopics (b_topics b) (addMember (groupOf b grp) m topics) topics))"
    using assms by (intro joinTopics_exclusive exclusive_addMember exclusive_groupOf)
  then show ?thesis using assms(2) Join
    by (auto simp: JoinGroup_def split: prod.split intro: exclusiveGroups_set)
next
  case (Leave grp m)
  show ?thesis
  proof (cases "map_of (b_groups b) grp")
    case None
    then show ?thesis using assms(2) Leave by (simp add: LeaveGroup_def)
  next
    case (Some g)
    let ?g2 = "leaveTopics (b_topics b) m (g\<lparr>cg_Members := AList.delete m (cg_Members g)\<rparr>) (map fst (cg_assignments g))"
    have "exclusive ?g2" using assms Some
      by (intro leaveTopics_exclusive exclusive_delete) (auto simp: exclusiveGroups_def)
    then show ?thesis using assms(2) Leave Some by (simp add: LeaveGroup_def Let_def exclusiveGroups_set)
  qed
qed

section \<open>Commits\<close>

text \<open>The committed offset of a partition, and a broker whose groups agree with its store.\<close>

definition committed :: "'c Broker \<Rightarrow> string \<times> string \<times> int \<Rightarrow> int option" where
  "committed b = (\<lambda>(grp, topic, part). Option.bind (map_of (b_groups b) grp) (\<lambda>g.
     Option.bind (map_of (cg_Offsets g) topic) (\<lambda>m. map_of m part)))"

definition agrees :: "'c Broker \<Rightarrow> commit list \<Rightarrow> bool" where
  "agrees b cs \<longleftrightarrow> holdsCommits (b_offsets b) cs \<and> list_all okCommit cs \<and> committed b = lastCommits cs"

lemma FetchCommitted_iff: "FetchCommitted b grp topic part = (off, None) \<longleftrightarrow> committed b (grp, topic, part) = Some off"
  by (auto simp: FetchCommitted_def committed_def split: option.splits)

lemma FetchCommitted_none: "(\<exists>e. FetchCommitted b grp topic part = (-1, Some e)) \<longleftrightarrow> committed b (grp, topic, part) = None"
  by (auto simp: FetchCommitted_def committed_def split: option.splits)

lemma committed_setGroup:
  "committed (setGroup b grp g) (grp', topic, part) = (if grp' = grp
     then Option.bind (map_of (cg_Offsets g) topic) (\<lambda>m. map_of m part) else committed b (grp', topic, part))"
  by (simp add: committed_def setGroup_def update_conv')

lemma committed_more [simp]:
  "committed (b\<lparr>b_offsets := os\<rparr>) = committed b"
  "committed (b\<lparr>b_commitCount := n\<rparr>) = committed b"
  by (simp_all add: committed_def fun_eq_iff)

lemma setGroup_more [simp]:
  "b_offsets (setGroup b grp g) = b_offsets b" "b_commitCount (setGroup b grp g) = b_commitCount b"
  "b_topics (setGroup b grp g) = b_topics b"
  by (simp_all add: setGroup_def)

lemma setGroup_twice [simp]: "setGroup (setGroup b grp g) grp g' = setGroup b grp g'"
  by (simp add: setGroup_def update_swap)

lemma committed_groupOf:
  "committed b (grp, topic, part) = map_of (offsetsOf (groupOf b grp) topic) part"
  by (simp add: committed_def groupOf_def offsetsOf_def newGroup_def split: option.split)

lemma lastCommits_snoc: "lastCommits (cs @ [(g, t, p, off)]) = (lastCommits cs)((g, t, p) \<mapsto> off)"
  by (simp add: lastCommits_def)

lemma groupOf_setGroup: "groupOf (setGroup b grp g) grp' = (if grp' = grp then g else groupOf b grp')"
  by (simp add: groupOf_def setGroup_def update_conv')

lemma offsetsOf_update: "offsetsOf (g'\<lparr>cg_Offsets := AList.update topic v (cg_Offsets g)\<rparr>) t = (if t = topic then v else offsetsOf g t)"
  by (simp add: offsetsOf_def update_conv')

text \<open>Creating the empty inner map on demand changes no committed offset.\<close>

lemma committed_touch:
  "committed (setGroup b grp ((groupOf b grp)\<lparr>cg_Offsets := AList.update topic (offsetsOf (groupOf b grp) topic)
     (cg_Offsets (groupOf b grp))\<rparr>)) = committed b"
  by (rule ext) (auto simp: committed_groupOf groupOf_setGroup offsetsOf_update update_conv')

lemma committed_store:
  "committed (setGroup b grp (g\<lparr>cg_Offsets := AList.update topic (AList.update part off (offsetsOf (groupOf b grp) topic))
     (cg_Offsets (groupOf b grp))\<rparr>)) = (committed b)((grp, topic, part) \<mapsto> off)"
  by (rule ext) (auto simp: committed_groupOf groupOf_setGroup offsetsOf_update update_conv' split: if_splits)

lemma snapshot_blocks: "snapshotOffsetsLocked {grp} (setGroup b grp g\<lparr>b_offsets := x, b_commitCount := n\<rparr>) = None"
  by (auto simp: snapshotOffsetsLocked_def setGroup_def dom_update)

lemma CommitOffset_cases:
  assumes "CommitOffset done b grp topic part off = Some (b', err, sn)"
  obtains (refused) e where "err = Some e" "sn = None" "committed b' = committed b" "b_commitCount b' = b_commitCount b"
      "b_offsets b' = b_offsets b \<or> b_offsets b' = fst (AppendCommit done (b_offsets b) grp topic part off)
        \<and> snd (AppendCommit done (b_offsets b) grp topic part off) \<noteq> None"
  | (accepted) "err = None" "sn = None" "AppendCommit done (b_offsets b) grp topic part off = (b_offsets b', None)"
      "committed b' = (committed b)((grp, topic, part) \<mapsto> off)" "b_commitCount b' = wrapS 64 (b_commitCount b + 1)"
      "b_commitCount b' mod 1000 \<noteq> 0" "\<forall>current. committed b (grp, topic, part) = Some current \<longrightarrow> current \<le> off"
proof -
  let ?parts = "offsetsOf (groupOf b grp) topic"
  let ?g1 = "(groupOf b grp)\<lparr>cg_Offsets := AList.update topic ?parts (cg_Offsets (groupOf b grp))\<rparr>"
  obtain os e where a: "AppendCommit done (b_offsets b) grp topic part off = (os, e)" by fastforce
  consider (regression) current where "map_of ?parts part = Some current" "off < current"
    | (failed) x where "e = Some x" "\<forall>current. map_of ?parts part = Some current \<longrightarrow> \<not> off < current"
    | (ok) "e = None" "\<forall>current. map_of ?parts part = Some current \<longrightarrow> \<not> off < current" by (cases e) auto
  then show thesis
  proof cases
    case regression
    then have "b' = setGroup b grp ?g1" "err \<noteq> None" "sn = None" using assms by (auto simp: CommitOffset_def Let_def)
    then show thesis using refused committed_touch by auto
  next
    case failed
    then have "b' = (setGroup b grp ?g1)\<lparr>b_offsets := os\<rparr>" "err \<noteq> None" "sn = None"
      using assms a by (auto simp: CommitOffset_def Let_def split: option.splits)
    then show thesis using refused committed_touch failed(1) a by auto
  next
    case ok
    let ?n = "wrapS 64 (b_commitCount b + 1)"
    let ?b = "(setGroup b grp (?g1\<lparr>cg_Offsets := AList.update topic (AList.update part off ?parts) (cg_Offsets ?g1)\<rparr>))
        \<lparr>b_offsets := os, b_commitCount := ?n\<rparr>"
    have "b' = ?b \<and> err = None \<and> sn = None \<and> ?n mod 1000 \<noteq> 0"
      using assms a ok by (auto simp: CommitOffset_def Let_def snapshot_blocks split: option.splits if_splits)
    moreover have "committed ?b = (committed b)((grp, topic, part) \<mapsto> off)" by (simp add: committed_store)
    ultimately show thesis using accepted a ok by (auto simp: committed_groupOf not_less)
  qed
qed

lemma CommitOffset_blocks:
  assumes "AppendCommit done (b_offsets b) grp topic part off = (os, None)"
    "\<forall>current. committed b (grp, topic, part) = Some current \<longrightarrow> current \<le> off"
    "wrapS 64 (b_commitCount b + 1) mod 1000 = 0"
  shows "CommitOffset done b grp topic part off = None"
proof -
  have "\<not> (case map_of (offsetsOf (groupOf b grp) topic) part of None \<Rightarrow> False | Some current \<Rightarrow> off < current)"
    using assms(2) by (auto simp: committed_groupOf split: option.split)
  then show ?thesis using assms(1,3) by (simp add: CommitOffset_def Let_def snapshot_blocks)
qed

lemma CommitOffset_agrees:
  assumes "agrees b cs" "inS 64 off" "CommitOffset done b grp topic part off = Some (b', err, sn)"
  shows "if err = None then agrees b' (cs @ [(grp, topic, part, off)]) else agrees b' cs"
  using assms(3)
proof (cases rule: CommitOffset_cases)
  case (refused e)
  then have "b_offsets b' = b_offsets b"
    using assms(1,2) AppendCommit_holds [of "b_offsets b" cs off "done" grp topic part]
    by (cases "AppendCommit done (b_offsets b) grp topic part off") (auto simp: agrees_def split: if_splits)
  then show ?thesis using refused assms(1) by (simp add: agrees_def)
next
  case accepted
  then show ?thesis using assms(1,2) AppendCommit_holds [of "b_offsets b" cs off "done" grp topic part]
    by (auto simp: agrees_def lastCommits_snoc)
qed

text \<open>A run of calls: the broker and the error of every call; \<open>None\<close> when one of them blocks.\<close>

fun commitRun :: "'c Broker \<Rightarrow> (bool \<times> commit) list \<Rightarrow> ('c Broker \<times> go_error option list) option" where
  "commitRun b [] = Some (b, [])"
| "commitRun b ((done, grp, topic, part, off) # calls) =
    (case CommitOffset done b grp topic part off of
       None \<Rightarrow> None
     | Some (b', err, sn) \<Rightarrow> map_option (\<lambda>(b'', errs). (b'', err # errs)) (commitRun b' calls))"

definition acceptedCommits :: "(bool \<times> commit) list \<Rightarrow> go_error option list \<Rightarrow> commit list" where
  "acceptedCommits calls errs = map (\<lambda>((_, c), _). c) (filter (\<lambda>(_, err). err = None) (zip calls errs))"

lemma commitRun_agrees:
  "agrees b cs \<Longrightarrow> list_all (\<lambda>(d, g, t, p, off). inS 64 off) calls \<Longrightarrow> commitRun b calls = Some (b', errs) \<Longrightarrow>
   agrees b' (cs @ acceptedCommits calls errs)"
proof (induction calls arbitrary: b cs b' errs)
  case (Cons call calls)
  obtain "done" grp topic part off where call: "call = (done, grp, topic, part, off)" by (cases call) auto
  obtain b1 err sn where c: "CommitOffset done b grp topic part off = Some (b1, err, sn)"
    using Cons.prems(3) by (auto simp: call split: option.splits)
  obtain errs' where r: "commitRun b1 calls = Some (b', errs')" "errs = err # errs'"
    using Cons.prems(3) c by (auto simp: call)
  have "agrees b1 (if err = None then cs @ [(grp, topic, part, off)] else cs)"
    using CommitOffset_agrees [OF Cons.prems(1) _ c] Cons.prems(2) by (auto simp: call split: if_splits)
  from Cons.IH [OF this _ r(1)] show ?case
    using Cons.prems(2) r(2) by (auto simp: acceptedCommits_def call split: if_splits)
qed (simp add: acceptedCommits_def)

lemma commitRun_count:
  "0 \<le> b_commitCount b \<Longrightarrow> b_commitCount b < 1000 \<Longrightarrow> commitRun b calls = Some (b', errs) \<Longrightarrow>
   b_commitCount b' = b_commitCount b + int (length (filter (\<lambda>err. err = None) errs)) \<and> b_commitCount b' < 1000"
proof (induction calls arbitrary: b b' errs)
  case (Cons call calls)
  obtain "done" grp topic part off where call: "call = (done, grp, topic, part, off)" by (cases call) auto
  obtain b1 err sn where c: "CommitOffset done b grp topic part off = Some (b1, err, sn)"
    using Cons.prems(3) by (auto simp: call split: option.splits)
  obtain errs' where r: "commitRun b1 calls = Some (b', errs')" "errs = err # errs'"
    using Cons.prems(3) c by (auto simp: call)
  have w: "wrapS 64 (b_commitCount b + 1) = b_commitCount b + 1" using Cons.prems(1,2) by (simp add: wrapS_def)
  from c have "b_commitCount b1 = b_commitCount b + (if err = None then 1 else 0) \<and> b_commitCount b1 < 1000"
  proof (cases rule: CommitOffset_cases)
    case accepted
    then have "b_commitCount b + 1 \<noteq> 1000" using w by auto
    then show ?thesis using accepted w Cons.prems(2) by simp
  qed (use Cons.prems(2) in auto)
  then show ?case using Cons.IH [OF _ _ r(1)] Cons.prems(1) r(2) by (auto split: if_splits)
qed simp

section \<open>Restarting\<close>

text \<open>An order that reaches every key of a nested map.\<close>

definition visitsAll :: "(string \<times> (string \<times> int list) list) list \<Rightarrow> (string \<times> string \<times> int) set \<Rightarrow> bool" where
  "visitsAll order ks \<longleftrightarrow> (\<forall>(g, t, p)\<in>ks. \<exists>ts ps. map_of order g = Some ts \<and> map_of ts t = Some ps \<and> p \<in> set ps)"

lemma map_of_rangeMap: "map_of (rangeMap order m) k = (if k \<in> set order then m k else None)"
  unfolding rangeMap_def by (induction order) (auto simp: map_filter_simps split: option.split)

lemma map_of_filtered:
  "map_of (List.map_filter (\<lambda>(k, x). map_option (\<lambda>v. (k, f x v)) (m k)) xs) k =
    Option.bind (map_of xs k) (\<lambda>x. map_option (f x) (m k))"
  by (induction xs) (auto simp: map_filter_simps split: option.split)

lemma committed_recovered:
  assumes "visitsAll order (dom (offsetOf m))" "b_groups b = recoveredGroups (rangeOffsets order m)"
  shows "committed b = offsetOf m"
proof (rule ext)
  fix k :: "string \<times> string \<times> int"
  obtain g t p where k: "k = (g, t, p)" by (cases k) auto
  have "committed b k = Option.bind (map_of order g) (\<lambda>ts. Option.bind (m g) (\<lambda>tm. Option.bind (map_of ts t) (\<lambda>ps.
      Option.bind (tm t) (\<lambda>pm. if p \<in> set ps then pm p else None))))"
    by (simp add: k committed_def assms(2) recoveredGroups_def map_of_mapped rangeOffsets_def map_of_filtered
        map_of_rangeMap bind_map_option comp_def Option.bind_assoc)
  also have "\<dots> = offsetOf m k"
  proof (cases "offsetOf m k")
    case None
    then show ?thesis by (auto simp: k offsetOf_def split: Option.bind_splits)
  next
    case (Some off)
    then have "(g, t, p) \<in> dom (offsetOf m)" by (simp add: k dom_def)
    then obtain ts ps where "map_of order g = Some ts" "map_of ts t = Some ps" "p \<in> set ps"
      using bspec [OF assms(1) [unfolded visitsAll_def], of "(g, t, p)"] by blast
    then show ?thesis using Some by (auto simp: k offsetOf_def bind_eq_Some_conv)
  qed
  finally show "committed b k = offsetOf m k" .
qed

lemma loadTopicLocked_groups:
  "loadTopicLocked mtime now ctx b state asg = Some (b', err, ctx') \<Longrightarrow>
   b_groups b' = b_groups b \<and> b_offsets b' = b_offsets b"
  by (auto simp: loadTopicLocked_def Let_def split: option.splits if_splits prod.splits)

lemma loadTopics_groups:
  "loadTopics mtime now ctx b asg topics = Some (b', err) \<Longrightarrow> b_groups b' = b_groups b \<and> b_offsets b' = b_offsets b"
proof (induction topics arbitrary: ctx b)
  case (Cons nt topics)
  obtain name state where nt: "nt = (name, state)" by (cases nt)
  from Cons.prems consider ctx' where "loadTopics mtime now ctx' b asg topics = Some (b', err)"
    | a err' ctx' where "loadTopicLocked mtime now ctx b state a = Some (b', err', ctx')"
    | a b1 ctx' where "loadTopicLocked mtime now ctx b state a = Some (b1, None, ctx')" "loadTopics mtime now ctx' b1 asg topics = Some (b', err)"
    by (auto simp: nt split: option.splits if_splits prod.splits)
  then show ?case
  proof cases
    case 3
    then show ?thesis using Cons.IH loadTopicLocked_groups by metis
  qed (use Cons.IH loadTopicLocked_groups in blast)+
qed auto

lemma NewBroker_groups:
  assumes "NewBroker mtime now gorder torder cfg (Some st) (Some os) (Some ms) cluster im = Some (Inr b)"
    "Recover (\<lambda>n. False) os = Some (os', m, None)"
  shows "b_groups b = recoveredGroups (rangeOffsets gorder m) \<and> b_offsets b = os'"
  using assms
  by (auto simp: NewBroker_def Let_def bootstrapTopicsFromMetadata_def reconcileClusterMetadata_def bindE_def
      split: option.splits if_splits prod.splits sum.splits dest!: loadTopics_groups)

lemma restart_commits:
  assumes "agrees b cs" "NewOffsetStore dir (Some (os_disk (b_offsets b))) = Inr os"
    "visitsAll gorder (dom (committed b))"
    "NewBroker mtime now gorder torder cfg (Some st) (Some os) (Some ms) cluster im = Some (Inr b2)"
  shows "committed b2 = committed b \<and> agrees b2 cs"
proof -
  have ok: "list_all okCommit cs" and d: "os_disk (b_offsets b) = commitLog cs" and c: "committed b = lastCommits cs"
    using assms(1) by (simp_all add: agrees_def holdsCommits_def)
  obtain m where m: "scanOffsets Map.empty 0 (commitLog cs) = Some (m, length (commitLog cs))" "offsetOf m = lastCommits cs"
    using scan_commitLog [OF ok] by blast
  obtain os' where r: "Recover (\<lambda>n. False) os = Some (os', m, None)" "holdsCommits os' cs"
    using reopen_recovers [OF assms(2) [unfolded d] m(1)] by auto
  have "committed b2 = offsetOf m"
    using NewBroker_groups [OF assms(4) r(1)] assms(3) c m(2) by (intro committed_recovered) simp_all
  then show ?thesis using NewBroker_groups [OF assms(4) r(1)] r(2) m(2) c ok by (simp add: agrees_def)
qed

lemma AppendCommit_succeeds:
  assumes "agrees b cs" "okCommit (grp, topic, part, off)"
  obtains os where "AppendCommit False (b_offsets b) grp topic part off = (os, None)"
  using assms encodeOffsetRecord_frame [of grp topic part off] by (auto simp: AppendCommit_def agrees_def holdsCommits_def)

lemma CommitOffset_returns:
  assumes "wrapS 64 (b_commitCount b + 1) mod 1000 \<noteq> 0"
  shows "CommitOffset done b grp topic part off \<noteq> None"
  using assms by (auto simp: CommitOffset_def Let_def split: option.splits prod.splits)

lemma CommitOffset_accepted:
  assumes "agrees b cs" "okCommit (grp, topic, part, off)" "wrapS 64 (b_commitCount b + 1) mod 1000 \<noteq> 0"
    "\<forall>current. committed b (grp, topic, part) = Some current \<longrightarrow> current \<le> off"
  obtains b' where "CommitOffset False b grp topic part off = Some (b', None, None)"
proof -
  obtain os where a: "AppendCommit False (b_offsets b) grp topic part off = (os, None)" by (rule AppendCommit_succeeds [OF assms(1,2)])
  have "\<not> (case map_of (offsetsOf (groupOf b grp) topic) part of None \<Rightarrow> False | Some current \<Rightarrow> off < current)"
    using assms(4) by (auto simp: committed_groupOf split: option.split)
  then show thesis using a assms(3) that by (simp add: CommitOffset_def Let_def)
qed

lemma CommitOffset_thousandth:
  assumes "agrees b cs" "okCommit (grp, topic, part, off)" "wrapS 64 (b_commitCount b + 1) mod 1000 = 0"
    "\<forall>current. committed b (grp, topic, part) = Some current \<longrightarrow> current \<le> off"
  shows "CommitOffset False b grp topic part off = None"
  by (rule AppendCommit_succeeds [OF assms(1,2)]) (rule CommitOffset_blocks [OF _ assms(4,3)])

lemma accepted_length:
  "commitRun b calls = Some (b', errs) \<Longrightarrow> length (filter (\<lambda>err. err = None) errs) = length (acceptedCommits calls errs)"
proof (induction calls arbitrary: b errs)
  case (Cons call calls)
  obtain "done" grp topic part off where "call = (done, grp, topic, part, off)" by (cases call) auto
  then show ?case using Cons by (fastforce simp: acceptedCommits_def split: option.splits)
qed (simp add: acceptedCommits_def)

lemma commitRun_returns:
  "0 \<le> b_commitCount b \<Longrightarrow> b_commitCount b + int (length calls) \<le> 999 \<Longrightarrow> commitRun b calls \<noteq> None"
proof (induction calls arbitrary: b)
  case (Cons call calls)
  obtain "done" grp topic part off where call: "call = (done, grp, topic, part, off)" by (cases call) auto
  have w: "wrapS 64 (b_commitCount b + 1) = b_commitCount b + 1" using Cons.prems by (simp add: wrapS_def)
  then have "wrapS 64 (b_commitCount b + 1) mod 1000 \<noteq> 0" using Cons.prems by (simp add: mod_pos_pos_trivial)
  from CommitOffset_returns [OF this] obtain b1 err sn where c: "CommitOffset done b grp topic part off = Some (b1, err, sn)"
    by (metis not_None_eq prod_cases3)
  have "b_commitCount b1 = b_commitCount b + (if err = None then 1 else 0)"
    using c by (cases rule: CommitOffset_cases) (simp_all add: w)
  then have "commitRun b1 calls \<noteq> None" using Cons.prems by (intro Cons.IH) (simp_all split: if_splits)
  then show ?case using c by (auto simp: call)
qed simp

lemma commitRun_monotone:
  "commitRun b calls = Some (b', errs) \<Longrightarrow> committed b k = Some off \<Longrightarrow> \<exists>off'. committed b' k = Some off' \<and> off \<le> off'"
proof (induction calls arbitrary: b errs off)
  case (Cons call calls)
  obtain "done" grp topic part o1 where call: "call = (done, grp, topic, part, o1)" by (cases call) auto
  obtain b1 err sn errs' where c: "CommitOffset done b grp topic part o1 = Some (b1, err, sn)"
    and r: "commitRun b1 calls = Some (b', errs')"
    using Cons.prems(1) by (auto simp: call split: option.splits)
  from c have "\<exists>off1. committed b1 k = Some off1 \<and> off \<le> off1"
    by (cases rule: CommitOffset_cases) (use Cons.prems(2) in auto)
  then show ?case using Cons.IH [OF r] by (meson order_trans)
qed simp

section \<open>Properties\<close>

text \<open>C19: no partition has two owners.  Whatever requests to join and to leave groups arrive, and in whatever
  order, failed ones included, no partition of a topic is ever assigned to two members of one group.\<close>

theorem group_assignments_exclusive:
  assumes "okTopics (b_topics b)" "exclusiveGroups b"
  shows "exclusiveGroups (foldl groupStep b reqs)"
proof -
  have "exclusiveGroups (foldl groupStep b reqs) \<and> b_topics (foldl groupStep b reqs) = b_topics b"
    using assms(2)
  proof (induction reqs rule: rev_induct)
    case (snoc r reqs)
    then show ?case using groupStep_exclusive [of "foldl groupStep b reqs" r] assms(1) by simp
  qed simp
  then show ?thesis by simp
qed

lemma join_covers:
  assumes "okTopics (b_topics b)" "exclusiveGroups b" and j: "JoinGroup b grp m topics = (b1, Inr asg)"
  shows "\<exists>g. map_of (b_groups b1) grp = Some g \<and> (\<exists>me. map_of (cg_Members g) m = Some me \<and> asg = gm_Assignments me)
         \<and> (\<forall>topic\<in>set topics. covered g topic (map fst (tp_Partitions (the (map_of (b_topics b) topic)))))"
proof -
  let ?g0 = "addMember (groupOf b grp) m topics"
  obtain g where g: "joinTopics (b_topics b) ?g0 topics = (g, None)" "b1 = setGroup b grp g"
    "asg = gm_Assignments (the (map_of (cg_Members g) m))"
    using j by (auto simp: JoinGroup_def Let_def split: if_splits prod.splits option.splits)
  have d: "distinct (map fst (cg_Members ?g0))"
    using exclusive_addMember [OF exclusive_groupOf [OF assms(2)]] by (simp add: exclusive_def)
  have m: "m \<in> fst ` set (cg_Members ?g0)" by (simp add: addMember_def dom_update)
  then have ne: "cg_Members ?g0 \<noteq> []" by auto
  have "map fst (cg_Members g) = map fst (cg_Members ?g0)"
    using joinTopics_members [of "b_topics b" ?g0 topics] g(1) by simp
  then have "m \<in> fst ` set (cg_Members g)" using m by (metis list.set_map)
  then obtain me where "map_of (cg_Members g) m = Some me" by (metis map_of_eq_None_iff not_None_eq)
  moreover have "covered g topic (map fst (tp_Partitions (the (map_of (b_topics b) topic))))" if "topic \<in> set topics" for topic
    by (rule joinTopics_covered [OF assms(1) d ne g(1)]) (use that in simp)
  ultimately show ?thesis
    using g(2,3) by (auto simp: setGroup_def update_conv')
qed

lemma leave_covers:
  assumes "okTopics (b_topics b)" "exclusiveGroups b" and l: "map_of (b_groups b) grp = Some g0 \<and> LeaveGroup b grp m = (b2, None)"
  shows "\<exists>g. map_of (b_groups b2) grp = Some g \<and> m \<notin> fst ` set (cg_Members g)
         \<and> (cg_Members g \<noteq> [] \<longrightarrow> (\<forall>topic t. topic \<in> fst ` set (cg_assignments g0) \<and> map_of (b_topics b) topic = Some t \<longrightarrow>
              covered g topic (map fst (tp_Partitions t))))"
proof -
  let ?g1 = "g0\<lparr>cg_Members := AList.delete m (cg_Members g0)\<rparr>"
  let ?g2 = "leaveTopics (b_topics b) m ?g1 (map fst (cg_assignments g0))"
  let ?g = "if cg_Members ?g2 = [] then ?g2\<lparr>cg_assignments := []\<rparr> else ?g2"
  have b2: "map_of (b_groups b2) grp = Some ?g"
    using l by (auto simp: LeaveGroup_def Let_def setGroup_def update_conv')
  have d: "distinct (map fst (cg_Members ?g1))"
    using l assms(2) exclusive_delete [of g0 m] by (auto simp: exclusiveGroups_def exclusive_def)
  have "cg_Members ?g = cg_Members ?g2" by simp
  then have k: "map fst (cg_Members ?g) = map fst (cg_Members ?g1)" by (simp only: leaveTopics_members)
  have "m \<notin> fst ` set (cg_Members ?g1)" by (simp add: delete_conv' flip: dom_map_of_conv_image_fst)
  then have "m \<notin> fst ` set (cg_Members ?g)" by (metis k list.set_map)
  moreover have "covered ?g topic (map fst (tp_Partitions t))"
    if "cg_Members ?g \<noteq> []" "topic \<in> fst ` set (cg_assignments g0)" "map_of (b_topics b) topic = Some t" for topic t
  proof -
    have "cg_Members ?g1 \<noteq> []" using that(1) k by (metis list.map_disc_iff)
    from leaveTopics_covered [OF assms(1) d this that(3)] that(2) show ?thesis by simp
  qed
  ultimately show ?thesis
    using b2 by blast
qed

text \<open>C20: a rebalanced topic is covered.  After a join that succeeds, every partition of every topic the member
  asked for is assigned to one member of the group, the numbers of partitions differ by one at most,
  and the member is told its own share; after a member has left a group that is not empty then,
  the same holds of every topic that was assigned before.\<close>

theorem rebalance_covers:
  assumes "okTopics (b_topics b)" "exclusiveGroups b"
  shows "(JoinGroup b grp m topics = (b1, Inr asg) \<longrightarrow>
      (\<exists>g. map_of (b_groups b1) grp = Some g \<and> (\<exists>me. map_of (cg_Members g) m = Some me \<and> asg = gm_Assignments me)
         \<and> (\<forall>topic\<in>set topics. covered g topic (map fst (tp_Partitions (the (map_of (b_topics b) topic)))))))
    \<and> (map_of (b_groups b) grp = Some g0 \<and> LeaveGroup b grp m = (b2, None) \<longrightarrow>
      (\<exists>g. map_of (b_groups b2) grp = Some g \<and> m \<notin> fst ` set (cg_Members g)
         \<and> (cg_Members g \<noteq> [] \<longrightarrow> (\<forall>topic t. topic \<in> fst ` set (cg_assignments g0) \<and> map_of (b_topics b) topic = Some t \<longrightarrow>
              covered g topic (map fst (tp_Partitions t))))))"
  using join_covers [OF assms] leave_covers [OF assms] by blast

text \<open>C7: committed offsets never go back and survive a restart.  After any run of commits that all return,
  \<^verbatim>\<open>FetchCommitted\<close> answers with the last offset that was accepted for the partition, and with -1 and an error when none was; an
  offset that it gave before the run has not decreased; and a broker started anew on the offset file answers as the one before.\<close>

theorem committed_offsets_survive:
  assumes "agrees b cs" "list_all (\<lambda>(d, g, t, p, off). inS 64 off) calls" "commitRun b calls = Some (b1, errs)"
    and "NewOffsetStore dir (Some (os_disk (b_offsets b1))) = Inr os" "visitsAll gorder (dom (committed b1))"
    and "NewBroker mtime now gorder torder cfg (Some st) (Some os) (Some ms) cluster im = Some (Inr b2)"
  shows "(case lastCommits (cs @ acceptedCommits calls errs) (grp, topic, part) of
        Some off \<Rightarrow> FetchCommitted b1 grp topic part = (off, None) \<and> FetchCommitted b2 grp topic part = (off, None)
      | None \<Rightarrow> (\<exists>e. FetchCommitted b1 grp topic part = (-1, Some e)) \<and> (\<exists>e. FetchCommitted b2 grp topic part = (-1, Some e)))
    \<and> (FetchCommitted b grp topic part = (off, None) \<longrightarrow> (\<exists>off'. FetchCommitted b1 grp topic part = (off', None) \<and> off \<le> off'))"
proof -
  have a: "agrees b1 (cs @ acceptedCommits calls errs)" by (rule commitRun_agrees [OF assms(1-3)])
  then have "committed b1 = lastCommits (cs @ acceptedCommits calls errs)" "committed b2 = committed b1"
    using restart_commits [OF a assms(4-6)] by (simp_all add: agrees_def)
  then show ?thesis
    using commitRun_monotone [OF assms(3)] by (auto simp: FetchCommitted_iff FetchCommitted_none split: option.split)
qed

text \<open>C33: commits return as long as fewer than 999 have been accepted, and the thousandth never returns.  A broker whose counter is
  0 gets any calls.  The first 999 of them return, whatever they are.  When all of them have returned, at most 999 were
  accepted; if it is fewer, any further call returns, and one with lengths and numbers in range that does not go back is
  accepted; if it is 999, such a call never returns: taking the snapshot for the compaction that is due then asks for the lock of
  the committing group for reading while the call holds it for writing.\<close>

theorem thousandth_commit_blocks:
  assumes "agrees b cs" "b_commitCount b = 0" "list_all (\<lambda>(d, g, t, p, off). inS 64 off) calls"
  shows "(length calls \<le> 999 \<longrightarrow> commitRun b calls \<noteq> None)
    \<and> (\<forall>b1 errs. commitRun b calls = Some (b1, errs) \<longrightarrow>
        (let n = length (acceptedCommits calls errs) in
          n \<le> 999
          \<and> (n < 999 \<longrightarrow> CommitOffset done b1 grp topic part off \<noteq> None)
          \<and> (okCommit (grp, topic, part, off) \<and> (\<forall>current. FetchCommitted b1 grp topic part = (current, None) \<longrightarrow> current \<le> off) \<longrightarrow>
              (if n < 999 then \<exists>b2. CommitOffset False b1 grp topic part off = Some (b2, None, None)
               else CommitOffset False b1 grp topic part off = None))))"
proof (intro conjI allI impI)
  show "commitRun b calls \<noteq> None" if "length calls \<le> 999" using commitRun_returns [of b calls] that assms(2) by simp
  fix b1 errs assume r: "commitRun b calls = Some (b1, errs)"
  let ?n = "length (acceptedCommits calls errs)"
  have c: "b_commitCount b1 = int ?n" "?n \<le> 999"
    using commitRun_count [OF _ _ r] assms(2) accepted_length [OF r] by simp_all
  have a: "agrees b1 (cs @ acceptedCommits calls errs)" by (rule commitRun_agrees [OF assms(1,3) r])
  have w: "wrapS 64 (b_commitCount b1 + 1) = int ?n + 1" using c by (simp add: wrapS_def)
  have lt: "wrapS 64 (b_commitCount b1 + 1) mod 1000 \<noteq> 0" if "?n < 999" unfolding w using that by (simp add: mod_pos_pos_trivial)
  have "if ?n < 999 then \<exists>b2. CommitOffset False b1 grp topic part off = Some (b2, None, None)
      else CommitOffset False b1 grp topic part off = None"
    if "okCommit (grp, topic, part, off)" "\<forall>current. FetchCommitted b1 grp topic part = (current, None) \<longrightarrow> current \<le> off"
    using CommitOffset_accepted [OF a that(1) lt] CommitOffset_thousandth [OF a that(1)] that(2) w c(2)
    by (force simp: FetchCommitted_iff)
  then show "let n = ?n in n \<le> 999 \<and> (n < 999 \<longrightarrow> CommitOffset done b1 grp topic part off \<noteq> None)
      \<and> (okCommit (grp, topic, part, off) \<and> (\<forall>current. FetchCommitted b1 grp topic part = (current, None) \<longrightarrow> current \<le> off) \<longrightarrow>
          (if n < 999 then \<exists>b2. CommitOffset False b1 grp topic part off = Some (b2, None, None)
           else CommitOffset False b1 grp topic part off = None))"
    using c(2) CommitOffset_returns [OF lt] by (simp add: Let_def)
qed

section \<open>Examples\<close>

text \<open>A broker outside a cluster with one topic of three partitions and an empty offset file.\<close>

definition examplePartition :: "int \<Rightarrow> Partition" where
  "examplePartition pid = \<lparr>pt_Metadata = \<lparr>pm_Replica = \<lparr>pr_Topic = ''t'', pr_Partition = pid, pr_BrokerID = 1,
     pr_Role = RoleLeader, pr_LeaderEpoch = 0\<rparr>, pm_StartOffset = 0, pm_HighWatermark = -1, pm_Leader = 1,
     pm_Replicas = [1], pm_ISR = [1]\<rparr>\<rparr>"

definition exampleBroker :: "SingleNodeController Broker" where
  "exampleBroker = \<lparr>b_cfg = exampleConfig, b_storage = \<lparr>mg_cfg = \<lparr>cf_DataDir = ''d'', cf_MaxSegmentBytes = 1048576, cf_IndexInterval = 1,
       cf_SegmentMaxAge = 0, cf_SyncOnAppend = False, cf_MaxLogBytes = 0\<rparr>, mg_logs = [], mg_disk = []\<rparr>,
     b_offsets = openedOffsets [], b_meta = openedOn [], b_cluster = None,
     b_topics = [(''t'', \<lparr>tp_Name = ''t'', tp_Partitions = map (\<lambda>i. (i, examplePartition i)) [0, 1, 2], tp_ReplicationFactor = 1\<rparr>)],
     b_groups = [], b_known = [], b_closed = False, b_commitCount = 0, b_metaVersion = 0\<rparr>"

lemma exampleBroker_ok:
  "okTopics (b_topics exampleBroker)" "exclusiveGroups exampleBroker" "agrees exampleBroker []" "b_commitCount exampleBroker = 0"
  by (auto simp: exampleBroker_def okTopics_def exclusiveGroups_def agrees_def openedOffsets_holds committed_def
      lastCommits_def fun_eq_iff)

theorem group_assignments_exclusive_witness:
  "exclusiveGroups (foldl groupStep exampleBroker [Join ''g'' ''a'' [''t''], Join ''g'' ''b'' [''t'', ''u''], Leave ''g'' ''a''])"
  using group_assignments_exclusive [OF exampleBroker_ok(1,2)] .

theorem rebalance_covers_witness:
  "\<exists>b1 g. JoinGroup exampleBroker ''g'' ''a'' [''t''] = (b1, Inr [(''t'', [0, 1, 2])]) \<and> map_of (b_groups b1) ''g'' = Some g
    \<and> covered g ''t'' [0, 1, 2]"
proof -
  obtain b1 where j: "JoinGroup exampleBroker ''g'' ''a'' [''t''] = (b1, Inr [(''t'', [0, 1, 2])])"
    by (simp add: JoinGroup_def exampleBroker_def groupOf_def newGroup_def addMember_def rebalanceGroup_def
        rebalanceTopic_def sortedMembers_def sortedPartitions_def updateMemberAssignments_def Let_def)
  have p: "map fst (tp_Partitions (the (map_of (b_topics exampleBroker) ''t''))) = [0, 1, 2]"
    by (simp add: exampleBroker_def)
  from rebalance_covers [OF exampleBroker_ok(1,2)] j p show ?thesis by fastforce
qed

text \<open>Commits of growing offsets to one partition are accepted while the counter is below 999.\<close>

definition growingCommits :: "nat \<Rightarrow> nat \<Rightarrow> (bool \<times> commit) list" where
  "growingCommits i n = map (\<lambda>j. (False, ''g'', ''t'', 0, int j)) [i..<i + n]"

lemma commitRun_growing:
  "agrees b cs \<Longrightarrow> 0 \<le> b_commitCount b \<Longrightarrow> b_commitCount b + int n < 1000 \<Longrightarrow> i + n < 1000 \<Longrightarrow>
   \<forall>current. committed b (''g'', ''t'', 0) = Some current \<longrightarrow> current \<le> int i \<Longrightarrow>
   \<exists>b' cs'. commitRun b (growingCommits i n) = Some (b', replicate n None) \<and> agrees b' cs'
     \<and> (\<forall>current. committed b' (''g'', ''t'', 0) = Some current \<longrightarrow> current \<le> int (i + n))"
proof (induction n arbitrary: b cs i)
  case (Suc n)
  let ?c = "b_commitCount b + 1"
  have w: "wrapS 64 ?c = ?c" "?c mod 1000 \<noteq> 0" using Suc.prems by (auto simp: wrapS_def mod_pos_pos_trivial)
  have ok: "okCommit (''g'', ''t'', 0, int i)" using Suc.prems(4) by (simp add: inS_def)
  obtain b1 where b1: "CommitOffset False b ''g'' ''t'' 0 (int i) = Some (b1, None, None)"
    by (rule CommitOffset_accepted [OF Suc.prems(1) ok]) (use w Suc.prems(5) in auto)
  have n1: "b_commitCount b1 = ?c" "committed b1 (''g'', ''t'', 0) = Some (int i)"
    using b1 w(1) by (cases rule: CommitOffset_cases; simp)+
  have "inS 64 (int i)" using ok by simp
  from CommitOffset_agrees [OF Suc.prems(1) this b1] have "agrees b1 (cs @ [(''g'', ''t'', 0, int i)])" by simp
  from Suc.IH [OF this, of "Suc i"] n1 Suc.prems(2-4) b1 show ?case
    by (auto simp: growingCommits_def upt_conv_Cons simp del: upt_Suc)
qed (auto simp: growingCommits_def)

theorem thousandth_commit_blocks_witness:
  "\<exists>b1. commitRun exampleBroker (growingCommits 0 999) = Some (b1, replicate 999 None)
    \<and> CommitOffset False b1 ''g'' ''t'' 0 999 = None"
proof -
  obtain b1 cs where r: "commitRun exampleBroker (growingCommits 0 999) = Some (b1, replicate 999 None)" "agrees b1 cs"
    and le: "\<forall>current. committed b1 (''g'', ''t'', 0) = Some current \<longrightarrow> current \<le> 999"
    using commitRun_growing [OF exampleBroker_ok(3), of 999 0] by (auto simp: exampleBroker_def committed_def)
  have i: "list_all (\<lambda>(d, g, t, p, off). inS 64 off) (growingCommits 0 999)" by (auto simp: growingCommits_def list_all_iff inS_def)
  have n: "length (acceptedCommits (growingCommits 0 999) (replicate 999 None)) = 999" using accepted_length [OF r(1)] by simp
  have ok: "okCommit (''g'', ''t'', 0, 999)" by (simp add: inS_def)
  have "okCommit (''g'', ''t'', 0, 999) \<and> (\<forall>current. FetchCommitted b1 ''g'' ''t'' 0 = (current, None) \<longrightarrow> current \<le> 999) \<longrightarrow>
      CommitOffset False b1 ''g'' ''t'' 0 999 = None"
    using thousandth_commit_blocks [OF exampleBroker_ok(3,4) i] r(1) n by (fastforce simp: Let_def)
  then show ?thesis using r(1) le ok by (auto simp: FetchCommitted_iff)
qed

theorem committed_offsets_survive_witness:
  "\<exists>b1 b2. commitRun exampleBroker (growingCommits 0 2) = Some (b1, [None, None])
    \<and> NewBroker (\<lambda>b. 0) 0 [(''g'', [(''t'', [0])])] [] exampleConfig (Some (b_storage exampleBroker))
        (Some (openedOffsets (os_disk (b_offsets b1)))) (Some (openedOn [])) (None :: (SingleNodeController MetadataAPI \<times> SingleNodeController) option) None
       = Some (Inr b2)
    \<and> FetchCommitted b1 ''g'' ''t'' 0 = (1, None) \<and> FetchCommitted b2 ''g'' ''t'' 0 = (1, None)"
proof -
  let ?cs = "[(''g'', ''t'', 0, 0), (''g'', ''t'', 0, 1)] :: commit list"
  let ?no = "None :: (SingleNodeController MetadataAPI \<times> SingleNodeController) option"
  obtain b1 cs where r: "commitRun exampleBroker (growingCommits 0 2) = Some (b1, replicate 2 None)"
    using commitRun_growing [OF exampleBroker_ok(3), of 2 0] by (auto simp: exampleBroker_def committed_def)
  have g: "growingCommits 0 2 = [(False, ''g'', ''t'', 0, 0), (False, ''g'', ''t'', 0, 1)]"
    by (simp add: growingCommits_def numeral_2_eq_2)
  have i: "list_all (\<lambda>(d, g, t, p, off). inS 64 off) (growingCommits 0 2)" by (simp add: g inS_def)
  have acc: "acceptedCommits (growingCommits 0 2) (replicate 2 None) = ?cs"
    unfolding g by (simp add: acceptedCommits_def numeral_2_eq_2)
  then have a: "agrees b1 ?cs" using commitRun_agrees [OF exampleBroker_ok(3) i r] by simp
  then have c: "committed b1 = [(''g'', ''t'', 0) \<mapsto> 1]" by (simp add: agrees_def lastCommits_def)
  then have v: "visitsAll [(''g'', [(''t'', [0])])] (dom (committed b1))" by (simp add: visitsAll_def)
  obtain s' os where "Recover (\<lambda>n. False) (openedOffsets (os_disk (b_offsets b1))) = Some (s', os, None)"
    using a scan_commitLog [of ?cs] reopen_recovers [OF NewOffsetStore_example]
    by (fastforce simp: agrees_def holdsCommits_def)
  moreover have "RecoverTopics (\<lambda>n. False) (openedOn []) = Some (openedOn [], Map.empty, None)"
    by (simp add: RecoverTopics_def openedOn_def recoverLoop.simps fileReadAt_def fileTruncate_def truncateTo_def fileSeek_def)
  ultimately obtain b2 where n: "NewBroker (\<lambda>b. 0) 0 [(''g'', [(''t'', [0])])] [] exampleConfig (Some (b_storage exampleBroker))
      (Some (openedOffsets (os_disk (b_offsets b1)))) (Some (openedOn [])) ?no None = Some (Inr b2)"
    by (simp add: NewBroker_def exampleConfig_def Let_def bootstrapTopicsFromMetadata_def rangeMap_def map_filter_simps)
  have l: "lastCommits ([] @ acceptedCommits (growingCommits 0 2) (replicate 2 None)) (''g'', ''t'', 0) = Some 1"
    unfolding acc by (simp add: lastCommits_def)
  from committed_offsets_survive [OF exampleBroker_ok(3) i r NewOffsetStore_example v n, of "''g''" "''t''" 0, unfolded l] r n
  show ?thesis by (auto simp: numeral_2_eq_2)
qed

section \<open>What a started broker satisfies\<close>

lemma loadPartitions_distinct:
  "loadPartitions mtime now ctx cfg state asg m parts specs = Some (m', parts', err, ctx') \<Longrightarrow>
   distinct (map fst parts) \<Longrightarrow> distinct (map fst parts')"
proof (induction specs arbitrary: ctx m parts)
  case (Cons ps specs)
  have "distinct (map fst (AList.update k v parts))" for k v using Cons.prems(2) by (rule distinct_update)
  then show ?case using Cons by (auto split: if_splits option.splits sum.splits prod.splits)
qed simp

lemma loadPartitions_fresh:
  "loadPartitions mtime now ctx cfg state asg m [] specs = Some (m', parts', err, ctx') \<Longrightarrow> distinct (map fst parts')"
  by (erule loadPartitions_distinct) simp

lemma okTopics_update: "okTopics ts \<Longrightarrow> distinct (map fst (tp_Partitions t)) \<Longrightarrow> okTopics (AList.update name t ts)"
  by (induction ts) (auto simp: okTopics_def)

lemma loadTopicLocked_ok:
  assumes "loadTopicLocked mtime now ctx b state asg = Some (b', err, ctx')" "okTopics (b_topics b)"
  shows "okTopics (b_topics b') \<and> b_commitCount b' = b_commitCount b"
proof (cases "map_of (b_topics b) (ts_Name state)")
  case None
  then show ?thesis using assms
    by (auto simp: loadTopicLocked_def Let_def split: option.splits if_splits prod.splits
        intro!: okTopics_update) (rule loadPartitions_fresh)
next
  case (Some t)
  then show ?thesis using assms okTopics_map_of [OF assms(2) Some]
    by (auto simp: loadTopicLocked_def Let_def split: option.splits if_splits prod.splits
        intro!: okTopics_update) (auto dest: loadPartitions_distinct)
qed

lemma loadTopics_ok:
  "loadTopics mtime now ctx b asg topics = Some (b', err) \<Longrightarrow> okTopics (b_topics b) \<Longrightarrow>
   okTopics (b_topics b') \<and> b_commitCount b' = b_commitCount b"
proof (induction topics arbitrary: ctx b)
  case (Cons nt topics)
  obtain name state where nt: "nt = (name, state)" by (cases nt)
  from Cons.prems(1) consider ctx' where "loadTopics mtime now ctx' b asg topics = Some (b', err)"
    | a err' ctx' where "loadTopicLocked mtime now ctx b state a = Some (b', err', ctx')"
    | a b1 ctx' where "loadTopicLocked mtime now ctx b state a = Some (b1, None, ctx')" "loadTopics mtime now ctx' b1 asg topics = Some (b', err)"
    by (auto simp: nt split: option.splits if_splits prod.splits)
  then show ?case
  proof cases
    case 3
    then show ?thesis using Cons.IH loadTopicLocked_ok Cons.prems(2) by metis
  qed (use Cons.IH loadTopicLocked_ok Cons.prems(2) in blast)+
qed auto

lemma exclusive_recovered: "map_of (recoveredGroups sn) grp = Some g \<Longrightarrow> exclusive g"
  by (auto simp: recoveredGroups_def map_of_mapped exclusive_def newGroup_def memberParts_def)

lemma NewBroker_ok:
  assumes "NewBroker mtime now gorder torder cfg st os ms cluster im = Some (Inr b)"
  shows "okTopics (b_topics b) \<and> exclusiveGroups b \<and> b_commitCount b = 0"
proof -
  obtain b1 asg topics err sn where l: "loadTopics mtime now (\<lambda>n. False) b1 asg topics = Some (b, err)"
    and b1: "b_topics b1 = []" "b_commitCount b1 = 0" "b_groups b1 = recoveredGroups sn"
    using assms
    by (auto simp: NewBroker_def Let_def bootstrapTopicsFromMetadata_def reconcileClusterMetadata_def bindE_def
        split: option.splits if_splits prod.splits sum.splits)
  have "okTopics (b_topics b1)" by (simp add: b1 okTopics_def)
  then show ?thesis using loadTopics_ok [OF l] loadTopics_groups [OF l] b1 exclusive_recovered
    by (auto simp: exclusiveGroups_def)
qed

section \<open>Subscriptions are ignored\<close>

text \<open>
  \<^verbatim>\<open>rebalanceTopic\<close> shares a topic among all members of the group, whatever they subscribed to: a member
  that joined for topic \<open>t\<close> is given partitions of topic \<open>u\<close> when another joins for \<open>u\<close>, and they are
  withheld from the one that asked for them.
\<close>

definition twoTopics :: "SingleNodeController Broker" where
  "twoTopics = exampleBroker\<lparr>b_topics := b_topics exampleBroker @
     [(''u'', \<lparr>tp_Name = ''u'', tp_Partitions = map (\<lambda>i. (i, examplePartition i)) [0, 1], tp_ReplicationFactor = 1\<rparr>)]\<rparr>"

lemmas join_eval = JoinGroup_def groupOf_def setGroup_def newGroup_def addMember_def rebalanceGroup_def rebalanceTopic_def
  sortedMembers_def sortedPartitions_def updateMemberAssignments_def twoTopics_def exampleBroker_def Let_def

lemma rebalance_ignores_subscriptions:
  "let b1 = fst (JoinGroup twoTopics ''g'' ''a'' [''t'']); (b2, r) = JoinGroup b1 ''g'' ''b'' [''u'']
   in r = Inr [(''u'', [1])] \<and> memberParts (groupOf b2 ''g'') ''u'' ''a'' = [0]"
  by (simp add: join_eval memberParts_def lookupList_def)

text \<open>A join that fails on an unknown topic has registered the member, which then takes its share.\<close>

lemma failed_join_registers:
  "let b1 = fst (JoinGroup twoTopics ''g'' ''a'' [''x'']); (b2, r) = JoinGroup b1 ''g'' ''b'' [''u'']
   in snd (JoinGroup twoTopics ''g'' ''a'' [''x'']) = Inl (Errorf ''topic not found'')
     \<and> r = Inr [(''u'', [1])] \<and> memberParts (groupOf b2 ''g'') ''u'' ''a'' = [0]"
  by (simp add: join_eval memberParts_def lookupList_def)

end
