(* ===== verification/BrokerLog.thy ===== *)
theory BrokerLog
  imports LogProperties ConsumerGroups
begin

text \<open>
  Producing to and fetching from a partition of the broker: the operations of \<^verbatim>\<open>broker.go\<close> over the
  lemmas of the segmented log.
\<close>

section \<open>A partition and its log\<close>

text \<open>
  The broker leads the partition, whose log holds the given records, and the high watermark it keeps
  in the metadata is that of the log.
\<close>

definition serves :: "'c Broker \<Rightarrow> string \<Rightarrow> int \<Rightarrow> segmentedLog \<Rightarrow> Record list list \<Rightarrow> bool" where
  "serves b topic part l rss \<longleftrightarrow>
     (\<exists>p. lookupPartition b topic part = Inr p \<and> notLeader b topic part p = None
        \<and> pm_HighWatermark (pt_Metadata p) = HighWatermark l)
     \<and> map_of (mg_logs (b_storage b)) (topic, part) = Some l \<and> represents l rss"

lemma HighWatermark_next: "HighWatermark l = lg_nextOffset l - 1"
  by (simp add: HighWatermark_def)

lemma partLog_some [simp]: "map_of (mg_logs (b_storage b)) (topic, part) = Some l \<Longrightarrow> partLog b topic part = l"
  by (simp add: partLog_def)

lemma setPartition_simps [simp]:
  "b_storage (setPartition b topic part p) = b_storage b" "b_cluster (setPartition b topic part p) = b_cluster b"
  "b_cfg (setPartition b topic part p) = b_cfg b" "b_closed (setPartition b topic part p) = b_closed b"
  by (simp_all add: setPartition_def split: option.split)

lemma setPartLog_simps [simp]:
  "b_topics (setPartLog b topic part l) = b_topics b" "b_cluster (setPartLog b topic part l) = b_cluster b"
  "b_cfg (setPartLog b topic part l) = b_cfg b" "b_closed (setPartLog b topic part l) = b_closed b"
  "map_of (mg_logs (b_storage (setPartLog b topic part l))) = (map_of (mg_logs (b_storage b)))((topic, part) \<mapsto> l)"
  by (simp_all add: setPartLog_def update_conv')

lemma lookupPartition_setPartLog [simp]: "lookupPartition (setPartLog b topic part l) = lookupPartition b"
  by (simp add: lookupPartition_def fun_eq_iff)

lemma lookupPartition_set:
  assumes "lookupPartition b topic part = Inr q"
  shows "lookupPartition (setPartition b topic part p) topic' part' =
    (if topic' = topic \<and> part' = part then Inr p else lookupPartition b topic' part')"
proof -
  obtain t where "map_of (b_topics b) topic = Some t" "\<not> b_closed b"
    using assms by (auto simp: lookupPartition_def split: if_splits option.splits)
  then show ?thesis by (simp add: lookupPartition_def setPartition_def update_conv')
qed

lemma notLeader_cong:
  assumes "b_cluster b' = b_cluster b" "pr_Role (pm_Replica (pt_Metadata p')) = pr_Role (pm_Replica (pt_Metadata p))"
    "pm_Leader (pt_Metadata p') = pm_Leader (pt_Metadata p)"
  shows "notLeader b' topic part p' = notLeader b topic part p"
proof -
  have "leaderFor b' topic part = leaderFor b topic part" using assms(1) by (simp add: leaderFor_def clusterMetadata_def)
  then show ?thesis using assms unfolding notLeader_def isClustered_def Let_def by metis
qed

section \<open>Fetching\<close>

lemma fromOffset_end: "s + int (length rs) \<le> offset \<Longrightarrow> fromOffset offset (storedFrom s rs) = []"
  by (auto simp: fromOffset_def filter_empty_conv dest: storedFrom_offsets)

lemma Fetch_serves:
  assumes "serves b topic part l rss" "inS 32 maxBytes"
    and "smallValues maxBytes (fromOffset offset (storedFrom (lg_startOffset l) (concat rss)))"
  shows "Fetch (\<lambda>n. False) b topic part offset maxBytes =
    Inr (budget maxBytes (fromOffset offset (storedFrom (lg_startOffset l) (concat rss))))"
proof -
  obtain p where p: "lookupPartition b topic part = Inr p" "notLeader b topic part p = None"
      "pm_HighWatermark (pt_Metadata p) = HighWatermark l"
    and l: "map_of (mg_logs (b_storage b)) (topic, part) = Some l" "represents l rss"
    using assms(1) by (auto simp: serves_def)
  show ?thesis
  proof (cases "offset > HighWatermark l")
    case True
    then have "fromOffset offset (storedFrom (lg_startOffset l) (concat rss)) = []"
      using represents_next [OF l(2)] by (intro fromOffset_end) (simp add: HighWatermark_next)
    then show ?thesis using p True by (simp add: Fetch_def)
  next
    case False
    then show ?thesis using p l Read_represents [OF l(2) assms(2,3)] by (simp add: Fetch_def)
  qed
qed

section \<open>Producing\<close>

lemma Produce_serves:
  assumes s: "serves b topic part l rss" and ne: "records \<noteq> []" and ok: "okSeg (lg_nextOffset l) (stamped clock records)"
    and one: "oneSegment l (stamped clock records)"
  obtains b' l' rss' k where "Produce (\<lambda>n. False) clock now b topic part records = (b', lg_nextOffset l, None)"
    "serves b' topic part l' (drop k rss')" "concat rss' = concat rss @ stamped clock records" "k < length rss'"
    "lg_startOffset l' = lg_startOffset l + int (length (concat (take k rss')))" "keepsAll (lg_cfg l) \<Longrightarrow> k = 0"
    "length (concat (take k rss')) \<le> length (concat rss)"
    "\<And>topic' part'. (topic', part') \<noteq> (topic, part) \<Longrightarrow> lookupPartition b' topic' part' = lookupPartition b topic' part'
       \<and> map_of (mg_logs (b_storage b')) (topic', part') = map_of (mg_logs (b_storage b)) (topic', part')"
proof -
  obtain p where p: "lookupPartition b topic part = Inr p" "notLeader b topic part p = None"
      "pm_HighWatermark (pt_Metadata p) = HighWatermark l"
    and l: "map_of (mg_logs (b_storage b)) (topic, part) = Some l" "represents l rss"
    using s by (auto simp: serves_def)
  obtain l' rss' k where a: "AppendBatch (\<lambda>n. False) clock now l records = (l', lg_nextOffset l, None)"
    "concat rss' = concat rss @ stamped clock records" "k < length rss'" "represents l' (drop k rss')"
    "lg_nextOffset l' = lg_nextOffset l + int (length records)"
    "lg_startOffset l' = lg_startOffset l + int (length (concat (take k rss')))" "keepsAll (lg_cfg l) \<Longrightarrow> k = 0"
    "length (concat (take k rss')) \<le> length (concat rss)"
    by (rule AppendBatch_represents [OF l(2) ne ok one, of now]) blast
  let ?hw = "lg_nextOffset l + int (length records - 1)"
  have hw: "?hw = HighWatermark l'" "?hw > HighWatermark l" using ne a(5) by (cases records; simp add: HighWatermark_next)+
  have "0 \<le> lg_nextOffset l" "?hw \<le> maxInt64Uint" using ok ne by (auto simp: okSeg_def neq_Nil_conv)
  then have w: "wrapS 64 ?hw = ?hw" by (intro wrapS_id) (simp_all add: inS_def maxInt64Uint_def)
  let ?p = "p\<lparr>pt_Metadata := (pt_Metadata p)\<lparr>pm_HighWatermark := ?hw\<rparr>\<rparr>"
  let ?b = "setPartition (setPartLog b topic part l') topic part ?p"
  have pr: "Produce (\<lambda>n. False) clock now b topic part records = (?b, lg_nextOffset l, None)"
    using p l a ne w hw(2) by (simp add: Produce_def)
  have "notLeader ?b topic part ?p = notLeader b topic part p" by (rule notLeader_cong) simp_all
  then have "serves ?b topic part l' (drop k rss')"
    using p(1,2) a(4) hw(1) by (simp add: serves_def lookupPartition_set)
  moreover have "lookupPartition ?b topic' part' = lookupPartition b topic' part'
      \<and> map_of (mg_logs (b_storage ?b)) (topic', part') = map_of (mg_logs (b_storage b)) (topic', part')"
    if "(topic', part') \<noteq> (topic, part)" for topic' part'
    using that lookupPartition_set [of "setPartLog b topic part l'" topic part p ?p topic' part'] p(1) by auto
  ultimately show thesis using that [OF pr _ a(2,3,6,7,8)] by blast
qed

section \<open>Producing one record\<close>

lemma stamp_simps [simp]:
  "r_Value (stamp t r) = r_Value r" "r_Headers (stamp t r) = r_Headers r" "r_Key (stamp t r) = r_Key r"
  by (simp_all add: stamp_def)

lemma Produce_one:
  assumes s: "serves b topic part l rss" and ok: "okSeg (lg_nextOffset l) [stamp (clock 0) rec]" and keep: "keepsAll (lg_cfg l)"
  obtains b' l' rss' where "Produce (\<lambda>n. False) clock now b topic part [rec] = (b', lg_nextOffset l, None)" "serves b' topic part l' rss'"
    "lg_startOffset l' = lg_startOffset l" "lg_nextOffset l' = lg_nextOffset l + 1"
    "\<And>maxBytes. inS 32 maxBytes \<Longrightarrow> maxBytes + int (blen (r_Value rec)) \<le> 2147483647 \<Longrightarrow>
       Fetch (\<lambda>n. False) b' topic part (lg_nextOffset l) maxBytes = Inr [stored (lg_nextOffset l) (stamp (clock 0) rec)]"
proof -
  let ?r = "stamp (clock 0) rec"
  have one: "oneSegment l [?r]" by (simp add: oneSegment_def)
  obtain b' l' rss' k where pr: "Produce (\<lambda>n. False) clock now b topic part [rec] = (b', lg_nextOffset l, None)"
    and s': "serves b' topic part l' (drop k rss')" and c: "concat rss' = concat rss @ [?r]"
    and st: "lg_startOffset l' = lg_startOffset l + int (length (concat (take k rss')))" and k: "keepsAll (lg_cfg l) \<Longrightarrow> k = 0"
    using Produce_serves [OF s, of "[rec]" clock now thesis] ok one by simp
  have k0: "k = 0" by (rule k [OF keep])
  have nx: "lg_nextOffset l = lg_startOffset l + int (length (concat rss))" using s represents_next by (auto simp: serves_def)
  have nx': "lg_nextOffset l' = lg_startOffset l' + int (length (concat rss'))" using s' k0 represents_next [of l' rss'] by (auto simp: serves_def)
  have fr: "fromOffset (lg_nextOffset l) (storedFrom (lg_startOffset l') (concat (drop k rss'))) = [stored (lg_nextOffset l) ?r]"
    using k0 st fromOffset_end [of "lg_startOffset l" "concat rss" "lg_nextOffset l"]
    by (simp add: c storedFrom_append nx) (simp add: fromOffset_def)
  have "Fetch (\<lambda>n. False) b' topic part (lg_nextOffset l) maxBytes = Inr [stored (lg_nextOffset l) ?r]"
    if "inS 32 maxBytes" "maxBytes + int (blen (r_Value rec)) \<le> 2147483647" for maxBytes
    using Fetch_serves [OF s' that(1), of "lg_nextOffset l"] that(2) unfolding fr by (simp add: smallValues_def)
  moreover have "lg_nextOffset l' = lg_nextOffset l + 1" using nx nx' st k0 c by simp
  ultimately show thesis using that [OF pr s'] st k0 by simp
qed

text \<open>The last record of a partition, as the HTTP interface browses it, asked for by its offset or without one.\<close>

lemma FetchMessages_last:
  assumes s: "serves b topic part l rss" and f: "Fetch (\<lambda>n. False) b topic part (HighWatermark l) 10485760 = Inr [r]" "r_Offset r = HighWatermark l"
    and "lg_startOffset l \<le> HighWatermark l" "0 \<le> HighWatermark l" "inS 64 (HighWatermark l)"
    and "param = '''' \<or> parseInt64 param = Some (HighWatermark l)"
  shows "FetchMessages (\<lambda>n. False) b topic part param 1 = Some (HighWatermark l, [r], None)"
proof -
  have "ListOffsets b topic part = (lg_startOffset l, HighWatermark l, None)"
    using s by (auto simp: serves_def ListOffsets_def StartOffset_def)
  moreover have "wrapS 64 (wrapS 64 (HighWatermark l - 1) + 1) = HighWatermark l" using assms(5,6) by (simp add: wrapS_id inS_def)
  ultimately show ?thesis using f assms(4,5,7) by (auto simp: FetchMessages_def Let_def)
qed

section \<open>Properties\<close>

text \<open>C4: what is produced is fetched.  On a partition the broker leads, a batch that stays in one segment is
  acknowledged with the offset of its first record, and a fetch at that offset returns exactly the batch, stamped, cut at the
  byte limit.  A fetch at any offset, past the end as well, returns the records of the log from there on: the old ones, less those at the
  front that retention removed (none when it is off), followed by the batch.  The other partitions and their logs are as they were.\<close>

theorem produce_then_fetch:
  assumes "serves b topic part l rss" "records \<noteq> []" "okSeg (lg_nextOffset l) (stamped clock records)"
    "oneSegment l (stamped clock records)"
  shows "\<exists>b' l' kept dropped. Produce (\<lambda>n. False) clock now b topic part records = (b', lg_nextOffset l, None)
    \<and> map_of (mg_logs (b_storage b')) (topic, part) = Some l'
    \<and> concat rss = dropped @ kept \<and> (keepsAll (lg_cfg l) \<longrightarrow> dropped = [])
    \<and> lg_startOffset l' = lg_startOffset l + int (length dropped)
    \<and> (\<forall>maxBytes. inS 32 maxBytes \<and> smallValues maxBytes (storedFrom (lg_nextOffset l) (stamped clock records)) \<longrightarrow>
         Fetch (\<lambda>n. False) b' topic part (lg_nextOffset l) maxBytes =
         Inr (budget maxBytes (storedFrom (lg_nextOffset l) (stamped clock records))))
    \<and> (\<forall>offset maxBytes. inS 32 maxBytes \<and> smallValues maxBytes (fromOffset offset (storedFrom (lg_startOffset l') (kept @ stamped clock records))) \<longrightarrow>
         Fetch (\<lambda>n. False) b' topic part offset maxBytes =
         Inr (budget maxBytes (fromOffset offset (storedFrom (lg_startOffset l') (kept @ stamped clock records)))))
    \<and> (\<forall>topic' part'. (topic', part') \<noteq> (topic, part) \<longrightarrow> lookupPartition b' topic' part' = lookupPartition b topic' part'
         \<and> map_of (mg_logs (b_storage b')) (topic', part') = map_of (mg_logs (b_storage b)) (topic', part'))"
proof -
  obtain b' l' rss' k where pr: "Produce (\<lambda>n. False) clock now b topic part records = (b', lg_nextOffset l, None)"
    and s: "serves b' topic part l' (drop k rss')" and c: "concat rss' = concat rss @ stamped clock records"
    and st: "lg_startOffset l' = lg_startOffset l + int (length (concat (take k rss')))"
    and k: "keepsAll (lg_cfg l) \<Longrightarrow> k = 0" and le: "length (concat (take k rss')) \<le> length (concat rss)"
    and others: "\<And>topic' part'. (topic', part') \<noteq> (topic, part) \<Longrightarrow> lookupPartition b' topic' part' = lookupPartition b topic' part'
       \<and> map_of (mg_logs (b_storage b')) (topic', part') = map_of (mg_logs (b_storage b)) (topic', part')"
    by (rule Produce_serves [OF assms, of now]) blast
  let ?dropped = "concat (take k rss')" and ?batch = "stamped clock records"
  define kept where "kept = drop (length ?dropped) (concat rss)"
  have split: "concat rss @ ?batch = ?dropped @ concat (drop k rss')"
    unfolding c [symmetric] concat_append [symmetric] by simp
  have "take (length ?dropped) (concat rss) = ?dropped" using arg_cong [OF split, of "take (length ?dropped)"] le by simp
  then have old: "concat rss = ?dropped @ kept" unfolding kept_def by (metis append_take_drop_id)
  then have new: "concat (drop k rss') = kept @ ?batch" using split by simp
  have "lg_nextOffset l = lg_startOffset l' + int (length kept)"
    using assms(1) represents_next [of l rss] arg_cong [OF old, of length] st by (auto simp: serves_def)
  then have fr: "fromOffset (lg_nextOffset l) (storedFrom (lg_startOffset l') (kept @ ?batch)) = storedFrom (lg_nextOffset l) ?batch"
    using fromOffset_end [of "lg_startOffset l'" kept "lg_nextOffset l"] fromOffset_all [of "lg_nextOffset l" "lg_nextOffset l" ?batch]
    by (simp add: storedFrom_append)
  note f = Fetch_serves [OF s, unfolded new]
  have l': "map_of (mg_logs (b_storage b')) (topic, part) = Some l'" using s by (simp add: serves_def)
  show ?thesis
    by (rule exI [of _ b'], rule exI [of _ l'], rule exI [of _ kept], rule exI [of _ ?dropped])
      (use pr l' old st k others f f [of _ "lg_nextOffset l", unfolded fr] in auto)
qed

text \<open>A broker that leads one partition with the given log.\<close>

definition oneLog :: "segmentedLog \<Rightarrow> SingleNodeController Broker" where
  "oneLog l = exampleBroker\<lparr>b_storage := \<lparr>mg_cfg = lg_cfg l, mg_logs = [((''t'', 0), l)], mg_disk = []\<rparr>,
     b_topics := [(''t'', \<lparr>tp_Name = ''t'', tp_Partitions = [(0, \<lparr>pt_Metadata =
       (pt_Metadata (examplePartition 0))\<lparr>pm_HighWatermark := HighWatermark l\<rparr>\<rparr>)], tp_ReplicationFactor = 1\<rparr>)]\<rparr>"

lemma oneLog_serves: "represents l rss \<Longrightarrow> serves (oneLog l) ''t'' 0 l rss"
  by (simp add: serves_def lookupPartition_def notLeader_def isClustered_def oneLog_def exampleBroker_def)

theorem produce_then_fetch_witness:
  "\<exists>l b'. Produce (\<lambda>n. False) (\<lambda>n. 0) 0 (oneLog l) ''t'' 0 [exampleRecord, exampleRecord] = (b', 0, None)
    \<and> Fetch (\<lambda>n. False) b' ''t'' 0 1 100 = Inr [stored 1 exampleRecord]
    \<and> Fetch (\<lambda>n. False) b' ''t'' 0 2 100 = Inr []"
proof -
  obtain l where l: "represents l [[]]" "lg_startOffset l = 0" "lg_nextOffset l = 0" "lg_cfg l = LogProperties.exampleConfig"
    by (rule exampleEmpty)
  have k: "keepsAll (lg_cfg l)" by (simp add: l(4) keepsAll_def LogProperties.exampleConfig_def)
  have "okSeg (lg_nextOffset l) (stamped (\<lambda>n. 0) [exampleRecord, exampleRecord])"
    "oneSegment l (stamped (\<lambda>n. 0) [exampleRecord, exampleRecord])"
    using exampleSeg(1) exampleOneSegment [OF l(1,3,4)] by (simp_all only: exampleStamped l)
  from produce_then_fetch [OF oneLog_serves [OF l(1)] _ this, of 0] k obtain b' where
    pr: "Produce (\<lambda>n. False) (\<lambda>n. 0) 0 (oneLog l) ''t'' 0 [exampleRecord, exampleRecord] = (b', 0, None)" and
    f: "\<And>offset maxBytes. inS 32 maxBytes \<Longrightarrow> smallValues maxBytes (fromOffset offset (storedFrom 0 [exampleRecord, exampleRecord])) \<Longrightarrow>
       Fetch (\<lambda>n. False) b' ''t'' 0 offset maxBytes = Inr (budget maxBytes (fromOffset offset (storedFrom 0 [exampleRecord, exampleRecord])))"
    unfolding exampleStamped l(2,3) by auto
  have "fromOffset 1 (storedFrom 0 [exampleRecord, exampleRecord]) = [stored 1 exampleRecord]"
    "fromOffset 2 (storedFrom 0 [exampleRecord, exampleRecord]) = []" by (simp_all add: fromOffset_def)
  then show ?thesis using pr f [of 100 1] f [of 100 2] by (auto simp: inS_def smallValues_def exampleRecord_def)
qed

end
