(* ===== verification/Replication.thy ===== *)
theory Replication
  imports NetprotoServer BrokerLog "HOL-Library.Sublist"
begin

text \<open>
  Replication (\<^verbatim>\<open>internal/replication\<close>): the sink that writes fetched records to the local log, the sink that
  reports progress to the controller, the loop that pulls a partition from its leader, the client
  that fetches over the binary protocol.

  The sink shares the log manager with the broker.  A connection is a function from the bytes
  that are written to the bytes that are read; dialling it is a parameter.  The loop of a replicator does not
  end by itself: \<open>runLoop\<close> is the run over the iterations whose environment is given.
\<close>

section \<open>Requests and the client\<close>

record replFetchRequest =
  rq_Topic :: string
  rq_Partition :: int
  rq_Offset :: int
  rq_MaxBytes :: int

record replFetchResponse =
  rp_Records :: "Record list"
  rp_HighWatermark :: int
  rp_Error :: ErrorCode

definition FetchFromLeader :: "(BrokerInfo \<Rightarrow> (bytes \<Rightarrow> bytes) result) \<Rightarrow> BrokerInfo \<Rightarrow> replFetchRequest \<Rightarrow> replFetchResponse result" where
  "FetchFromLeader dial leader req = bindE (dial leader) (\<lambda>exchange.
     bindE (encodeFetchRequest \<lparr>fq_Topic = rq_Topic req, fq_Partition = rq_Partition req, fq_Offset = rq_Offset req,
       fq_MaxBytes = rq_MaxBytes req\<rparr>) (\<lambda>payload.
     bindE (encodeRequestFrame APIKeyFetch 1 payload) (\<lambda>frame.
     bindE (decodeResponseFrame (exchange frame)) (\<lambda>((apiKey, _, payloadResp), _).
       if apiKey \<noteq> APIKeyFetch then Inl (Errorf ''unexpected api key %d in response'')
       else bindE (decodeFetchResponse payloadResp) (\<lambda>fr.
         if fp_Error fr \<noteq> ErrNone then Inl (Errorf ''leader returned %d'')
         else Inr \<lparr>rp_Records = fp_Records fr, rp_HighWatermark = fp_HighWatermark fr, rp_Error = fp_Error fr\<rparr>)))))"

section \<open>The sink of the local log\<close>

record walSink =
  ws_store :: Manager
  ws_topic :: string
  ws_part :: int
  ws_log :: bool        \<comment> \<open>whether \<^verbatim>\<open>log\<close> is set\<close>

definition sinkLog :: "walSink \<Rightarrow> segmentedLog" where
  "sinkLog s = the (map_of (mg_logs (ws_store s)) (ws_topic s, ws_part s))"

definition setSinkLog :: "walSink \<Rightarrow> segmentedLog \<Rightarrow> walSink" where
  "setSinkLog s l = s\<lparr>ws_store := (ws_store s)\<lparr>mg_logs := AList.update (ws_topic s, ws_part s) l (mg_logs (ws_store s))\<rparr>\<rparr>"

definition NewWALSink :: "Manager \<Rightarrow> string \<Rightarrow> int \<Rightarrow> walSink" where
  "NewWALSink store topic part = \<lparr>ws_store = store, ws_topic = topic, ws_part = part, ws_log = False\<rparr>"

definition ensureLogLocked :: "(int \<Rightarrow> int) \<Rightarrow> int \<Rightarrow> walSink \<Rightarrow> (walSink \<times> go_error option) option" where
  "ensureLogLocked mtime now s =
    (if ws_log s then Some (s, None)
     else case OpenLog mtime now (ws_store s) \<lparr>lo_BaseOffset = 0, lo_Topic = ws_topic s, lo_Partition = ws_part s,
         lo_RetentionBytes = 0, lo_RetentionTime = 0\<rparr> of
       None \<Rightarrow> None
     | Some (m, Inl e) \<Rightarrow> Some (s\<lparr>ws_store := m\<rparr>, Some e)
     | Some (m, Inr l) \<Rightarrow> Some (s\<lparr>ws_store := m, ws_log := True\<rparr>, None))"

definition EnsureLeaderHighWatermark_wal :: "(int \<Rightarrow> int) \<Rightarrow> int \<Rightarrow> walSink \<Rightarrow> int \<Rightarrow> (walSink \<times> int \<times> go_error option) option" where
  "EnsureLeaderHighWatermark_wal mtime now s leaderHighWatermark = (case ensureLogLocked mtime now s of
       None \<Rightarrow> None
     | Some (s', Some e) \<Rightarrow> Some (s', -1, Some e)
     | Some (s', None) \<Rightarrow> Some (s', HighWatermark (sinkLog s') + 1, None))"

definition NextOffset_wal :: "(int \<Rightarrow> int) \<Rightarrow> int \<Rightarrow> walSink \<Rightarrow> (walSink \<times> int \<times> go_error option) option" where
  "NextOffset_wal mtime now s = (case ensureLogLocked mtime now s of
       None \<Rightarrow> None
     | Some (s', Some e) \<Rightarrow> Some (s', -1, Some e)
     | Some (s', None) \<Rightarrow> Some (s', HighWatermark (sinkLog s') + 1, None))"

definition ApplyBatch_wal :: "(int \<Rightarrow> int) \<Rightarrow> (nat \<Rightarrow> bool) \<Rightarrow> (nat \<Rightarrow> int) \<Rightarrow> int \<Rightarrow> walSink \<Rightarrow> Record list \<Rightarrow> int \<Rightarrow>
    (walSink \<times> int \<times> go_error option) option" where
  "ApplyBatch_wal mtime ctx clock now s records highWatermark = (case ensureLogLocked mtime now s of
       None \<Rightarrow> None
     | Some (s1, Some e) \<Rightarrow> Some (s1, -1, Some e)
     | Some (s1, None) \<Rightarrow>
       (case AppendBatch ctx clock now (sinkLog s1) records of
          (l, base, Some e) \<Rightarrow> Some (setSinkLog s1 l, -1, Some e)
        | (l, base, None) \<Rightarrow> Some (setSinkLog s1 l, wrapS 64 (base + int (length records) - 1), None)))"

section \<open>The reporting sink\<close>

type_synonym 'c reporter = "'c \<Rightarrow> string \<Rightarrow> int \<Rightarrow> int \<Rightarrow> int \<Rightarrow> int \<Rightarrow> 'c \<times> ClusterMetadata result"

record 'c reportingSink =
  rk_inner :: walSink
  rk_ctrl :: "('c reporter \<times> 'c) option"
  rk_topic :: string
  rk_part :: int
  rk_brokerID :: int

definition NewReportingSink :: "walSink \<Rightarrow> ('c reporter \<times> 'c) option \<Rightarrow> string \<Rightarrow> int \<Rightarrow> int \<Rightarrow> 'c reportingSink" where
  "NewReportingSink inner ctrl topic part brokerID =
     \<lparr>rk_inner = inner, rk_ctrl = ctrl, rk_topic = topic, rk_part = part, rk_brokerID = brokerID\<rparr>"

text \<open>The errors of the controller that a replica goes on after.\<close>

definition noController :: "go_error \<Rightarrow> bool" where
  "noController e = (case e of CtrlNotLeaderError _ \<Rightarrow> True | CtrlLeaderNotElected \<Rightarrow> True | _ \<Rightarrow> False)"

definition ApplyBatch_rep :: "(int \<Rightarrow> int) \<Rightarrow> (nat \<Rightarrow> bool) \<Rightarrow> (nat \<Rightarrow> int) \<Rightarrow> int \<Rightarrow> 'c reportingSink \<Rightarrow> Record list \<Rightarrow> int \<Rightarrow>
    ('c reportingSink \<times> int \<times> go_error option) option" where
  "ApplyBatch_rep mtime ctx clock now s records highWatermark =
    (case ApplyBatch_wal mtime ctx clock now (rk_inner s) records highWatermark of
       None \<Rightarrow> None
     | Some (inner, lastOff, Some e) \<Rightarrow> Some (s\<lparr>rk_inner := inner\<rparr>, lastOff, Some e)
     | Some (inner, lastOff, None) \<Rightarrow>
       (let s1 = s\<lparr>rk_inner := inner\<rparr> in
        case rk_ctrl s of
          None \<Rightarrow> Some (s1, lastOff, None)
        | Some (report, c) \<Rightarrow>
          (case report c (rk_topic s) (rk_part s) (rk_brokerID s) lastOff highWatermark of
             (c', Inr _) \<Rightarrow> Some (s1\<lparr>rk_ctrl := Some (report, c')\<rparr>, lastOff, None)
           | (c', Inl e) \<Rightarrow> Some (s1\<lparr>rk_ctrl := Some (report, c')\<rparr>, lastOff, if noController e then None else Some e))))"

definition NextOffset_rep :: "(int \<Rightarrow> int) \<Rightarrow> int \<Rightarrow> 'c reportingSink \<Rightarrow> ('c reportingSink \<times> int \<times> go_error option) option" where
  "NextOffset_rep mtime now s = map_option (\<lambda>(inner, r). (s\<lparr>rk_inner := inner\<rparr>, r)) (NextOffset_wal mtime now (rk_inner s))"

definition EnsureLeaderHighWatermark_rep :: "(int \<Rightarrow> int) \<Rightarrow> int \<Rightarrow> 'c reportingSink \<Rightarrow> int \<Rightarrow>
    ('c reportingSink \<times> int \<times> go_error option) option" where
  "EnsureLeaderHighWatermark_rep mtime now s hw =
     map_option (\<lambda>(inner, r). (s\<lparr>rk_inner := inner\<rparr>, r)) (EnsureLeaderHighWatermark_wal mtime now (rk_inner s) hw)"

section \<open>The replication loop\<close>

record 'c PartitionReplicator =
  pr_topic :: string
  pr_part :: int
  pr_sink :: "'c reportingSink"
  pr_Interval :: int
  pr_MaxBytes :: int
  pr_nextOffset :: int

definition NewPartitionReplicator :: "string \<Rightarrow> int \<Rightarrow> 'c reportingSink \<Rightarrow> 'c PartitionReplicator" where
  "NewPartitionReplicator topic part sink = \<lparr>pr_topic = topic, pr_part = part, pr_sink = sink, pr_Interval = 50 * 10 ^ 6,
     pr_MaxBytes = 2 ^ 20, pr_nextOffset = 0\<rparr>"

text \<open>
  What one iteration meets: the poll of the context, the answer of the leader, whether the context is done
  before the timer of an idle round, the polls and the clock of the append.
\<close>

record iteration =
  it_done :: bool
  it_fetch :: "replFetchRequest \<Rightarrow> replFetchResponse result"
  it_idleDone :: bool
  it_ctx :: "nat \<Rightarrow> bool"
  it_clock :: "nat \<Rightarrow> int"
  it_now :: int
  it_mtime :: "int \<Rightarrow> int"

definition runStart :: "(int \<Rightarrow> int) \<Rightarrow> int \<Rightarrow> 'c PartitionReplicator \<Rightarrow> ('c PartitionReplicator \<times> go_error option) option" where
  "runStart mtime now p =
    (if pr_nextOffset p = 0
     then (case NextOffset_rep mtime now (pr_sink p) of
         None \<Rightarrow> None
       | Some (s, off, Some e) \<Rightarrow> Some (p\<lparr>pr_sink := s\<rparr>, Some e)
       | Some (s, off, None) \<Rightarrow> Some (p\<lparr>pr_sink := s, pr_nextOffset := off\<rparr>, None))
     else Some (p, None))"

definition runStep :: "'c PartitionReplicator \<Rightarrow> iteration \<Rightarrow> ('c PartitionReplicator \<times> go_error option) option" where
  "runStep p it =
    (if it_done it then Some (p, Some Canceled)
     else case it_fetch it \<lparr>rq_Topic = pr_topic p, rq_Partition = pr_part p, rq_Offset = pr_nextOffset p, rq_MaxBytes = pr_MaxBytes p\<rparr> of
       Inl e \<Rightarrow> Some (p, Some e)
     | Inr resp \<Rightarrow>
       (if rp_Error resp \<noteq> ErrNone then Some (p, Some (Errorf ''fetch error: %v''))
        else let hw1 = wrapS 64 (rp_HighWatermark resp + 1);
                 next1 = (if hw1 < pr_nextOffset p \<or> pr_nextOffset p = 0 then hw1 else pr_nextOffset p)
          in case EnsureLeaderHighWatermark_rep (it_mtime it) (it_now it) (pr_sink p) (rp_HighWatermark resp) of
            None \<Rightarrow> None
          | Some (s, next, Some e) \<Rightarrow> Some (p\<lparr>pr_sink := s\<rparr>, Some e)
          | Some (s, next, None) \<Rightarrow>
            (let p1 = p\<lparr>pr_sink := s, pr_nextOffset := (if next1 = 0 \<or> next < next1 then next else next1)\<rparr> in
             if rp_Records resp = []
             then Some (p1, if pr_Interval p > 0 \<and> it_idleDone it then Some Canceled else None)
             else case ApplyBatch_rep (it_mtime it) (it_ctx it) (it_clock it) (it_now it) s (rp_Records resp) (rp_HighWatermark resp) of
               None \<Rightarrow> None
             | Some (s', lastOff, Some e) \<Rightarrow> Some (p1\<lparr>pr_sink := s'\<rparr>, Some e)
             | Some (s', lastOff, None) \<Rightarrow> Some (p1\<lparr>pr_sink := s', pr_nextOffset := wrapS 64 (lastOff + 1)\<rparr>, None))))"

text \<open>The run over the given iterations, with the error that ended it.\<close>

fun runLoop :: "'c PartitionReplicator \<Rightarrow> iteration list \<Rightarrow> ('c PartitionReplicator \<times> go_error option) option" where
  "runLoop p [] = Some (p, None)"
| "runLoop p (it # its) = (case runStep p it of
       None \<Rightarrow> None
     | Some (p', Some e) \<Rightarrow> Some (p', Some e)
     | Some (p', None) \<Rightarrow> runLoop p' its)"

section \<open>Logs that start at zero\<close>

lemma encodeRecord_log_crc [simp]: "encodeRecord_log (r\<lparr>r_CRC32C := c\<rparr>) = encodeRecord_log r"
  by (simp add: encodeRecord_log_def writeRecordFixedFields_def)

lemma recFrame_stored [simp]: "recFrame s (stored s' r) = recFrame s r"
proof -
  have "(r\<lparr>r_Offset := s', r_CRC32C := c\<rparr>)\<lparr>r_Offset := s\<rparr> = (r\<lparr>r_Offset := s\<rparr>)\<lparr>r_CRC32C := c\<rparr>" for c by simp
  then show ?thesis unfolding recFrame_def stored_def by (simp only: encodeRecord_log_crc)
qed

lemma stored_stored [simp]: "stored s (stored s r) = stored s r"
proof -
  let ?crc = "val_uint LittleEndian (take 4 (drop 4 (recFrame s r)))"
  have "stored s (stored s r) = (stored s r)\<lparr>r_Offset := s, r_CRC32C := ?crc\<rparr>" by (subst stored_def) simp
  then show ?thesis by (simp add: stored_def)
qed

lemma okAt_stored [simp]: "okAt s (stored s' r) = okAt s r"
  by (simp add: okAt_def okLogRecord_def stored_def)

text \<open>
  What replication needs of a log: appending records to what it holds, as long as they fit, and the
  high watermark.
\<close>

locale append_log =
  fixes append :: "'l \<Rightarrow> Record list \<Rightarrow> 'l \<times> int \<times> go_error option"
    and highWatermark :: "'l \<Rightarrow> int"
    and holds :: "'l \<Rightarrow> Record list \<Rightarrow> bool"
    and room :: "'l \<Rightarrow> Record list \<Rightarrow> bool"
  assumes append_extends: "holds l rs \<Longrightarrow> qs \<noteq> [] \<Longrightarrow> room l (rs @ qs) \<Longrightarrow>
      \<exists>l'. append l qs = (l', int (length rs), None) \<and> holds l' (rs @ qs) \<and> room l' = room l"
    and high_watermark: "holds l rs \<Longrightarrow> highWatermark l = int (length rs) - 1"
    and room_prefix: "room l (rs @ qs) \<Longrightarrow> room l rs"
begin

lemma room_take: "room l rs \<Longrightarrow> room l (take n rs)"
  by (metis append_take_drop_id room_prefix)

end


text \<open>
  The segmented log: from offset zero, without retention.  There is room for records that one segment can
  hold: a batch that crosses into a new segment is not readable from its start.
\<close>

definition holdsAll :: "segmentedLog \<Rightarrow> Record list \<Rightarrow> bool" where
  "holdsAll l rs \<longleftrightarrow> (\<exists>rss. represents l rss \<and> concat rss = rs) \<and> lg_startOffset l = 0 \<and> keepsAll (lg_cfg l)"

definition roomFor :: "segmentedLog \<Rightarrow> Record list \<Rightarrow> bool" where
  "roomFor l rs \<longleftrightarrow> okSeg 0 rs \<and> int (length (segLog 0 rs)) \<le> cf_MaxSegmentBytes (lg_cfg l)"

lemma holdsAll_next: "holdsAll l rs \<Longrightarrow> lg_nextOffset l = int (length rs)"
  using represents_next by (fastforce simp: holdsAll_def)

lemma okAt_stamp: "okAt s r \<Longrightarrow> stamp t r = r"
  by (auto simp: okAt_def okLogRecord_def stamp_def isZero_def split: option.splits)

lemma stamped_ok: "okSeg s rs \<Longrightarrow> stamped clock rs = rs"
  by (induction rs arbitrary: s clock) (auto simp: okSeg_Cons okAt_stamp)

lemma active_size:
  assumes "represents l rss" "lg_startOffset l = 0" "okSeg 0 (concat rss @ qs)"
  shows "sg_size (active l) + length (segLog (lg_nextOffset l) qs) \<le> length (segLog 0 (concat rss @ qs))"
proof -
  obtain pre a rss' rs where h: "holding l pre a rss' rs" and rss: "rss = rss' @ [rs]"
    using assms by (auto simp: represents_def)
  then have "sg_size (active l) = length (segLog (sg_baseOffset a) rs)" "sg_baseOffset a = int (length (concat rss'))"
    "lg_nextOffset l = sg_baseOffset a + int (length rs)"
    using assms(2) by (simp_all add: holding_def segHolds_def active_def)
  then show ?thesis using assms(3) by (simp add: rss segLog_append okSeg_append)
qed

lemma AppendBatch_holdsAll:
  assumes h: "holdsAll l rs" and ne: "qs \<noteq> []" and fit: "roomFor l (rs @ qs)"
  shows "\<exists>l'. AppendBatch (\<lambda>n. False) clock now l qs = (l', int (length rs), None) \<and> holdsAll l' (rs @ qs) \<and> roomFor l' = roomFor l"
proof -
  obtain rss where r: "represents l rss" "concat rss = rs" and st: "lg_startOffset l = 0" and keep: "keepsAll (lg_cfg l)"
    using h by (auto simp: holdsAll_def)
  have n: "lg_nextOffset l = int (length rs)" by (rule holdsAll_next [OF h])
  have ok: "okSeg (lg_nextOffset l) qs" and ok0: "okSeg 0 (rs @ qs)" using fit n by (simp_all add: roomFor_def okSeg_append)
  have st': "stamped clock qs = qs" by (rule stamped_ok [OF ok])
  have size: "int (sg_size (active l)) + int (length (segLog (lg_nextOffset l) qs)) \<le> cf_MaxSegmentBytes (lg_cfg l)"
    using fit active_size [OF r(1) st, of qs] ok0 by (simp add: roomFor_def r(2))
  have "landing l (hd qs) \<le> int (sg_size (active l))" by (simp add: landing_def)
  then have one: "oneSegment l (stamped clock qs)" using size unfolding st' by (simp add: oneSegment_def)
  obtain l' rss' k where a: "AppendBatch (\<lambda>n. False) clock now l qs = (l', lg_nextOffset l, None)"
    "concat rss' = concat rss @ stamped clock qs" "represents l' (drop k rss')" "lg_cfg l' = lg_cfg l"
    "lg_startOffset l' = lg_startOffset l + int (length (concat (take k rss')))" "keepsAll (lg_cfg l) \<Longrightarrow> k = 0"
    by (rule AppendBatch_represents [OF r(1) ne _ one, of now]) (use ok st' in auto)
  then show ?thesis using keep n st r(2) unfolding st' by (auto simp: holdsAll_def roomFor_def fun_eq_iff)
qed

interpretation wal: append_log "AppendBatch (\<lambda>n. False) clock now" HighWatermark holdsAll roomFor for clock now
proof
  show "roomFor l rs" if "roomFor l (rs @ qs)" for l rs qs
    using that segLog_append [of 0 rs qs] by (auto simp: roomFor_def okSeg_append)
qed (auto simp: AppendBatch_holdsAll HighWatermark_next dest: holdsAll_next)

section \<open>One iteration\<close>

text \<open>
  A replicator whose sink is open on a log that holds some records, and whose next offset is behind them; in
  particular the first \<open>k\<close> records of a leader.
\<close>

definition replicaAt :: "'c PartitionReplicator \<Rightarrow> segmentedLog \<Rightarrow> Record list \<Rightarrow> bool" where
  "replicaAt p l qs \<longleftrightarrow> (let s = rk_inner (pr_sink p) in
     ws_log s \<and> map_of (mg_logs (ws_store s)) (ws_topic s, ws_part s) = Some l) \<and> holdsAll l qs \<and> pr_nextOffset p = int (length qs)"


text \<open>What no round of a replicator changes.\<close>

definition sinkNames :: "'c PartitionReplicator \<Rightarrow> string \<times> int \<times> int \<times> string \<times> int" where
  "sinkNames p = (pr_topic p, pr_part p, pr_MaxBytes p, ws_topic (rk_inner (pr_sink p)), ws_part (rk_inner (pr_sink p)))"

text \<open>A controller that at worst has no leader.\<close>

definition reportsFine :: "'c reportingSink \<Rightarrow> bool" where
  "reportsFine s \<longleftrightarrow> (\<forall>report c. rk_ctrl s = Some (report, c) \<longrightarrow>
     (\<forall>c t p i off hw e. snd (report c t p i off hw) = Inl e \<longrightarrow> noController e))"


lemma budget_take: "\<exists>n. budget m rs = take n rs \<and> (rs \<noteq> [] \<longrightarrow> budget m rs \<noteq> [])"
proof (induction rs arbitrary: m)
  case (Cons r rs)
  show ?case
  proof (cases "0 < m \<and> m - int (blen (r_Value r)) \<le> 0")
    case True
    then show ?thesis by (auto intro: exI [of _ 1])
  next
    case False
    then obtain m' where "budget m (r # rs) = r # budget m' rs" by auto
    moreover obtain n where "budget m' rs = take n rs" using Cons by blast
    ultimately show ?thesis by (auto intro: exI [of _ "Suc n"])
  qed
qed simp

lemma ApplyBatch_rep_open:
  assumes "ws_log (rk_inner s)" "map_of (mg_logs (ws_store (rk_inner s))) (ws_topic (rk_inner s), ws_part (rk_inner s)) = Some l"
    "AppendBatch ctx clock now l batch = (l', base, None)" "reportsFine s"
  obtains s' where "ApplyBatch_rep mtime ctx clock now s batch hw = Some (s', wrapS 64 (base + int (length batch) - 1), None)"
    "rk_inner s' = setSinkLog (rk_inner s) l'" "reportsFine s'"
proof -
  have w: "ApplyBatch_wal mtime ctx clock now (rk_inner s) batch hw =
      Some (setSinkLog (rk_inner s) l', wrapS 64 (base + int (length batch) - 1), None)"
    using assms(1-3) by (simp add: ApplyBatch_wal_def ensureLogLocked_def sinkLog_def)
  show thesis
  proof (cases "rk_ctrl s")
    case None
    then show thesis using w that [of "s\<lparr>rk_inner := setSinkLog (rk_inner s) l'\<rparr>"] by (simp add: ApplyBatch_rep_def reportsFine_def)
  next
    case (Some rc)
    obtain report c where rc: "rc = (report, c)" by (cases rc)
    obtain c' r where r: "report c (rk_topic s) (rk_part s) (rk_brokerID s) (wrapS 64 (base + int (length batch) - 1)) hw = (c', r)"
      by fastforce
    have f: "\<And>c t p i off hw e. snd (report c t p i off hw) = Inl e \<Longrightarrow> noController e"
      using assms(4) Some rc unfolding reportsFine_def by blast
    have "\<And>e. r = Inl e \<Longrightarrow> noController e" using f r by (metis snd_conv)
    then show thesis using w r Some rc f that [of "s\<lparr>rk_inner := setSinkLog (rk_inner s) l', rk_ctrl := Some (report, c')\<rparr>"]
      by (cases r) (simp_all add: ApplyBatch_rep_def reportsFine_def)
  qed
qed

lemma runStep_replica:
  assumes at: "replicaAt p l qs" and quiet: "\<not> it_done it" "\<not> it_idleDone it" "it_ctx it = (\<lambda>n. False)"
    and fe: "it_fetch it \<lparr>rq_Topic = pr_topic p, rq_Partition = pr_part p, rq_Offset = int (length qs), rq_MaxBytes = pr_MaxBytes p\<rparr> =
      Inr \<lparr>rp_Records = batch, rp_HighWatermark = hw, rp_Error = ErrNone\<rparr>"
    and hw: "int (length qs) \<le> hw + 1" "hw < maxInt64Uint"
    and room: "roomFor l (qs @ batch)" and fine: "reportsFine (pr_sink p)"
  obtains p' l' where "runStep p it = Some (p', None)" "replicaAt p' l' (qs @ batch)" "roomFor l' = roomFor l"
    "reportsFine (pr_sink p')" "sinkNames p' = sinkNames p"
proof -
  let ?s = "pr_sink p" and ?w = "rk_inner (pr_sink p)" and ?k = "length qs"
  have w: "ws_log ?w" "map_of (mg_logs (ws_store ?w)) (ws_topic ?w, ws_part ?w) = Some l"
    and h: "holdsAll l qs" and nx: "pr_nextOffset p = int ?k"
    using at by (simp_all add: replicaAt_def Let_def)
  have w1: "wrapS 64 (hw + 1) = hw + 1" using hw by (intro wrapS_id) (simp_all add: inS_def maxInt64Uint_def)
  have e: "EnsureLeaderHighWatermark_rep (it_mtime it) (it_now it) ?s h = Some (?s, int ?k, None)" for h
    using w wal.high_watermark [OF h]
    by (simp add: EnsureLeaderHighWatermark_rep_def EnsureLeaderHighWatermark_wal_def ensureLogLocked_def sinkLog_def)
  show thesis
  proof (cases "batch = []")
    case True
    have "runStep p it = Some (p\<lparr>pr_sink := ?s, pr_nextOffset := int ?k\<rparr>, None)"
      using quiet fe e True nx hw(1) w1 unfolding runStep_def by (auto simp: Let_def)
    also have "p\<lparr>pr_sink := ?s, pr_nextOffset := int ?k\<rparr> = p" using nx by simp
    finally show thesis using that [of p l] True at fine by simp
  next
    case False
    obtain l' where l': "AppendBatch (\<lambda>n. False) (it_clock it) (it_now it) l batch = (l', int ?k, None)"
      "holdsAll l' (qs @ batch)" "roomFor l' = roomFor l"
      using wal.append_extends [OF h False room] by blast
    obtain s' where s': "ApplyBatch_rep (it_mtime it) (\<lambda>n. False) (it_clock it) (it_now it) ?s batch hw =
        Some (s', wrapS 64 (int ?k + int (length batch) - 1), None)"
      "rk_inner s' = setSinkLog ?w l'" "reportsFine s'"
      by (rule ApplyBatch_rep_open [OF w l'(1) fine])
    have "int (length (qs @ batch)) \<le> maxInt64Uint" using room by (simp add: roomFor_def okSeg_def)
    then have w2: "wrapS 64 (int ?k + int (length batch) - 1) = int ?k + int (length batch) - 1"
      "wrapS 64 (int ?k + int (length batch)) = int ?k + int (length batch)"
      using False by (subst wrapS_id; simp add: inS_def maxInt64Uint_def)+
    let ?p = "p\<lparr>pr_sink := s', pr_nextOffset := int ?k + int (length batch)\<rparr>"
    have "runStep p it = Some (?p, None)"
      using quiet fe e False nx hw(1) w1 w2 s'(1) unfolding runStep_def by (auto simp: Let_def)
    moreover have "replicaAt ?p l' (qs @ batch)"
      using w l'(2) s'(2) by (simp add: replicaAt_def Let_def setSinkLog_def update_conv')
    moreover have "sinkNames ?p = sinkNames p" by (simp add: sinkNames_def s'(2) setSinkLog_def)
    ultimately show thesis using that [of ?p l'] l'(3) s'(3) by auto
  qed
qed


section \<open>Runs of the loop\<close>




section \<open>The leader\<close>

text \<open>
  What a follower gets from the fetch handler of a broker: the records and the high watermark, or an error.
\<close>

definition leaderFetch :: "'c Broker \<Rightarrow> replFetchRequest \<Rightarrow> replFetchResponse result" where
  "leaderFetch b req =
    (case Fetch (\<lambda>n. False) b (rq_Topic req) (rq_Partition req) (rq_Offset req) (rq_MaxBytes req) of
       Inl e \<Rightarrow> Inl (Errorf ''leader returned %d'')
     | Inr recs \<Rightarrow> Inr \<lparr>rp_Records = recs,
         rp_HighWatermark = (case ListOffsets b (rq_Topic req) (rq_Partition req) of
             (_, latest, None) \<Rightarrow> latest
           | (_, _, Some e) \<Rightarrow> fallbackFetchHighWatermark (rq_Offset req) recs), rp_Error = ErrNone\<rparr>)"

definition leads :: "'c Broker \<Rightarrow> string \<Rightarrow> int \<Rightarrow> int \<Rightarrow> int \<Rightarrow> Record list \<Rightarrow> bool" where
  "leads b topic part maxBytes start rs \<longleftrightarrow> (\<exists>l rss. serves b topic part l rss \<and> lg_startOffset l = start
     \<and> rs = storedFrom start (concat rss) \<and> smallValues maxBytes rs) \<and> inS 32 maxBytes"

lemma smallValues_from: "smallValues m rs \<Longrightarrow> smallValues m (fromOffset off rs)"
  by (auto simp: smallValues_def fromOffset_def)

lemma leaderFetch_leads:
  assumes "leads b topic part maxBytes start rs"
  shows "leaderFetch b \<lparr>rq_Topic = topic, rq_Partition = part, rq_Offset = off, rq_MaxBytes = maxBytes\<rparr> =
    Inr \<lparr>rp_Records = budget maxBytes (fromOffset off rs), rp_HighWatermark = start + int (length rs) - 1, rp_Error = ErrNone\<rparr>"
proof -
  obtain l rss where s: "serves b topic part l rss" and l: "lg_startOffset l = start" "rs = storedFrom start (concat rss)"
      "smallValues maxBytes rs" and m: "inS 32 maxBytes"
    using assms by (auto simp: leads_def)
  have "Fetch (\<lambda>n. False) b topic part off maxBytes = Inr (budget maxBytes (fromOffset off rs))"
    using Fetch_serves [OF s m, of off] smallValues_from [OF l(3)] by (simp add: l)
  moreover have "ListOffsets b topic part = (start, start + int (length rs) - 1, None)"
    using s l represents_next [of l rss] by (auto simp: ListOffsets_def serves_def StartOffset_def HighWatermark_next)
  ultimately show ?thesis by (simp add: leaderFetch_def)
qed


text \<open>The iteration of a follower of a broker that is up.\<close>

definition live :: "iteration \<Rightarrow> 'c Broker \<Rightarrow> bool" where
  "live it b \<longleftrightarrow> \<not> it_done it \<and> \<not> it_idleDone it \<and> it_ctx it = (\<lambda>n. False) \<and> it_fetch it = leaderFetch b"




lemma budget_unlimited: "m \<le> 0 \<Longrightarrow> budget m rs = rs"
  by (induction rs) simp_all

lemma Read_holdsAll:
  assumes "holdsAll l rs" "smallValues 0 (storedFrom 0 rs)"
  shows "Read (\<lambda>n. False) l 0 0 = Inr (storedFrom 0 rs)"
proof -
  obtain rss where "represents l rss" "concat rss = rs" "lg_startOffset l = 0" using assms(1) by (auto simp: holdsAll_def)
  then show ?thesis using Read_represents [of l rss 0 0] assms(2)
    by (simp add: fromOffset_all budget_unlimited inS_def)
qed

section \<open>Properties\<close>


text \<open>A follower that starts behind the leader's retention renumbers and repeats records.  When the leader has removed
  its first records and a follower starts with an empty log, the fetch at offset zero is answered with the leader's first
  records, which the sink stores from offset zero on; the next fetch, at an offset the leader has also removed,
  is answered with the same records: the replica holds them twice, under other offsets.\<close>

theorem replica_renumbers_after_retention:
  assumes at: "replicaAt p l []" and live: "live it1 b" "live it2 b"
    and leads: "leads b (pr_topic p) (pr_part p) (pr_MaxBytes p) start rs" and ne: "rs \<noteq> []"
    and batch: "batch = budget (pr_MaxBytes p) rs" "int (length batch) \<le> start" "start + int (length rs) \<le> maxInt64Uint"
    and room: "roomFor l (batch @ batch)" and fine: "reportsFine (pr_sink p)" and small: "smallValues 0 (storedFrom 0 (batch @ batch))"
  shows "batch \<noteq> [] \<and> (\<exists>p' l'. runLoop p [it1, it2] = Some (p', None) \<and> replicaAt p' l' (batch @ batch)
    \<and> Read (\<lambda>n. False) l' 0 0 = Inr (storedFrom 0 (batch @ batch)))"
proof -
  obtain qs where qs: "rs = storedFrom start qs" using leads by (auto simp: leads_def)
  have all: "fromOffset off rs = rs" if "off \<le> start" for off using that by (simp add: qs fromOffset_all)
  have fe: "leaderFetch b \<lparr>rq_Topic = pr_topic p, rq_Partition = pr_part p, rq_Offset = off, rq_MaxBytes = pr_MaxBytes p\<rparr> =
      Inr \<lparr>rp_Records = batch, rp_HighWatermark = start + int (length rs) - 1, rp_Error = ErrNone\<rparr>" if "off \<le> start" for off
    using leaderFetch_leads [OF leads] all [OF that] batch(1) by simp
  have "0 \<le> start" using batch(2) by simp
  have r1: "roomFor l ([] @ batch)" using wal.room_prefix [OF room] by simp
  obtain p1 l1 where 1: "runStep p it1 = Some (p1, None)" "replicaAt p1 l1 batch" "roomFor l1 = roomFor l" "reportsFine (pr_sink p1)"
    "pr_topic p1 = pr_topic p" "pr_part p1 = pr_part p" "pr_MaxBytes p1 = pr_MaxBytes p"
    by (rule runStep_replica [OF at _ _ _ _ _ _ r1 fine, of it1 "start + int (length rs) - 1"])
      (use live(1) fe [of 0] \<open>0 \<le> start\<close> batch(3) in \<open>auto simp: live_def sinkNames_def\<close>)
  obtain p2 l2 where 2: "runStep p1 it2 = Some (p2, None)" "replicaAt p2 l2 (batch @ batch)"
    by (rule runStep_replica [OF 1(2) _ _ _ _ _ _ _ 1(4), of it2 batch "start + int (length rs) - 1"])
      (use live(2) fe [of "int (length batch)"] batch(2,3) room ne 1(3,5-7) in \<open>auto simp: live_def\<close>)
  have "holdsAll l2 (batch @ batch)" using 2(2) by (simp add: replicaAt_def)
  then have "Read (\<lambda>n. False) l2 0 0 = Inr (storedFrom 0 (batch @ batch))" using small by (rule Read_holdsAll)
  moreover have "batch \<noteq> []" using budget_take [of "pr_MaxBytes p" rs] ne batch(1) by auto
  ultimately show ?thesis using 1(1) 2 by auto
qed

section \<open>Taking over the leadership\<close>

text \<open>
  An update of the cluster metadata changes the role of a partition but neither its high watermark nor its log.
\<close>

definition hasPartition :: "'c Broker \<Rightarrow> string \<Rightarrow> int \<Rightarrow> int \<Rightarrow> segmentedLog \<Rightarrow> bool" where
  "hasPartition b topic part hw l \<longleftrightarrow> (\<exists>t q. map_of (b_topics b) topic = Some t \<and> map_of (tp_Partitions t) part = Some q
     \<and> pm_HighWatermark (pt_Metadata q) = hw) \<and> map_of (mg_logs (b_storage b)) (topic, part) = Some l"

lemma OpenLog_other:
  "OpenLog mtime now m opts = Some (m', r) \<Longrightarrow> key \<noteq> (lo_Topic opts, lo_Partition opts) \<Longrightarrow>
   map_of (mg_logs m') key = map_of (mg_logs m) key"
  by (auto simp: OpenLog_def Let_def update_conv' delete_conv' split: if_splits option.splits sum.splits prod.splits)

lemma loadPartitions_keeps:
  "loadPartitions mtime now ctx cfg state asg m parts specs = Some (m', parts', err, ctx') \<Longrightarrow>
   (map_of parts pid = Some q \<longrightarrow> map_of parts' pid = Some q)
   \<and> (ts_Name state \<noteq> topic \<or> pid \<in> fst ` set parts \<longrightarrow> map_of (mg_logs m') (topic, pid) = map_of (mg_logs m) (topic, pid))"
proof (induction specs arbitrary: ctx m parts)
  case (Cons ps specs)
  show ?case
  proof (cases "ps_ID ps \<in> fst ` set parts \<or> ctx 0")
    case True
    then show ?thesis using Cons by (auto split: if_splits)
  next
    case False
    let ?opts = "\<lparr>lo_BaseOffset = 0, lo_Topic = ts_Name state, lo_Partition = ps_ID ps,
             lo_RetentionBytes = ts_RetentionBytes state, lo_RetentionTime = ts_RetentionTime state\<rparr>"
    obtain m1 r where o: "OpenLog mtime now m ?opts = Some (m1, r)" using Cons.prems False by (auto split: option.splits)
    have log: "map_of (mg_logs m1) (topic, pid) = map_of (mg_logs m) (topic, pid)" if "ts_Name state \<noteq> topic \<or> pid \<in> fst ` set parts"
    proof -
      have "(topic, pid) \<noteq> (lo_Topic ?opts, lo_Partition ?opts)" using that False by auto
      then show ?thesis by (rule OpenLog_other [OF o])
    qed
    show ?thesis
    proof (cases r)
      case (Inl e)
      then show ?thesis using Cons.prems False o log by auto
    next
      case (Inr l)
      let ?v = "\<lparr>pt_Metadata = partitionMetadata cfg (ts_Name state) asg ps l\<rparr>"
      let ?parts = "AList.update (ps_ID ps) ?v parts"
      have "loadPartitions mtime now (\<lambda>n. ctx (Suc n)) cfg state asg m1 ?parts specs = Some (m', parts', err, ctx')"
        using Cons.prems False o Inr by simp
      note ih = Cons.IH [OF this]
      have "map_of parts pid = Some q \<Longrightarrow> map_of ?parts pid = Some q"
        using False by (auto simp: update_conv' map_of_eq_None_iff [symmetric])
      moreover have "pid \<in> fst ` set parts \<Longrightarrow> pid \<in> fst ` set ?parts" by (simp add: fst_image_update)
      ultimately show ?thesis using ih log by metis
    qed
  qed
qed simp

lemma loadTopicLocked_keeps:
  assumes "loadTopicLocked mtime now ctx b state asg = Some (b', err, ctx')" "hasPartition b topic part hw l"
  shows "hasPartition b' topic part hw l"
proof -
  let ?specs = "sort_key ps_ID (ts_Partitions state)"
  obtain t q where q: "map_of (b_topics b) topic = Some t" "map_of (tp_Partitions t) part = Some q"
    "pm_HighWatermark (pt_Metadata q) = hw" "map_of (mg_logs (b_storage b)) (topic, part) = Some l"
    using assms(2) by (auto simp: hasPartition_def)
  then have pt: "part \<in> fst ` set (tp_Partitions t)" by (force dest: map_of_SomeD)
  show ?thesis
  proof (cases "map_of (b_topics b) (ts_Name state)")
    case None
    then have ne: "ts_Name state \<noteq> topic" using q(1) by auto
    from assms(1) None consider "b' = b"
      | m parts where "loadPartitions mtime now ctx (b_cfg b) state asg (b_storage b) [] ?specs = Some (m, parts, err, ctx')"
        "b_storage b' = m" "map_of (b_topics b') topic = map_of (b_topics b) topic"
      using ne by (auto simp: loadTopicLocked_def Let_def update_conv' split: option.splits if_splits prod.splits)
    then show ?thesis
    proof cases
      case 2
      then have "map_of (mg_logs (b_storage b')) (topic, part) = Some l"
        using loadPartitions_keeps [OF 2(1), of part q topic] ne q(4) by simp
      then show ?thesis using 2(3) q by (auto simp: hasPartition_def)
    qed (use assms(2) in simp)
  next
    case (Some t0)
    then obtain m parts rf where ld: "loadPartitions mtime now ctx (b_cfg b) state asg (b_storage b) (tp_Partitions t0) ?specs = Some (m, parts, err, ctx')"
      and b': "b_topics b' = AList.update (ts_Name state) (t0\<lparr>tp_Partitions := parts, tp_ReplicationFactor := rf\<rparr>) (b_topics b)"
        "b_storage b' = m"
      using assms(1) by (auto simp only: loadTopicLocked_def Let_def option.case split: option.splits prod.splits) auto
    note keep = loadPartitions_keeps [OF ld, of part q topic]
    show ?thesis
    proof (cases "ts_Name state = topic")
      case True
      then have "map_of parts part = Some q" "map_of (mg_logs m) (topic, part) = Some l"
        using q Some pt keep by simp_all
      then show ?thesis using True b' q(3) by (auto simp: hasPartition_def update_conv')
    next
      case False
      then show ?thesis using b' q keep by (auto simp: hasPartition_def update_conv')
    qed
  qed
qed

lemma loadTopics_keeps:
  "loadTopics mtime now ctx b asg topics = Some (b', err) \<Longrightarrow> hasPartition b topic part hw l \<Longrightarrow> hasPartition b' topic part hw l"
proof (induction topics arbitrary: ctx b)
  case (Cons nt topics)
  obtain name state where nt: "nt = (name, state)" by (cases nt)
  from Cons.prems(1) consider ctx' where "loadTopics mtime now ctx' b asg topics = Some (b', err)"
    | a err' ctx' where "loadTopicLocked mtime now ctx b state a = Some (b', err', ctx')"
    | a b1 ctx' where "loadTopicLocked mtime now ctx b state a = Some (b1, None, ctx')" "loadTopics mtime now ctx' b1 asg topics = Some (b', err)"
    by (auto simp: nt split: option.splits if_splits prod.splits)
  then show ?case
  proof cases
    case 3
    then show ?thesis using Cons.IH loadTopicLocked_keeps Cons.prems(2) by blast
  qed (use Cons.IH loadTopicLocked_keeps Cons.prems(2) in blast)+
qed auto

lemma updatePartitionMetadata_keeps:
  assumes "hasPartition b topic part hw l"
  shows "hasPartition (updatePartitionMetadata b asg) topic part hw l"
proof (cases asg)
  case None
  then show ?thesis using assms by (simp add: updatePartitionMetadata_def)
next
  case (Some a)
  obtain t q where q: "map_of (b_topics b) topic = Some t" "map_of (tp_Partitions t) part = Some q"
    "pm_HighWatermark (pt_Metadata q) = hw" "map_of (mg_logs (b_storage b)) (topic, part) = Some l"
    using assms by (auto simp: hasPartition_def)
  have u: "pm_HighWatermark (pt_Metadata (updatePartition i x q)) = hw" for i x using q(3) by (simp add: updatePartition_def Let_def)
  show ?thesis using q u
    by (auto simp: hasPartition_def updatePartitionMetadata_def Some map_of_mapped split: option.split)
qed

lemma handleClusterMetadataUpdate_keeps:
  assumes "handleClusterMetadataUpdate mtime now ctx b meta = Some (b', err)" "hasPartition b topic part hw l"
  shows "hasPartition b' topic part hw l"
proof -
  have "hasPartition (b1\<lparr>b_metaVersion := v\<rparr>) topic part hw l = hasPartition b1 topic part hw l" for b1 :: "'a Broker" and v
    by (simp add: hasPartition_def)
  then show ?thesis using assms
    by (auto simp: handleClusterMetadataUpdate_def bootstrapTopicsFromMetadata_def split: if_splits option.splits prod.splits
        intro: updatePartitionMetadata_keeps dest: loadTopics_keeps)
qed

lemma followMetadata_keeps:
  "followMetadata mtime now b updates = Some b' \<Longrightarrow> hasPartition b topic part hw l \<Longrightarrow> hasPartition b' topic part hw l"
proof (induction updates arbitrary: b)
  case (Cons u updates)
  obtain ctx meta where u: "u = (ctx, meta)" by (cases u)
  then show ?case using Cons handleClusterMetadataUpdate_keeps by (fastforce split: option.splits)
qed simp

text \<open>A new leader hides what it has replicated.  A follower applies replicated records to the log, which the broker's
  own high watermark of the partition does not follow; whatever updates of the metadata then arrive, until
  something is produced, a fetch from the broker as the leader at an offset above that watermark
  returns nothing, while \<^verbatim>\<open>ListOffsets\<close> announces the end of the log the records were written to.\<close>

theorem promoted_leader_hides_records:
  assumes "hasPartition b topic part hw l"
    and "ApplyBatch_wal mtime ctx clock now \<lparr>ws_store = b_storage b, ws_topic = topic, ws_part = part, ws_log = True\<rparr> records leaderHW
      = Some (s, lastOff, None)"
    and "followMetadata mtime' now' (b\<lparr>b_storage := ws_store s\<rparr>) updates = Some b'"
    and "lookupPartition b' topic part = Inr p" "notLeader b' topic part p = None" "hw < offset"
  shows "Fetch ctx' b' topic part offset maxBytes = Inr []
    \<and> ListOffsets b' topic part = (StartOffset (sinkLog s), HighWatermark (sinkLog s), None)
    \<and> fst (AppendBatch ctx clock now l records) = sinkLog s"
proof -
  let ?l = "fst (AppendBatch ctx clock now l records)"
  have s: "s = setSinkLog \<lparr>ws_store = b_storage b, ws_topic = topic, ws_part = part, ws_log = True\<rparr> ?l"
    using assms(1,2) by (auto simp: ApplyBatch_wal_def ensureLogLocked_def sinkLog_def hasPartition_def split: prod.splits option.splits)
  then have l: "sinkLog s = ?l" and "map_of (mg_logs (ws_store s)) (topic, part) = Some ?l"
    by (simp_all add: sinkLog_def setSinkLog_def update_conv')
  then have "hasPartition (b\<lparr>b_storage := ws_store s\<rparr>) topic part hw ?l" using assms(1) by (simp add: hasPartition_def)
  then have h: "hasPartition b' topic part hw ?l" by (rule followMetadata_keeps [OF assms(3)])
  then have "pm_HighWatermark (pt_Metadata p) = hw"
    using assms(4) by (auto simp: hasPartition_def lookupPartition_def split: if_splits option.splits)
  then show ?thesis using assms(4-6) h l by (simp add: Fetch_def ListOffsets_def hasPartition_def)
qed

section \<open>Fetching over a connection\<close>

text \<open>A fetch over the binary protocol is the leader's answer.  When the connection is served by a broker, and the request
  and the answer are within the limits of the format, \<^verbatim>\<open>FetchFromLeader\<close> returns the records, without their checksums, and the high
  watermark that the broker's \<^verbatim>\<open>Fetch\<close> and \<^verbatim>\<open>ListOffsets\<close> return; a refused fetch is an error.\<close>

theorem fetch_over_connection:
  assumes calls: "okCalls clock api s [(1, FetchQ \<lparr>fq_Topic = rq_Topic req, fq_Partition = rq_Partition req,
      fq_Offset = rq_Offset req, fq_MaxBytes = rq_MaxBytes req\<rparr>)]"
    and dial: "dial leader = Inr (\<lambda>bytes. snd (handleConnection api s bytes))"
    and fetch: "api_Fetch api s (rq_Topic req) (rq_Partition req) (rq_Offset req) (rq_MaxBytes req) = (s, recs, err)"
    and offsets: "api_ListOffsets api s (rq_Topic req) (rq_Partition req) = (s, earliest, latest, None)"
  shows "FetchFromLeader dial leader req = (if err = None
    then Inr \<lparr>rp_Records = map wireRecord recs, rp_HighWatermark = latest, rp_Error = ErrNone\<rparr> else Inl (Errorf ''leader returned %d''))"
proof -
  let ?q = "\<lparr>fq_Topic = rq_Topic req, fq_Partition = rq_Partition req, fq_Offset = rq_Offset req, fq_MaxBytes = rq_MaxBytes req\<rparr>"
  let ?p = "\<lparr>fp_Records = recs, fp_HighWatermark = (if err = None then latest else 0), fp_Error = mapError err\<rparr>"
  let ?p' = "?p\<lparr>fp_Records := map wireRecord recs\<rparr>"
  have serve: "serve api s (stampRequest clock (FetchQ ?q)) = (s, FetchP ?p)"
    using fetch offsets by (simp add: mapError_def)
  obtain frame answer where f: "sendRequest clock (1, FetchQ ?q) = Inr frame"
    and h: "\<And>conn. handleConnection api s (frame @ conn) = (let (s', out) = handleConnection api (fst (serve api s (stampRequest clock (FetchQ ?q)))) conn in (s', answer @ out))"
    and r: "\<And>conn. readResponse (answer @ conn) = Inr ((requestKey (FetchQ ?q), 1, wireResponse (snd (serve api s (stampRequest clock (FetchQ ?q))))), conn)"
    by (rule call_step [OF calls]) (rule that)
  have out: "snd (handleConnection api s frame) = answer" using h [of "[]"] unfolding serve by simp
  have "readResponse answer = Inr ((APIKeyFetch, 1, FetchP ?p'), [])" using r [of "[]"] unfolding serve by simp
  then obtain payload where d: "decodeResponseFrame answer = Inr ((APIKeyFetch, 1, payload), [])" "decodeFetchResponse payload = Inr ?p'"
    by (auto simp: readResponse_def bindE_Inr_iff decodeResponse_def APIKey_defs)
  obtain b where b: "encodeFetchRequest ?q = Inr b" "encodeRequestFrame APIKeyFetch 1 b = Inr frame"
    using f by (auto simp: sendRequest_def bindE_Inr_iff)
  have "mapError err = ErrNone \<longleftrightarrow> err = None" by (auto simp: mapError_def ErrorCode_defs split: option.splits go_error.splits)
  then show ?thesis using d b out dial by (cases err) (simp_all add: FetchFromLeader_def)
qed

section \<open>Examples\<close>

definition emptyFetches :: "(string \<Rightarrow> int) BrokerAPI" where
  "emptyFetches = offsetsOnly\<lparr>api_Fetch := \<lambda>s t p off m. (s, [], None), api_ListOffsets := \<lambda>s t p. (s, 0, 4, None)\<rparr>"

theorem fetch_over_connection_witness:
  "\<exists>leader. FetchFromLeader (\<lambda>leader. Inr (\<lambda>bytes. snd (handleConnection emptyFetches (\<lambda>g. -1) bytes))) leader
     \<lparr>rq_Topic = ''t'', rq_Partition = 0, rq_Offset = 5, rq_MaxBytes = 1048576\<rparr>
   = Inr \<lparr>rp_Records = [], rp_HighWatermark = 4, rp_Error = ErrNone\<rparr>"
proof -
  let ?req = "\<lparr>rq_Topic = ''t'', rq_Partition = 0, rq_Offset = 5, rq_MaxBytes = 1048576\<rparr>"
  let ?dial = "\<lambda>leader :: BrokerInfo. Inr (\<lambda>bytes. snd (handleConnection emptyFetches (\<lambda>g. -1) bytes)) :: (bytes \<Rightarrow> bytes) result"
  have d: "?dial undefined = Inr (\<lambda>bytes. snd (handleConnection emptyFetches (\<lambda>g. -1) bytes))" by simp
  have "okCalls (\<lambda>i. 0) emptyFetches (\<lambda>g. -1) [(1, FetchQ \<lparr>fq_Topic = rq_Topic ?req, fq_Partition = rq_Partition ?req,
      fq_Offset = rq_Offset ?req, fq_MaxBytes = rq_MaxBytes ?req\<rparr>)]"
    by (simp add: emptyFetches_def call_eval encodeFetchRequest_def encodeFetchResponse_def putRecords_def okRecords_def)
  from fetch_over_connection [where req = ?req and dial = ?dial, OF this d, of "[]" None 0 4] show ?thesis by (auto simp: emptyFetches_def)
qed

text \<open>A replicator whose sink is open on the given log, and a round of it.\<close>

definition exampleReplica :: "segmentedLog \<Rightarrow> unit PartitionReplicator" where
  "exampleReplica l = NewPartitionReplicator ''t'' 0 (NewReportingSink \<lparr>ws_store = \<lparr>mg_cfg = lg_cfg l,
     mg_logs = [((''t'', 0), l)], mg_disk = []\<rparr>, ws_topic = ''t'', ws_part = 0, ws_log = True\<rparr> None ''t'' 0 2)"

definition exampleRound :: "'c Broker \<Rightarrow> iteration" where
  "exampleRound b = \<lparr>it_done = False, it_fetch = leaderFetch b, it_idleDone = False, it_ctx = (\<lambda>n. False),
     it_clock = (\<lambda>n. 0), it_now = 0, it_mtime = (\<lambda>b. 0)\<rparr>"

lemma oneLog_leads:
  assumes "represents l rss" "smallValues 1048576 (storedFrom (lg_startOffset l) (concat rss))"
  shows "leads (oneLog l) ''t'' 0 1048576 (lg_startOffset l) (storedFrom (lg_startOffset l) (concat rss))"
  unfolding leads_def using oneLog_serves [OF assms(1)] assms(2) by (auto simp: inS_def)

lemma exampleRound_live: "live (exampleRound b) b"
  by (simp add: live_def exampleRound_def)

lemma exampleReplica_at:
  assumes "represents l [[]]" "lg_startOffset l = 0" "lg_cfg l = LogProperties.exampleConfig"
  shows "replicaAt (exampleReplica l) l []" "reportsFine (pr_sink (exampleReplica l))"
proof -
  have "keepsAll (lg_cfg l)" by (simp add: assms(3) keepsAll_def LogProperties.exampleConfig_def)
  moreover have "\<exists>rss. represents l rss \<and> concat rss = []" using assms(1) by (intro exI [of _ "[[]]"]) simp
  ultimately show "replicaAt (exampleReplica l) l []"
    using assms(2) by (simp add: replicaAt_def exampleReplica_def NewPartitionReplicator_def NewReportingSink_def holdsAll_def)
  show "reportsFine (pr_sink (exampleReplica l))"
    by (simp add: reportsFine_def exampleReplica_def NewPartitionReplicator_def NewReportingSink_def)
qed




theorem replica_renumbers_after_retention_witness:
  "\<exists>l0 l l' p'. lg_startOffset l = 5 \<and> Read (\<lambda>n. False) l 0 0 = Inr [stored 5 exampleRecord]
    \<and> runLoop (exampleReplica l0) [exampleRound (oneLog l), exampleRound (oneLog l)] = Some (p', None)
    \<and> Read (\<lambda>n. False) l' 0 0 = Inr [stored 0 (stored 5 exampleRecord), stored 1 (stored 5 exampleRecord)]
    \<and> replicaAt p' l' [stored 5 exampleRecord, stored 5 exampleRecord]"
proof -
  obtain l0 where l0: "represents l0 [[]]" "lg_startOffset l0 = 0" "lg_nextOffset l0 = 0" "lg_cfg l0 = LogProperties.exampleConfig"
    by (rule exampleEmpty)
  have "okSeg (lo_BaseOffset (exampleOpts\<lparr>lo_BaseOffset := 5\<rparr>)) []" by (simp add: maxInt64Uint_def)
  then obtain l1 where l1: "represents l1 [[]]" "lg_startOffset l1 = 5" "lg_nextOffset l1 = 5" "lg_cfg l1 = LogProperties.exampleConfig"
    by (rule bootstrap_empty [of "exampleOpts\<lparr>lo_BaseOffset := 5\<rparr>" LogProperties.exampleConfig])
      (auto simp: LogProperties.exampleConfig_def intro: that)
  have st: "stamped (\<lambda>n. 0) [exampleRecord] = [exampleRecord]" by (simp add: stamp_def exampleRecord_def isZero_def)
  have k: "keepsAll (lg_cfg l1)" by (simp add: l1(4) keepsAll_def LogProperties.exampleConfig_def)
  have ok: "okSeg (lg_nextOffset l1) (stamped (\<lambda>n. 0) [exampleRecord])" unfolding st l1(3)
    by (simp add: okSeg_Cons exampleRecord_ok maxInt64Uint_def)
  obtain l rss where l: "represents l rss" "concat rss = [exampleRecord]" "lg_startOffset l = 5"
    by (rule AppendBatch_represents [OF l1(1) _ ok, of 0]) (use k l1(2) st in \<open>auto simp: oneSegment_def intro: that\<close>)
  let ?p = "exampleReplica l0" and ?b = "[stored 5 exampleRecord]" and ?it = "exampleRound (oneLog l)"
  have p: "pr_topic ?p = ''t''" "pr_part ?p = 0" "pr_MaxBytes ?p = 1048576" by (simp_all add: exampleReplica_def NewPartitionReplicator_def)
  have leads: "leads (oneLog l) (pr_topic ?p) (pr_part ?p) (pr_MaxBytes ?p) 5 ?b"
    using oneLog_leads [OF l(1)] l(2,3) by (simp add: p smallValues_def exampleRecord_def)
  have ok2: "okSeg 0 (?b @ ?b)" by (simp add: okSeg_Cons exampleRecord_ok maxInt64Uint_def)
  have room: "roomFor l0 (?b @ ?b)"
    using ok2 by (simp add: roomFor_def l0(4) LogProperties.exampleConfig_def segLog_Cons okSeg_Cons exampleRecord_frame)
  have sm: "smallValues 0 (storedFrom 0 (?b @ ?b))" by (simp add: smallValues_def exampleRecord_def)
  have b: "?b = budget (pr_MaxBytes ?p) ?b" by (simp add: p)
  from replica_renumbers_after_retention [OF exampleReplica_at(1) [OF l0(1,2,4)] exampleRound_live exampleRound_live leads _ b _ _ room
      exampleReplica_at(2) [OF l0(1,2,4)] sm]
  obtain p' l' where r: "runLoop ?p [?it, ?it] = Some (p', None)" "replicaAt p' l' (?b @ ?b)" "Read (\<lambda>n. False) l' 0 0 = Inr (storedFrom 0 (?b @ ?b))"
    by (auto simp: maxInt64Uint_def)
  moreover have "Read (\<lambda>n. False) l 0 0 = Inr ?b"
    using Read_represents [OF l(1), of 0 0] l(2,3) by (simp add: inS_def smallValues_def fromOffset_def exampleRecord_def budget_unlimited)
  ultimately show ?thesis using l(3) by auto
qed

text \<open>A follower of partition \<open>t/0\<close> in a cluster, and the update that makes it the leader.\<close>

definition exampleFollower :: "segmentedLog \<Rightarrow> SingleNodeController Broker" where
  "exampleFollower l = (oneLog l)\<lparr>b_cluster := Some (singleNodeAPI, \<lparr>sn_meta = \<lparr>cm_ClusterID = ''c'', cm_Version = 1, cm_Brokers = [],
       cm_Partitions = []\<rparr>, sn_cfg = exampleConfig\<rparr>),
     b_topics := [(''t'', \<lparr>tp_Name = ''t'', tp_Partitions = [(0, \<lparr>pt_Metadata = (pt_Metadata (examplePartition 0))
       \<lparr>pm_Replica := (pm_Replica (pt_Metadata (examplePartition 0)))\<lparr>pr_Role := RoleFollower\<rparr>\<rparr>\<rparr>)], tp_ReplicationFactor = 2\<rparr>)]\<rparr>"

definition promotion :: ClusterMetadata where
  "promotion = \<lparr>cm_ClusterID = ''c'', cm_Version = 2, cm_Brokers = [], cm_Partitions =
     [\<lparr>pa_Topic = ''t'', pa_Partition = 0, pa_Replicas = [1, 2], pa_ISR = [1], pa_Leader = 1, pa_LeaderEpoch = 1\<rparr>]\<rparr>"

lemmas promotion_eval = exampleFollower_def oneLog_def exampleBroker_def examplePartition_def promotion_def
  handleClusterMetadataUpdate_def isClustered_def topicsFromClusterMetadata_def bootstrapTopicsFromMetadata_def servedBy_def
  loadTopicLocked_def addPartitionState_def putAssignment_def emptyTopicState_def partitionSpecFromAssignment_def
  updatePartitionMetadata_def updatePartition_def exampleConfig_def lookupPartition_def notLeader_def Let_def
  RoleLeader_def RoleFollower_def wrapS_def

theorem promoted_leader_hides_records_witness:
  "\<exists>l s b'. represents l [[]] \<and> ApplyBatch_wal (\<lambda>b. 0) (\<lambda>n. False) (\<lambda>n. 0) 0
      \<lparr>ws_store = b_storage (exampleFollower l), ws_topic = ''t'', ws_part = 0, ws_log = True\<rparr> [exampleRecord, exampleRecord] 1 = Some (s, 1, None)
    \<and> followMetadata (\<lambda>b. 0) 0 ((exampleFollower l)\<lparr>b_storage := ws_store s\<rparr>) [(\<lambda>n. False, promotion)] = Some b'
    \<and> Fetch (\<lambda>n. False) b' ''t'' 0 0 0 = Inr [] \<and> ListOffsets b' ''t'' 0 = (0, 1, None)"
proof -
  obtain l where l: "represents l [[]]" "lg_startOffset l = 0" "lg_nextOffset l = 0" "lg_cfg l = LogProperties.exampleConfig"
    by (rule exampleEmpty)
  let ?b = "exampleFollower l"
  have h: "hasPartition ?b ''t'' 0 (-1) l" by (simp add: hasPartition_def exampleFollower_def oneLog_def examplePartition_def)
  have ok: "okSeg (lg_nextOffset l) (stamped (\<lambda>n. 0) [exampleRecord, exampleRecord])"
    "oneSegment l (stamped (\<lambda>n. 0) [exampleRecord, exampleRecord])"
    using exampleSeg(1) exampleOneSegment [OF l(1,3,4)] by (simp_all only: exampleStamped l)
  have k: "keepsAll (lg_cfg l)" by (simp add: l(4) keepsAll_def LogProperties.exampleConfig_def)
  obtain l' where a: "AppendBatch (\<lambda>n. False) (\<lambda>n. 0) 0 l [exampleRecord, exampleRecord] = (l', 0, None)"
    "lg_nextOffset l' = 2" "lg_startOffset l' = 0"
    by (rule AppendBatch_represents [OF l(1) _ ok, of 0]) (use k l in \<open>auto intro: that\<close>)
  let ?sink = "\<lparr>ws_store = b_storage ?b, ws_topic = ''t'', ws_part = 0, ws_log = True\<rparr>"
  let ?s = "setSinkLog ?sink l'"
  have s: "ApplyBatch_wal (\<lambda>b. 0) (\<lambda>n. False) (\<lambda>n. 0) 0 ?sink [exampleRecord, exampleRecord] 1 = Some (?s, 1, None)"
    using a h by (simp add: ApplyBatch_wal_def ensureLogLocked_def sinkLog_def hasPartition_def wrapS_def)
  obtain b' p where b': "followMetadata (\<lambda>b. 0) 0 (?b\<lparr>b_storage := ws_store ?s\<rparr>) [(\<lambda>n. False, promotion)] = Some b'"
    "lookupPartition b' ''t'' 0 = Inr p" "notLeader b' ''t'' 0 p = None"
    by (simp add: promotion_eval)
  from promoted_leader_hides_records [OF h s b', of 0] have "Fetch (\<lambda>n. False) b' ''t'' 0 0 0 = Inr []"
    "ListOffsets b' ''t'' 0 = (StartOffset l', HighWatermark l', None)" using a by auto
  moreover have "StartOffset l' = 0" "HighWatermark l' = 1" using a by (simp_all add: StartOffset_def HighWatermark_def)
  ultimately show ?thesis using l(1) s b'(1) by auto
qed

end
