(* ===== verification/ReplicationManager.thy ===== *)
theory ReplicationManager
  imports Replication
begin

text \<open>
  The outer loops of replication: the address of a leader (\<^verbatim>\<open>client.go\<close>), the worker that restarts a
  replicator after an error, and the manager that follows the cluster metadata (\<^verbatim>\<open>manager.go\<close>).

  The events that a loop waits for are given as a list; a loop that has used them up is still running.  The goroutines of the manager are kept apart from its
  registry of them: one that was cancelled, or is no longer registered, is there until it ends.
\<close>

section \<open>Addresses\<close>

text \<open>\<^verbatim>\<open>net.SplitHostPort\<close>: positions are those of the first or the last occurrence of a character.\<close>

fun indexChar :: "char \<Rightarrow> string \<Rightarrow> nat option" where
  "indexChar c [] = None"
| "indexChar c (d # ds) = (if d = c then Some 0 else map_option Suc (indexChar c ds))"

definition lastIndexChar :: "char \<Rightarrow> string \<Rightarrow> nat option" where
  "lastIndexChar c s = map_option (\<lambda>i. length s - Suc i) (indexChar c (rev s))"

definition splitHost :: "string \<Rightarrow> nat \<Rightarrow> (string \<times> nat \<times> nat) result" where
  "splitHost hostport i =
    (if hostport \<noteq> [] \<and> hd hostport = CHR ''[''
     then (case indexChar (CHR '']'') hostport of
         None \<Rightarrow> Inl (Errorf ''missing ] in address'')
       | Some e \<Rightarrow>
         (if e + 1 = length hostport then Inl (Errorf ''missing port in address'')
          else if e + 1 = i then Inr (take (e - 1) (drop 1 hostport), 1, e + 1)
          else if hostport ! (e + 1) = CHR '':'' then Inl (Errorf ''too many colons in address'')
          else Inl (Errorf ''missing port in address'')))
     else if indexChar (CHR '':'') (take i hostport) \<noteq> None then Inl (Errorf ''too many colons in address'')
     else Inr (take i hostport, 0, 0))"

definition SplitHostPort :: "string \<Rightarrow> (string \<times> string) result" where
  "SplitHostPort hostport = (case lastIndexChar (CHR '':'') hostport of
       None \<Rightarrow> Inl (Errorf ''missing port in address'')
     | Some i \<Rightarrow> bindE (splitHost hostport i) (\<lambda>(host, j, k).
         if indexChar (CHR ''['') (drop j hostport) \<noteq> None then Inl (Errorf ''unexpected [ in address'')
         else if indexChar (CHR '']'') (drop k hostport) \<noteq> None then Inl (Errorf ''unexpected ] in address'')
         else Inr (host, drop (i + 1) hostport)))"

definition JoinHostPort :: "string \<Rightarrow> string \<Rightarrow> string" where
  "JoinHostPort host port =
    (if indexChar (CHR '':'') host \<noteq> None then ''['' @ host @ '']:'' @ port else host @ '':'' @ port)"

text \<open>\<^verbatim>\<open>strconv.Itoa\<close>.\<close>

fun digits :: "nat \<Rightarrow> string" where
  "digits n = (if n < 10 then [char_of (48 + n)] else digits (n div 10) @ [char_of (48 + n mod 10)])"

declare digits.simps [simp del]

definition Itoa :: "int \<Rightarrow> string" where
  "Itoa i = (if i < 0 then ''-'' @ digits (nat (- i)) else digits (nat i))"

definition leaderAddress :: "BrokerInfo \<Rightarrow> string result" where
  "leaderAddress leader =
    (let host = bi_Host leader in
     if host = '''' then Inl (Errorf ''leader host is empty'')
     else if bi_Port leader \<noteq> 0 \<and> isl (SplitHostPort host) then Inr (JoinHostPort host (Itoa (bi_Port leader)))
     else Inr host)"

text \<open>Dialling the leader over a network that maps addresses to connections.\<close>

definition dialLeader :: "(string \<Rightarrow> (bytes \<Rightarrow> bytes) result) \<Rightarrow> BrokerInfo \<Rightarrow> (bytes \<Rightarrow> bytes) result" where
  "dialLeader network leader = bindE (leaderAddress leader) network"

section \<open>The worker of a partition\<close>





section \<open>The manager\<close>

text \<open>
  The goroutines that the manager has started, in the order in which it started them, and its registry of those that it knows.  The
  \<^verbatim>\<open>cancel\<close> of a registered worker is the number of its goroutine.
\<close>

datatype partitionKey = PartitionKey (pk_topic: string) (pk_partition: int)

record runningReplicator =
  rr_cancel :: nat
  rr_assignment :: PartitionAssignment

record worker =
  wk_key :: partitionKey
  wk_assignment :: PartitionAssignment
  wk_leader :: BrokerInfo
  wk_cancelled :: bool
  wk_ended :: bool

record replManager =
  rm_cfg :: BrokerConfig
  rm_running :: "(partitionKey \<times> runningReplicator) list"
  rm_workers :: "worker list"

definition NewManager_repl :: "BrokerConfig \<Rightarrow> replManager" where
  "NewManager_repl cfg = \<lparr>rm_cfg = cfg, rm_running = [], rm_workers = []\<rparr>"

definition sameAssignment :: "PartitionAssignment \<Rightarrow> PartitionAssignment \<Rightarrow> bool" where
  "sameAssignment a b =
    (if pa_Topic a \<noteq> pa_Topic b \<or> pa_Partition a \<noteq> pa_Partition b \<or> pa_Leader a \<noteq> pa_Leader b then False
     else pa_Replicas a = pa_Replicas b)"

definition findBroker :: "BrokerInfo list \<Rightarrow> int \<Rightarrow> BrokerInfo option" where
  "findBroker brokers i = find (\<lambda>b. bi_BrokerID b = i) brokers"

definition desiredReplicas :: "int \<Rightarrow> PartitionAssignment list \<Rightarrow> (partitionKey \<times> PartitionAssignment) list" where
  "desiredReplicas brokerID ps = fold (\<lambda>p desired.
     if containsInt (pa_Replicas p) brokerID \<and> pa_Leader p \<noteq> brokerID
     then AList.update (PartitionKey (pa_Topic p) (pa_Partition p)) p desired else desired) ps []"

text \<open>A goroutine is started and registered when its leader is known.\<close>

definition startReplicator :: "BrokerInfo list \<Rightarrow> partitionKey \<Rightarrow> PartitionAssignment \<Rightarrow> replManager \<Rightarrow> replManager" where
  "startReplicator brokers key assign m = (case findBroker brokers (pa_Leader assign) of
       None \<Rightarrow> m
     | Some leader \<Rightarrow>
       m\<lparr>rm_workers := rm_workers m @ [\<lparr>wk_key = key, wk_assignment = assign, wk_leader = leader, wk_cancelled = False, wk_ended = False\<rparr>],
         rm_running := AList.update key \<lparr>rr_cancel = length (rm_workers m), rr_assignment = assign\<rparr> (rm_running m)\<rparr>)"

text \<open>\<^verbatim>\<open>running.cancel()\<close> and the removal from the registry.\<close>

definition cancelWorker :: "nat \<Rightarrow> worker list \<Rightarrow> worker list" where
  "cancelWorker i ws = ws[i := (ws ! i)\<lparr>wk_cancelled := True\<rparr>]"

definition stopReplicator :: "partitionKey \<times> runningReplicator \<Rightarrow> replManager \<Rightarrow> replManager" where
  "stopReplicator = (\<lambda>(key, running) m.
     m\<lparr>rm_workers := cancelWorker (rr_cancel running) (rm_workers m), rm_running := AList.delete key (rm_running m)\<rparr>)"

definition applyMetadata :: "replManager \<Rightarrow> ClusterMetadata \<Rightarrow> replManager" where
  "applyMetadata m meta =
    (let desired = desiredReplicas (bc_BrokerID (rm_cfg m)) (cm_Partitions meta);
         stale = filter (\<lambda>(key, running). case map_of desired key of
             None \<Rightarrow> True | Some desiredAssign \<Rightarrow> \<not> sameAssignment (rr_assignment running) desiredAssign) (rm_running m);
         m1 = fold stopReplicator stale m
     in fold (\<lambda>(key, p) m. if map_of (rm_running m) key \<noteq> None then m else startReplicator (cm_Brokers meta) key p m) desired m1)"

text \<open>A goroutine returns, for whatever reason, and runs its deferred function.\<close>

definition workerEnded :: "nat \<Rightarrow> replManager \<Rightarrow> replManager" where
  "workerEnded i m =
    (if \<not> i < length (rm_workers m) \<or> wk_ended (rm_workers m ! i) then m
     else let w = rm_workers m ! i; m1 = m\<lparr>rm_workers := (rm_workers m)[i := w\<lparr>wk_ended := True\<rparr>]\<rparr> in
       case map_of (rm_running m) (wk_key w) of
         None \<Rightarrow> m1
       | Some current \<Rightarrow>
         (if sameAssignment (rr_assignment current) (wk_assignment w) then m1\<lparr>rm_running := AList.delete (wk_key w) (rm_running m)\<rparr> else m1))"

definition stopAll :: "replManager \<Rightarrow> replManager" where
  "stopAll m = fold stopReplicator (rm_running m) m"

text \<open>What \<^verbatim>\<open>Run\<close> waits for, and the ends of goroutines, which take the same lock.  The contexts of the goroutines are children of that of
  \<^verbatim>\<open>Run\<close> and are done with it.\<close>

datatype managerEvent = MetadataUpdate ClusterMetadata | WorkerEnded nat | ContextDone | UpdatesClosed

text \<open>The state, and the result once \<^verbatim>\<open>Run\<close> has returned.\<close>

fun Run_repl :: "replManager \<Rightarrow> managerEvent list \<Rightarrow> replManager \<times> go_error option option" where
  "Run_repl m [] = (m, None)"
| "Run_repl m (MetadataUpdate meta # evs) = Run_repl (applyMetadata m meta) evs"
| "Run_repl m (WorkerEnded i # evs) = Run_repl (workerEnded i m) evs"
| "Run_repl m (ContextDone # evs) = (stopAll (m\<lparr>rm_workers := map (\<lambda>w. w\<lparr>wk_cancelled := True\<rparr>) (rm_workers m)\<rparr>), Some (Some Canceled))"
| "Run_repl m (UpdatesClosed # evs) = (stopAll m, Some None)"

section \<open>Addresses split again\<close>

lemma indexChar_None_iff: "indexChar c s = None \<longleftrightarrow> c \<notin> set s"
  by (induction s) auto

lemma indexChar_append: "c \<notin> set s \<Longrightarrow> indexChar c (s @ c # t) = Some (length s)"
  by (induction s) auto

lemma lastIndexChar_append: "c \<notin> set t \<Longrightarrow> lastIndexChar c (s @ c # t) = Some (length s)"
  using indexChar_append [of c "rev t" "rev s"] by (simp add: lastIndexChar_def)

lemma digits_range: "c \<in> set (digits n) \<Longrightarrow> 48 \<le> (of_char c :: nat) \<and> (of_char c :: nat) < 58"
proof (induction n rule: digits.induct)
  case (1 n)
  then show ?case by (subst (asm) (2) digits.simps) (auto split: if_splits)
qed

lemma Itoa_plain: "c \<in> set (Itoa i) \<Longrightarrow> c \<noteq> CHR '':'' \<and> c \<noteq> CHR ''['' \<and> c \<noteq> CHR '']''"
  using digits_range [of c] by (auto simp: Itoa_def split: if_splits)

text \<open>A host without brackets and colons and a port make an address that splits into the two again.\<close>

lemma leaderAddress_splits:
  assumes "bi_Host leader \<noteq> ''''" "set (bi_Host leader) \<inter> {CHR '':'', CHR ''['', CHR '']''} = {}" "bi_Port leader \<noteq> 0"
  shows "\<exists>addr. leaderAddress leader = Inr addr \<and> SplitHostPort addr = Inr (bi_Host leader, Itoa (bi_Port leader))"
proof -
  let ?h = "bi_Host leader" and ?p = "Itoa (bi_Port leader)"
  have h: "CHR '':'' \<notin> set ?h" "CHR ''['' \<notin> set ?h" "CHR '']'' \<notin> set ?h" using assms(2) by auto
  have p: "CHR '':'' \<notin> set ?p" "CHR ''['' \<notin> set ?p" "CHR '']'' \<notin> set ?p" using Itoa_plain [of _ "bi_Port leader"] by blast+
  have "lastIndexChar (CHR '':'') ?h = None" using h by (simp add: lastIndexChar_def indexChar_None_iff)
  then have "isl (SplitHostPort ?h)" by (simp add: SplitHostPort_def)
  then have "leaderAddress leader = Inr (?h @ CHR '':'' # ?p)"
    using assms h indexChar_None_iff [of "CHR '':''" ?h] by (simp add: leaderAddress_def Let_def JoinHostPort_def)
  moreover have "hd (?h @ CHR '':'' # ?p) \<noteq> CHR ''[''" using assms(1) h by (cases ?h) auto
  then have "SplitHostPort (?h @ CHR '':'' # ?p) = Inr (?h, ?p)"
    using h p by (simp add: SplitHostPort_def lastIndexChar_append splitHost_def indexChar_None_iff)
  ultimately show ?thesis by blast
qed

section \<open>A worker over several attempts\<close>








section \<open>Registry and goroutines\<close>

definition liveWorker :: "replManager \<Rightarrow> nat \<Rightarrow> bool" where
  "liveWorker m i \<longleftrightarrow> i < length (rm_workers m) \<and> \<not> wk_cancelled (rm_workers m ! i) \<and> \<not> wk_ended (rm_workers m ! i)"

text \<open>What is registered is a live goroutine with that key and assignment.\<close>

definition registryOk :: "replManager \<Rightarrow> bool" where
  "registryOk m \<longleftrightarrow> distinct (map fst (rm_running m)) \<and> (\<forall>key r. map_of (rm_running m) key = Some r \<longrightarrow>
     liveWorker m (rr_cancel r) \<and> wk_key (rm_workers m ! rr_cancel r) = key \<and> wk_assignment (rm_workers m ! rr_cancel r) = rr_assignment r)"

text \<open>Every live goroutine is registered.\<close>

definition allKnown :: "replManager \<Rightarrow> bool" where
  "allKnown m \<longleftrightarrow> (\<forall>i. liveWorker m i \<longrightarrow>
     map_of (rm_running m) (wk_key (rm_workers m ! i)) = Some \<lparr>rr_cancel = i, rr_assignment = wk_assignment (rm_workers m ! i)\<rparr>)"

text \<open>A goroutine ends late: by then a newer one is registered for its partition with the same assignment.\<close>

definition endsLate :: "replManager \<Rightarrow> nat \<Rightarrow> bool" where
  "endsLate m i \<longleftrightarrow> i < length (rm_workers m) \<and> \<not> wk_ended (rm_workers m ! i)
     \<and> (\<exists>r. map_of (rm_running m) (wk_key (rm_workers m ! i)) = Some r \<and> rr_cancel r \<noteq> i \<and> sameAssignment (rr_assignment r) (wk_assignment (rm_workers m ! i)))"

fun noneLate :: "replManager \<Rightarrow> managerEvent list \<Rightarrow> bool" where
  "noneLate m [] = True"
| "noneLate m (MetadataUpdate meta # evs) = noneLate (applyMetadata m meta) evs"
| "noneLate m (WorkerEnded i # evs) = (\<not> endsLate m i \<and> noneLate (workerEnded i m) evs)"
| "noneLate m (ContextDone # evs) = True"
| "noneLate m (UpdatesClosed # evs) = True"

text \<open>Stopping a part of the registry.\<close>

lemma stopReplicator_fields:
  "rm_cfg (stopReplicator x m) = rm_cfg m" "length (rm_workers (stopReplicator x m)) = length (rm_workers m)"
  "map_of (rm_running (stopReplicator x m)) = (map_of (rm_running m))(fst x := None)"
  "distinct (map fst (rm_running m)) \<Longrightarrow> distinct (map fst (rm_running (stopReplicator x m)))"
  by (cases x, simp add: stopReplicator_def cancelWorker_def delete_conv' distinct_delete del: map_of_eq_Some_iff)+

lemma cancelled_idle: "(w :: worker)\<lparr>wk_cancelled := wk_cancelled w\<rparr> = w"
  by (cases w) simp

lemma stopReplicator_worker:
  "i < length (rm_workers m) \<Longrightarrow> rm_workers (stopReplicator x m) ! i =
    (rm_workers m ! i)\<lparr>wk_cancelled := wk_cancelled (rm_workers m ! i) \<or> i = rr_cancel (snd x)\<rparr>"
  by (cases x, cases "i = rr_cancel (snd x)") (simp_all add: stopReplicator_def cancelWorker_def cancelled_idle)

lemma stop_cfg [simp]: "rm_cfg (fold stopReplicator xs m) = rm_cfg m"
  by (induction xs arbitrary: m) (simp_all add: stopReplicator_fields)

lemma stop_length [simp]: "length (rm_workers (fold stopReplicator xs m)) = length (rm_workers m)"
  by (induction xs arbitrary: m) (simp_all add: stopReplicator_fields)

lemma stop_running:
  "map_of (rm_running (fold stopReplicator xs m)) key = (if key \<in> fst ` set xs then None else map_of (rm_running m) key)"
  by (induction xs arbitrary: m) (simp_all add: stopReplicator_fields)

lemma stop_distinct: "distinct (map fst (rm_running m)) \<Longrightarrow> distinct (map fst (rm_running (fold stopReplicator xs m)))"
  by (induction xs arbitrary: m) (simp_all add: stopReplicator_fields del: map_of_eq_Some_iff)

lemma stop_worker:
  "i < length (rm_workers m) \<Longrightarrow> rm_workers (fold stopReplicator xs m) ! i =
    (rm_workers m ! i)\<lparr>wk_cancelled := wk_cancelled (rm_workers m ! i) \<or> i \<in> rr_cancel ` snd ` set xs\<rparr>"
  by (induction xs arbitrary: m) (simp_all add: stopReplicator_fields stopReplicator_worker cancelled_idle disj_assoc)

lemmas stop_fields = stop_running stop_worker

lemma registryD:
  assumes "registryOk m"
  shows "distinct (map fst (rm_running m))"
    and "map_of (rm_running m) key = Some r \<Longrightarrow>
      liveWorker m (rr_cancel r) \<and> wk_key (rm_workers m ! rr_cancel r) = key \<and> wk_assignment (rm_workers m ! rr_cancel r) = rr_assignment r"
  using assms unfolding registryOk_def by blast+

lemma stop_keeps:
  assumes "registryOk m" "set xs \<subseteq> set (rm_running m)"
  shows "registryOk (fold stopReplicator xs m)" "allKnown m \<Longrightarrow> allKnown (fold stopReplicator xs m)"
proof -
  let ?m = "fold stopReplicator xs m"
  note d = registryD(1) [OF assms(1)] and reg = registryD(2) [OF assms(1)]
  have x: "map_of (rm_running m) key = Some r" if "(key, r) \<in> set xs" for key r
    using that assms(2) map_of_is_SomeI [OF d] by blast
  have "liveWorker ?m (rr_cancel r) \<and> wk_key (rm_workers ?m ! rr_cancel r) = key \<and> wk_assignment (rm_workers ?m ! rr_cancel r) = rr_assignment r"
    if r: "map_of (rm_running ?m) key = Some r" for key r
  proof -
    have k: "key \<notin> fst ` set xs" "map_of (rm_running m) key = Some r" using r by (auto simp: stop_fields split: if_splits)
    have "rr_cancel r \<notin> rr_cancel ` snd ` set xs"
    proof
      assume "rr_cancel r \<in> rr_cancel ` snd ` set xs"
      then obtain key' r' where "(key', r') \<in> set xs" "rr_cancel r' = rr_cancel r" by auto
      then have "key' = key" using reg [OF x] reg [OF k(2)] by metis
      then show False using k(1) \<open>(key', r') \<in> set xs\<close> by force
    qed
    then show ?thesis using reg [OF k(2)] by (simp add: liveWorker_def stop_fields)
  qed
  then show "registryOk ?m" using stop_distinct [OF d] unfolding registryOk_def by blast
  show "allKnown ?m" if known: "allKnown m"
    unfolding allKnown_def
  proof (intro allI impI)
    fix i assume "liveWorker ?m i"
    moreover from this have "i < length (rm_workers m)" by (simp add: liveWorker_def)
    ultimately have i: "liveWorker m i" "i \<notin> rr_cancel ` snd ` set xs" "i < length (rm_workers m)" by (simp_all add: liveWorker_def stop_worker)
    let ?w = "rm_workers m ! i" and ?r = "\<lparr>rr_cancel = i, rr_assignment = wk_assignment (rm_workers m ! i)\<rparr>"
    have r: "map_of (rm_running m) (wk_key ?w) = Some ?r" using known i(1) by (simp add: allKnown_def)
    have "wk_key ?w \<notin> fst ` set xs"
    proof
      assume "wk_key ?w \<in> fst ` set xs"
      then obtain r' where "(wk_key ?w, r') \<in> set xs" by auto
      then have "r' = ?r" "r' \<in> snd ` set xs" using x r by force+
      then show False using i(2) by force
    qed
    then show "map_of (rm_running ?m) (wk_key (rm_workers ?m ! i)) = Some \<lparr>rr_cancel = i, rr_assignment = wk_assignment (rm_workers ?m ! i)\<rparr>"
      using r i(3) by (simp add: stop_fields)
  qed
qed

text \<open>Starting a goroutine for a partition that has none.\<close>

lemma start_keeps:
  assumes "registryOk m" "map_of (rm_running m) key = None"
  shows "registryOk (startReplicator brokers key p m)" "allKnown m \<Longrightarrow> allKnown (startReplicator brokers key p m)"
proof -
  let ?m = "startReplicator brokers key p m"
  show "registryOk ?m" unfolding registryOk_def
  proof (intro conjI allI impI)
    show "distinct (map fst (rm_running ?m))"
      using registryD(1) [OF assms(1)] by (simp add: startReplicator_def distinct_update split: option.split)
    fix k r assume r: "map_of (rm_running ?m) k = Some r"
    have "r = \<lparr>rr_cancel = length (rm_workers m), rr_assignment = p\<rparr> \<and> k = key \<and> findBroker brokers (pa_Leader p) \<noteq> None
        \<or> map_of (rm_running m) k = Some r"
      using r by (auto simp: startReplicator_def update_conv' split: option.splits if_splits)
    then show "liveWorker ?m (rr_cancel r)" "wk_key (rm_workers ?m ! rr_cancel r) = k"
        "wk_assignment (rm_workers ?m ! rr_cancel r) = rr_assignment r"
      using registryD(2) [OF assms(1), of k r] by (auto simp: liveWorker_def startReplicator_def nth_append split: option.splits)
  qed
  show "allKnown ?m" if "allKnown m"
    unfolding allKnown_def
  proof (intro allI impI)
    fix i assume i: "liveWorker ?m i"
    show "map_of (rm_running ?m) (wk_key (rm_workers ?m ! i)) = Some \<lparr>rr_cancel = i, rr_assignment = wk_assignment (rm_workers ?m ! i)\<rparr>"
    proof (cases "i < length (rm_workers m)")
      case True
      then have "liveWorker m i" using i by (auto simp: liveWorker_def startReplicator_def nth_append split: option.splits)
      then have "map_of (rm_running m) (wk_key (rm_workers m ! i)) = Some \<lparr>rr_cancel = i, rr_assignment = wk_assignment (rm_workers m ! i)\<rparr>"
        using that by (simp add: allKnown_def)
      then show ?thesis using True assms(2) by (auto simp: startReplicator_def update_conv' nth_append split: option.split)
    next
      case False
      then show ?thesis using i by (auto simp: liveWorker_def startReplicator_def update_conv' nth_append split: option.splits)
    qed
  qed
qed

definition startMissing :: "BrokerInfo list \<Rightarrow> (partitionKey \<times> PartitionAssignment) list \<Rightarrow> replManager \<Rightarrow> replManager" where
  "startMissing brokers ds m = fold (\<lambda>(key, p) m. if map_of (rm_running m) key \<noteq> None then m else startReplicator brokers key p m) ds m"

lemma applyMetadata_startMissing:
  "applyMetadata m meta = (let ds = desiredReplicas (bc_BrokerID (rm_cfg m)) (cm_Partitions meta) in
     startMissing (cm_Brokers meta) ds (fold stopReplicator (filter (\<lambda>(key, running). case map_of ds key of
       None \<Rightarrow> True | Some desiredAssign \<Rightarrow> \<not> sameAssignment (rr_assignment running) desiredAssign) (rm_running m)) m))"
  by (simp add: applyMetadata_def startMissing_def Let_def)

lemma startMissing_Cons:
  "startMissing brokers ((key, p) # ds) m =
    startMissing brokers ds (if map_of (rm_running m) key \<noteq> None then m else startReplicator brokers key p m)"
  by (simp add: startMissing_def)

lemma startMissing_keeps:
  "registryOk m \<Longrightarrow> registryOk (startMissing brokers ds m)" "registryOk m \<Longrightarrow> allKnown m \<Longrightarrow> allKnown (startMissing brokers ds m)"
proof (induction ds arbitrary: m)
  case (Cons x ds)
  obtain key p where x: "x = (key, p)" by fastforce
  { case 1 then show ?case using Cons(1) start_keeps(1) by (simp add: x startMissing_Cons) next
    case 2 then show ?case using Cons(2) start_keeps by (simp add: x startMissing_Cons) }
qed (simp_all add: startMissing_def)

lemma startReplicator_running:
  "map_of (rm_running (startReplicator brokers key p m)) k =
    (if k = key \<and> findBroker brokers (pa_Leader p) \<noteq> None then Some \<lparr>rr_cancel = length (rm_workers m), rr_assignment = p\<rparr> else map_of (rm_running m) k)"
  by (auto simp: startReplicator_def update_conv' split: option.split)

lemma startMissing_kept:
  "map_of (rm_running m) key = Some r \<Longrightarrow> map_of (rm_running (startMissing brokers ds m)) key = Some r"
proof (induction ds arbitrary: m)
  case (Cons x ds)
  obtain k p where x: "x = (k, p)" by fastforce
  have "map_of (rm_running (if map_of (rm_running m) k \<noteq> None then m else startReplicator brokers k p m)) key = Some r"
    using Cons.prems by (cases "map_of (rm_running m) k") (auto simp: startReplicator_running)
  then show ?case unfolding x startMissing_Cons by (rule Cons.IH)
qed (simp add: startMissing_def)

lemma startMissing_idle:
  "map_of (rm_running m) key = None \<Longrightarrow> (\<And>d. (key, d) \<in> set ds \<Longrightarrow> findBroker brokers (pa_Leader d) = None) \<Longrightarrow>
    map_of (rm_running (startMissing brokers ds m)) key = None"
proof (induction ds arbitrary: m)
  case (Cons x ds)
  obtain k p where x: "x = (k, p)" by fastforce
  have "map_of (rm_running (if map_of (rm_running m) k \<noteq> None then m else startReplicator brokers k p m)) key = None"
    using Cons.prems by (cases "map_of (rm_running m) k") (auto simp: startReplicator_running x)
  then show ?case unfolding x startMissing_Cons by (rule Cons.IH) (simp add: Cons.prems(2))
qed (simp add: startMissing_def)

lemma startMissing_started:
  "map_of (rm_running m) key = None \<Longrightarrow> map_of ds key = Some d \<Longrightarrow> findBroker brokers (pa_Leader d) \<noteq> None \<Longrightarrow>
    \<exists>j. map_of (rm_running (startMissing brokers ds m)) key = Some \<lparr>rr_cancel = j, rr_assignment = d\<rparr>"
proof (induction ds arbitrary: m)
  case (Cons x ds)
  obtain k p where x: "x = (k, p)" by fastforce
  let ?m = "if map_of (rm_running m) k \<noteq> None then m else startReplicator brokers k p m"
  show ?case
  proof (cases "key = k")
    case True
    then have "map_of (rm_running ?m) key = Some \<lparr>rr_cancel = length (rm_workers m), rr_assignment = d\<rparr>"
      using Cons.prems by (auto simp: x startReplicator_running)
    then show ?thesis unfolding x startMissing_Cons by (intro exI startMissing_kept)
  next
    case False
    then have "map_of (rm_running ?m) key = None"
      using Cons.prems(1) by (cases "map_of (rm_running m) k") (auto simp: startReplicator_running)
    then show ?thesis unfolding x startMissing_Cons by (rule Cons.IH) (use Cons.prems False x in auto)
  qed
qed simp

text \<open>The partitions that a broker follows; of two entries for one partition the last counts.\<close>

definition followed :: "int \<Rightarrow> PartitionAssignment list \<Rightarrow> partitionKey \<Rightarrow> PartitionAssignment option" where
  "followed i ps key = find (\<lambda>p. PartitionKey (pa_Topic p) (pa_Partition p) = key \<and> i \<in> set (pa_Replicas p) \<and> pa_Leader p \<noteq> i) (rev ps)"

lemma desiredReplicas_followed: "map_of (desiredReplicas i ps) key = followed i ps key"
  by (induction ps rule: rev_induct) (auto simp: desiredReplicas_def followed_def update_conv')

lemma desiredReplicas_distinct: "distinct (map fst (desiredReplicas i ps))"
  by (induction ps rule: rev_induct) (auto simp: desiredReplicas_def distinct_update)

lemma sameAssignment_refl [simp]: "sameAssignment a a"
  by (simp add: sameAssignment_def)

lemma filtered_key:
  assumes "distinct (map fst xs)" "map_of xs key = Some r"
  shows "key \<in> fst ` set (filter P xs) \<longleftrightarrow> P (key, r)"
proof
  assume "key \<in> fst ` set (filter P xs)"
  then obtain r' where "(key, r') \<in> set xs" "P (key, r')" by auto
  then show "P (key, r)" using assms map_of_is_SomeI by fastforce
next
  assume "P (key, r)"
  then show "key \<in> fst ` set (filter P xs)" using map_of_SomeD [OF assms(2)] by force
qed

lemma applyMetadata_exact:
  assumes "registryOk m"
  shows "registryOk (applyMetadata m meta)" "allKnown m \<Longrightarrow> allKnown (applyMetadata m meta)"
    "case followed (bc_BrokerID (rm_cfg m)) (cm_Partitions meta) key of
       None \<Rightarrow> map_of (rm_running (applyMetadata m meta)) key = None
     | Some d \<Rightarrow> (case map_of (rm_running (applyMetadata m meta)) key of
         None \<Rightarrow> findBroker (cm_Brokers meta) (pa_Leader d) = None
       | Some r \<Rightarrow> sameAssignment (rr_assignment r) d)"
proof -
  let ?ds = "desiredReplicas (bc_BrokerID (rm_cfg m)) (cm_Partitions meta)"
  let ?stale = "filter (\<lambda>(key, r). case map_of ?ds key of None \<Rightarrow> True | Some d \<Rightarrow> \<not> sameAssignment (rr_assignment r) d) (rm_running m)"
  let ?m1 = "fold stopReplicator ?stale m"
  have m': "applyMetadata m meta = startMissing (cm_Brokers meta) ?ds ?m1" by (simp add: applyMetadata_startMissing Let_def)
  have s: "registryOk ?m1" "allKnown m \<Longrightarrow> allKnown ?m1" by (rule stop_keeps [OF assms], simp)+
  show "registryOk (applyMetadata m meta)" "allKnown m \<Longrightarrow> allKnown (applyMetadata m meta)"
    unfolding m' using s startMissing_keeps by blast+
  note d = registryD(1) [OF assms]
  have kept: "map_of (rm_running ?m1) key = (case map_of (rm_running m) key of None \<Rightarrow> None | Some r \<Rightarrow>
      (case map_of ?ds key of None \<Rightarrow> None | Some d \<Rightarrow> if sameAssignment (rr_assignment r) d then Some r else None))"
  proof (cases "map_of (rm_running m) key")
    case None
    then show ?thesis by (auto simp: stop_fields)
  next
    case (Some r)
    have "key \<in> fst ` set ?stale \<longleftrightarrow> (case map_of ?ds key of None \<Rightarrow> True | Some d \<Rightarrow> \<not> sameAssignment (rr_assignment r) d)"
      using filtered_key [OF d Some] by simp
    then show ?thesis using Some by (auto simp: stop_fields split: option.split)
  qed
  note dd = desiredReplicas_distinct [of "bc_BrokerID (rm_cfg m)" "cm_Partitions meta"]
  show "case followed (bc_BrokerID (rm_cfg m)) (cm_Partitions meta) key of
       None \<Rightarrow> map_of (rm_running (applyMetadata m meta)) key = None
     | Some d \<Rightarrow> (case map_of (rm_running (applyMetadata m meta)) key of
         None \<Rightarrow> findBroker (cm_Brokers meta) (pa_Leader d) = None
       | Some r \<Rightarrow> sameAssignment (rr_assignment r) d)"
  proof (cases "map_of ?ds key")
    case None
    then have "map_of (rm_running ?m1) key = None" using kept by (simp split: option.splits)
    then have "map_of (rm_running (applyMetadata m meta)) key = None"
      unfolding m' by (rule startMissing_idle) (use None map_of_is_SomeI [OF dd] in force)
    then show ?thesis using None by (simp add: desiredReplicas_followed)
  next
    case (Some d)
    show ?thesis
    proof (cases "map_of (rm_running ?m1) key")
      case None
      show ?thesis
      proof (cases "findBroker (cm_Brokers meta) (pa_Leader d) = None")
        case True
        then have "findBroker (cm_Brokers meta) (pa_Leader d') = None" if "(key, d') \<in> set ?ds" for d'
          using Some map_of_is_SomeI [OF dd that] by simp
        then have "map_of (rm_running (applyMetadata m meta)) key = None" unfolding m' by (rule startMissing_idle [OF None])
        then show ?thesis using Some True by (simp add: desiredReplicas_followed)
      next
        case False
        then obtain j where "map_of (rm_running (applyMetadata m meta)) key = Some \<lparr>rr_cancel = j, rr_assignment = d\<rparr>"
          using startMissing_started [OF None Some] unfolding m' by blast
        then show ?thesis using Some by (simp add: desiredReplicas_followed)
      qed
    next
      case r: (Some r)
      then have "sameAssignment (rr_assignment r) d" using kept Some by (auto split: option.splits if_splits)
      then show ?thesis using Some startMissing_kept [OF r] by (simp add: m' desiredReplicas_followed)
    qed
  qed
qed

lemma workerEnded_workers:
  "rm_workers (workerEnded i m) = (if i < length (rm_workers m) \<and> \<not> wk_ended (rm_workers m ! i)
     then (rm_workers m)[i := (rm_workers m ! i)\<lparr>wk_ended := True\<rparr>] else rm_workers m)"
  by (auto simp: workerEnded_def Let_def split: option.split)

lemma workerEnded_keeps:
  assumes "registryOk m"
  shows "registryOk (workerEnded i m)" "allKnown m \<Longrightarrow> \<not> endsLate m i \<Longrightarrow> allKnown (workerEnded i m)"
proof -
  note d = registryD(1) [OF assms] and reg = registryD(2) [OF assms]
  let ?m = "workerEnded i m"
  show "registryOk ?m" unfolding registryOk_def
  proof (intro conjI allI impI)
    show "distinct (map fst (rm_running ?m))" using d by (simp add: workerEnded_def Let_def distinct_delete split: option.split)
    fix key r assume r: "map_of (rm_running ?m) key = Some r"
    then have old: "map_of (rm_running m) key = Some r" by (auto simp: workerEnded_def Let_def delete_conv' split: if_splits option.splits)
    have "rr_cancel r \<noteq> i \<or> ?m = m"
    proof (rule ccontr)
      assume "\<not> ?thesis"
      then have i: "rr_cancel r = i" "?m \<noteq> m" by auto
      then have "wk_key (rm_workers m ! i) = key" "wk_assignment (rm_workers m ! i) = rr_assignment r" using reg [OF old] by auto
      then show False using r old i(2) by (auto simp: workerEnded_def Let_def delete_conv' split: if_splits)
    qed
    then show "liveWorker ?m (rr_cancel r)" "wk_key (rm_workers ?m ! rr_cancel r) = key" "wk_assignment (rm_workers ?m ! rr_cancel r) = rr_assignment r"
      using reg [OF old] by (elim disjE; simp add: liveWorker_def workerEnded_workers)+
  qed
  show "allKnown ?m" if known: "allKnown m" and late: "\<not> endsLate m i"
    unfolding allKnown_def
  proof (intro allI impI)
    fix j assume j: "liveWorker ?m j"
    then have l: "liveWorker m j" and w: "rm_workers ?m ! j = rm_workers m ! j"
      by (auto simp: liveWorker_def workerEnded_def Let_def nth_list_update split: if_splits option.splits)
    let ?r = "\<lparr>rr_cancel = j, rr_assignment = wk_assignment (rm_workers m ! j)\<rparr>"
    have r: "map_of (rm_running m) (wk_key (rm_workers m ! j)) = Some ?r" using known l by (simp add: allKnown_def)
    have "map_of (rm_running ?m) (wk_key (rm_workers m ! j)) = Some ?r"
    proof (cases "j = i")
      case True
      then have "?m = m" using j by (auto simp: liveWorker_def workerEnded_def Let_def split: if_splits option.splits)
      then show ?thesis using r by simp
    next
      case False
      then show ?thesis using r late by (auto simp: endsLate_def workerEnded_def Let_def delete_conv' split: option.split)
    qed
    then show "map_of (rm_running ?m) (wk_key (rm_workers ?m ! j)) = Some \<lparr>rr_cancel = j, rr_assignment = wk_assignment (rm_workers ?m ! j)\<rparr>"
      by (simp add: w)
  qed
qed

lemma startReplicator_cfg [simp]: "rm_cfg (startReplicator brokers key p m) = rm_cfg m"
  by (simp add: startReplicator_def split: option.split)

lemma startMissing_cfg: "rm_cfg (startMissing brokers ds m) = rm_cfg m"
  by (induction ds arbitrary: m) (auto simp: startMissing_Cons, simp add: startMissing_def)

lemma rm_cfg_steps [simp]: "rm_cfg (applyMetadata m meta) = rm_cfg m" "rm_cfg (workerEnded i m) = rm_cfg m" "rm_cfg (stopAll m) = rm_cfg m"
  by (simp_all add: applyMetadata_startMissing startMissing_cfg workerEnded_def stopAll_def Let_def split: option.split)

lemma stopAll_empty:
  assumes "registryOk m"
  shows "rm_running (stopAll m) = []" "allKnown m \<Longrightarrow> \<not> liveWorker (stopAll m) i"
proof -
  have "map_of (rm_running (stopAll m)) key = None" for key by (simp add: stopAll_def stop_fields map_of_eq_None_iff)
  then show e: "rm_running (stopAll m) = []" by (cases "rm_running (stopAll m)") (auto simp: fun_eq_iff, metis option.distinct(1))
  show "\<not> liveWorker (stopAll m) i" if "allKnown m"
    using stop_keeps(2) [OF assms subset_refl that] e by (auto simp: stopAll_def allKnown_def)
qed

lemma Run_repl_registry:
  "registryOk m \<Longrightarrow> Run_repl m evs = (m', res) \<Longrightarrow>
   rm_cfg m' = rm_cfg m \<and> (res = None \<longrightarrow> registryOk m' \<and> (allKnown m \<and> noneLate m evs \<longrightarrow> allKnown m'))
   \<and> (res \<noteq> None \<longrightarrow> rm_running m' = [] \<and> (res = Some (Some Canceled) \<or> allKnown m \<and> noneLate m evs \<longrightarrow> (\<forall>i. \<not> liveWorker m' i)))"
proof (induction m evs rule: Run_repl.induct)
  case (2 m meta evs)
  then show ?case using applyMetadata_exact(1,2) [of m meta] by simp
next
  case (3 m i evs)
  then show ?case using workerEnded_keeps [of m i] by simp
next
  case (4 m evs)
  let ?m = "m\<lparr>rm_workers := map (\<lambda>w. w\<lparr>wk_cancelled := True\<rparr>) (rm_workers m)\<rparr>"
  have "map_of (rm_running (stopAll ?m)) key = None" for key by (simp add: stopAll_def stop_fields map_of_eq_None_iff)
  then have "rm_running (stopAll ?m) = []" by (cases "rm_running (stopAll ?m)") (auto simp: fun_eq_iff, metis option.distinct(1))
  moreover have "\<not> liveWorker (stopAll ?m) i" for i by (auto simp: liveWorker_def stopAll_def stop_fields)
  ultimately show ?case using 4 by auto
next
  case (5 m evs)
  then show ?case using stopAll_empty [of m] by auto
qed simp

text \<open>
  A goroutine that ends late takes the registration of a newer one with it, if both have the same assignment: the newer one runs on, but
  is no longer known, and the next metadata starts another one for the partition.
\<close>

lemma late_end_unregisters:
  assumes "registryOk m" "endsLate m i"
  shows "\<exists>j. liveWorker (workerEnded i m) j \<and> map_of (rm_running (workerEnded i m)) (wk_key (rm_workers (workerEnded i m) ! j)) = None"
proof -
  obtain r where r: "map_of (rm_running m) (wk_key (rm_workers m ! i)) = Some r" "rr_cancel r \<noteq> i"
      "sameAssignment (rr_assignment r) (wk_assignment (rm_workers m ! i))" "i < length (rm_workers m)" "\<not> wk_ended (rm_workers m ! i)"
    using assms(2) by (auto simp: endsLate_def)
  then have "liveWorker m (rr_cancel r)" "wk_key (rm_workers m ! rr_cancel r) = wk_key (rm_workers m ! i)" 
    using registryD(2) [OF assms(1) r(1)] by simp_all
  then show ?thesis using r by (intro exI [of _ "rr_cancel r"]) (auto simp: liveWorker_def workerEnded_def Let_def delete_conv')
qed

text \<open>C34: the registry of the manager is exactly the partitions that the broker follows.  Whatever metadata has arrived and whichever
  goroutines have ended meanwhile, after an update of the metadata the registry has an entry for a partition only if the broker
  follows it (it is a replica of it and not its leader, by the last entry of the metadata for the partition), with the same leader and replicas, and it has
  one for each of these whose leader is among the brokers; every entry is a goroutine for that partition and assignment that
  runs and is not cancelled.  The other goroutines are cancelled or have ended, so that exactly the registered ones replicate, provided
  that no cancelled one ended so late that a newer one with its assignment was registered.  When \<^verbatim>\<open>Run\<close> has returned the
  registry is empty; when its context was done all goroutines are cancelled, and when the metadata ended, all of them with the same proviso.\<close>

theorem manager_runs_followers:
  assumes "Run_repl (NewManager_repl cfg) evs = (m, res)"
  shows "(res = None \<longrightarrow> (let m' = applyMetadata m meta in
      (\<forall>key. case followed (bc_BrokerID cfg) (cm_Partitions meta) key of
         None \<Rightarrow> map_of (rm_running m') key = None
       | Some d \<Rightarrow> (case map_of (rm_running m') key of
           None \<Rightarrow> findBroker (cm_Brokers meta) (pa_Leader d) = None
         | Some r \<Rightarrow> sameAssignment (rr_assignment r) d))
      \<and> (\<forall>key r. map_of (rm_running m') key = Some r \<longrightarrow> liveWorker m' (rr_cancel r)
           \<and> wk_key (rm_workers m' ! rr_cancel r) = key \<and> wk_assignment (rm_workers m' ! rr_cancel r) = rr_assignment r)
      \<and> (noneLate (NewManager_repl cfg) evs \<longrightarrow> (\<forall>i. liveWorker m' i \<longrightarrow>
           map_of (rm_running m') (wk_key (rm_workers m' ! i)) = Some \<lparr>rr_cancel = i, rr_assignment = wk_assignment (rm_workers m' ! i)\<rparr>))))
    \<and> (res \<noteq> None \<longrightarrow> rm_running m = [] \<and> (res = Some (Some Canceled) \<or> noneLate (NewManager_repl cfg) evs \<longrightarrow> (\<forall>i. \<not> liveWorker m i)))"
proof -
  have n: "registryOk (NewManager_repl cfg)" "allKnown (NewManager_repl cfg)" "rm_cfg (NewManager_repl cfg) = cfg"
    by (simp_all add: registryOk_def allKnown_def liveWorker_def NewManager_repl_def)
  note run = Run_repl_registry [OF n(1) assms]
  have "(\<forall>key. case followed (bc_BrokerID cfg) (cm_Partitions meta) key of
         None \<Rightarrow> map_of (rm_running (applyMetadata m meta)) key = None
       | Some d \<Rightarrow> (case map_of (rm_running (applyMetadata m meta)) key of
           None \<Rightarrow> findBroker (cm_Brokers meta) (pa_Leader d) = None
         | Some r \<Rightarrow> sameAssignment (rr_assignment r) d))
      \<and> registryOk (applyMetadata m meta) \<and> (noneLate (NewManager_repl cfg) evs \<longrightarrow> allKnown (applyMetadata m meta))" if "res = None"
    using applyMetadata_exact [of m meta] run n that by simp
  then show ?thesis using run n(2) unfolding registryOk_def allKnown_def Let_def by blast
qed

section \<open>Examples\<close>

definition exampleAssignment :: PartitionAssignment where
  "exampleAssignment = \<lparr>pa_Topic = ''t'', pa_Partition = 0, pa_Replicas = [1, 2], pa_ISR = [1], pa_Leader = 1, pa_LeaderEpoch = 0\<rparr>"

definition exampleCluster :: ClusterMetadata where
  "exampleCluster = \<lparr>cm_ClusterID = ''c'', cm_Version = 2, cm_Brokers = [\<lparr>bi_BrokerID = 1, bi_Host = ''h'', bi_Port = 9092,
     bi_Rack = '''', bi_HTTPAddr = '''', bi_ControllerAddr = ''''\<rparr>], cm_Partitions = [exampleAssignment]\<rparr>"

theorem manager_runs_followers_witness:
  "\<exists>m r. Run_repl (NewManager_repl (MetadataStore.exampleConfig\<lparr>bc_BrokerID := 2\<rparr>)) [MetadataUpdate exampleCluster, WorkerEnded 0] = (m, None)
    \<and> rm_running m = [] \<and> map_of (rm_running (applyMetadata m exampleCluster)) (PartitionKey ''t'' 0) = Some r \<and> sameAssignment (rr_assignment r) exampleAssignment
    \<and> liveWorker (applyMetadata m exampleCluster) (rr_cancel r) \<and> \<not> liveWorker (applyMetadata m exampleCluster) 0"
proof -
  let ?cfg = "MetadataStore.exampleConfig\<lparr>bc_BrokerID := 2\<rparr>" and ?evs = "[MetadataUpdate exampleCluster, WorkerEnded 0]"
  note defs = NewManager_repl_def applyMetadata_def desiredReplicas_def exampleCluster_def exampleAssignment_def
    startReplicator_def findBroker_def workerEnded_def sameAssignment_def Let_def
  obtain m where m: "Run_repl (NewManager_repl ?cfg) ?evs = (m, None)" "rm_running m = []" "rm_cfg m = ?cfg"
    "length (rm_workers m) = 1" "wk_ended (rm_workers m ! 0)"
    by (simp add: defs)
  have f: "followed (bc_BrokerID ?cfg) (cm_Partitions exampleCluster) (PartitionKey ''t'' 0) = Some exampleAssignment"
    "findBroker (cm_Brokers exampleCluster) (pa_Leader exampleAssignment) \<noteq> None"
    by (simp_all add: followed_def exampleCluster_def exampleAssignment_def findBroker_def)
  note th = manager_runs_followers [OF m(1), of exampleCluster]
  obtain r where r: "map_of (rm_running (applyMetadata m exampleCluster)) (PartitionKey ''t'' 0) = Some r" "sameAssignment (rr_assignment r) exampleAssignment"
    using th f by (fastforce simp: Let_def split: option.splits)
  moreover have "liveWorker (applyMetadata m exampleCluster) (rr_cancel r)" using th r(1) by (auto simp: Let_def)
  moreover have "\<not> liveWorker (applyMetadata m exampleCluster) 0"
    using m(2-5) by (auto simp: liveWorker_def applyMetadata_def desiredReplicas_def exampleCluster_def exampleAssignment_def startReplicator_def findBroker_def nth_append)
  ultimately show ?thesis using m(1,2) by blast
qed



end
