(* ===== verification/HttpApi.thy ===== *)
theory HttpApi
  imports HttpText ReplicationManager "HOL-Library.Multiset"
begin

text \<open>
  The HTTP API (\<^verbatim>\<open>internal/httpapi/api.go\<close>): routing, the handlers over the broker and its controller, and forwarding to other brokers.

  A body is a JSON value, or \<open>None\<close> where it does not parse; numbers are integers.  How strings are written, and how numbers are read into
  a map without a type, is here too.  A request to another broker goes through the client
  of the handler, an argument that may answer differently at every call; a request whose URL does not parse is not made; the requests sent are part of the result.  The controller is the one
  of the broker, as \<^verbatim>\<open>cmd/mbd\<close> passes one value to both.  A handler that does not return, or panics, is \<open>None\<close>.
\<close>

section \<open>Requests and responses\<close>

datatype json = JNull | JBool bool | JNum int | JStr string | JArr "json list" | JObj "(string \<times> json) list"

section \<open>JSON strings\<close>

text \<open>The encoder replaces each byte that is not part of a character by U+FFFD; the length of the character at the front, or 0.\<close>

definition runeLength :: "bytes \<Rightarrow> nat" where
  "runeLength bs = (case bs of [] \<Rightarrow> 0 | b # rest \<Rightarrow>
    (let n = unat b; more = (\<lambda>lo hi k. cont lo hi rest \<and> list_all (\<lambda>i. cont 0x80 0xBF (drop i rest)) [1..<k]) in
     if n < 0x80 then 1
     else if 0xC2 \<le> n \<and> n \<le> 0xDF then (if more 0x80 0xBF 1 then 2 else 0)
     else if n = 0xE0 then (if more 0xA0 0xBF 2 then 3 else 0)
     else if n = 0xED then (if more 0x80 0x9F 2 then 3 else 0)
     else if 0xE1 \<le> n \<and> n \<le> 0xEF then (if more 0x80 0xBF 2 then 3 else 0)
     else if n = 0xF0 then (if more 0x90 0xBF 3 then 4 else 0)
     else if n = 0xF4 then (if more 0x80 0x8F 3 then 4 else 0)
     else if 0xF1 \<le> n \<and> n \<le> 0xF3 then (if more 0x80 0xBF 3 then 4 else 0)
     else 0))"

function toValidUTF8 :: "bytes \<Rightarrow> bytes" where
  "toValidUTF8 [] = []"
| "toValidUTF8 (b # bs) =
    (let k = runeLength (b # bs) in
     if k = 0 then [0xEF, 0xBF, 0xBD] @ toValidUTF8 bs else take k (b # bs) @ toValidUTF8 (drop (k - 1) bs))"
  by pat_completeness auto
termination by (relation "measure length") auto

definition validString :: "string \<Rightarrow> string" where
  "validString s = bytes_string (toValidUTF8 (string_bytes s))"

fun validJSON :: "json \<Rightarrow> json" where
  "validJSON (JStr s) = JStr (validString s)"
| "validJSON (JArr xs) = JArr (map validJSON xs)"
| "validJSON (JObj kvs) = JObj (map (\<lambda>(k, j). (k, validJSON j)) kvs)"
| "validJSON j = j"

lemma runeLength_valid:
  assumes "utf8Valid (b # bs)"
  shows "runeLength (b # bs) \<noteq> 0 \<and> utf8Valid (drop (runeLength (b # bs) - 1) bs)"
proof -
  define n where "n = unat b"
  note d = runeLength_def list.case Let_def n_def [symmetric]
  note v = assms [unfolded utf8Valid.simps Let_def n_def [symmetric]]
  have "n < 0x80 \<Longrightarrow> ?thesis" using v unfolding d by (simp del: utf8Valid.simps)
  moreover have "0xC2 \<le> n \<Longrightarrow> n \<le> 0xDF \<Longrightarrow> ?thesis" using v unfolding d by (simp del: utf8Valid.simps)
  moreover have "n = 0xE0 \<Longrightarrow> ?thesis" using v unfolding d by (simp del: utf8Valid.simps)
  moreover have "n = 0xED \<Longrightarrow> ?thesis" using v unfolding d by (simp del: utf8Valid.simps)
  moreover have "0xE1 \<le> n \<Longrightarrow> n \<le> 0xEF \<Longrightarrow> n \<noteq> 0xED \<Longrightarrow> ?thesis" using v unfolding d by (simp del: utf8Valid.simps)
  moreover have "n = 0xF0 \<Longrightarrow> ?thesis" using v unfolding d by (simp del: utf8Valid.simps)
  moreover have "n = 0xF4 \<Longrightarrow> ?thesis" using v unfolding d by (simp del: utf8Valid.simps)
  moreover have "0xF1 \<le> n \<Longrightarrow> n \<le> 0xF3 \<Longrightarrow> ?thesis" using v unfolding d by (simp del: utf8Valid.simps)
  moreover have "0x80 \<le> n \<Longrightarrow> n < 0xC2 \<Longrightarrow> ?thesis" using v by (simp del: utf8Valid.simps)
  moreover have "0xF4 < n \<Longrightarrow> ?thesis" using v by (simp del: utf8Valid.simps)
  ultimately show ?thesis by linarith
qed

lemma toValidUTF8_id: "utf8Valid b \<Longrightarrow> toValidUTF8 b = b"
proof (induction b rule: toValidUTF8.induct)
  case (2 b bs)
  let ?k = "runeLength (b # bs)"
  have k: "?k \<noteq> 0" "utf8Valid (drop (?k - 1) bs)" using runeLength_valid [OF 2(3)] by auto
  then have "toValidUTF8 (drop (?k - 1) bs) = drop (?k - 1) bs" using 2(2) [of ?k] by simp
  then show ?case using k(1) by (cases ?k) (simp_all add: Let_def)
qed simp

definition utf8String :: "string \<Rightarrow> bool" where
  "utf8String s \<longleftrightarrow> utf8Valid (string_bytes s)"

lemma validString_id [simp]: "utf8String s \<Longrightarrow> validString s = s"
  by (simp add: validString_def utf8String_def toValidUTF8_id)

lemma utf8String_Nil [simp]: "utf8String ''''"
  by (simp add: utf8String_def)

section \<open>Messages of HTTP\<close>

datatype body = NoBody | TextBody string | JsonBody json

record httpRequest =
  hr_Method :: string
  hr_Path :: string
  hr_Query :: "(string \<times> string) list"
  hr_RawQuery :: string
  hr_Forwarded :: string          \<comment> \<open>the header \<^verbatim>\<open>X-WaveMQ-Forwarded\<close>\<close>
  hr_Body :: "json option"

record httpResponse =
  hs_Status :: int
  hs_ContentType :: string
  hs_Body :: body

text \<open>What a handler sends to another broker.\<close>

record outRequest =
  or_Method :: string
  or_URL :: string
  or_Forwarded :: bool
  or_Body :: "json option"

definition textPlain :: string where "textPlain = ''text/plain; charset=utf-8''"

text \<open>\<^verbatim>\<open>writeJSON\<close>, with status 200 or after \<^verbatim>\<open>WriteHeader\<close>; then the header it sets is not sent any more and the type is guessed from the body.
  The body of a response is the value that is given to the encoder; what is sent is its \<open>validJSON\<close>.\<close>

definition writeJSON :: "json \<Rightarrow> httpResponse" where
  "writeJSON v = \<lparr>hs_Status = 200, hs_ContentType = ''application/json'', hs_Body = JsonBody v\<rparr>"

definition headerThenJSON :: "int \<Rightarrow> json \<Rightarrow> httpResponse" where
  "headerThenJSON status v = \<lparr>hs_Status = status, hs_ContentType = textPlain, hs_Body = JsonBody v\<rparr>"

definition WriteHeader :: "int \<Rightarrow> httpResponse" where
  "WriteHeader status = \<lparr>hs_Status = status, hs_ContentType = '''', hs_Body = NoBody\<rparr>"

definition http_Error :: "string \<Rightarrow> int \<Rightarrow> httpResponse" where
  "http_Error text status = \<lparr>hs_Status = status, hs_ContentType = textPlain, hs_Body = TextBody text\<rparr>"

definition NotFound :: httpResponse where
  "NotFound = http_Error ''404 page not found'' 404"

text \<open>\<^verbatim>\<open>err.Error()\<close>; a formatted error is shown by its format.\<close>

fun errorText :: "go_error \<Rightarrow> string" where
  "errorText EOF = ''EOF''"
| "errorText ErrUnexpectedEOF = ''unexpected EOF''"
| "errorText Canceled = ''context canceled''"
| "errorText ErrInvalid = ''invalid argument''"
| "errorText ErrClosed = ''file already closed''"
| "errorText TopicExists = ''topic already exists''"
| "errorText TopicNotFound = ''topic not found''"
| "errorText PartitionNotFound = ''partition not found''"
| "errorText NotLeader = ''not leader for partition''"
| "errorText (NotLeaderError topic part leader) = ''not leader for '' @ topic @ ''/'' @ Itoa part @ (if leader \<noteq> 0 then '', leader='' @ Itoa leader else '''')"
| "errorText CtrlTopicExists = ''topic already exists''"
| "errorText CtrlLeaderNotElected = ''leader not elected''"
| "errorText (CtrlNotLeaderError leader) = (if leader = '''' then ''not leader'' else ''not leader: leader='' @ leader)"
| "errorText (Errorf f) = f"

section \<open>Decoding a body into a structure\<close>

text \<open>The fields of an object, in order; \<^verbatim>\<open>null\<close> sets nothing.\<close>

definition decodeObject :: "json option \<Rightarrow> (string \<times> json) list result" where
  "decodeObject body = (case body of
       Some JNull \<Rightarrow> Inr []
     | Some (JObj kvs) \<Rightarrow> Inr kvs
     | _ \<Rightarrow> Inl (Errorf ''invalid json''))"

text \<open>A field is found whatever its case; \<^verbatim>\<open>null\<close> leaves it, a value of another type is an error.\<close>

fun stringField :: "string \<Rightarrow> string \<Rightarrow> (string \<times> json) list \<Rightarrow> string result" where
  "stringField name v [] = Inr v"
| "stringField name v ((k, j) # kvs) =
    (if EqualFold k name
     then (case j of JStr s \<Rightarrow> stringField name s kvs | JNull \<Rightarrow> stringField name v kvs | _ \<Rightarrow> Inl (Errorf ''invalid json''))
     else stringField name v kvs)"

fun intField :: "string \<Rightarrow> int \<Rightarrow> (string \<times> json) list \<Rightarrow> int result" where
  "intField name v [] = Inr v"
| "intField name v ((k, j) # kvs) =
    (if EqualFold k name
     then (case j of JNum n \<Rightarrow> if inS 64 n then intField name n kvs else Inl (Errorf ''invalid json'')
           | JNull \<Rightarrow> intField name v kvs | _ \<Rightarrow> Inl (Errorf ''invalid json''))
     else intField name v kvs)"

text \<open>A pointer to a string, which \<^verbatim>\<open>null\<close> clears.\<close>

fun stringPtrField :: "string \<Rightarrow> string option \<Rightarrow> (string \<times> json) list \<Rightarrow> string option result" where
  "stringPtrField name v [] = Inr v"
| "stringPtrField name v ((k, j) # kvs) =
    (if EqualFold k name
     then (case j of JStr s \<Rightarrow> stringPtrField name (Some s) kvs | JNull \<Rightarrow> stringPtrField name None kvs | _ \<Rightarrow> Inl (Errorf ''invalid json''))
     else stringPtrField name v kvs)"

record topicProduceByKeyRequest =
  kp_Key :: string
  kp_Value :: string
  kp_ContentType :: string

record partitionProduceRequest =
  pq_Key :: "string option"
  pq_Value :: string
  pq_ContentType :: string

record createTopicBody =
  cb_Name :: string
  cb_Partitions :: int
  cb_ReplicationFactor :: int
  cb_RetentionBytes :: int
  cb_RetentionHours :: int

definition decodeProduceByKey :: "json option \<Rightarrow> topicProduceByKeyRequest result" where
  "decodeProduceByKey body = bindE (decodeObject body) (\<lambda>fs.
     bindE (stringField ''key'' '''' fs) (\<lambda>k. bindE (stringField ''value'' '''' fs) (\<lambda>v. bindE (stringField ''contentType'' '''' fs) (\<lambda>c.
     Inr \<lparr>kp_Key = k, kp_Value = v, kp_ContentType = c\<rparr>))))"

definition decodePartitionProduce :: "json option \<Rightarrow> partitionProduceRequest result" where
  "decodePartitionProduce body = bindE (decodeObject body) (\<lambda>fs.
     bindE (stringPtrField ''key'' None fs) (\<lambda>k. bindE (stringField ''value'' '''' fs) (\<lambda>v. bindE (stringField ''contentType'' '''' fs) (\<lambda>c.
     Inr \<lparr>pq_Key = k, pq_Value = v, pq_ContentType = c\<rparr>))))"

definition decodeCreateTopic :: "json option \<Rightarrow> createTopicBody result" where
  "decodeCreateTopic body = bindE (decodeObject body) (\<lambda>fs.
     bindE (stringField ''name'' '''' fs) (\<lambda>n. bindE (intField ''partitions'' 0 fs) (\<lambda>p. bindE (intField ''replicationFactor'' 0 fs) (\<lambda>r.
     bindE (intField ''retentionBytes'' 0 fs) (\<lambda>rb. bindE (intField ''retentionHours'' 0 fs) (\<lambda>rh.
     Inr \<lparr>cb_Name = n, cb_Partitions = p, cb_ReplicationFactor = r, cb_RetentionBytes = rb, cb_RetentionHours = rh\<rparr>))))))"

definition decodeBrokerInfo :: "json option \<Rightarrow> BrokerInfo result" where
  "decodeBrokerInfo body = bindE (decodeObject body) (\<lambda>fs.
     bindE (intField ''brokerID'' 0 fs) (\<lambda>i. bindE (stringField ''host'' '''' fs) (\<lambda>h. bindE (intField ''port'' 0 fs) (\<lambda>p.
     bindE (stringField ''httpAddr'' '''' fs) (\<lambda>a. bindE (stringField ''controllerAddr'' '''' fs) (\<lambda>c.
     Inr \<lparr>bi_BrokerID = i, bi_Host = h, bi_Port = p, bi_Rack = '''', bi_HTTPAddr = a, bi_ControllerAddr = c\<rparr>))))))"

text \<open>What is encoded; a field with \<^verbatim>\<open>omitempty\<close> is left out when it is zero, and a nil slice is \<^verbatim>\<open>null\<close>.\<close>

definition omitStr :: "string \<Rightarrow> string \<Rightarrow> (string \<times> json) list" where
  "omitStr name v = (if v = '''' then [] else [(name, JStr v)])"

definition omitNum :: "string \<Rightarrow> int \<Rightarrow> (string \<times> json) list" where
  "omitNum name v = (if v = 0 then [] else [(name, JNum v)])"

definition slice :: "('a \<Rightarrow> json) \<Rightarrow> 'a list \<Rightarrow> json" where
  "slice f xs = (if xs = [] then JNull else JArr (map f xs))"

definition encodeCreateTopic :: "createTopicBody \<Rightarrow> json" where
  "encodeCreateTopic r = JObj ([(''name'', JStr (cb_Name r)), (''partitions'', JNum (cb_Partitions r)), (''replicationFactor'', JNum (cb_ReplicationFactor r))]
     @ omitNum ''retentionBytes'' (cb_RetentionBytes r) @ omitNum ''retentionHours'' (cb_RetentionHours r))"

definition encodeProduceByKey :: "topicProduceByKeyRequest \<Rightarrow> json" where
  "encodeProduceByKey r = JObj ([(''key'', JStr (kp_Key r)), (''value'', JStr (kp_Value r))] @ omitStr ''contentType'' (kp_ContentType r))"

definition brokerInfoJSON :: "BrokerInfo \<Rightarrow> json" where
  "brokerInfoJSON b = JObj ([(''brokerID'', JNum (bi_BrokerID b)), (''host'', JStr (bi_Host b)), (''port'', JNum (bi_Port b)), (''rack'', JStr (bi_Rack b))]
     @ omitStr ''httpAddr'' (bi_HTTPAddr b) @ omitStr ''controllerAddr'' (bi_ControllerAddr b))"

definition assignmentJSON :: "PartitionAssignment \<Rightarrow> json" where
  "assignmentJSON p = JObj [(''topic'', JStr (pa_Topic p)), (''partition'', JNum (pa_Partition p)), (''replicas'', slice JNum (pa_Replicas p)),
     (''isr'', slice JNum (pa_ISR p)), (''leader'', JNum (pa_Leader p)), (''leaderEpoch'', JNum (pa_LeaderEpoch p))]"

definition clusterJSON :: "ClusterMetadata \<Rightarrow> json" where
  "clusterJSON m = JObj [(''clusterID'', JStr (cm_ClusterID m)), (''version'', JNum (cm_Version m)), (''brokers'', slice brokerInfoJSON (cm_Brokers m)),
     (''partitions'', slice assignmentJSON (cm_Partitions m))]"

definition summaryJSON :: "TopicSummary \<Rightarrow> json" where
  "summaryJSON t = JObj [(''name'', JStr (tsum_Name t)), (''partitions'', JNum (tsum_Partitions t)), (''replicationFactor'', JNum (tsum_ReplicationFactor t))]"

definition partitionJSON :: "PartitionInfo \<Rightarrow> json" where
  "partitionJSON p = JObj [(''id'', JNum (pi_ID p)), (''leader'', JNum (pi_Leader p)), (''role'', JStr (pi_Role p)), (''highWatermark'', JNum (pi_HighWatermark p)),
     (''startOffset'', JNum (pi_StartOffset p)), (''replicas'', slice JNum (pi_Replicas p)), (''isr'', slice JNum (pi_ISR p)), (''leaderEpoch'', JNum (pi_LeaderEpoch p))]"

definition detailJSON :: "TopicDetailInfo \<Rightarrow> json" where
  "detailJSON d = JObj [(''name'', JStr (td_Name d)), (''partitionCount'', JNum (td_PartitionCount d)), (''replicationFactor'', JNum (td_ReplicationFactor d)),
     (''partitions'', slice partitionJSON (td_Partitions d))]"

definition consumerAssignmentJSON :: "ConsumerAssignment \<Rightarrow> json" where
  "consumerAssignmentJSON a = JObj [(''topic'', JStr (ca_Topic a)), (''partition'', JNum (ca_Partition a)), (''committedOffset'', JNum (ca_CommittedOffset a)),
     (''highWatermark'', JNum (ca_HighWatermark a)), (''lag'', JNum (ca_Lag a))]"

definition groupJSON :: "ConsumerGroupInfo \<Rightarrow> json" where
  "groupJSON g = JObj [(''name'', JStr (gi_Name g)), (''members'', JNum (gi_Members g)), (''assignments'', slice consumerAssignmentJSON (gi_Assignments g))]"

section \<open>The handler\<close>

record raftStatus =
  rf_Mode :: string
  rf_State :: string
  rf_Term :: int
  rf_Peers :: "(string \<times> string) list"
  rf_Leader :: string
  rf_LeaderID :: string

text \<open>A controller; the methods of Raft are there for the Raft controller only.\<close>

record 'c ControllerAPI =
  ct_GetClusterMetadata :: "'c \<Rightarrow> ClusterMetadata result"
  ct_RegisterBroker :: "'c \<Rightarrow> BrokerInfo \<Rightarrow> 'c \<times> go_error option"
  ct_Raft :: "('c \<Rightarrow> raftStatus) option"

text \<open>The client answers the n-th request with a status and a body, or fails; the last field is the host of \<^verbatim>\<open>url.Parse\<close>.\<close>

record 'c Handler =
  hd_cfg :: BrokerConfig
  hd_ctrl :: "'c ControllerAPI option"
  hd_client :: "nat \<Rightarrow> outRequest \<Rightarrow> (int \<times> body) option"
  hd_urlHost :: "string \<Rightarrow> string option"

text \<open>The clocks, cancellations, file times and counters that a request meets.\<close>

record httpEnv =
  he_ctx :: "nat \<Rightarrow> bool"
  he_done :: bool
  he_clock :: "nat \<Rightarrow> int"
  he_now :: int
  he_time :: int
  he_mtime :: "int \<Rightarrow> int"
  he_consumed :: "int list"
  he_errors :: "int list"

type_synonym 'c served = "('c Broker \<times> outRequest list \<times> httpResponse) option"

definition reply :: "'c Broker \<Rightarrow> httpResponse \<Rightarrow> 'c served" where
  "reply b resp = Some (b, [], resp)"

definition ctrlOf :: "'c Handler \<Rightarrow> 'c Broker \<Rightarrow> ('c ControllerAPI \<times> 'c) option" where
  "ctrlOf h b = (case (hd_ctrl h, b_cluster b) of (Some api, Some (_, c)) \<Rightarrow> Some (api, c) | _ \<Rightarrow> None)"

definition setCtrl :: "'c \<Rightarrow> 'c Broker \<Rightarrow> 'c Broker" where
  "setCtrl c b = b\<lparr>b_cluster := map_option (\<lambda>(api, _). (api, c)) (b_cluster b)\<rparr>"

definition queryGet :: "httpRequest \<Rightarrow> string \<Rightarrow> string" where
  "queryGet r name = (case map_of (hr_Query r) name of None \<Rightarrow> '''' | Some v \<Rightarrow> v)"

section \<open>Finding other brokers\<close>

definition normalizeHostPort :: "(string \<Rightarrow> string option) \<Rightarrow> string \<Rightarrow> string option" where
  "normalizeHostPort urlHost raw =
    (let trimmed = TrimSpace raw in
     if trimmed = '''' then None
     else case (if Contains trimmed ''://'' then urlHost trimmed else Some trimmed) of
       None \<Rightarrow> None
     | Some addr \<Rightarrow>
       (if addr = '''' then None
        else case SplitHostPort addr of
          Inl e \<Rightarrow> None
        | Inr (host, port) \<Rightarrow> if host = '''' \<or> port = '''' then None else Some (JoinHostPort host port)))"

text \<open>\<^verbatim>\<open>u.Hostname()\<close> of a host with an optional port.\<close>

definition validOptionalPort :: "string \<Rightarrow> bool" where
  "validOptionalPort port = (port = [] \<or> hd port = CHR '':'' \<and> list_all (\<lambda>c. digitVal c \<noteq> None) (tl port))"

definition Hostname :: "string \<Rightarrow> string" where
  "Hostname hostPort =
    (let host = (case lastIndexChar (CHR '':'') hostPort of
           None \<Rightarrow> hostPort
         | Some i \<Rightarrow> if validOptionalPort (drop i hostPort) then take i hostPort else hostPort)
     in if HasPrefix host ''['' \<and> HasSuffix host '']'' then butlast (tl host) else host)"

definition hostFromAddress :: "(string \<Rightarrow> string option) \<Rightarrow> string \<Rightarrow> string option" where
  "hostFromAddress urlHost addr =
    (let v = TrimSpace addr in
     if v = '''' \<or> HasPrefix v '':'' then None
     else if Contains v ''://''
     then (case urlHost v of None \<Rightarrow> None | Some h \<Rightarrow> if Hostname h = '''' then None else Some (Hostname h))
     else (case SplitHostPort v of Inr (host, _) \<Rightarrow> if host \<noteq> '''' then Some host else Some v | Inl e \<Rightarrow> Some v))"

definition brokerInfoForLeader :: "(string \<Rightarrow> string option) \<Rightarrow> BrokerInfo list \<Rightarrow> string \<Rightarrow> BrokerInfo option" where
  "brokerInfoForLeader urlHost brokers leaderAddr = (case find (\<lambda>b. bi_ControllerAddr b = leaderAddr) brokers of
       Some b \<Rightarrow> Some b
     | None \<Rightarrow>
       (case hostFromAddress urlHost leaderAddr of
          None \<Rightarrow> None
        | Some leaderHost \<Rightarrow>
          find (\<lambda>b. list_ex (\<lambda>candidate. hostFromAddress urlHost candidate = Some leaderHost)
            [bi_ControllerAddr b, bi_HTTPAddr b, bi_Host b]) brokers))"

definition resolveTopicsAPIByBrokerID :: "'c Handler \<Rightarrow> 'c Broker \<Rightarrow> int \<Rightarrow> string option" where
  "resolveTopicsAPIByBrokerID h b brokerID =
    (if brokerID = 0 then None
     else case ctrlOf h b of
       None \<Rightarrow> None
     | Some (api, c) \<Rightarrow>
       (case ct_GetClusterMetadata api c of
          Inl e \<Rightarrow> None
        | Inr meta \<Rightarrow>
          (case find (\<lambda>info. bi_BrokerID info = brokerID) (cm_Brokers meta) of
             None \<Rightarrow> None
           | Some info \<Rightarrow> map_option (\<lambda>addr. ''http://'' @ addr @ ''/api/topics'') (normalizeHostPort (hd_urlHost h) (bi_HTTPAddr info)))))"

text \<open>The URL of the leader of the controllers, with the address it was found by.\<close>

definition leaderTopicsURL :: "'c Handler \<Rightarrow> 'c Broker \<Rightarrow> string \<Rightarrow> (string \<times> string) option" where
  "leaderTopicsURL h b leaderHint =
    (if bc_ControllerMode (hd_cfg h) \<noteq> ''raft'' then None
     else case ctrlOf h b of
       None \<Rightarrow> None
     | Some (api, c) \<Rightarrow>
       (case ct_Raft api of
          None \<Rightarrow> None
        | Some raft \<Rightarrow>
          (let rs = raft c;
               hinted = (if leaderHint = '''' then rf_LeaderID rs else leaderHint);
               leaderAddr = (if hinted = '''' then rf_Leader rs else hinted)
           in if ToLower (rf_State rs) = ''leader'' then None
              else if leaderAddr = '''' then None
              else case ct_GetClusterMetadata api c of
                Inl e \<Rightarrow> None
              | Inr meta \<Rightarrow>
                (case brokerInfoForLeader (hd_urlHost h) (cm_Brokers meta) leaderAddr of
                   None \<Rightarrow> None
                 | Some info \<Rightarrow> map_option (\<lambda>addr. (''http://'' @ addr @ ''/api/topics'', leaderAddr)) (normalizeHostPort (hd_urlHost h) (bi_HTTPAddr info))))))"

section \<open>Forwarding\<close>

text \<open>The requests sent, and the answer.\<close>

type_synonym forwarded = "outRequest list \<times> (int \<times> body) option"

definition forwardRequest :: "'c Handler \<Rightarrow> nat \<Rightarrow> outRequest \<Rightarrow> forwarded" where
  "forwardRequest h n req = ([req], hd_client h n req)"

text \<open>\<^verbatim>\<open>http.NewRequestWithContext\<close>, which fails for an address that \<^verbatim>\<open>url.Parse\<close> does not accept.\<close>

definition newRequest :: "'c Handler \<Rightarrow> outRequest \<Rightarrow> outRequest option" where
  "newRequest h req = (case hd_urlHost h (or_URL req) of None \<Rightarrow> None | Some _ \<Rightarrow> Some req)"

definition forwardToURL :: "'c Handler \<Rightarrow> nat \<Rightarrow> string \<Rightarrow> string \<Rightarrow> json \<Rightarrow> forwarded" where
  "forwardToURL h n meth target data =
    (case newRequest h \<lparr>or_Method = meth, or_URL = target, or_Forwarded = True, or_Body = Some data\<rparr> of
       None \<Rightarrow> ([], None)
     | Some req \<Rightarrow> forwardRequest h n req)"

definition forwardPartitionMessagesToLeader :: "'c Handler \<Rightarrow> 'c Broker \<Rightarrow> nat \<Rightarrow> httpRequest \<Rightarrow> string \<Rightarrow> int \<Rightarrow> int \<Rightarrow> forwarded" where
  "forwardPartitionMessagesToLeader h b n r topic part leaderBrokerID =
    (if hr_Forwarded r \<noteq> '''' then ([], None)
     else case resolveTopicsAPIByBrokerID h b leaderBrokerID of
       None \<Rightarrow> ([], None)
     | Some baseURL \<Rightarrow>
       (case newRequest h \<lparr>or_Method = ''GET'', or_URL = baseURL @ ''/'' @ PathEscape topic @ ''/partitions/'' @ Itoa part @ ''/messages''
            @ (if hr_RawQuery r \<noteq> '''' then ''?'' @ hr_RawQuery r else ''''), or_Forwarded = False, or_Body = None\<rparr> of
          None \<Rightarrow> ([], None)
        | Some req \<Rightarrow> forwardRequest h n req))"

definition forwardTopicProduceToLeader :: "'c Handler \<Rightarrow> 'c Broker \<Rightarrow> httpRequest \<Rightarrow> string \<Rightarrow> topicProduceByKeyRequest \<Rightarrow> int \<Rightarrow> forwarded" where
  "forwardTopicProduceToLeader h b r topic payload leaderBrokerID =
    (if hr_Forwarded r \<noteq> '''' then ([], None)
     else case resolveTopicsAPIByBrokerID h b leaderBrokerID of
       None \<Rightarrow> ([], None)
     | Some baseURL \<Rightarrow> forwardToURL h 0 ''POST'' (baseURL @ ''/'' @ PathEscape topic @ ''/messages'') (encodeProduceByKey payload))"

definition parseNotLeaderHint :: "body \<Rightarrow> string option" where
  "parseNotLeaderHint payload =
    (case bindE (decodeObject (case payload of JsonBody j \<Rightarrow> Some j | _ \<Rightarrow> None)) (\<lambda>fs.
       bindE (stringField ''error'' '''' fs) (\<lambda>e. bindE (stringField ''leader'' '''' fs) (\<lambda>l. Inr (e, l)))) of
       Inl _ \<Rightarrow> None
     | Inr (e, l) \<Rightarrow> if e \<noteq> ''not_leader'' \<or> l = '''' then None else Some l)"

text \<open>The attempts to reach the leader, three at most.\<close>

fun forwardAttempts :: "nat \<Rightarrow> 'c Handler \<Rightarrow> 'c Broker \<Rightarrow> nat \<Rightarrow> json \<Rightarrow> string \<Rightarrow> forwarded" where
  "forwardAttempts 0 h b n data currentLeader = ([], None)"
| "forwardAttempts (Suc k) h b n data currentLeader = (case leaderTopicsURL h b currentLeader of
       None \<Rightarrow> ([], None)
     | Some (leaderURL, leaderAddr) \<Rightarrow>
       (case forwardToURL h n ''POST'' leaderURL data of
          (sent, None) \<Rightarrow> (let (sent', ans) = forwardAttempts k h b (n + length sent) data '''' in (sent @ sent', ans))
        | (sent, Some (status, payload)) \<Rightarrow>
          (case (if status = 409 then parseNotLeaderHint payload else None) of
             Some nextLeader \<Rightarrow>
               (if nextLeader \<noteq> leaderAddr
                then let (sent', ans) = forwardAttempts k h b (n + length sent) data nextLeader in (sent @ sent', ans)
                else (sent, Some (status, payload)))
           | None \<Rightarrow> (sent, Some (status, payload)))))"

definition forwardCreateTopicToLeader :: "'c Handler \<Rightarrow> 'c Broker \<Rightarrow> httpRequest \<Rightarrow> createTopicBody \<Rightarrow> string \<Rightarrow> forwarded" where
  "forwardCreateTopicToLeader h b r req leaderHint =
    (if hr_Forwarded r \<noteq> '''' then ([], None) else forwardAttempts 3 h b 0 (encodeCreateTopic req) leaderHint)"

text \<open>The answer of another broker, passed on.\<close>

definition relay :: "int \<Rightarrow> body \<Rightarrow> httpResponse" where
  "relay status payload = \<lparr>hs_Status = status, hs_ContentType = ''application/json'', hs_Body = payload\<rparr>"

section \<open>Broker, controller and summary\<close>

definition handleBroker :: "'c Handler \<Rightarrow> 'c Broker \<Rightarrow> 'c served" where
  "handleBroker h b = (let cfg = hd_cfg h in reply b (writeJSON (JObj
     [(''id'', JNum (bc_BrokerID cfg)), (''binaryEndpoint'', JStr (bc_BinaryAddr cfg)), (''mqttEndpoint'', JStr (bc_MQTTAddr cfg)),
      (''httpEndpoint'', JStr (bc_HTTPAddr cfg)), (''clusterID'', JStr (bc_ClusterID cfg)), (''replicationFactor'', JNum (bc_ReplicationFactor cfg)),
      (''controllerMode'', JStr (bc_ControllerMode cfg))])))"

definition handleControllerStatus :: "'c Handler \<Rightarrow> 'c Broker \<Rightarrow> httpRequest \<Rightarrow> 'c served" where
  "handleControllerStatus h b r =
    (if hr_Method r \<noteq> ''GET'' then reply b (WriteHeader 405)
     else
       let mode0 = (if bc_ControllerMode (hd_cfg h) = '''' then ''single'' else bc_ControllerMode (hd_cfg h));
           none = \<lparr>rf_Mode = mode0, rf_State = ''none'', rf_Term = 0, rf_Peers = [], rf_Leader = '''', rf_LeaderID = ''''\<rparr>;
           rs = (case ctrlOf h b of
               None \<Rightarrow> none
             | Some (api, c) \<Rightarrow> (case ct_Raft api of None \<Rightarrow> none | Some raft \<Rightarrow> (raft c)\<lparr>rf_State := ToLower (rf_State (raft c))\<rparr>));
           meta = (case ctrlOf h b of
               None \<Rightarrow> ('''', 0)
             | Some (api, c) \<Rightarrow> (case ct_GetClusterMetadata api c of Inl e \<Rightarrow> ('''', 0) | Inr m \<Rightarrow> (cm_ClusterID m, cm_Version m)))
       in reply b (writeJSON (JObj
         [(''mode'', JStr (rf_Mode rs)), (''raftState'', JStr (rf_State rs)), (''term'', JNum (rf_Term rs)),
          (''peers'', JArr (map (\<lambda>(i, a). JObj [(''id'', JStr i), (''address'', JStr a)]) (rf_Peers rs))),
          (''leader'', JStr (rf_Leader rs)), (''leaderID'', JStr (rf_LeaderID rs)), (''clusterID'', JStr (fst meta)), (''version'', JNum (snd meta))])))"

definition handleControllerRegisterBroker :: "'c Handler \<Rightarrow> 'c Broker \<Rightarrow> httpRequest \<Rightarrow> 'c served" where
  "handleControllerRegisterBroker h b r =
    (if hr_Method r \<noteq> ''POST'' then reply b (WriteHeader 405)
     else case ctrlOf h b of
       None \<Rightarrow> reply b (http_Error ''controller not configured'' 500)
     | Some (api, c) \<Rightarrow>
       (case decodeBrokerInfo (hr_Body r) of
          Inl e \<Rightarrow> reply b (http_Error ''invalid json'' 400)
        | Inr info \<Rightarrow>
          (if bi_BrokerID info = 0 \<or> bi_Host info = '''' then reply b (http_Error ''brokerID and host required'' 400)
           else if bc_ControllerMode (hd_cfg h) = ''raft'' \<and> (bi_HTTPAddr info = '''' \<or> bi_ControllerAddr info = '''')
           then reply b (http_Error ''httpAddr and controllerAddr required in raft mode'' 400)
           else case ct_RegisterBroker api c info of
             (c', Some e) \<Rightarrow> reply (setCtrl c' b) (http_Error (errorText e) 400)
           | (c', None) \<Rightarrow> reply (setCtrl c' b) (WriteHeader 204))))"

definition handleClusterMetadata :: "'c Handler \<Rightarrow> 'c Broker \<Rightarrow> httpRequest \<Rightarrow> 'c served" where
  "handleClusterMetadata h b r =
    (if hr_Method r \<noteq> ''GET'' then reply b (WriteHeader 405)
     else case ctrlOf h b of
       None \<Rightarrow> reply b (http_Error ''controller not configured'' 500)
     | Some (api, c) \<Rightarrow>
       (case ct_GetClusterMetadata api c of
          Inl e \<Rightarrow> reply b (http_Error (errorText e) 500)
        | Inr meta \<Rightarrow> reply b (writeJSON (clusterJSON meta))))"

text \<open>The channel has room for 32 series, and nobody reads from it while they are collected.\<close>

definition sumCounter :: "int list \<Rightarrow> int option" where
  "sumCounter series = (if length series > 32 then None else Some (sum_list series))"

definition handleSummary :: "httpEnv \<Rightarrow> 'c Broker \<Rightarrow> httpRequest \<Rightarrow> 'c served" where
  "handleSummary env b r =
    (if hr_Method r \<noteq> ''GET'' then reply b (WriteHeader 405)
     else let (topics, partitions) = TopicAndPartitionCounts b; produced = ProducedMessagesCount b in
       case (sumCounter (he_consumed env), sumCounter (he_errors env)) of
         (Some consumed, Some reqErrors) \<Rightarrow> reply b (writeJSON (JObj
           [(''topics'', JNum topics), (''partitions'', JNum partitions), (''produced'', JNum produced), (''consumed'', JNum consumed), (''errors'', JNum reqErrors)]))
       | _ \<Rightarrow> None)"

section \<open>Messages\<close>

definition recordsResponse :: "int \<Rightarrow> Record list \<Rightarrow> json list" where
  "recordsResponse part msgs = map (\<lambda>m. JObj
     ([(''partition'', JNum part), (''offset'', JNum (r_Offset m)), (''key'', JStr (encodeMaybeBase64 (case r_Key m of None \<Rightarrow> [] | Some k \<Rightarrow> k))),
       (''value'', JStr (encodeRecordValue (case r_Value m of None \<Rightarrow> [] | Some v \<Rightarrow> v) (r_Headers m))), (''timestamp'', JStr (formatRFC3339 (r_Timestamp m)))]
      @ (case recordContentType (r_Headers m) of None \<Rightarrow> [] | Some contentType \<Rightarrow> [(''contentType'', JStr contentType)]))) msgs"

text \<open>\<^verbatim>\<open>m[name]\<close> of a decoded map.\<close>

fun jget :: "string \<Rightarrow> json \<Rightarrow> json option" where
  "jget name (JObj kvs) = map_of (rev kvs) name"
| "jget name _ = None"

definition offsetInt64 :: "json option \<Rightarrow> int" where
  "offsetInt64 v = (case v of Some (JNum n) \<Rightarrow> n | _ \<Rightarrow> 0)"

text \<open>\<^verbatim>\<open>fmt.Sprint\<close> of a timestamp, which every broker sends as a string; of the values no broker sends, numbers print as integers and lists and objects as nothing.\<close>

definition timestampText :: "json option \<Rightarrow> string" where
  "timestampText v = (case v of
       None \<Rightarrow> ''<nil>'' | Some JNull \<Rightarrow> ''<nil>'' | Some (JStr s) \<Rightarrow> s | Some (JNum n) \<Rightarrow> Itoa n
     | Some (JBool t) \<Rightarrow> if t then ''true'' else ''false'' | _ \<Rightarrow> '''')"

text \<open>\<^verbatim>\<open>sort.Slice\<close>; elements that the comparison does not tell apart stay in order here, which the library leaves open.\<close>

fun insertBy :: "('a \<Rightarrow> 'a \<Rightarrow> bool) \<Rightarrow> 'a \<Rightarrow> 'a list \<Rightarrow> 'a list" where
  "insertBy before x [] = [x]"
| "insertBy before x (y # ys) = (if before y x then y # insertBy before x ys else x # y # ys)"

definition sortSlice :: "('a \<Rightarrow> 'a \<Rightarrow> bool) \<Rightarrow> 'a list \<Rightarrow> 'a list" where
  "sortSlice before xs = foldr (insertBy before) xs []"

definition newerFirst :: "json \<Rightarrow> json \<Rightarrow> bool" where
  "newerFirst x y =
    (let ti = timestampText (jget ''timestamp'' x); tj = timestampText (jget ''timestamp'' y) in
     if ti \<noteq> tj then ti > tj else offsetInt64 (jget ''offset'' x) > offsetInt64 (jget ''offset'' y))"

definition laterFirst :: "json \<Rightarrow> json \<Rightarrow> bool" where
  "laterFirst x y \<longleftrightarrow> offsetInt64 (jget ''offset'' x) > offsetInt64 (jget ''offset'' y)"

definition parseLimit :: "httpRequest \<Rightarrow> int option" where
  "parseLimit r =
    (let l = queryGet r ''limit'' in
     if l = '''' then Some 50
     else case parseInt64 l of Some v \<Rightarrow> if v > 0 then Some v else None | None \<Rightarrow> None)"

definition topicPartitionIDs_http :: "'c Handler \<Rightarrow> 'c Broker \<Rightarrow> string \<Rightarrow> int list result" where
  "topicPartitionIDs_http h b topic =
    (let assigned = (case ctrlOf h b of
           None \<Rightarrow> []
         | Some (api, c) \<Rightarrow> (case ct_GetClusterMetadata api c of
             Inl e \<Rightarrow> []
           | Inr meta \<Rightarrow> map pa_Partition (filter (\<lambda>p. pa_Topic p = topic) (cm_Partitions meta))));
         own = (case TopicDetail b topic of None \<Rightarrow> [] | Some detail \<Rightarrow> map pi_ID (td_Partitions detail));
         ids = (if assigned = [] then own else assigned)
     in if ids = [] then Inl TopicNotFound else Inr (sort (remdups ids)))"

text \<open>Numbers of a map without a type are read as \<^verbatim>\<open>float64\<close>: an integer is rounded to 53 bits, ties to even.\<close>

fun bitLen :: "nat \<Rightarrow> nat" where
  "bitLen n = (if n = 0 then 0 else Suc (bitLen (n div 2)))"

declare bitLen.simps [simp del]

definition float64Int :: "int \<Rightarrow> int" where
  "float64Int n =
    (let a = \<bar>n\<bar>; m = 2 ^ (bitLen (nat a) - 53); q = a div m; r = a mod m;
         q' = (if m < 2 * r \<or> m = 2 * r \<and> odd q then q + 1 else q)
     in sgn n * (q' * m))"

fun float64JSON :: "json \<Rightarrow> json" where
  "float64JSON (JNum n) = JNum (float64Int n)"
| "float64JSON (JArr xs) = JArr (map float64JSON xs)"
| "float64JSON (JObj kvs) = JObj (map (\<lambda>(k, j). (k, float64JSON j)) kvs)"
| "float64JSON j = j"

text \<open>A list of maps, of which any may be nil.\<close>

definition unmarshalMessages :: "body \<Rightarrow> json list option" where
  "unmarshalMessages payload = (case payload of
       JsonBody (JArr xs) \<Rightarrow> if list_all (\<lambda>x. case x of JObj _ \<Rightarrow> True | JNull \<Rightarrow> True | _ \<Rightarrow> False) xs then Some (map float64JSON xs) else None
     | JsonBody JNull \<Rightarrow> Some []
     | _ \<Rightarrow> None)"

text \<open>The loop over the partitions: the requests sent, and the messages or the response that ends it.\<close>

fun collectMessages :: "'c Handler \<Rightarrow> httpEnv \<Rightarrow> 'c Broker \<Rightarrow> httpRequest \<Rightarrow> string \<Rightarrow> int \<Rightarrow> nat \<Rightarrow> int list \<Rightarrow> json list \<Rightarrow>
    (outRequest list \<times> (httpResponse + json list)) option" where
  "collectMessages h env b r topic limit n [] all = Some ([], Inr all)"
| "collectMessages h env b r topic limit n (pid # pids) all =
    (case FetchMessages (he_ctx env) b topic pid (queryGet r ''offset'') limit of
       None \<Rightarrow> None
     | Some (_, msgs, None) \<Rightarrow> collectMessages h env b r topic limit n pids (all @ recordsResponse pid msgs)
     | Some (_, msgs, Some err) \<Rightarrow>
       (let (sent, ans) = (case err of
              NotLeaderError _ _ leader \<Rightarrow> forwardPartitionMessagesToLeader h b n r topic pid leader | _ \<Rightarrow> ([], None))
        in case ans of
          None \<Rightarrow> Some (sent, Inl (http_Error (errorText err) 400))
        | Some (status, payload) \<Rightarrow>
          (if status \<noteq> 200 then Some (sent, Inl (http_Error ''leader fetch failed'' 502))
           else case unmarshalMessages payload of
             None \<Rightarrow> Some (sent, Inl (http_Error ''invalid leader payload'' 502))
           | Some forwarded \<Rightarrow>
             map_option (\<lambda>(sent', res). (sent @ sent', res))
               (collectMessages h env b r topic limit (n + length sent) pids (all @ forwarded)))))"

text \<open>\<^verbatim>\<open>make\<close> with a capacity panics when it is negative or its memory beyond the address space.\<close>

definition makesSlice :: "int \<Rightarrow> bool" where
  "makesSlice c \<longleftrightarrow> 0 \<le> c \<and> c * 8 \<le> 2 ^ 48"

definition topicMessagesAll :: "'c Handler \<Rightarrow> httpEnv \<Rightarrow> 'c Broker \<Rightarrow> httpRequest \<Rightarrow> string \<Rightarrow> 'c served" where
  "topicMessagesAll h env b r topic = (case parseLimit r of
       None \<Rightarrow> reply b (http_Error ''invalid limit'' 400)
     | Some limit \<Rightarrow>
       (case topicPartitionIDs_http h b topic of
          Inl e \<Rightarrow> reply b (http_Error (errorText e) (if e = TopicNotFound then 404 else 400))
        | Inr partitions \<Rightarrow>
          (if \<not> makesSlice (wrapS 64 (limit * int (length partitions))) then None
           else case collectMessages h env b r topic limit 0 partitions [] of
             None \<Rightarrow> None
           | Some (sent, Inl resp) \<Rightarrow> Some (b, sent, resp)
           | Some (sent, Inr all) \<Rightarrow>
             (let sorted = sortSlice newerFirst all in
              Some (b, sent, writeJSON (JArr (if int (length sorted) > limit then take (nat limit) sorted else sorted)))))))"

definition notLeaderJSON :: "int \<Rightarrow> string \<Rightarrow> int \<Rightarrow> json" where
  "notLeaderJSON leader topic part =
    JObj [(''error'', JStr ''not_leader''), (''leaderBrokerID'', JNum leader), (''topic'', JStr topic), (''partition'', JNum part)]"

definition partitionMessages :: "httpEnv \<Rightarrow> 'c Broker \<Rightarrow> httpRequest \<Rightarrow> string \<Rightarrow> int \<Rightarrow> 'c served" where
  "partitionMessages env b r topic part =
    (if hr_Method r \<noteq> ''GET'' then reply b (WriteHeader 405)
     else case parseLimit r of
       None \<Rightarrow> reply b (http_Error ''invalid limit'' 400)
     | Some limit \<Rightarrow>
       (case FetchMessages (he_ctx env) b topic part (queryGet r ''offset'') limit of
          None \<Rightarrow> None
        | Some (_, msgs, Some (NotLeaderError _ _ leader)) \<Rightarrow> reply b (headerThenJSON 409 (notLeaderJSON leader topic part))
        | Some (_, msgs, Some e) \<Rightarrow> reply b (http_Error (errorText e) 400)
        | Some (_, msgs, None) \<Rightarrow> reply b (writeJSON (JArr (sortSlice laterFirst (recordsResponse part msgs))))))"

section \<open>Producing\<close>

definition newRecord :: "int \<Rightarrow> bytes option \<Rightarrow> bytes \<Rightarrow> string \<Rightarrow> Record" where
  "newRecord time key val contentType = applyContentType contentType
     \<lparr>r_Offset = 0, r_Timestamp = Some time, r_Key = key, r_Value = Some val, r_Headers = [], r_CRC32C = 0\<rparr>"

definition producedJSON :: "int \<Rightarrow> int \<Rightarrow> json" where
  "producedJSON part base = JObj [(''partition'', JNum part), (''baseOffset'', JNum base)]"

definition partitionProduce :: "httpEnv \<Rightarrow> 'c Broker \<Rightarrow> httpRequest \<Rightarrow> string \<Rightarrow> int \<Rightarrow> 'c served" where
  "partitionProduce env b r topic part =
    (if hr_Method r \<noteq> ''POST'' then reply b (WriteHeader 405)
     else case decodePartitionProduce (hr_Body r) of
       Inl e \<Rightarrow> reply b (http_Error ''invalid json'' 400)
     | Inr req \<Rightarrow>
       (if pq_Value req = '''' then reply b (http_Error ''value is required'' 400)
        else case decodeMaybeBase64 (pq_Value req) of
          Inl e \<Rightarrow> reply b (http_Error ''invalid value encoding'' 400)
        | Inr val \<Rightarrow>
          (case (case pq_Key req of None \<Rightarrow> Inr None | Some k \<Rightarrow> bindE (decodeMaybeBase64 k) (\<lambda>key. Inr (Some key))) of
             Inl e \<Rightarrow> reply b (http_Error ''invalid key encoding'' 400)
           | Inr key \<Rightarrow>
             (case Produce (he_ctx env) (he_clock env) (he_now env) b topic part [newRecord (he_time env) key val (pq_ContentType req)] of
                (b', base, None) \<Rightarrow> reply b' (writeJSON (producedJSON part base))
              | (b', base, Some (NotLeaderError _ _ leader)) \<Rightarrow> reply b' (headerThenJSON 409 (notLeaderJSON leader topic part))
              | (b', base, Some e) \<Rightarrow> reply b' (http_Error (errorText e) (if e = TopicNotFound \<or> e = PartitionNotFound then 404 else 400))))))"

definition topicProduceByKey :: "'c Handler \<Rightarrow> httpEnv \<Rightarrow> 'c Broker \<Rightarrow> httpRequest \<Rightarrow> string \<Rightarrow> 'c served" where
  "topicProduceByKey h env b r topic = (case decodeProduceByKey (hr_Body r) of
       Inl e \<Rightarrow> reply b (http_Error ''invalid json'' 400)
     | Inr req \<Rightarrow>
       (if kp_Value req = '''' then reply b (http_Error ''value is required'' 400)
        else let key = TrimSpace (kp_Key req) in
          if key = '''' then reply b (http_Error ''key is required for hash routing'' 400)
          else case decodeMaybeBase64 (kp_Value req) of
            Inl e \<Rightarrow> reply b (http_Error ''invalid value encoding'' 400)
          | Inr val \<Rightarrow>
            (case ProduceByKey (he_ctx env) (he_clock env) (he_now env) b topic (Some (string_bytes key))
                [newRecord (he_time env) (Some (string_bytes key)) val (kp_ContentType req)] of
               (b', part, base, None) \<Rightarrow> reply b' (writeJSON (producedJSON part base))
             | (b', part, base, Some (NotLeaderError _ nlePart leader)) \<Rightarrow>
               (case forwardTopicProduceToLeader h b' r topic req leader of
                  (sent, Some (status, payload)) \<Rightarrow> Some (b', sent, relay status payload)
                | (sent, None) \<Rightarrow> Some (b', sent, headerThenJSON 409 (notLeaderJSON leader topic nlePart)))
             | (b', part, base, Some e) \<Rightarrow> reply b' (http_Error (errorText e) (if e = TopicNotFound then 404 else 400)))))"

section \<open>Consumer groups\<close>

definition consumerGroupExists :: "'c Broker \<Rightarrow> string \<Rightarrow> bool" where
  "consumerGroupExists b grp = list_ex (\<lambda>info. gi_Name info = grp) (ConsumerGroupsSnapshot b)"

definition topicPartitionExists :: "'c Broker \<Rightarrow> string \<Rightarrow> int \<Rightarrow> bool" where
  "topicPartitionExists b topic part = (case TopicDetail b topic of
       None \<Rightarrow> False
     | Some detail \<Rightarrow> list_ex (\<lambda>p. pi_ID p = part) (td_Partitions detail))"

definition consumerOffsetNotFound :: "go_error \<Rightarrow> bool" where
  "consumerOffsetNotFound e =
    (let msg = ToLower (errorText e)
     in Contains msg ''group not found'' \<or> Contains msg ''topic not found'' \<or> Contains msg ''partition not found'')"

definition consumerOffsetResponse :: "string \<Rightarrow> string \<Rightarrow> int \<Rightarrow> int \<Rightarrow> json" where
  "consumerOffsetResponse grp topic part offset =
    JObj [(''group'', JStr grp), (''topic'', JStr topic), (''partition'', JNum part), (''offset'', JNum offset)]"

definition handleConsumers :: "'c Broker \<Rightarrow> httpRequest \<Rightarrow> 'c served" where
  "handleConsumers b r =
    (if hr_Method r \<noteq> ''GET'' then reply b (WriteHeader 405)
     else reply b (writeJSON (JArr (map groupJSON (ConsumerGroupsSnapshot b)))))"

definition handleConsumerCommittedOffset :: "'c Broker \<Rightarrow> string \<Rightarrow> string \<Rightarrow> int \<Rightarrow> 'c served" where
  "handleConsumerCommittedOffset b grp topic part =
    (if \<not> consumerGroupExists b grp then reply b NotFound
     else if \<not> topicPartitionExists b topic part then reply b NotFound
     else case FetchCommitted b grp topic part of
       (_, Some e) \<Rightarrow> reply b (if consumerOffsetNotFound e then NotFound else http_Error (errorText e) 400)
     | (offset, None) \<Rightarrow> reply b (writeJSON (consumerOffsetResponse grp topic part offset)))"

definition handleConsumerCommitOffset :: "httpEnv \<Rightarrow> 'c Broker \<Rightarrow> httpRequest \<Rightarrow> string \<Rightarrow> string \<Rightarrow> int \<Rightarrow> 'c served" where
  "handleConsumerCommitOffset env b r grp topic part =
    (if \<not> topicPartitionExists b topic part then reply b NotFound
     else case bindE (decodeObject (hr_Body r)) (intField ''offset'' 0) of
       Inl e \<Rightarrow> reply b (http_Error ''invalid json'' 400)
     | Inr offset \<Rightarrow>
       (case CommitOffset (he_done env) b grp topic part offset of
          None \<Rightarrow> None
        | Some (b', Some e, _) \<Rightarrow> reply b' (if consumerOffsetNotFound e then NotFound else http_Error (errorText e) 400)
        | Some (b', None, _) \<Rightarrow> reply b' (writeJSON (consumerOffsetResponse grp topic part offset))))"

definition handleConsumerPaths :: "httpEnv \<Rightarrow> 'c Broker \<Rightarrow> httpRequest \<Rightarrow> 'c served" where
  "handleConsumerPaths env b r = (case Split (CHR ''/'') (TrimPrefix (hr_Path r) ''/api/consumers/'') of
       [grp, p1, topic, p3, p4, p5] \<Rightarrow>
         (if p1 \<noteq> ''topics'' \<or> p3 \<noteq> ''partitions'' \<or> p5 \<noteq> ''offset'' then reply b NotFound
          else if grp = '''' \<or> topic = '''' then reply b NotFound
          else case parseInt64 p4 of
            None \<Rightarrow> reply b (http_Error ''invalid partition id'' 400)
          | Some part \<Rightarrow>
            (if hr_Method r = ''GET'' then handleConsumerCommittedOffset b grp topic part
             else if hr_Method r = ''POST'' then handleConsumerCommitOffset env b r grp topic part
             else reply b (WriteHeader 405)))
     | _ \<Rightarrow> reply b NotFound)"

section \<open>Topics\<close>

definition zeroDetail :: TopicDetailInfo where
  "zeroDetail = \<lparr>td_Name = '''', td_PartitionCount = 0, td_ReplicationFactor = 0, td_Partitions = []\<rparr>"

definition topicConfigOf :: "createTopicBody \<Rightarrow> TopicConfig" where
  "topicConfigOf req = \<lparr>tc_Partitions = cb_Partitions req, tc_ReplicationFactor = cb_ReplicationFactor req, tc_RetentionBytes = cb_RetentionBytes req,
     tc_RetentionTime = (if cb_RetentionHours req > 0 then wrapS 64 (cb_RetentionHours req * 3600000000000) else 0)\<rparr>"

definition handleCreateTopic :: "'c Handler \<Rightarrow> httpEnv \<Rightarrow> 'c Broker \<Rightarrow> httpRequest \<Rightarrow> 'c served" where
  "handleCreateTopic h env b r = (case decodeCreateTopic (hr_Body r) of
       Inl e \<Rightarrow> reply b (http_Error ''invalid json'' 400)
     | Inr req \<Rightarrow>
       (if cb_Name req = '''' \<or> cb_Partitions req < 1 then reply b (http_Error ''name required and partitions>=1'' 400)
        else case CreateTopic_broker (he_mtime env) (he_now env) (he_ctx env) b (cb_Name req) (topicConfigOf req) of
          None \<Rightarrow> None
        | Some (b', None) \<Rightarrow>
          reply b' (headerThenJSON 201 (detailJSON (case TopicDetail b' (cb_Name req) of None \<Rightarrow> zeroDetail | Some d \<Rightarrow> d)))
        | Some (b', Some (CtrlNotLeaderError leader)) \<Rightarrow>
          (case forwardCreateTopicToLeader h b' r req leader of
             (sent, Some (status, payload)) \<Rightarrow> Some (b', sent, relay status payload)
           | (sent, None) \<Rightarrow> Some (b', sent, headerThenJSON 409 (JObj
               [(''error'', JStr ''not_leader''), (''leader'', JStr leader), (''message'', JStr (errorText (CtrlNotLeaderError leader)))])))
        | Some (b', Some e) \<Rightarrow>
          reply b' (headerThenJSON (if e = CtrlLeaderNotElected then 503 else if e = TopicExists then 409 else 400) (JObj
            [(''error'', JStr (if e = CtrlLeaderNotElected then ''leader_not_elected'' else if e = TopicExists then ''topic_exists'' else ''bad_request'')),
             (''message'', JStr (errorText e))]))))"

definition handleTopics :: "'c Handler \<Rightarrow> httpEnv \<Rightarrow> 'c Broker \<Rightarrow> httpRequest \<Rightarrow> 'c served" where
  "handleTopics h env b r =
    (if hr_Path r \<noteq> ''/api/topics'' then reply b (WriteHeader 404)
     else if hr_Method r = ''GET'' then reply b (writeJSON (slice summaryJSON (TopicsSnapshot b)))
     else if hr_Method r = ''POST'' then handleCreateTopic h env b r
     else reply b (WriteHeader 405))"

definition topicDetail :: "'c Broker \<Rightarrow> string \<Rightarrow> 'c served" where
  "topicDetail b name = (case TopicDetail b name of
       None \<Rightarrow> reply b NotFound
     | Some detail \<Rightarrow> reply b (writeJSON (detailJSON detail)))"

definition topicMessages :: "'c Handler \<Rightarrow> httpEnv \<Rightarrow> 'c Broker \<Rightarrow> httpRequest \<Rightarrow> string \<Rightarrow> 'c served" where
  "topicMessages h env b r topic =
    (if hr_Method r = ''GET'' then topicMessagesAll h env b r topic
     else if hr_Method r = ''POST'' then topicProduceByKey h env b r topic
     else reply b (WriteHeader 405))"

definition handleTopicPaths :: "'c Handler \<Rightarrow> httpEnv \<Rightarrow> 'c Broker \<Rightarrow> httpRequest \<Rightarrow> 'c served" where
  "handleTopicPaths h env b r = (case Split (CHR ''/'') (TrimPrefix (hr_Path r) ''/api/topics/'') of
       [] \<Rightarrow> reply b (WriteHeader 404)
     | [name] \<Rightarrow> topicDetail b name
     | [name, p1] \<Rightarrow> if p1 = ''messages'' then topicMessages h env b r name else reply b NotFound
     | [name, p1, p2, p3] \<Rightarrow>
       (if p1 = ''partitions'' \<and> p3 = ''messages''
        then (case parseInt64 p2 of
            None \<Rightarrow> reply b (http_Error ''invalid partition id'' 400)
          | Some pid \<Rightarrow>
            (if hr_Method r = ''GET'' then partitionMessages env b r name pid
             else if hr_Method r = ''POST'' then partitionProduce env b r name pid
             else reply b (WriteHeader 405)))
        else reply b NotFound)
     | _ \<Rightarrow> reply b NotFound)"

section \<open>Routing\<close>

definition withCORS :: "('c Broker \<Rightarrow> httpRequest \<Rightarrow> 'c served) \<Rightarrow> 'c Broker \<Rightarrow> httpRequest \<Rightarrow> 'c served" where
  "withCORS f b r = (if hr_Method r = ''OPTIONS'' then reply b (WriteHeader 204) else f b r)"

text \<open>The patterns of \<^verbatim>\<open>Register\<close> on a clean path: the exact ones first.\<close>

definition Register_http :: "'c Handler \<Rightarrow> httpEnv \<Rightarrow> 'c Broker \<Rightarrow> httpRequest \<Rightarrow> 'c served" where
  "Register_http h env b r =
    (let p = hr_Path r in
     if p = ''/api/broker'' then withCORS (\<lambda>b r. handleBroker h b) b r
     else if p = ''/api/summary'' then withCORS (handleSummary env) b r
     else if p = ''/api/topics'' then withCORS (handleTopics h env) b r
     else if p = ''/api/consumers'' then withCORS handleConsumers b r
     else if p = ''/api/cluster'' then withCORS (handleClusterMetadata h) b r
     else if p = ''/api/controller'' then withCORS (handleControllerStatus h) b r
     else if p = ''/api/controller/brokers'' then withCORS (handleControllerRegisterBroker h) b r
     else if HasPrefix p ''/api/consumers/'' then withCORS (handleConsumerPaths env) b r
     else if HasPrefix p ''/api/topics/'' then withCORS (handleTopicPaths h env) b r
     else reply b NotFound)"

section \<open>Numbers and paths\<close>

lemma digitVal_char: "d < 10 \<Longrightarrow> digitVal (char_of (48 + d)) = Some (int d)"
proof -
  have "list_all (\<lambda>d. digitVal (char_of (48 + d)) = Some (int d)) [0..<10]" by code_simp
  then show "d < 10 \<Longrightarrow> ?thesis" by (simp add: list_all_iff)
qed

lemma digitsVal_append: "digitsVal acc (xs @ ys) = (case digitsVal acc xs of None \<Rightarrow> None | Some a \<Rightarrow> digitsVal a ys)"
  by (induction xs arbitrary: acc) (auto split: option.split)

lemma digitsVal_digits: "digitsVal 0 (digits n) = Some (int n)"
proof (induction n rule: digits.induct)
  case (1 n)
  have "10 * int (n div 10) + int (n mod 10) = int n" by presburger
  then show ?case using 1 by (subst digits.simps) (auto simp: digitsVal_append digitVal_char)
qed

lemma digits_Nil [simp]: "digits n \<noteq> []"
  by (subst digits.simps) simp

lemma digits_hd: "c \<in> set (digits n) \<Longrightarrow> c \<noteq> CHR ''-'' \<and> c \<noteq> CHR ''+'' \<and> c \<noteq> CHR ''/''"
  using digits_range [of c n] by auto

lemma parseInt64_Itoa:
  assumes "inS 64 n"
  shows "parseInt64 (Itoa n) = Some n"
proof (cases "n < 0")
  case True
  then show ?thesis using assms by (simp add: parseInt64_def Itoa_def Let_def digitsVal_digits)
next
  case False
  obtain c cs where c: "digits (nat n) = c # cs" by (cases "digits (nat n)") simp_all
  then have "c \<noteq> CHR ''-''" "c \<noteq> CHR ''+''" using digits_hd [of c "nat n"] by auto
  then have "parseInt64 (digits (nat n)) = Some (int (nat n))"
    using assms False digitsVal_digits [of "nat n"] by (simp add: parseInt64_def c Let_def)
  then show ?thesis using False by (simp add: Itoa_def)
qed

lemma Split_plain: "sep \<notin> set s \<Longrightarrow> Split sep s = [s]"
  by (induction s) auto

lemma Split_sep: "sep \<notin> set s \<Longrightarrow> Split sep (s @ sep # t) = s # Split sep t"
  by (induction s) auto

lemma Itoa_slash: "CHR ''/'' \<notin> set (Itoa n)"
  using digits_hd by (auto simp: Itoa_def)

definition messagesPath :: "string \<Rightarrow> int \<Rightarrow> string" where
  "messagesPath topic part = ''/api/topics/'' @ topic @ ''/partitions/'' @ Itoa part @ ''/messages''"

lemma messagesPath_parts:
  assumes "CHR ''/'' \<notin> set topic"
  shows "Split (CHR ''/'') (TrimPrefix (messagesPath topic part) ''/api/topics/'') = [topic, ''partitions'', Itoa part, ''messages'']"
proof -
  have "TrimPrefix (messagesPath topic part) ''/api/topics/'' = topic @ CHR ''/'' # (''partitions'' @ CHR ''/'' # (Itoa part @ CHR ''/'' # ''messages''))"
    unfolding messagesPath_def TrimPrefix_append by simp
  moreover have "CHR ''/'' \<notin> set ''partitions''" "CHR ''/'' \<notin> set ''messages''" by simp_all
  ultimately show ?thesis using assms Itoa_slash [of part] by (simp only: Split_sep Split_plain not_False_eq_True)
qed

lemma Register_messages:
  assumes "CHR ''/'' \<notin> set topic" "inS 64 part" "hr_Path r = messagesPath topic part"
  shows "Register_http h env b r =
    (if hr_Method r = ''OPTIONS'' then reply b (WriteHeader 204)
     else if hr_Method r = ''GET'' then partitionMessages env b r topic part
     else if hr_Method r = ''POST'' then partitionProduce env b r topic part
     else reply b (WriteHeader 405))"
proof -
  have "HasPrefix (messagesPath topic part) ''/api/topics/''" unfolding messagesPath_def by (rule TrimPrefix_append)
  moreover have "\<not> HasPrefix (messagesPath topic part) ''/api/consumers/''" "messagesPath topic part \<noteq> ''/api/broker''"
    "messagesPath topic part \<noteq> ''/api/summary''" "messagesPath topic part \<noteq> ''/api/topics''" "messagesPath topic part \<noteq> ''/api/consumers''"
    "messagesPath topic part \<noteq> ''/api/cluster''" "messagesPath topic part \<noteq> ''/api/controller''" "messagesPath topic part \<noteq> ''/api/controller/brokers''"
    by (simp_all add: messagesPath_def HasPrefix_def)
  ultimately have "Register_http h env b r = withCORS (handleTopicPaths h env) b r"
    unfolding Register_http_def Let_def assms(3) by (simp only: if_False if_True)
  then show ?thesis using messagesPath_parts [OF assms(1), of part] parseInt64_Itoa [OF assms(2)]
    by (simp add: withCORS_def handleTopicPaths_def assms(3))
qed

section \<open>Producing and reading\<close>

text \<open>The key of a request, which need not have one.\<close>

definition decodeKey :: "string option \<Rightarrow> bytes option result" where
  "decodeKey ktext = (case ktext of None \<Rightarrow> Inr None | Some k \<Rightarrow> bindE (decodeMaybeBase64 k) (\<lambda>key. Inr (Some key)))"

lemma newRecord_value [simp]: "r_Value (newRecord time key val contentType) = Some val" "r_Key (newRecord time key val contentType) = key"
  by (simp_all add: newRecord_def applyContentType_def Let_def)

lemma partitionProduce_ok:
  assumes "hr_Method r = ''POST''" "decodePartitionProduce (hr_Body r) = Inr \<lparr>pq_Key = ktext, pq_Value = text, pq_ContentType = contentType\<rparr>" "text \<noteq> ''''"
    and "decodeMaybeBase64 text = Inr val" "decodeKey ktext = Inr key"
    and "Produce (he_ctx env) (he_clock env) (he_now env) b topic part [newRecord (he_time env) key val contentType] = (b', base, None)"
  shows "partitionProduce env b r topic part = Some (b', [], writeJSON (producedJSON part base))"
  using assms by (cases ktext) (auto simp: partitionProduce_def reply_def decodeKey_def)

lemma partitionMessages_ok:
  assumes "hr_Method r = ''GET''" "parseLimit r = Some limit"
    and "FetchMessages (he_ctx env) b topic part (queryGet r ''offset'') limit = Some (start, [m], None)"
  shows "partitionMessages env b r topic part = Some (b, [], writeJSON (JArr (recordsResponse part [m])))"
  using assms by (simp add: partitionMessages_def reply_def sortSlice_def recordsResponse_def)

lemma recordsResponse_fields:
  assumes "recordsResponse part [m] = [x]"
  shows "jget ''offset'' x = Some (JNum (r_Offset m))" "jget ''key'' x = Some (JStr (encodeMaybeBase64 (case r_Key m of None \<Rightarrow> [] | Some k \<Rightarrow> k)))"
    "jget ''value'' x = Some (JStr (encodeRecordValue (case r_Value m of None \<Rightarrow> [] | Some v \<Rightarrow> v) (r_Headers m)))"
  using assms by (auto simp: recordsResponse_def map_of_append split: option.splits)

text \<open>What is shown is text, so that the encoder leaves it as it is; a value that is text is shown as such when it has no content type.\<close>

lemma shown_text:
  "utf8String (encodeMaybeBase64 b)" "utf8String (encodeRecordValue b headers)"
  "utf8Valid b \<Longrightarrow> encodeMaybeBase64 b = bytes_string b"
  using shown64_utf8 [of b] by (auto simp: encodeMaybeBase64_def encodeRecordValue_def utf8String_def split: option.split)

lemma plain_value: "TrimSpace contentType = '''' \<Longrightarrow> encodeRecordValue val (r_Headers (newRecord time key val contentType)) = encodeMaybeBase64 val"
  by (simp add: newRecord_def applyContentType_def encodeRecordValue_def recordContentType_def)

text \<open>C15: what is posted is shown.  A message, with a key or without one, that is posted to the messages of a partition which the broker
  leads is appended and answered with its offset.  A read of that very offset right afterwards, with a limit of one, shows exactly this
  message: the offset, a key and a value.  Key and value are shown as text that JSON carries unchanged: as themselves if they
  are UTF-8 (and, for the value, no content type was given), and in general so that decoding what is shown gives back the bytes posted,
  unless these are UTF-8 text that itself begins with the marker \<^verbatim>\<open>base64:\<close>.\<close>

theorem http_produce_then_read:
  assumes "serves b topic part l rss" "keepsAll (lg_cfg l)" "CHR ''/'' \<notin> set topic" "inS 64 part"
    and "hr_Path post = messagesPath topic part" "hr_Method post = ''POST''"
    and "decodePartitionProduce (hr_Body post) = Inr \<lparr>pq_Key = ktext, pq_Value = text, pq_ContentType = contentType\<rparr>" "text \<noteq> ''''"
    and "decodeMaybeBase64 text = Inr val" "decodeKey ktext = Inr key" "length val < 2 ^ 30"
    and "he_ctx env = (\<lambda>n. False)" "okSeg (lg_nextOffset l) [stamp (he_clock env 0) (newRecord (he_time env) key val contentType)]"
    and "hr_Path get = messagesPath topic part" "hr_Method get = ''GET''" "queryGet get ''limit'' = ''1''" "queryGet get ''offset'' = Itoa (lg_nextOffset l)"
  shows "\<exists>b' x shownKey shown. Register_http h env b post = Some (b', [], writeJSON (producedJSON part (lg_nextOffset l)))
    \<and> Register_http h env b' get = Some (b', [], writeJSON (JArr [x]))
    \<and> jget ''offset'' x = Some (JNum (lg_nextOffset l)) \<and> jget ''key'' x = Some (JStr shownKey) \<and> jget ''value'' x = Some (JStr shown)
    \<and> validString shownKey = shownKey \<and> validString shown = shown
    \<and> (utf8Valid val \<and> TrimSpace contentType = '''' \<longrightarrow> shown = bytes_string val)
    \<and> (utf8Valid (case key of None \<Rightarrow> [] | Some k \<Rightarrow> k) \<longrightarrow> shownKey = bytes_string (case key of None \<Rightarrow> [] | Some k \<Rightarrow> k))
    \<and> (\<not> (utf8Valid val \<and> HasPrefix (bytes_string val) ''base64:'') \<longrightarrow> decodeMaybeBase64 shown = Inr val)
    \<and> (\<forall>k. key = Some k \<and> \<not> (utf8Valid k \<and> HasPrefix (bytes_string k) ''base64:'') \<longrightarrow> decodeMaybeBase64 shownKey = Inr k)"
proof -
  let ?rec = "newRecord (he_time env) key val contentType"
  let ?m = "stored (lg_nextOffset l) (stamp (he_clock env 0) ?rec)"
  obtain b' l' rss' where p: "Produce (\<lambda>n. False) (he_clock env) (he_now env) b topic part [?rec] = (b', lg_nextOffset l, None)"
    and s': "serves b' topic part l' rss'" "lg_startOffset l' = lg_startOffset l" "lg_nextOffset l' = lg_nextOffset l + 1"
    and f: "\<And>maxBytes. inS 32 maxBytes \<Longrightarrow> maxBytes + int (blen (r_Value ?rec)) \<le> 2147483647 \<Longrightarrow>
       Fetch (\<lambda>n. False) b' topic part (lg_nextOffset l) maxBytes = Inr [?m]"
    by (rule Produce_one [where clock = "he_clock env" and now = "he_now env", OF assms(1,13,2)]) (rule that; blast)
  have hw: "HighWatermark l' = lg_nextOffset l" by (simp add: HighWatermark_next s'(3))
  have nx: "0 \<le> lg_nextOffset l" "lg_nextOffset l + 1 \<le> maxInt64Uint" using assms(13) by (auto simp: okSeg_def)
  then have in64: "inS 64 (lg_nextOffset l)" by (simp add: inS_def maxInt64Uint_def)
  have start: "lg_startOffset l \<le> lg_nextOffset l" using assms(1) represents_next by (fastforce simp: serves_def)
  have "FetchMessages (\<lambda>n. False) b' topic part (Itoa (lg_nextOffset l)) 1 = Some (HighWatermark l', [?m], None)"
    by (rule FetchMessages_last [OF s'(1)])
      (use f [of 10485760] assms(11) nx start hw s'(2) parseInt64_Itoa [OF in64] in64 in \<open>auto simp: inS_def\<close>)
  then have get: "partitionMessages env b' get topic part = Some (b', [], writeJSON (JArr (recordsResponse part [?m])))"
    using assms(12,15-17) by (intro partitionMessages_ok [of get 1]) (auto simp: parseLimit_def Let_def parseInt64_def digitVal_def inS_def)
  have post: "partitionProduce env b post topic part = Some (b', [], writeJSON (producedJSON part (lg_nextOffset l)))"
    using p assms(6-10,12) by (intro partitionProduce_ok) auto
  obtain x where x: "recordsResponse part [?m] = [x]" by (simp add: recordsResponse_def)
  let ?shown = "encodeRecordValue val (r_Headers ?rec)" and ?key = "case key of None \<Rightarrow> [] | Some k \<Rightarrow> k"
  have m: "r_Key ?m = key" "r_Headers ?m = r_Headers ?rec" by (simp_all add: stored_def)
  have "jget ''key'' x = Some (JStr (encodeMaybeBase64 ?key))" "jget ''value'' x = Some (JStr ?shown)" "jget ''offset'' x = Some (JNum (lg_nextOffset l))"
    using recordsResponse_fields [OF x] by (simp_all add: m)
  moreover have "validString (encodeMaybeBase64 ?key) = encodeMaybeBase64 ?key" "validString ?shown = ?shown" using shown_text(1,2) by simp_all
  moreover have "utf8Valid val \<and> TrimSpace contentType = '''' \<longrightarrow> ?shown = bytes_string val" by (simp add: plain_value shown_text(3))
  moreover have "utf8Valid ?key \<longrightarrow> encodeMaybeBase64 ?key = bytes_string ?key" using shown_text(3) by blast
  moreover have "\<not> (utf8Valid val \<and> HasPrefix (bytes_string val) ''base64:'') \<longrightarrow> decodeMaybeBase64 ?shown = Inr val" using shown_roundtrip(2) by blast
  moreover have "\<forall>k. key = Some k \<and> \<not> (utf8Valid k \<and> HasPrefix (bytes_string k) ''base64:'') \<longrightarrow> decodeMaybeBase64 (encodeMaybeBase64 ?key) = Inr k"
    using shown_roundtrip(1) by auto
  moreover have "Register_http h env b post = Some (b', [], writeJSON (producedJSON part (lg_nextOffset l)))"
    "Register_http h env b' get = Some (b', [], writeJSON (JArr [x]))"
    using get post x assms(6,15) by (simp_all add: Register_messages [OF assms(3,4,5)] Register_messages [OF assms(3,4,14)])
  ultimately show ?thesis by blast
qed

section \<open>Forwarding ends\<close>

definition partitionGet :: "outRequest \<Rightarrow> bool" where
  "partitionGet q \<longleftrightarrow> or_Method q = ''GET'' \<and>
     (\<exists>addr topic part query. or_URL q = ''http://'' @ addr @ ''/api/topics/'' @ PathEscape topic @ ''/partitions/'' @ Itoa part @ ''/messages'' @ query)"

definition stops :: "httpRequest \<Rightarrow> outRequest list \<Rightarrow> bool" where
  "stops r sent \<longleftrightarrow> (hr_Forwarded r \<noteq> '''' \<longrightarrow> sent = []) \<and> (hr_Method r = ''POST'' \<longrightarrow> length sent \<le> 3)
     \<and> (\<forall>q\<in>set sent. or_Forwarded q \<or> partitionGet q)"

lemma stops_Nil [simp]: "stops r []"
  by (simp add: stops_def)

lemma reply_sent [simp]: "reply b resp = Some (b', sent, resp') \<longleftrightarrow> b' = b \<and> sent = [] \<and> resp' = resp"
  by (auto simp: reply_def)

lemma forwardAttempts_stops:
  "forwardAttempts k h b n data l = (sent, ans) \<Longrightarrow> length sent \<le> k \<and> (\<forall>q\<in>set sent. or_Forwarded q)"
proof (induction k arbitrary: n l sent ans)
  case (Suc k)
  show ?case
  proof (cases "leaderTopicsURL h b l")
    case None
    then show ?thesis using Suc.prems by simp
  next
    case (Some x)
    then obtain url addr where x: "leaderTopicsURL h b l = Some (url, addr)" by (cases x) auto
    obtain qs ans0 where q: "forwardToURL h n ''POST'' url data = (qs, ans0)" by fastforce
    then have qs: "length qs \<le> 1" "\<forall>q\<in>set qs. or_Forwarded q"
      by (auto simp: forwardToURL_def forwardRequest_def newRequest_def split: option.splits)
    have rec: "length (qs @ sent') \<le> Suc k \<and> (\<forall>q\<in>set (qs @ sent'). or_Forwarded q)" if "forwardAttempts k h b n' data l' = (sent', ans')" for n' l' sent' ans'
      using Suc.IH [OF that] qs by auto
    have "sent = qs \<or> (\<exists>n' l' sent' ans'. forwardAttempts k h b n' data l' = (sent', ans') \<and> sent = qs @ sent')"
      using Suc.prems x q by (auto split: option.splits if_splits prod.splits)
    then show ?thesis using rec qs by fastforce
  qed
qed simp

lemma forwardCreateTopic_stops: "forwardCreateTopicToLeader h b r req l = (sent, ans) \<Longrightarrow> stops r sent"
  using forwardAttempts_stops by (fastforce simp: forwardCreateTopicToLeader_def stops_def split: if_splits)

lemma forwardTopicProduce_stops: "forwardTopicProduceToLeader h b r topic req l = (sent, ans) \<Longrightarrow> stops r sent"
  by (auto simp: forwardTopicProduceToLeader_def forwardToURL_def forwardRequest_def newRequest_def stops_def split: if_splits option.splits)

lemma forwardPartition_stops:
  assumes "forwardPartitionMessagesToLeader h b n r topic part leader = (sent, ans)"
  shows "(hr_Forwarded r \<noteq> '''' \<longrightarrow> sent = []) \<and> (\<forall>q\<in>set sent. partitionGet q)"
proof (cases "hr_Forwarded r \<noteq> '''' \<or> resolveTopicsAPIByBrokerID h b leader = None")
  case True
  then show ?thesis using assms by (auto simp: forwardPartitionMessagesToLeader_def split: if_splits)
next
  case False
  then obtain base where base: "resolveTopicsAPIByBrokerID h b leader = Some base" by auto
  then obtain addr where "base = ''http://'' @ addr @ ''/api/topics''"
    by (auto simp: resolveTopicsAPIByBrokerID_def split: if_splits option.splits sum.splits)
  moreover obtain query where "sent = [] \<or> sent = [\<lparr>or_Method = ''GET'', or_URL = base @ ''/'' @ PathEscape topic @ ''/partitions/'' @ Itoa part @ ''/messages'' @ query,
      or_Forwarded = False, or_Body = None\<rparr>]"
    using assms False base by (auto simp: forwardPartitionMessagesToLeader_def forwardRequest_def newRequest_def split: option.splits if_splits)
  ultimately show ?thesis using False by (elim disjE) (simp, auto simp: partitionGet_def)
qed

lemma collectMessages_stops:
  "collectMessages h env b r topic limit n pids all = Some (sent, res) \<Longrightarrow> (hr_Forwarded r \<noteq> '''' \<longrightarrow> sent = []) \<and> (\<forall>q\<in>set sent. partitionGet q)"
proof (induction pids arbitrary: n all sent res)
  case (Cons pid pids)
  obtain start msgs err where f: "FetchMessages (he_ctx env) b topic pid (queryGet r ''offset'') limit = Some (start, msgs, err)"
    using Cons.prems by (cases "FetchMessages (he_ctx env) b topic pid (queryGet r ''offset'') limit") auto
  show ?case
  proof (cases err)
    case None
    then show ?thesis using Cons f by auto
  next
    case (Some e)
    obtain s1 ans where s1: "(case e of NotLeaderError _ _ leader \<Rightarrow> forwardPartitionMessagesToLeader h b n r topic pid leader | _ \<Rightarrow> ([], None)) = (s1, ans)"
      by fastforce
    then have ok: "(hr_Forwarded r \<noteq> '''' \<longrightarrow> s1 = []) \<and> (\<forall>q\<in>set s1. partitionGet q)"
      by (cases e) (auto dest: forwardPartition_stops)
    have "sent = s1 \<or> (\<exists>m all' s2 res'. collectMessages h env b r topic limit m pids all' = Some (s2, res') \<and> sent = s1 @ s2)"
      using Cons.prems f Some s1 by (auto split: option.splits if_splits) blast
    then show ?thesis using ok Cons.IH by auto
  qed
qed simp

lemma topicMessagesAll_stops: "topicMessagesAll h env b r topic = Some (b', sent, resp) \<Longrightarrow> hr_Method r = ''GET'' \<Longrightarrow> stops r sent"
  using collectMessages_stops [of h env b r topic _ 0 _ "[]"]
  by (fastforce simp: topicMessagesAll_def stops_def Let_def split: option.splits sum.splits if_splits)

lemma topicProduceByKey_stops: "topicProduceByKey h env b r topic = Some (b', sent, resp) \<Longrightarrow> stops r sent"
  using forwardTopicProduce_stops
  by (fastforce simp: topicProduceByKey_def Let_def split: sum.splits if_splits option.splits prod.splits go_error.splits)

lemma handleCreateTopic_stops: "handleCreateTopic h env b r = Some (b', sent, resp) \<Longrightarrow> stops r sent"
  using forwardCreateTopic_stops
  by (fastforce simp: handleCreateTopic_def split: sum.splits if_splits option.splits prod.splits go_error.splits)

lemma single_replies:
  "handleBroker h b = Some (b', sent, resp) \<Longrightarrow> sent = []" "handleSummary env b r = Some (b', sent, resp) \<Longrightarrow> sent = []"
  "handleConsumers b r = Some (b', sent, resp) \<Longrightarrow> sent = []" "handleClusterMetadata h b r = Some (b', sent, resp) \<Longrightarrow> sent = []"
  "handleControllerStatus h b r = Some (b', sent, resp) \<Longrightarrow> sent = []" "topicDetail b name = Some (b', sent, resp) \<Longrightarrow> sent = []"
  "handleControllerRegisterBroker h b r = Some (b', sent, resp) \<Longrightarrow> sent = []"
  by (auto simp: handleBroker_def handleSummary_def handleConsumers_def handleClusterMetadata_def handleControllerStatus_def topicDetail_def
      handleControllerRegisterBroker_def Let_def split: if_splits option.splits prod.splits sum.splits)

lemma partition_replies:
  "partitionMessages env b r topic part = Some (b', sent, resp) \<Longrightarrow> sent = []" "partitionProduce env b r topic part = Some (b', sent, resp) \<Longrightarrow> sent = []"
  by (auto simp: partitionMessages_def partitionProduce_def split: if_splits option.splits prod.splits sum.splits go_error.splits)

lemma consumer_replies: "handleConsumerPaths env b r = Some (b', sent, resp) \<Longrightarrow> sent = []"
  by (auto simp: handleConsumerPaths_def handleConsumerCommittedOffset_def handleConsumerCommitOffset_def
      split: if_splits option.splits prod.splits sum.splits list.splits)

lemma topicPaths_stops: "handleTopicPaths h env b r = Some (b', sent, resp) \<Longrightarrow> stops r sent"
  using topicProduceByKey_stops topicMessagesAll_stops
  by (auto simp: handleTopicPaths_def topicMessages_def split: if_splits option.splits list.splits dest!: single_replies(6) partition_replies)

lemma topics_stops: "handleTopics h env b r = Some (b', sent, resp) \<Longrightarrow> stops r sent"
  using handleCreateTopic_stops by (auto simp: handleTopics_def split: if_splits)

lemma withCORS_stops:
  assumes "withCORS f b r = Some (b', sent, resp)" "f b r = Some (b', sent, resp) \<Longrightarrow> stops r sent"
  shows "stops r sent"
  using assms by (auto simp: withCORS_def split: if_splits)

lemma Register_stops:
  assumes "Register_http h env b r = Some (b', sent, resp)"
  shows "stops r sent"
  using assms unfolding Register_http_def Let_def
  by (auto split: if_splits dest!: single_replies consumer_replies
      elim!: withCORS_stops intro: topicPaths_stops topics_stops)

text \<open>C37: forwarding ends.  A request that another broker has forwarded is never sent on; a request that posts is sent to at most three
  others, always marked as forwarded; the only requests that are sent without the mark ask for the messages of one partition, and such a request
  is answered without asking anyone.\<close>

theorem forwarding_stops:
  assumes "Register_http h env b r = Some (b', sent, resp)"
  shows "(hr_Forwarded r \<noteq> '''' \<longrightarrow> sent = []) \<and> (hr_Method r = ''POST'' \<longrightarrow> length sent \<le> 3) \<and> (\<forall>q\<in>set sent. or_Forwarded q \<or> partitionGet q)
    \<and> (\<forall>topic part. CHR ''/'' \<notin> set topic \<and> inS 64 part \<and> hr_Path r = messagesPath topic part \<longrightarrow> sent = [])"
proof -
  have "sent = []" if "CHR ''/'' \<notin> set topic" "inS 64 part" "hr_Path r = messagesPath topic part" for topic part
    using assms partition_replies unfolding Register_messages [OF that] by (fastforce split: if_splits)
  then show ?thesis using Register_stops [OF assms] by (auto simp: stops_def)
qed

section \<open>Newest first\<close>

lemma mset_insertBy [simp]: "mset (insertBy before x xs) = add_mset x (mset xs)"
  by (induction xs) auto

lemma mset_sortSlice [simp]: "mset (sortSlice before xs) = mset xs"
  by (induction xs) (simp_all add: sortSlice_def)

lemma sorted_insertBy:
  assumes trans: "\<And>x y z. \<not> before y x \<Longrightarrow> \<not> before z y \<Longrightarrow> \<not> before z x" and asym: "\<And>x y. before x y \<Longrightarrow> \<not> before y x"
  shows "sorted_wrt (\<lambda>x y. \<not> before y x) ys \<Longrightarrow> sorted_wrt (\<lambda>x y. \<not> before y x) (insertBy before x ys)"
proof (induction ys)
  case (Cons y ys)
  have s: "set (insertBy before x ys) = insert x (set ys)" by (metis mset_insertBy set_mset_add_mset_insert set_mset_mset)
  have y: "\<forall>z\<in>set ys. \<not> before z y" using Cons.prems by simp
  show ?case
  proof (cases "before y x")
    case True
    then show ?thesis using Cons y s asym [OF True] by simp
  next
    case False
    then have "\<forall>z\<in>set ys. \<not> before z x" using y trans [OF False] by blast
    then show ?thesis using False Cons.prems by simp
  qed
qed simp

lemma sorted_sortSlice:
  assumes "\<And>x y z. \<not> before y x \<Longrightarrow> \<not> before z y \<Longrightarrow> \<not> before z x" "\<And>x y. before x y \<Longrightarrow> \<not> before y x"
  shows "sorted_wrt (\<lambda>x y. \<not> before y x) (sortSlice before xs)"
  unfolding sortSlice_def by (induction xs) (simp_all add: sorted_insertBy [OF assms])

lemma newerFirst_order:
  "\<not> newerFirst y x \<Longrightarrow> \<not> newerFirst z y \<Longrightarrow> \<not> newerFirst z x" "newerFirst x y \<Longrightarrow> \<not> newerFirst y x"
  by (auto simp: newerFirst_def Let_def split: if_splits)

lemma newerFirst_spec:
  "(\<not> newerFirst y x) = (let tx = timestampText (jget ''timestamp'' x); ty = timestampText (jget ''timestamp'' y)
     in ty < tx \<or> ty = tx \<and> offsetInt64 (jget ''offset'' y) \<le> offsetInt64 (jget ''offset'' x))"
  by (auto simp: newerFirst_def Let_def)

lemma collectMessages_error:
  "collectMessages h env b r topic limit n pids all = Some (sent, Inl resp) \<Longrightarrow> hs_Status resp \<noteq> 200"
proof (induction pids arbitrary: n all sent)
  case (Cons pid pids)
  then show ?case
    by (auto simp: Let_def http_Error_def split: option.splits if_splits prod.splits)
qed simp

text \<open>C38: the messages of a topic are shown newest first, as many as asked for.  Of the messages collected from all partitions, here and from
  their leaders, the response has at most the limit, and fewer only if there are no more; they are in order of time and then of offset, newest first,
  and none that is left out is newer than one that is shown.\<close>

theorem topic_messages_newest_first:
  assumes "topicMessagesAll h env b r topic = Some (b', sent, writeJSON (JArr xs))"
  shows "\<exists>limit pids all rest. parseLimit r = Some limit \<and> topicPartitionIDs_http h b topic = Inr pids \<and> b' = b
    \<and> collectMessages h env b r topic limit 0 pids [] = Some (sent, Inr all) \<and> mset xs + mset rest = mset all
    \<and> int (length xs) \<le> limit \<and> (rest \<noteq> [] \<longrightarrow> int (length xs) = limit) \<and> sorted_wrt (\<lambda>x y. let tx = timestampText (jget ''timestamp'' x); ty = timestampText (jget ''timestamp'' y)
         in ty < tx \<or> ty = tx \<and> offsetInt64 (jget ''offset'' y) \<le> offsetInt64 (jget ''offset'' x)) (xs @ rest)"
proof -
  obtain limit pids all where l: "parseLimit r = Some limit" "topicPartitionIDs_http h b topic = Inr pids" "b' = b"
    "collectMessages h env b r topic limit 0 pids [] = Some (sent, Inr all)"
    "xs = (if int (length (sortSlice newerFirst all)) > limit then take (nat limit) (sortSlice newerFirst all) else sortSlice newerFirst all)"
    using assms by (auto simp: topicMessagesAll_def writeJSON_def http_Error_def Let_def dest!: collectMessages_error
        split: option.splits sum.splits if_splits)
  have pos: "0 < limit" using l(1) by (auto simp: parseLimit_def Let_def split: if_splits option.splits)
  define rest where "rest = (if int (length (sortSlice newerFirst all)) > limit then drop (nat limit) (sortSlice newerFirst all) else [])"
  have app: "xs @ rest = sortSlice newerFirst all" by (simp add: l(5) rest_def)
  have "mset xs + mset rest = mset all" unfolding mset_append [symmetric] app by simp
  moreover have "sorted_wrt (\<lambda>x y. \<not> newerFirst y x) (xs @ rest)" unfolding app by (rule sorted_sortSlice, erule (1) newerFirst_order(1), erule newerFirst_order(2))
  moreover have "int (length xs) \<le> limit" "rest \<noteq> [] \<longrightarrow> int (length xs) = limit" using pos by (auto simp: l(5) rest_def)
  ultimately show ?thesis using l(1-4) unfolding newerFirst_spec by blast
qed

section \<open>Where the interface fails\<close>

text \<open>The summary blocks as soon as more than 32 partitions have been consumed: each is a series of the counter.\<close>

lemma summary_blocks: "length (he_consumed env) > 32 \<Longrightarrow> hr_Method r = ''GET'' \<Longrightarrow> handleSummary env b r = None"
  by (simp add: handleSummary_def sumCounter_def split: prod.split)

text \<open>A large limit panics before a message is read.\<close>

lemma large_limit_panics:
  assumes "parseLimit r = Some limit" "topicPartitionIDs_http h b topic = Inr [pid]" "2 ^ 45 < limit" "limit < 2 ^ 63"
  shows "topicMessagesAll h env b r topic = None"
proof -
  have "\<not> makesSlice (wrapS 64 (limit * int (length [pid])))" using assms(3,4) by (simp add: makesSlice_def wrapS_id inS_def)
  then show ?thesis using assms(1,2) by (simp add: topicMessagesAll_def)
qed

section \<open>Witnesses\<close>

definition exampleHandler :: "SingleNodeController Handler" where
  "exampleHandler = \<lparr>hd_cfg = MetadataStore.exampleConfig, hd_ctrl = None, hd_client = (\<lambda>n q. None), hd_urlHost = (\<lambda>s. None)\<rparr>"

definition exampleEnv :: httpEnv where
  "exampleEnv = \<lparr>he_ctx = (\<lambda>n. False), he_done = False, he_clock = (\<lambda>n. 0), he_now = 0, he_time = 5, he_mtime = (\<lambda>i. 0), he_consumed = [], he_errors = []\<rparr>"

definition exampleRead :: httpRequest where
  "exampleRead = \<lparr>hr_Method = ''GET'', hr_Path = ''/api/topics/t/partitions/0/messages'', hr_Query = [(''limit'', ''1''), (''offset'', ''0'')],
     hr_RawQuery = ''limit=1&offset=0'', hr_Forwarded = '''', hr_Body = None\<rparr>"

definition examplePost :: httpRequest where
  "examplePost = \<lparr>hr_Method = ''POST'', hr_Path = ''/api/topics/t/partitions/0/messages'', hr_Query = [], hr_RawQuery = '''', hr_Forwarded = '''',
     hr_Body = Some (JObj [(''Key'', JStr ''k''), (''Value'', JStr ''hi'')])\<rparr>"

definition exampleGet :: httpRequest where
  "exampleGet = \<lparr>hr_Method = ''GET'', hr_Path = ''/api/topics/t/partitions/0/messages'', hr_Query = [(''limit'', ''1'')], hr_RawQuery = ''limit=1'', hr_Forwarded = '''',
     hr_Body = None\<rparr>"

lemma examplePath: "messagesPath ''t'' 0 = ''/api/topics/t/partitions/0/messages''"
  by code_simp

lemma exampleDecoded: "decodePartitionProduce (hr_Body examplePost) = Inr \<lparr>pq_Key = Some ''k'', pq_Value = ''hi'', pq_ContentType = ''''\<rparr>"
  by code_simp

theorem http_produce_then_read_witness:
  "\<exists>l b' x. Register_http exampleHandler exampleEnv (oneLog l) examplePost = Some (b', [], writeJSON (producedJSON 0 0))
    \<and> Register_http exampleHandler exampleEnv b' exampleRead = Some (b', [], writeJSON (JArr [x]))
    \<and> jget ''offset'' x = Some (JNum 0) \<and> jget ''key'' x = Some (JStr ''k'') \<and> jget ''value'' x = Some (JStr ''hi'')"
proof -
  obtain l where l: "represents l [[]]" "lg_startOffset l = 0" "lg_nextOffset l = 0" "lg_cfg l = LogProperties.exampleConfig"
    by (rule exampleEmpty)
  have k: "keepsAll (lg_cfg l)" by (simp add: l(4) keepsAll_def LogProperties.exampleConfig_def)
  have v: "decodeMaybeBase64 ''hi'' = Inr (string_bytes ''hi'')" "decodeKey (Some ''k'') = Inr (Some (string_bytes ''k''))"
    by (simp_all add: decodeKey_def decodeMaybeBase64_def HasPrefix_def)
  have u: "utf8Valid (string_bytes ''hi'')" "utf8Valid (string_bytes ''k'')" "TrimSpace '''' = ''''" by code_simp+
  have room: "okSeg (lg_nextOffset l) [stamp (he_clock exampleEnv 0) (newRecord (he_time exampleEnv) (Some (string_bytes ''k'')) (string_bytes ''hi'') '''')]"
    by (simp add: l(3) okSeg_Cons okAt_def okLogRecord_def newRecord_def applyContentType_def TrimSpace_def TrimLeftSpace_def exampleEnv_def stamp_def isZero_def
        okField_def okLogHeaders_def maxInt64Uint_def writeRecordBytesField_def writeRecordHeaders_def toInt32Length_def)
  have z: "Itoa 0 = ''0''" by code_simp
  have p: "CHR ''/'' \<notin> set ''t''" "inS 64 0" "hr_Path examplePost = messagesPath ''t'' 0" "hr_Method examplePost = ''POST''" "''hi'' \<noteq> ''''"
    "length (string_bytes ''hi'') < 2 ^ 30" "he_ctx exampleEnv = (\<lambda>n. False)" "hr_Path exampleRead = messagesPath ''t'' 0"
    "hr_Method exampleRead = ''GET''" "queryGet exampleRead ''limit'' = ''1''" "queryGet exampleRead ''offset'' = Itoa (lg_nextOffset l)"
    by (simp_all add: inS_def examplePath examplePost_def exampleRead_def exampleEnv_def queryGet_def l(3) z)
  from http_produce_then_read [OF oneLog_serves [OF l(1)] k p(1,2,3,4) exampleDecoded p(5) v p(6) p(7) room p(8-11), of exampleHandler] u
  show ?thesis unfolding l(3) by (fastforce simp: bytes_string_def string_bytes_def)
qed

theorem forwarding_stops_witness:
  "\<exists>b' sent resp. Register_http exampleHandler exampleEnv ConsumerGroups.exampleBroker (examplePost\<lparr>hr_Path := ''/api/topics''\<rparr>) = Some (b', sent, resp) \<and> length sent \<le> 3"
proof -
  let ?r = "examplePost\<lparr>hr_Path := ''/api/topics''\<rparr>"
  have "decodeCreateTopic (hr_Body examplePost) = Inr \<lparr>cb_Name = '''', cb_Partitions = 0, cb_ReplicationFactor = 0, cb_RetentionBytes = 0, cb_RetentionHours = 0\<rparr>"
    by code_simp
  then have x: "Register_http exampleHandler exampleEnv ConsumerGroups.exampleBroker ?r =
      Some (ConsumerGroups.exampleBroker, [], http_Error ''name required and partitions>=1'' 400)"
    by (simp add: Register_http_def withCORS_def handleTopics_def handleCreateTopic_def reply_def) (simp add: examplePost_def)
  have "hr_Method ?r = ''POST''" by (simp add: examplePost_def)
  with forwarding_stops [OF x, THEN conjunct2, THEN conjunct1] have "length ([] :: outRequest list) \<le> 3" by (rule mp)
  with x show ?thesis by blast
qed

theorem topic_messages_newest_first_witness:
  "\<exists>l b' sent. topicMessagesAll exampleHandler exampleEnv (oneLog l) exampleGet ''t'' = Some (b', sent, writeJSON (JArr []))
    \<and> (\<exists>limit. parseLimit exampleGet = Some limit \<and> int (length ([] :: json list)) \<le> limit)"
proof -
  obtain l where l: "represents l [[]]" "lg_startOffset l = 0" "lg_nextOffset l = 0" "lg_cfg l = LogProperties.exampleConfig"
    by (rule exampleEmpty)
  have "Fetch (\<lambda>n. False) (oneLog l) ''t'' 0 0 10485760 = Inr []"
    using Fetch_serves [OF oneLog_serves [OF l(1)], of 10485760 0] by (simp add: inS_def smallValues_def fromOffset_def)
  moreover have "ListOffsets (oneLog l) ''t'' 0 = (0, -1, None)"
    using oneLog_serves [OF l(1)] l(2,3) by (auto simp: serves_def ListOffsets_def StartOffset_def HighWatermark_def)
  ultimately have f: "FetchMessages (\<lambda>n. False) (oneLog l) ''t'' 0 '''' 1 = Some (0, [], None)"
    by (simp add: FetchMessages_def Let_def wrapS_id inS_def)
  have ids: "topicPartitionIDs_http exampleHandler (oneLog l) ''t'' = Inr [0]"
    by (simp add: topicPartitionIDs_http_def ctrlOf_def exampleHandler_def TopicDetail_def oneLog_def ConsumerGroups.exampleBroker_def partitionInfo_def
        isClustered_def partitionAssignments_def topicAssignments_def clusterAssignmentsBestEffort_def clusterAssignments_def clusterMetadata_def Let_def
        List.map_filter_def)
  have lim: "parseLimit exampleGet = Some 1" "queryGet exampleGet ''offset'' = ''''" by code_simp+
  have x: "topicMessagesAll exampleHandler exampleEnv (oneLog l) exampleGet ''t'' = Some (oneLog l, [], writeJSON (JArr []))"
    using f ids lim by (simp add: topicMessagesAll_def exampleEnv_def makesSlice_def wrapS_id inS_def recordsResponse_def sortSlice_def Let_def)
  from topic_messages_newest_first [OF x] show ?thesis using x by (metis (no_types, lifting))
qed

end
