(* ===== verification/Flags.thy ===== *)
theory Flags
  imports HttpApi
begin

text \<open>
  Command-line flags as the three programs of the repository use them (\<^verbatim>\<open>flag.FlagSet\<close> with \<^verbatim>\<open>ContinueOnError\<close>): flags of type
  string, int and bool, their syntax, and integers with the prefixes and underscores of \<^verbatim>\<open>strconv.ParseInt\<close> in base 0.  What the package
  prints when it rejects an argument is not modelled.
\<close>

section \<open>Integers\<close>

definition baseDigit :: "char \<Rightarrow> nat option" where
  "baseDigit c = (let n = of_char c :: nat in
     if 48 \<le> n \<and> n \<le> 57 then Some (n - 48)
     else if 97 \<le> n \<and> n \<le> 122 then Some (n - 87)
     else if 65 \<le> n \<and> n \<le> 90 then Some (n - 55) else None)"

fun baseDigits :: "nat \<Rightarrow> nat \<Rightarrow> string \<Rightarrow> nat option" where
  "baseDigits base acc [] = Some acc"
| "baseDigits base acc (c # cs) =
    (if c = CHR ''_'' then baseDigits base acc cs
     else case baseDigit c of
       None \<Rightarrow> None
     | Some d \<Rightarrow> if d < base then baseDigits base (acc * base + d) cs else None)"

text \<open>\<^verbatim>\<open>underscoreOK\<close>: an underscore stands between digits, or between the prefix and a digit.\<close>

datatype sawChar = SawStart | SawDigit | SawUnderscore | SawOther

fun underscoresFrom :: "bool \<Rightarrow> sawChar \<Rightarrow> string \<Rightarrow> bool" where
  "underscoresFrom hex saw [] = (saw \<noteq> SawUnderscore)"
| "underscoresFrom hex saw (c # cs) =
    (let digit = (case baseDigit c of None \<Rightarrow> False | Some d \<Rightarrow> d < (if hex then 16 else 10)) in
     if digit then underscoresFrom hex SawDigit cs
     else if c = CHR ''_'' then saw = SawDigit \<and> underscoresFrom hex SawUnderscore cs
     else saw \<noteq> SawUnderscore \<and> underscoresFrom hex SawOther cs)"

definition hasPrefixChar :: "char \<Rightarrow> string \<Rightarrow> bool" where
  "hasPrefixChar p s \<longleftrightarrow> length s \<ge> 2 \<and> s ! 0 = CHR ''0'' \<and> lowerChar (s ! 1) = p"

definition underscoreOK :: "string \<Rightarrow> bool" where
  "underscoreOK s =
    (if list_ex (\<lambda>p. hasPrefixChar p s) ''box'' then underscoresFrom (hasPrefixChar (CHR ''x'') s) SawDigit (drop 2 s)
     else underscoresFrom False SawStart s)"

definition baseOf :: "string \<Rightarrow> nat \<times> string" where
  "baseOf s =
    (if s \<noteq> [] \<and> hd s = CHR ''0''
     then if length s \<ge> 3 \<and> hasPrefixChar (CHR ''b'') s then (2, drop 2 s)
          else if length s \<ge> 3 \<and> hasPrefixChar (CHR ''o'') s then (8, drop 2 s)
          else if length s \<ge> 3 \<and> hasPrefixChar (CHR ''x'') s then (16, drop 2 s)
          else (8, drop 1 s)
     else (10, s))"

definition parseUint0 :: "string \<Rightarrow> nat option" where
  "parseUint0 s =
    (if s = [] then None
     else let (base, ds) = baseOf s in
       case baseDigits base 0 ds of
         None \<Rightarrow> None
       | Some n \<Rightarrow> if CHR ''_'' \<in> set ds \<and> \<not> underscoreOK s then None else Some n)"

definition parseInt0 :: "string \<Rightarrow> int option" where
  "parseInt0 s =
    (let (neg, ds) = (case s of [] \<Rightarrow> (False, []) | c # cs \<Rightarrow>
           if c = CHR ''-'' then (True, cs) else if c = CHR ''+'' then (False, cs) else (False, s))
     in case parseUint0 ds of
          None \<Rightarrow> None
        | Some n \<Rightarrow> (let x = (if neg then - int n else int n) in if inS 64 x then Some x else None))"

section \<open>Flags\<close>

datatype flagValue = FString string | FInt int | FBool bool

type_synonym flagSet = "(string \<times> flagValue) list"

definition parseBool :: "string \<Rightarrow> bool option" where
  "parseBool s =
    (if s \<in> set [''1'', ''t'', ''T'', ''TRUE'', ''true'', ''True''] then Some True
     else if s \<in> set [''0'', ''f'', ''F'', ''FALSE'', ''false'', ''False''] then Some False else None)"

fun setFlag :: "flagValue \<Rightarrow> string \<Rightarrow> flagValue option" where
  "setFlag (FString _) s = Some (FString s)"
| "setFlag (FInt _) s = map_option FInt (parseInt0 s)"
| "setFlag (FBool _) s = map_option FBool (parseBool s)"

definition updateFlag :: "string \<Rightarrow> flagValue \<Rightarrow> flagSet \<Rightarrow> flagSet" where
  "updateFlag name v fs = map (\<lambda>(n, old). (n, if n = name then v else old)) fs"

text \<open>The name of a flag, and the value behind the first equals sign, which cannot be the first character.\<close>

definition splitEq :: "string \<Rightarrow> string \<times> string option" where
  "splitEq s =
    (let rest = dropWhile (\<lambda>c. c \<noteq> CHR ''='') s in (takeWhile (\<lambda>c. c \<noteq> CHR ''='') s, if rest = [] then None else Some (tl rest)))"

definition isFlagArg :: "string \<Rightarrow> bool" where
  "isFlagArg s \<longleftrightarrow> 2 \<le> length s \<and> hd s = CHR ''-''"

function parseFlags :: "flagSet \<Rightarrow> string list \<Rightarrow> flagSet result" where
  "parseFlags fs [] = Inr fs"
| "parseFlags fs (s # args) =
    (if \<not> isFlagArg s \<or> s = ''--'' then Inr fs
     else
       let arg = (if s ! 1 = CHR ''-'' then drop 2 s else drop 1 s) in
       if arg = [] \<or> hd arg = CHR ''-'' \<or> hd arg = CHR ''='' then Inl (Errorf ''bad flag syntax: %s'')
       else case map_of fs (fst (splitEq arg)) of
         None \<Rightarrow> Inl (Errorf (if fst (splitEq arg) \<in> {''help'', ''h''} then ''flag: help requested'' else ''flag provided but not defined: -%s''))
       | Some old \<Rightarrow>
         (case (case (old, snd (splitEq arg), args) of
              (FBool _, None, _) \<Rightarrow> Some (''true'', args)
            | (_, Some v, _) \<Rightarrow> Some (v, args)
            | (_, None, v # rest) \<Rightarrow> Some (v, rest)
            | (_, None, []) \<Rightarrow> None) of
            None \<Rightarrow> Inl (Errorf ''flag needs an argument: -%s'')
          | Some (v, rest) \<Rightarrow>
            (case setFlag old v of
               None \<Rightarrow> Inl (Errorf ''invalid value %q for flag -%s: %v'')
             | Some new \<Rightarrow> parseFlags (updateFlag (fst (splitEq arg)) new fs) rest)))"
  by pat_completeness auto
termination
  by (relation "measure (\<lambda>(fs, args). length args)") (auto split: flagValue.splits option.splits list.splits)

declare parseFlags.simps(2) [simp del]

definition getString :: "flagSet \<Rightarrow> string \<Rightarrow> string" where
  "getString fs name = (case map_of fs name of Some (FString s) \<Rightarrow> s | _ \<Rightarrow> '''')"

definition getInt :: "flagSet \<Rightarrow> string \<Rightarrow> int" where
  "getInt fs name = (case map_of fs name of Some (FInt n) \<Rightarrow> n | _ \<Rightarrow> 0)"

definition getBool :: "flagSet \<Rightarrow> string \<Rightarrow> bool" where
  "getBool fs name = (case map_of fs name of Some (FBool t) \<Rightarrow> t | _ \<Rightarrow> False)"

section \<open>What is written with flags is read\<close>

lemma baseDigit_char: "d < 10 \<Longrightarrow> baseDigit (char_of (48 + d)) = Some d \<and> char_of (48 + d) \<noteq> CHR ''_''"
proof -
  have "list_all (\<lambda>d. baseDigit (char_of (48 + d)) = Some d \<and> char_of (48 + d) \<noteq> CHR ''_'') [0..<10]" by code_simp
  then show "d < 10 \<Longrightarrow> ?thesis" by (simp add: list_all_iff)
qed

lemma baseDigits_append: "baseDigits base acc (xs @ ys) = (case baseDigits base acc xs of None \<Rightarrow> None | Some a \<Rightarrow> baseDigits base a ys)"
  by (induction xs arbitrary: acc) (auto split: option.split)

lemma baseDigits_digits: "baseDigits 10 0 (digits n) = Some n"
proof (induction n rule: digits.induct)
  case (1 n)
  have "n div 10 * 10 + n mod 10 = n" by presburger
  then show ?case using 1 by (subst digits.simps) (auto simp: baseDigits_append baseDigit_char)
qed

lemma digits_zero: "hd (digits n) = CHR ''0'' \<Longrightarrow> n = 0"
proof (induction n rule: digits.induct)
  case (1 n)
  show ?case
  proof (cases "n < 10")
    case True
    then have "digits n = [char_of (48 + n)]" by (subst digits.simps) simp
    moreover have "list_all (\<lambda>d. char_of (48 + d) = CHR ''0'' \<longrightarrow> d = 0) [0..<10]" by code_simp
    ultimately show ?thesis using True 1 by (auto simp: list_all_iff)
  next
    case False
    then have "hd (digits n) = hd (digits (n div 10))" by (subst digits.simps) simp
    then show ?thesis using 1 False by auto
  qed
qed

lemma digits_underscore: "CHR ''_'' \<notin> set (digits n)"
  using digits_range by force

lemma parseUint0_digits: "parseUint0 (digits n) = Some n"
proof (cases "n = 0")
  case True
  then show ?thesis by (simp add: digits.simps) code_simp
next
  case False
  then have "baseOf (digits n) = (10, digits n)" using digits_zero by (auto simp: baseOf_def)
  then show ?thesis using digits_underscore by (simp add: parseUint0_def baseDigits_digits)
qed

lemma parseInt0_Itoa:
  assumes "inS 64 n"
  shows "parseInt0 (Itoa n) = Some n"
proof (cases "n < 0")
  case True
  then show ?thesis using assms by (simp add: parseInt0_def Itoa_def Let_def parseUint0_digits)
next
  case False
  obtain c cs where c: "digits (nat n) = c # cs" by (cases "digits (nat n)") simp_all
  then have "c \<noteq> CHR ''-''" "c \<noteq> CHR ''+''" using digits_hd [of c "nat n"] by auto
  then have "parseInt0 (digits (nat n)) = Some (int (nat n))"
    using assms False parseUint0_digits [of "nat n"] by (simp add: parseInt0_def c Let_def)
  then show ?thesis using False by (simp add: Itoa_def)
qed

text \<open>One flag as an argument, and the values an argument can carry.\<close>

fun flagText :: "flagValue \<Rightarrow> string" where
  "flagText (FString s) = s"
| "flagText (FInt n) = Itoa n"
| "flagText (FBool t) = (if t then ''true'' else ''false'')"

definition showFlag :: "string \<times> flagValue \<Rightarrow> string" where
  "showFlag = (\<lambda>(name, v). ''--'' @ name @ ''='' @ flagText v)"

definition flagName :: "string \<Rightarrow> bool" where
  "flagName s \<longleftrightarrow> s \<noteq> [] \<and> hd s \<noteq> CHR ''-'' \<and> CHR ''='' \<notin> set s"

fun fitsFlag :: "flagValue \<Rightarrow> flagValue \<Rightarrow> bool" where
  "fitsFlag (FString _) (FString _) = True"
| "fitsFlag (FInt _) (FInt n) = inS 64 n"
| "fitsFlag (FBool _) (FBool _) = True"
| "fitsFlag _ _ = False"

lemma setFlag_text: "fitsFlag old v \<Longrightarrow> setFlag old (flagText v) = Some v"
  by (cases old; cases v) (auto simp: parseInt0_Itoa parseBool_def)

lemma splitEq_show: "CHR ''='' \<notin> set name \<Longrightarrow> splitEq (name @ CHR ''='' # v) = (name, Some v)"
proof -
  assume "CHR ''='' \<notin> set name"
  then have "takeWhile (\<lambda>c. c \<noteq> CHR ''='') (name @ CHR ''='' # v) = name \<and> dropWhile (\<lambda>c. c \<noteq> CHR ''='') (name @ CHR ''='' # v) = CHR ''='' # v"
    by (induction name) auto
  then show ?thesis by (simp add: splitEq_def)
qed

text \<open>An argument \<^verbatim>\<open>--name=value\<close> sets that flag.\<close>

lemma parseFlags_show:
  assumes "flagName name" "map_of fs name = Some old" "fitsFlag old v"
  shows "parseFlags fs (showFlag (name, v) # args) = parseFlags (updateFlag name v fs) args"
proof -
  have "splitEq (name @ CHR ''='' # flagText v) = (name, Some (flagText v))" using assms(1) by (simp add: splitEq_show flagName_def)
  moreover have "(case (old, Some (flagText v), args) of (FBool _, None, _) \<Rightarrow> Some (''true'', args) | (_, Some v, _) \<Rightarrow> Some (v, args)
            | (_, None, v # rest) \<Rightarrow> Some (v, rest) | (_, None, []) \<Rightarrow> None) = Some (flagText v, args)"
    by (cases old) auto
  moreover obtain c cs where "name = c # cs" "c \<noteq> CHR ''-''" "c \<noteq> CHR ''=''" using assms(1) by (cases name) (auto simp: flagName_def)
  ultimately show ?thesis using assms(2) setFlag_text [OF assms(3)] by (simp add: parseFlags.simps(2) showFlag_def isFlagArg_def)
qed
lemma parseFlags_arg:
  assumes "flagName name" "case map_of fs name of None \<Rightarrow> False | Some old \<Rightarrow> fitsFlag old v"
  shows "parseFlags fs (showFlag (name, v) # args) = parseFlags (updateFlag name v fs) args"
  using assms by (auto intro: parseFlags_show split: option.splits)

lemma updateFlag_at:
  assumes "distinct (map fst (xs @ (n, old) # ys))"
  shows "updateFlag n v (xs @ (n, old) # ys) = xs @ (n, v) # ys"
proof -
  have "map (\<lambda>(m, o'). (m, if m = n then v else o')) zs = zs" if "n \<notin> fst ` set zs" for zs :: flagSet
    using that by (induction zs) auto
  then show ?thesis using assms by (auto simp: updateFlag_def)
qed

lemma parseFlags_from:
  assumes "distinct (map fst (xs @ fs))" "list_all flagName (map fst fs)" "list_all2 (\<lambda>(n, old) (m, v). n = m \<and> fitsFlag old v) fs vs"
  shows "parseFlags (xs @ fs) (map showFlag vs) = Inr (xs @ vs)"
  using assms
proof (induction fs arbitrary: xs vs)
  case (Cons f fs)
  obtain n old where f: "f = (n, old)" by fastforce
  obtain v vs' where vs: "vs = (n, v) # vs'" "fitsFlag old v" "list_all2 (\<lambda>(n, old) (m, v). n = m \<and> fitsFlag old v) fs vs'"
    using Cons.prems(3) by (auto simp: f list_all2_Cons1)
  have "map_of (xs @ f # fs) n = Some old"
    using Cons.prems(1) by (subst map_of_eq_Some_iff) (simp_all add: f)
  moreover have "updateFlag n v (xs @ f # fs) = (xs @ [(n, v)]) @ fs" using updateFlag_at [of xs n old fs v] Cons.prems(1) by (simp add: f)
  moreover have "parseFlags ((xs @ [(n, v)]) @ fs) (map showFlag vs') = Inr ((xs @ [(n, v)]) @ vs')"
    using Cons.prems(1,2) vs(3) by (intro Cons.IH) (auto simp: f)
  ultimately show ?case using parseFlags_show [of n "xs @ f # fs" old v "map showFlag vs'"] Cons.prems(2) vs by (simp add: f)
qed simp

text \<open>flags are read as they are written.  For flags with names the package accepts, writing each of them with any value of its type as
  \<^verbatim>\<open>--name=value\<close>, whatever the characters of a string, parses to exactly these values.\<close>

theorem flags_roundtrip:
  assumes "distinct (map fst fs)" "list_all flagName (map fst fs)" "list_all2 (\<lambda>(n, old) (m, v). n = m \<and> fitsFlag old v) fs vs"
  shows "parseFlags fs (map showFlag vs) = Inr vs"
  using parseFlags_from [of "[]" fs vs] assms by simp

theorem flags_roundtrip_witness:
  "parseFlags [(''topic'', FString ''''), (''partition'', FInt 0), (''json'', FBool False)] [''--topic=a=b'', ''--partition=-7'', ''--json=true'']
    = Inr [(''topic'', FString ''a=b''), (''partition'', FInt (-7)), (''json'', FBool True)]"
proof -
  let ?fs = "[(''topic'', FString ''''), (''partition'', FInt 0), (''json'', FBool False)]"
  let ?vs = "[(''topic'', FString ''a=b''), (''partition'', FInt (-7)), (''json'', FBool True)]"
  have "map showFlag ?vs = [''--topic=a=b'', ''--partition=-7'', ''--json=true'']" by code_simp
  then show ?thesis using flags_roundtrip [of ?fs ?vs] by (simp add: flagName_def inS_def)
qed

end
