(* ===== verification/CommandLine.thy ===== *)
theory CommandLine
  imports Flags
begin

text \<open>
  The command-line client (\<^verbatim>\<open>cmd/mbctl/main.go\<close>): the commands, their flags and checks, the request each of them sends over its own
  connection, and what it prints.

  The state is that of whatever is behind the connections.  Output is a list of texts and of the JSON values that are written.
  A connection has the error of setting its deadline, of closing it, and answers the bytes written with the bytes that can then be read, or
  fails; a deadline that passes leaves fewer bytes to read.
\<close>

section \<open>Connections\<close>

record 's conn =
  cn_deadline :: "go_error option"
  cn_exchange :: "bytes \<Rightarrow> 's \<Rightarrow> 's \<times> bytes result"
  cn_close :: "go_error option"

definition sendRequest_ctl :: "(string \<Rightarrow> 's conn result) \<Rightarrow> string \<Rightarrow> APIKey \<Rightarrow> bytes result \<Rightarrow> 's \<Rightarrow> 's \<times> bytes result" where
  "sendRequest_ctl dial addr apiKey payloadFn s = (case dial addr of
       Inl e \<Rightarrow> (s, Inl e)
     | Inr conn \<Rightarrow>
       (case cn_deadline conn of
          Some e \<Rightarrow> (s, Inl e)
        | None \<Rightarrow>
          (case bindE payloadFn (encodeRequestFrame apiKey 1) of
             Inl e \<Rightarrow> (s, Inl e)
           | Inr frame \<Rightarrow>
             (case cn_exchange conn frame s of
                (s', Inl e) \<Rightarrow> (s', Inl e)
              | (s', Inr input) \<Rightarrow>
                (case decodeResponseFrame input of
                   Inl e \<Rightarrow> (s', Inl e)
                 | Inr ((_, _, respPayload), _) \<Rightarrow>
                   (s', case cn_close conn of Some e \<Rightarrow> Inl e | None \<Rightarrow> Inr respPayload))))))"

definition decoded :: "(bytes \<Rightarrow> 'p result) \<Rightarrow> 's \<times> bytes result \<Rightarrow> 's \<times> 'p result" where
  "decoded f = (\<lambda>(s, r). (s, bindE r f))"

definition sendCreateTopic :: "(string \<Rightarrow> 's conn result) \<Rightarrow> string \<Rightarrow> CreateTopicRequest \<Rightarrow> 's \<Rightarrow> 's \<times> CreateTopicResponse result" where
  "sendCreateTopic dial addr req s = decoded decodeCreateTopicResponse (sendRequest_ctl dial addr APIKeyCreateTopic (encodeCreateTopicRequest req) s)"

definition sendProduce :: "(nat \<Rightarrow> int) \<Rightarrow> (string \<Rightarrow> 's conn result) \<Rightarrow> string \<Rightarrow> ProduceRequest \<Rightarrow> 's \<Rightarrow> 's \<times> ProduceResponse result" where
  "sendProduce clock dial addr req s = decoded decodeProduceResponse (sendRequest_ctl dial addr APIKeyProduce (encodeProduceRequest clock req) s)"

definition sendFetch :: "(string \<Rightarrow> 's conn result) \<Rightarrow> string \<Rightarrow> FetchRequest \<Rightarrow> 's \<Rightarrow> 's \<times> FetchResponse result" where
  "sendFetch dial addr req s = decoded decodeFetchResponse (sendRequest_ctl dial addr APIKeyFetch (encodeFetchRequest req) s)"

definition sendMetadata :: "(string \<Rightarrow> 's conn result) \<Rightarrow> string \<Rightarrow> MetadataRequest \<Rightarrow> 's \<Rightarrow> 's \<times> MetadataResponse result" where
  "sendMetadata dial addr req s = decoded decodeMetadataResponse (sendRequest_ctl dial addr APIKeyMetadata (encodeMetadataRequest req) s)"

definition sendListOffsets :: "(string \<Rightarrow> 's conn result) \<Rightarrow> string \<Rightarrow> ListOffsetsRequest \<Rightarrow> 's \<Rightarrow> 's \<times> ListOffsetsResponse result" where
  "sendListOffsets dial addr req s = decoded decodeListOffsetsResponse (sendRequest_ctl dial addr APIKeyListOffsets (encodeListOffsetsRequest req) s)"

definition sendCommitOffset :: "(string \<Rightarrow> 's conn result) \<Rightarrow> string \<Rightarrow> CommitOffsetRequest \<Rightarrow> 's \<Rightarrow> 's \<times> CommitOffsetResponse result" where
  "sendCommitOffset dial addr req s = decoded decodeCommitOffsetResponse (sendRequest_ctl dial addr APIKeyCommitOffset (encodeCommitOffsetRequest req) s)"

definition sendFetchCommitted :: "(string \<Rightarrow> 's conn result) \<Rightarrow> string \<Rightarrow> FetchCommittedRequest \<Rightarrow> 's \<Rightarrow> 's \<times> FetchCommittedResponse result" where
  "sendFetchCommitted dial addr req s = decoded decodeFetchCommittedResponse (sendRequest_ctl dial addr APIKeyFetchCommitted (encodeFetchCommittedRequest req) s)"

definition sendPing :: "(string \<Rightarrow> 's conn result) \<Rightarrow> string \<Rightarrow> 's \<Rightarrow> 's \<times> PingResponse result" where
  "sendPing dial addr s = decoded decodePingResponse (sendRequest_ctl dial addr APIKeyPing (encodePingRequest PingRequest) s)"

section \<open>The context of a command\<close>

record 's commandContext =
  cx_now :: "nat \<Rightarrow> int"          \<comment> \<open>the clock at its n-th reading\<close>
  cx_createTopic :: "string \<Rightarrow> CreateTopicRequest \<Rightarrow> 's \<Rightarrow> 's \<times> CreateTopicResponse result"
  cx_produce :: "string \<Rightarrow> ProduceRequest \<Rightarrow> 's \<Rightarrow> 's \<times> ProduceResponse result"
  cx_fetch :: "string \<Rightarrow> FetchRequest \<Rightarrow> 's \<Rightarrow> 's \<times> FetchResponse result"
  cx_metadata :: "string \<Rightarrow> MetadataRequest \<Rightarrow> 's \<Rightarrow> 's \<times> MetadataResponse result"
  cx_listOffsets :: "string \<Rightarrow> ListOffsetsRequest \<Rightarrow> 's \<Rightarrow> 's \<times> ListOffsetsResponse result"
  cx_commitOffset :: "string \<Rightarrow> CommitOffsetRequest \<Rightarrow> 's \<Rightarrow> 's \<times> CommitOffsetResponse result"
  cx_fetchCommitted :: "string \<Rightarrow> FetchCommittedRequest \<Rightarrow> 's \<Rightarrow> 's \<times> FetchCommittedResponse result"
  cx_ping :: "string \<Rightarrow> 's \<Rightarrow> 's \<times> PingResponse result"

definition newCommandContext :: "(nat \<Rightarrow> int) \<Rightarrow> (nat \<Rightarrow> int) \<Rightarrow> (string \<Rightarrow> 's conn result) \<Rightarrow> 's commandContext" where
  "newCommandContext now clock dial = \<lparr>cx_now = now, cx_createTopic = sendCreateTopic dial, cx_produce = sendProduce clock dial,
     cx_fetch = sendFetch dial, cx_metadata = sendMetadata dial, cx_listOffsets = sendListOffsets dial, cx_commitOffset = sendCommitOffset dial,
     cx_fetchCommitted = sendFetchCommitted dial, cx_ping = sendPing dial\<rparr>"

datatype printed = Text string | JSONLine json

type_synonym 's ran = "'s \<times> printed list \<times> go_error option"

definition line :: "string \<Rightarrow> printed" where
  "line s = Text (s @ [char_of (10 :: nat)])"

text \<open>The common end of a command: an error of the call, an error code in the response, or the output.\<close>

definition finish :: "'s \<times> 'p result \<Rightarrow> ('p \<Rightarrow> ErrorCode) \<Rightarrow> ('p \<Rightarrow> printed list) \<Rightarrow> 's ran" where
  "finish answer code out = (case answer of
       (s, Inl e) \<Rightarrow> (s, [], Some e)
     | (s, Inr resp) \<Rightarrow> if code resp \<noteq> ErrNone then (s, [], Some (Errorf ''request failed: %v'')) else (s, out resp, None))"

section \<open>Flags and values\<close>

definition commonFlags :: flagSet where
  "commonFlags = [(''json'', FBool False), (''broker'', FString ''127.0.0.1:7912'')]"

definition toInt32_ctl :: "int \<Rightarrow> int result" where
  "toInt32_ctl v = (if v < 0 \<or> v > 2147483647 then Inl (Errorf ''%s out of int32 range: %d'') else Inr v)"

definition partitionRoleName :: "PartitionRole \<Rightarrow> string" where
  "partitionRoleName role = (if role = RoleLeader then ''leader'' else if role = RoleFollower then ''follower'' else ''unknown('' @ Itoa role @ '')'')"

text \<open>\<^verbatim>\<open>Duration.String\<close>, with the fraction of the given number of digits without its trailing zeros.\<close>

fun fracDigits :: "nat \<Rightarrow> nat \<Rightarrow> bool \<Rightarrow> string" where
  "fracDigits 0 u shown = (if shown then ''.'' else '''')"
| "fracDigits (Suc prec) u shown =
    (let shown' = (shown \<or> u mod 10 \<noteq> 0) in fracDigits prec (u div 10) shown' @ (if shown' then [char_of (48 + u mod 10)] else []))"

definition withFraction :: "nat \<Rightarrow> nat \<Rightarrow> string" where
  "withFraction prec u = digits (u div 10 ^ prec) @ fracDigits prec u False"

definition durationText :: "int \<Rightarrow> string" where
  "durationText d =
    (let u = nat \<bar>d\<bar>; secs = u div 1000000000;
         lastPart = digits (secs mod 60) @ fracDigits 9 u False @ ''s'';
         text =
           (if u = 0 then ''0s''
            else if u < 1000 then withFraction 0 u @ ''ns''
            else if u < 1000000 then withFraction 3 u @ [char_of (0xC2 :: nat), char_of (0xB5 :: nat)] @ ''s''
            else if u < 1000000000 then withFraction 6 u @ ''ms''
            else if secs < 60 then lastPart
            else if secs < 3600 then digits (secs div 60) @ ''m'' @ lastPart
            else digits (secs div 3600) @ ''h'' @ digits (secs div 60 mod 60) @ ''m'' @ lastPart)
     in if d < 0 then ''-'' @ text else text)"

section \<open>The commands\<close>

text \<open>The encoder writes text; bytes that are not UTF-8 it replaces.\<close>

definition writeJSON_ctl :: "json \<Rightarrow> printed" where
  "writeJSON_ctl v = JSONLine (validJSON v)"

definition okJSON :: "(string \<times> json) list \<Rightarrow> printed" where
  "okJSON kvs = writeJSON_ctl (JObj ((''ok'', JBool True) # kvs))"

lemma okJSON_eq: "okJSON kvs = JSONLine (JObj ((''ok'', JBool True) # map (\<lambda>(k, j). (k, validJSON j)) kvs))"
  by (simp add: okJSON_def writeJSON_ctl_def)

definition runCreateTopic :: "'s commandContext \<Rightarrow> string list \<Rightarrow> 's \<Rightarrow> 's ran" where
  "runCreateTopic ctx args s =
    (case parseFlags (commonFlags @ [(''topic'', FString ''''), (''partitions'', FInt 1), (''replication-factor'', FInt 1)]) args of
       Inl e \<Rightarrow> (s, [], Some e)
     | Inr fs \<Rightarrow>
       (let req = \<lparr>ctq_Topic = getString fs ''topic'', ctq_Partitions = getInt fs ''partitions'', ctq_ReplicationFactor = getInt fs ''replication-factor''\<rparr> in
        if ctq_Topic req = '''' then (s, [], Some (Errorf ''topic is required''))
        else finish (cx_createTopic ctx (getString fs ''broker'') req s) ctp_Error (\<lambda>resp.
          if getBool fs ''json''
          then [okJSON [(''topic'', JStr (ctq_Topic req)), (''partitions'', JNum (ctq_Partitions req)), (''replicationFactor'', JNum (ctq_ReplicationFactor req))]]
          else [line (''topic '' @ ctq_Topic req @ '' created (partitions='' @ Itoa (ctq_Partitions req) @ '' rf='' @ Itoa (ctq_ReplicationFactor req) @ '')'')])))"

definition runProduce :: "'s commandContext \<Rightarrow> string list \<Rightarrow> 's \<Rightarrow> 's ran" where
  "runProduce ctx args s =
    (case parseFlags (commonFlags @ [(''topic'', FString ''''), (''partition'', FInt 0), (''key'', FString ''''), (''value'', FString '''')]) args of
       Inl e \<Rightarrow> (s, [], Some e)
     | Inr fs \<Rightarrow>
       (let req = \<lparr>pq_Topic = getString fs ''topic'', pq_Partition = getInt fs ''partition'', pq_Records =
              [\<lparr>r_Offset = 0, r_Timestamp = Some (cx_now ctx 0), r_Key = Some (string_bytes (getString fs ''key'')),
                r_Value = Some (string_bytes (getString fs ''value'')), r_Headers = [], r_CRC32C = 0\<rparr>]\<rparr> in
        if pq_Topic req = '''' then (s, [], Some (Errorf ''topic is required''))
        else finish (cx_produce ctx (getString fs ''broker'') req s) pp_Error (\<lambda>resp.
          if getBool fs ''json'' then [okJSON [(''baseOffset'', JNum (pp_BaseOffset resp))]]
          else [line (''produced baseOffset='' @ Itoa (pp_BaseOffset resp))])))"

definition fieldText :: "bytes option \<Rightarrow> string" where
  "fieldText b = (case b of None \<Rightarrow> '''' | Some bs \<Rightarrow> bytes_string bs)"

definition fetchRecordJSON :: "Record \<Rightarrow> json" where
  "fetchRecordJSON r = JObj [(''offset'', JNum (r_Offset r)), (''key'', JStr (fieldText (r_Key r))), (''value'', JStr (fieldText (r_Value r)))]"

definition runFetch :: "'s commandContext \<Rightarrow> string list \<Rightarrow> 's \<Rightarrow> 's ran" where
  "runFetch ctx args s =
    (case parseFlags (commonFlags @ [(''topic'', FString ''''), (''partition'', FInt 0), (''offset'', FInt 0), (''max-bytes'', FInt 1048576)]) args of
       Inl e \<Rightarrow> (s, [], Some e)
     | Inr fs \<Rightarrow>
       (if getString fs ''topic'' = '''' then (s, [], Some (Errorf ''topic is required''))
        else case toInt32_ctl (getInt fs ''max-bytes'') of
          Inl e \<Rightarrow> (s, [], Some e)
        | Inr maxFetchBytes \<Rightarrow>
          finish (cx_fetch ctx (getString fs ''broker'') \<lparr>fq_Topic = getString fs ''topic'', fq_Partition = getInt fs ''partition'',
              fq_Offset = getInt fs ''offset'', fq_MaxBytes = maxFetchBytes\<rparr> s) fp_Error (\<lambda>resp.
            if getBool fs ''json''
            then [okJSON [(''highWatermark'', JNum (fp_HighWatermark resp)), (''records'', JArr (map fetchRecordJSON (fp_Records resp)))]]
            else map (\<lambda>r. line (''offset='' @ Itoa (r_Offset r) @ '' key='' @ fieldText (r_Key r) @ '' value='' @ fieldText (r_Value r))) (fp_Records resp))))"

definition metadataPartitionJSON :: "PartitionMetadata \<Rightarrow> json" where
  "metadataPartitionJSON m = (let r = pm_Replica m in JObj
     [(''topic'', JStr (pr_Topic r)), (''partition'', JNum (pr_Partition r)), (''brokerId'', JNum (pr_BrokerID r)), (''role'', JStr (partitionRoleName (pr_Role r))),
      (''leaderEpoch'', JNum (pr_LeaderEpoch r)), (''startOffset'', JNum (pm_StartOffset m)), (''highWatermark'', JNum (pm_HighWatermark m)),
      (''leader'', JNum (pm_Leader m)), (''replicas'', slice JNum (pm_Replicas m)), (''isr'', slice JNum (pm_ISR m))])"

definition metadataLine :: "PartitionMetadata \<Rightarrow> printed" where
  "metadataLine m = (let r = pm_Replica m in line
     (''topic='' @ pr_Topic r @ '' partition='' @ Itoa (pr_Partition r) @ '' broker='' @ Itoa (pr_BrokerID r) @ '' role='' @ Itoa (pr_Role r)
      @ '' epoch='' @ Itoa (pr_LeaderEpoch r) @ '' start='' @ Itoa (pm_StartOffset m) @ '' hwm='' @ Itoa (pm_HighWatermark m)))"

definition runMetadata :: "'s commandContext \<Rightarrow> string list \<Rightarrow> 's \<Rightarrow> 's ran" where
  "runMetadata ctx args s =
    (case parseFlags (commonFlags @ [(''topic'', FString '''')]) args of
       Inl e \<Rightarrow> (s, [], Some e)
     | Inr fs \<Rightarrow>
       (let topic = getString fs ''topic'' in
        finish (cx_metadata ctx (getString fs ''broker'') \<lparr>mq_Topics = (if topic \<noteq> '''' then [topic] else [])\<rparr> s) mp_Error (\<lambda>resp.
          if getBool fs ''json'' then [okJSON [(''partitions'', JArr (map metadataPartitionJSON (mp_Partitions resp)))]]
          else map metadataLine (mp_Partitions resp))))"

definition runListOffsets :: "'s commandContext \<Rightarrow> string list \<Rightarrow> 's \<Rightarrow> 's ran" where
  "runListOffsets ctx args s =
    (case parseFlags (commonFlags @ [(''topic'', FString ''''), (''partition'', FInt 0)]) args of
       Inl e \<Rightarrow> (s, [], Some e)
     | Inr fs \<Rightarrow>
       (if getString fs ''topic'' = '''' then (s, [], Some (Errorf ''topic is required''))
        else finish (cx_listOffsets ctx (getString fs ''broker'') \<lparr>lq_Topic = getString fs ''topic'', lq_Partition = getInt fs ''partition''\<rparr> s) lp_Error (\<lambda>resp.
          if getBool fs ''json'' then [okJSON [(''earliest'', JNum (lp_Earliest resp)), (''latest'', JNum (lp_Latest resp))]]
          else [line (''earliest='' @ Itoa (lp_Earliest resp) @ '' latest='' @ Itoa (lp_Latest resp))])))"

definition runCommitOffset :: "'s commandContext \<Rightarrow> string list \<Rightarrow> 's \<Rightarrow> 's ran" where
  "runCommitOffset ctx args s =
    (case parseFlags (commonFlags @ [(''group'', FString ''''), (''topic'', FString ''''), (''partition'', FInt 0), (''offset'', FInt 0)]) args of
       Inl e \<Rightarrow> (s, [], Some e)
     | Inr fs \<Rightarrow>
       (if getString fs ''group'' = '''' \<or> getString fs ''topic'' = '''' then (s, [], Some (Errorf ''group and topic are required''))
        else finish (cx_commitOffset ctx (getString fs ''broker'') \<lparr>coq_Group = getString fs ''group'', coq_Topic = getString fs ''topic'',
            coq_Partition = getInt fs ''partition'', coq_Offset = getInt fs ''offset''\<rparr> s) cop_Error (\<lambda>resp.
          if getBool fs ''json'' then [okJSON []] else [line ''commit-offset ok''])))"

definition runFetchCommitted :: "'s commandContext \<Rightarrow> string list \<Rightarrow> 's \<Rightarrow> 's ran" where
  "runFetchCommitted ctx args s =
    (case parseFlags (commonFlags @ [(''group'', FString ''''), (''topic'', FString ''''), (''partition'', FInt 0)]) args of
       Inl e \<Rightarrow> (s, [], Some e)
     | Inr fs \<Rightarrow>
       (if getString fs ''group'' = '''' \<or> getString fs ''topic'' = '''' then (s, [], Some (Errorf ''group and topic are required''))
        else finish (cx_fetchCommitted ctx (getString fs ''broker'') \<lparr>fcq_Group = getString fs ''group'', fcq_Topic = getString fs ''topic'',
            fcq_Partition = getInt fs ''partition''\<rparr> s) fcp_Error (\<lambda>resp.
          if getBool fs ''json'' then [okJSON [(''offset'', JNum (fcp_Offset resp))]] else [line (''committed offset='' @ Itoa (fcp_Offset resp))])))"

text \<open>\<^verbatim>\<open>Milliseconds\<close> divides towards zero.\<close>

definition milliseconds :: "int \<Rightarrow> int" where
  "milliseconds d = sgn d * (\<bar>d\<bar> div 1000000)"

definition runPing :: "'s commandContext \<Rightarrow> string list \<Rightarrow> 's \<Rightarrow> 's ran" where
  "runPing ctx args s =
    (case parseFlags commonFlags args of
       Inl e \<Rightarrow> (s, [], Some e)
     | Inr fs \<Rightarrow>
       (let rtt = cx_now ctx 1 - cx_now ctx 0 in
        finish (cx_ping ctx (getString fs ''broker'') s) pgp_Error (\<lambda>resp.
          if getBool fs ''json'' then [okJSON [(''rttMs'', JNum (milliseconds rtt))]] else [line (''pong rtt='' @ durationText rtt)])))"

section \<open>Choosing a command\<close>

record 's command =
  cmd_name :: string
  cmd_description :: string
  cmd_run :: "'s commandContext \<Rightarrow> string list \<Rightarrow> 's \<Rightarrow> 's ran"

definition commandList :: "'s command list" where
  "commandList =
    [\<lparr>cmd_name = ''create-topic'', cmd_description = ''Create a topic with partitions/replication'', cmd_run = runCreateTopic\<rparr>,
     \<lparr>cmd_name = ''produce'', cmd_description = ''Produce one or more messages'', cmd_run = runProduce\<rparr>,
     \<lparr>cmd_name = ''fetch'', cmd_description = ''Fetch messages from a partition'', cmd_run = runFetch\<rparr>,
     \<lparr>cmd_name = ''metadata'', cmd_description = ''Get metadata for topics'', cmd_run = runMetadata\<rparr>,
     \<lparr>cmd_name = ''list-offsets'', cmd_description = ''Get earliest/latest offsets for a partition'', cmd_run = runListOffsets\<rparr>,
     \<lparr>cmd_name = ''commit-offset'', cmd_description = ''Commit offset for a consumer group'', cmd_run = runCommitOffset\<rparr>,
     \<lparr>cmd_name = ''fetch-committed'', cmd_description = ''Fetch committed offset for a consumer group'', cmd_run = runFetchCommitted\<rparr>,
     \<lparr>cmd_name = ''ping'', cmd_description = ''Ping broker'', cmd_run = runPing\<rparr>]"

definition findCommand :: "string \<Rightarrow> 's command option" where
  "findCommand name = find (\<lambda>cmd. cmd_name cmd = name) commandList"

definition usage :: string where
  "usage = ''Usage: mbctl <command> [options]'' @ [char_of (10 :: nat)] @ ''Commands:'' @ [char_of (10 :: nat)]
     @ concat (map (\<lambda>cmd. ''  '' @ cmd_name cmd @ replicate (14 - length (cmd_name cmd)) (CHR '' '') @ '' '' @ cmd_description cmd @ [char_of (10 :: nat)])
         (commandList :: unit command list))"

text \<open>The result has the state, the output, what is written to standard error, and the error; the name of the command in front of an error is not kept.\<close>

definition runCLIWithContext :: "'s commandContext \<Rightarrow> string list \<Rightarrow> 's \<Rightarrow> 's \<times> printed list \<times> string \<times> go_error option" where
  "runCLIWithContext ctx args s = (case args of
       [] \<Rightarrow> (s, [], usage, None)
     | name # rest \<Rightarrow>
       (if name \<in> set [''help'', ''-h'', ''--help''] then (s, [], usage, None)
        else case findCommand name of
          None \<Rightarrow> (s, [], usage, Some (Errorf ''unknown command: %q''))
        | Some cmd \<Rightarrow> (let (s', out, err) = cmd_run cmd ctx rest s in (s', out, '''', err))))"

definition runCLI :: "(nat \<Rightarrow> int) \<Rightarrow> (nat \<Rightarrow> int) \<Rightarrow> (string \<Rightarrow> 's conn result) \<Rightarrow> string list \<Rightarrow> 's \<Rightarrow> 's \<times> printed list \<times> string \<times> go_error option" where
  "runCLI now clock dial args s = runCLIWithContext (newCommandContext now clock dial) args s"

section \<open>Commands over a connection are calls of the broker\<close>

text \<open>A connection that the server of the binary protocol serves.\<close>

definition served_conn :: "'s BrokerAPI \<Rightarrow> 's conn" where
  "served_conn api = \<lparr>cn_deadline = None, cn_exchange = (\<lambda>frame s. let (s', out) = handleConnection api s frame in (s', Inr out)), cn_close = None\<rparr>"

lemma served_request:
  assumes "dial addr = Inr (served_conn api)" "okCalls clock api s [(1, q)]"
  obtains payload where "sendRequest_ctl dial addr (requestKey q) (encodeRequest clock q) s = (fst (serve api s (stampRequest clock q)), Inr payload)"
    and "decodeResponse (requestKey q) payload = Inr (wireResponse (snd (serve api s (stampRequest clock q))))"
proof -
  let ?p = "wireResponse (snd (serve api s (stampRequest clock q)))"
  obtain frame answer where f: "sendRequest clock (1, q) = Inr frame"
    and h: "\<And>conn. handleConnection api s (frame @ conn) = (let (s', out) = handleConnection api (fst (serve api s (stampRequest clock q))) conn in (s', answer @ out))"
    and r: "\<And>conn. readResponse (answer @ conn) = Inr ((requestKey q, 1, ?p), conn)"
    by (rule call_step [OF assms(2)]) (rule that)
  have out: "handleConnection api s frame = (fst (serve api s (stampRequest clock q)), answer)" using h [of "[]"] by simp
  obtain payload where d: "decodeResponseFrame answer = Inr ((requestKey q, 1, payload), [])" "decodeResponse (requestKey q) payload = Inr ?p"
    using r [of "[]"] by (auto simp: readResponse_def bindE_Inr_iff)
  have "bindE (encodeRequest clock q) (encodeRequestFrame (requestKey q) 1) = Inr frame" using f by (simp add: sendRequest_def)
  then have "sendRequest_ctl dial addr (requestKey q) (encodeRequest clock q) s = (fst (serve api s (stampRequest clock q)), Inr payload)"
    using assms(1) out d(1) by (simp add: sendRequest_ctl_def served_conn_def)
  then show ?thesis using d(2) that by blast
qed

text \<open>The calls without a connection; the checksums of fetched records are not sent.\<close>

definition directContext :: "(nat \<Rightarrow> int) \<Rightarrow> (nat \<Rightarrow> int) \<Rightarrow> 's BrokerAPI \<Rightarrow> 's commandContext" where
  "directContext now clock api = \<lparr>cx_now = now,
     cx_createTopic = (\<lambda>addr q s. case serve api s (CreateTopicQ q) of (s', CreateTopicP p) \<Rightarrow> (s', Inr p)),
     cx_produce = (\<lambda>addr q s. case serve api s (stampRequest clock (ProduceQ q)) of (s', ProduceP p) \<Rightarrow> (s', Inr p)),
     cx_fetch = (\<lambda>addr q s. case serve api s (FetchQ q) of (s', p) \<Rightarrow> (s', case wireResponse p of FetchP p' \<Rightarrow> Inr p')),
     cx_metadata = (\<lambda>addr q s. case serve api s (MetadataQ q) of (s', MetadataP p) \<Rightarrow> (s', Inr p)),
     cx_listOffsets = (\<lambda>addr q s. case serve api s (ListOffsetsQ q) of (s', ListOffsetsP p) \<Rightarrow> (s', Inr p)),
     cx_commitOffset = (\<lambda>addr q s. case serve api s (CommitOffsetQ q) of (s', CommitOffsetP p) \<Rightarrow> (s', Inr p)),
     cx_fetchCommitted = (\<lambda>addr q s. case serve api s (FetchCommittedQ q) of (s', FetchCommittedP p) \<Rightarrow> (s', Inr p)),
     cx_ping = (\<lambda>addr s. case serve api s (PingQ PingRequest) of (s', PingP p) \<Rightarrow> (s', Inr p))\<rparr>"

text \<open>The requests of a command line with their addresses: a context that notes a request and fails.\<close>

definition recorder :: "(nat \<Rightarrow> int) \<Rightarrow> (string \<times> Request) list commandContext" where
  "recorder now = \<lparr>cx_now = now,
     cx_createTopic = (\<lambda>addr q s. (s @ [(addr, CreateTopicQ q)], Inl EOF)), cx_produce = (\<lambda>addr q s. (s @ [(addr, ProduceQ q)], Inl EOF)),
     cx_fetch = (\<lambda>addr q s. (s @ [(addr, FetchQ q)], Inl EOF)), cx_metadata = (\<lambda>addr q s. (s @ [(addr, MetadataQ q)], Inl EOF)),
     cx_listOffsets = (\<lambda>addr q s. (s @ [(addr, ListOffsetsQ q)], Inl EOF)), cx_commitOffset = (\<lambda>addr q s. (s @ [(addr, CommitOffsetQ q)], Inl EOF)),
     cx_fetchCommitted = (\<lambda>addr q s. (s @ [(addr, FetchCommittedQ q)], Inl EOF)), cx_ping = (\<lambda>addr s. (s @ [(addr, PingQ PingRequest)], Inl EOF))\<rparr>"

definition requestsOf :: "(nat \<Rightarrow> int) \<Rightarrow> string list \<Rightarrow> (string \<times> Request) list" where
  "requestsOf now args = fst (runCLIWithContext (recorder now) args [])"

text \<open>Two contexts answer a request alike.\<close>

fun alike :: "'s commandContext \<Rightarrow> 's commandContext \<Rightarrow> 's \<Rightarrow> string \<Rightarrow> Request \<Rightarrow> bool" where
  "alike c d s addr (CreateTopicQ q) = (cx_createTopic c addr q s = cx_createTopic d addr q s)"
| "alike c d s addr (ProduceQ q) = (cx_produce c addr q s = cx_produce d addr q s)"
| "alike c d s addr (ProduceByKeyQ q) = True"
| "alike c d s addr (FetchQ q) = (cx_fetch c addr q s = cx_fetch d addr q s)"
| "alike c d s addr (ListOffsetsQ q) = (cx_listOffsets c addr q s = cx_listOffsets d addr q s)"
| "alike c d s addr (CommitOffsetQ q) = (cx_commitOffset c addr q s = cx_commitOffset d addr q s)"
| "alike c d s addr (FetchCommittedQ q) = (cx_fetchCommitted c addr q s = cx_fetchCommitted d addr q s)"
| "alike c d s addr (MetadataQ q) = (cx_metadata c addr q s = cx_metadata d addr q s)"
| "alike c d s addr (PingQ q) = (cx_ping c addr s = cx_ping d addr s)"

lemmas run_defs = runCreateTopic_def runProduce_def runFetch_def runMetadata_def runListOffsets_def runCommitOffset_def runFetchCommitted_def runPing_def

lemma finish_fst: "fst (finish (s, Inl e) code out) = s"
  by (simp add: finish_def)

lemma run_alike:
  assumes "cx_now c = now" "cx_now d = now"
  shows "\<forall>(addr, q)\<in>set (fst (runCreateTopic (recorder now) args [])). alike c d s addr q \<Longrightarrow> runCreateTopic c args s = runCreateTopic d args s"
    and "\<forall>(addr, q)\<in>set (fst (runProduce (recorder now) args [])). alike c d s addr q \<Longrightarrow> runProduce c args s = runProduce d args s"
    and "\<forall>(addr, q)\<in>set (fst (runFetch (recorder now) args [])). alike c d s addr q \<Longrightarrow> runFetch c args s = runFetch d args s"
    and "\<forall>(addr, q)\<in>set (fst (runMetadata (recorder now) args [])). alike c d s addr q \<Longrightarrow> runMetadata c args s = runMetadata d args s"
    and "\<forall>(addr, q)\<in>set (fst (runListOffsets (recorder now) args [])). alike c d s addr q \<Longrightarrow> runListOffsets c args s = runListOffsets d args s"
    and "\<forall>(addr, q)\<in>set (fst (runCommitOffset (recorder now) args [])). alike c d s addr q \<Longrightarrow> runCommitOffset c args s = runCommitOffset d args s"
    and "\<forall>(addr, q)\<in>set (fst (runFetchCommitted (recorder now) args [])). alike c d s addr q \<Longrightarrow> runFetchCommitted c args s = runFetchCommitted d args s"
    and "\<forall>(addr, q)\<in>set (fst (runPing (recorder now) args [])). alike c d s addr q \<Longrightarrow> runPing c args s = runPing d args s"
  using assms by (auto simp: run_defs recorder_def finish_fst Let_def split: sum.splits if_splits)

lemma findCommand_simps:
  "findCommand ''create-topic'' = Some (commandList ! 0)" "findCommand ''produce'' = Some (commandList ! 1)"
  "findCommand ''fetch'' = Some (commandList ! 2)" "findCommand ''metadata'' = Some (commandList ! 3)"
  "findCommand ''list-offsets'' = Some (commandList ! 4)" "findCommand ''commit-offset'' = Some (commandList ! 5)"
  "findCommand ''fetch-committed'' = Some (commandList ! 6)" "findCommand ''ping'' = Some (commandList ! 7)"
  by (simp_all add: findCommand_def commandList_def)

lemma commandList_run:
  "cmd_run (commandList ! 0) = runCreateTopic" "cmd_run (commandList ! 1) = runProduce" "cmd_run (commandList ! 2) = runFetch"
  "cmd_run (commandList ! 3) = runMetadata" "cmd_run (commandList ! 4) = runListOffsets" "cmd_run (commandList ! 5) = runCommitOffset"
  "cmd_run (commandList ! 6) = runFetchCommitted" "cmd_run (commandList ! 7) = runPing"
  by (simp_all add: commandList_def)

lemma findCommand_cases:
  obtains (known) "name \<in> set [''create-topic'', ''produce'', ''fetch'', ''metadata'', ''list-offsets'', ''commit-offset'', ''fetch-committed'', ''ping'']"
  | (unknown) "findCommand name = (None :: 'a command option)"
  by (cases "findCommand name :: 'a command option") (auto simp: findCommand_def commandList_def split: if_splits)

lemma runCLI_command:
  assumes "findCommand name = Some cmd" "name \<notin> set [''help'', ''-h'', ''--help'']"
  shows "runCLIWithContext c (name # rest) s = (let (s', out, err) = cmd_run cmd c rest s in (s', out, '''', err))"
  using assms by (simp add: runCLIWithContext_def)

lemmas runCLI_commands = findCommand_simps [THEN runCLI_command]

lemma runCLI_alike:
  assumes "cx_now c = now" "cx_now d = now" "\<forall>(addr, q)\<in>set (requestsOf now args). alike c d s addr q"
  shows "runCLIWithContext c args s = runCLIWithContext d args s"
proof (cases args)
  case (Cons name rest)
  show ?thesis
  proof (cases name rule: findCommand_cases [where ?'a = 'a])
    case known
    then show ?thesis using assms(3) run_alike [OF assms(1,2), of rest s]
      by (auto simp: Cons requestsOf_def runCLI_commands commandList_run commandList_run(2) [simplified] Let_def case_prod_beta)
  next
    case unknown
    then show ?thesis by (simp add: Cons runCLIWithContext_def)
  qed
qed (simp add: runCLIWithContext_def)

text \<open>Each call over a served connection is the call of the broker.\<close>

lemma served_alike:
  assumes "dial addr = Inr (served_conn api)" "okCalls clock api s [(1, q)]"
  shows "alike (newCommandContext now clock dial) (directContext now clock api) s addr q"
proof -
  obtain payload where p: "sendRequest_ctl dial addr (requestKey q) (encodeRequest clock q) s = (fst (serve api s (stampRequest clock q)), Inr payload)"
    "decodeResponse (requestKey q) payload = Inr (wireResponse (snd (serve api s (stampRequest clock q))))"
    by (rule served_request [where dial = dial, OF assms])
  show ?thesis
  proof (cases q)
    case (PingQ x)
    then have "q = PingQ PingRequest" by (cases x) simp
    then show ?thesis using p
      by (auto simp: newCommandContext_def directContext_def decoded_def decodeResponse_def APIKey_defs bindE_Inr_iff sendPing_def)
  qed (use p in \<open>auto simp: newCommandContext_def directContext_def decoded_def decodeResponse_def APIKey_defs bindE_Inr_iff
        sendCreateTopic_def sendProduce_def sendFetch_def sendMetadata_def sendListOffsets_def sendCommitOffset_def sendFetchCommitted_def
        split: prod.splits if_splits\<close>)
qed

text \<open>C39: the command line over the wire is the command line on the broker.  For any arguments, when the broker serves the address of the request
  and the request and its answer are within the limits of the format, running the command over a connection has the same effect on the broker,
  prints the same and returns the same error as calling the broker directly.\<close>

theorem cli_over_connection:
  assumes "\<forall>(addr, q)\<in>set (requestsOf now args). dial addr = Inr (served_conn api) \<and> okCalls clock api s [(1, q)]"
  shows "runCLI now clock dial args s = runCLIWithContext (directContext now clock api) args s"
  unfolding runCLI_def
proof (rule runCLI_alike [of _ now])
  show "\<forall>(addr, q)\<in>set (requestsOf now args). alike (newCommandContext now clock dial) (directContext now clock api) s addr q"
    using assms served_alike by (fast)
qed (simp_all add: newCommandContext_def directContext_def)
section \<open>From the command line to the log and back\<close>

text \<open>A broker as the server calls it.\<close>

definition logAPI :: "(nat \<Rightarrow> int) \<Rightarrow> int \<Rightarrow> 'c Broker BrokerAPI \<Rightarrow> bool" where
  "logAPI bclock bnow api \<longleftrightarrow> api_Produce api = Produce (\<lambda>n. False) bclock bnow
     \<and> api_Fetch api = (\<lambda>b topic part offset maxBytes. case Fetch (\<lambda>n. False) b topic part offset maxBytes of Inl e \<Rightarrow> (b, [], Some e) | Inr recs \<Rightarrow> (b, recs, None))
     \<and> api_ListOffsets api = (\<lambda>b topic part. (b, ListOffsets b topic part))"

definition produceArgs :: "string \<Rightarrow> int \<Rightarrow> string \<Rightarrow> string \<Rightarrow> string list" where
  "produceArgs topic part key val = ''produce'' # map showFlag
     [(''json'', FBool True), (''topic'', FString topic), (''partition'', FInt part), (''key'', FString key), (''value'', FString val)]"

definition fetchArgs :: "string \<Rightarrow> int \<Rightarrow> int \<Rightarrow> string list" where
  "fetchArgs topic part offset = ''fetch'' # map showFlag
     [(''json'', FBool True), (''topic'', FString topic), (''partition'', FInt part), (''offset'', FInt offset)]"

definition ctlRecord :: "int \<Rightarrow> string \<Rightarrow> string \<Rightarrow> Record" where
  "ctlRecord time key val = \<lparr>r_Offset = 0, r_Timestamp = Some time, r_Key = Some (string_bytes key), r_Value = Some (string_bytes val), r_Headers = [], r_CRC32C = 0\<rparr>"

definition produceQ :: "(nat \<Rightarrow> int) \<Rightarrow> string \<Rightarrow> int \<Rightarrow> string \<Rightarrow> string \<Rightarrow> Request" where
  "produceQ now topic part key val = ProduceQ \<lparr>pq_Topic = topic, pq_Partition = part, pq_Records = [ctlRecord (now 0) key val]\<rparr>"

definition fetchQ :: "string \<Rightarrow> int \<Rightarrow> int \<Rightarrow> Request" where
  "fetchQ topic part offset = FetchQ \<lparr>fq_Topic = topic, fq_Partition = part, fq_Offset = offset, fq_MaxBytes = 1048576\<rparr>"

lemma flagNames [simp]: "flagName ''json''" "flagName ''topic''" "flagName ''partition''" "flagName ''key''" "flagName ''value''" "flagName ''offset''"
  by (simp_all add: flagName_def)

lemma parse_produce:
  assumes "inS 64 part"
  shows "parseFlags (commonFlags @ [(''topic'', FString ''''), (''partition'', FInt 0), (''key'', FString ''''), (''value'', FString '''')]) (tl (produceArgs topic part key val))
   = Inr [(''json'', FBool True), (''broker'', FString ''127.0.0.1:7912''), (''topic'', FString topic), (''partition'', FInt part), (''key'', FString key), (''value'', FString val)]"
  using assms by (simp add: produceArgs_def commonFlags_def parseFlags_arg updateFlag_def)

lemma parse_fetch:
  assumes "inS 64 part" "inS 64 offset"
  shows "parseFlags (commonFlags @ [(''topic'', FString ''''), (''partition'', FInt 0), (''offset'', FInt 0), (''max-bytes'', FInt 1048576)]) (tl (fetchArgs topic part offset))
   = Inr [(''json'', FBool True), (''broker'', FString ''127.0.0.1:7912''), (''topic'', FString topic), (''partition'', FInt part), (''offset'', FInt offset), (''max-bytes'', FInt 1048576)]"
  using assms by (simp add: fetchArgs_def commonFlags_def parseFlags_arg updateFlag_def)

lemmas get_defs = getString_def getInt_def getBool_def

lemma runCLI_produce:
  assumes "inS 64 part" "topic \<noteq> ''''"
  shows "runCLIWithContext c (produceArgs topic part key val) s =
    (let (s', out, err) = finish (cx_produce c ''127.0.0.1:7912'' \<lparr>pq_Topic = topic, pq_Partition = part, pq_Records = [ctlRecord (cx_now c 0) key val]\<rparr> s)
       pp_Error (\<lambda>resp. [okJSON [(''baseOffset'', JNum (pp_BaseOffset resp))]]) in (s', out, '''', err))"
  using parse_produce [OF assms(1), of topic key val] assms(2) runCLI_commands(2) [of c "tl (produceArgs topic part key val)" s]
  by (simp add: commandList_run(2) [simplified] runProduce_def get_defs Let_def ctlRecord_def) (simp add: produceArgs_def)

lemma runCLI_fetch:
  assumes "inS 64 part" "inS 64 offset" "topic \<noteq> ''''"
  shows "runCLIWithContext c (fetchArgs topic part offset) s =
    (let (s', out, err) = finish (cx_fetch c ''127.0.0.1:7912'' \<lparr>fq_Topic = topic, fq_Partition = part, fq_Offset = offset, fq_MaxBytes = 1048576\<rparr> s)
       fp_Error (\<lambda>resp. [okJSON [(''highWatermark'', JNum (fp_HighWatermark resp)), (''records'', JArr (map fetchRecordJSON (fp_Records resp)))]]) in (s', out, '''', err))"
  using parse_fetch [OF assms(1,2), of topic] assms(3) runCLI_commands(3) [of c "tl (fetchArgs topic part offset)" s]
  by (simp add: commandList_run runFetch_def get_defs Let_def toInt32_ctl_def) (simp add: fetchArgs_def)
text \<open>The two calls on the broker itself.\<close>

lemma serve_produce_fetch:
  assumes s: "serves b topic part l rss" "keepsAll (lg_cfg l)" "logAPI bclock bnow api"
    and "length val \<le> 2 ^ 30" and ok: "okSeg (lg_nextOffset l) [ctlRecord (now 0) key val]"
  obtains b' where "serve api b (produceQ now topic part key val) = (b', ProduceP \<lparr>pp_BaseOffset = lg_nextOffset l, pp_Error = ErrNone\<rparr>)"
    and "serve api b' (fetchQ topic part (lg_nextOffset l)) = (b', FetchP \<lparr>fp_Records = [stored (lg_nextOffset l) (ctlRecord (now 0) key val)],
      fp_HighWatermark = lg_nextOffset l, fp_Error = ErrNone\<rparr>)"
proof -
  let ?rec = "ctlRecord (now 0) key val" and ?n = "lg_nextOffset l"
  have st: "stamp (bclock 0) ?rec = ?rec" by (simp add: stamp_def ctlRecord_def isZero_def)
  obtain b' l' rss' where p: "Produce (\<lambda>n. False) bclock bnow b topic part [?rec] = (b', ?n, None)" "serves b' topic part l' rss'" "lg_nextOffset l' = ?n + 1"
    and f: "\<And>maxBytes. inS 32 maxBytes \<Longrightarrow> maxBytes + int (blen (r_Value ?rec)) \<le> 2147483647 \<Longrightarrow>
       Fetch (\<lambda>n. False) b' topic part ?n maxBytes = Inr [stored ?n ?rec]"
    by (rule Produce_one [where clock = bclock and now = bnow, OF s(1) _ s(2), of ?rec]) (simp_all add: st ok)
  have "Fetch (\<lambda>n. False) b' topic part ?n 1048576 = Inr [stored ?n ?rec]" using assms(4) by (intro f) (simp_all add: inS_def ctlRecord_def blen_def)
  moreover have "ListOffsets b' topic part = (lg_startOffset l', ?n, None)"
    using p(2,3) by (auto simp: serves_def ListOffsets_def StartOffset_def HighWatermark_next)
  ultimately show ?thesis
    using s(3) p(1) by (intro that [of b']) (simp_all add: produceQ_def fetchQ_def logAPI_def mapError_def)
qed

lemma produceQ_stamped [simp]: "stampRequest clock (produceQ now topic part key val) = produceQ now topic part key val"
  by (simp add: produceQ_def stampRecords_def ctlRecord_def isZero_def)

lemma fetchQ_stamped [simp]: "stampRequest clock (fetchQ topic part offset) = fetchQ topic part offset"
  by (simp add: fetchQ_def)

text \<open>What \<^verbatim>\<open>mbctl fetch --json\<close> prints for one record.\<close>

definition printedRecord :: "int \<Rightarrow> string \<Rightarrow> string \<Rightarrow> printed" where
  "printedRecord offset key val = JSONLine (JObj [(''ok'', JBool True), (''highWatermark'', JNum offset),
     (''records'', JArr [JObj [(''offset'', JNum offset), (''key'', JStr key), (''value'', JStr val)]])])"

lemma okJSON_record:
  "okJSON [(''highWatermark'', JNum n), (''records'', JArr [JObj [(''offset'', JNum n), (''key'', JStr key), (''value'', JStr val)]])] =
    printedRecord n (validString key) (validString val)"
  by (simp add: okJSON_eq printedRecord_def)

text \<open>C13: what is produced from the command line is fetched from the command line.  On a broker that leads a partition, \<^verbatim>\<open>mbctl produce\<close> with
  any key and value, over a connection to the server, prints the next offset of the log; \<^verbatim>\<open>mbctl fetch\<close> at that offset then prints that
  record alone, with its offset as the high watermark and with the key and value as JSON can write them: those that are UTF-8
  as they were given, and otherwise with U+FFFD in the place of every byte that is not part of a character.\<close>

theorem cli_produce_then_fetch:
  assumes s: "serves b topic part l rss" "keepsAll (lg_cfg l)" "logAPI bclock bnow api" "dial ''127.0.0.1:7912'' = Inr (served_conn api)"
    and args: "topic \<noteq> ''''" "inS 64 part" "length val \<le> 2 ^ 30"
    and ok: "okSeg (lg_nextOffset l) [ctlRecord (now 0) key val]"
    and calls: "okCalls clock api b [(1, produceQ now topic part key val), (1, fetchQ topic part (lg_nextOffset l))]"
  shows "\<exists>b'. runCLI now clock dial (produceArgs topic part key val) b =
        (b', [JSONLine (JObj [(''ok'', JBool True), (''baseOffset'', JNum (lg_nextOffset l))])], '''', None)
    \<and> runCLI now clock dial (fetchArgs topic part (lg_nextOffset l)) b' =
        (b', [printedRecord (lg_nextOffset l) (validString key) (validString val)], '''', None)
    \<and> (utf8String key \<longrightarrow> validString key = key) \<and> (utf8String val \<longrightarrow> validString val = val)"
proof -
  let ?rec = "ctlRecord (now 0) key val" and ?n = "lg_nextOffset l" and ?ctx = "newCommandContext now clock dial"
  have n: "inS 64 ?n" using ok by (auto simp: okSeg_def inS_def maxInt64Uint_def)
  obtain b' where sp: "serve api b (produceQ now topic part key val) = (b', ProduceP \<lparr>pp_BaseOffset = ?n, pp_Error = ErrNone\<rparr>)"
    and sf: "serve api b' (fetchQ topic part ?n) = (b', FetchP \<lparr>fp_Records = [stored ?n ?rec], fp_HighWatermark = ?n, fp_Error = ErrNone\<rparr>)"
    by (rule serve_produce_fetch [where now = now, OF s(1-3) args(3) ok])
  have c: "okCalls clock api b [(1, produceQ now topic part key val)]" "okCalls clock api b' [(1, fetchQ topic part ?n)]"
    using calls by (simp_all add: sp)
  have "alike ?ctx (directContext now clock api) b ''127.0.0.1:7912'' (produceQ now topic part key val)"
    by (rule served_alike [where dial = dial, OF s(4) c(1)])
  then have 1: "cx_produce ?ctx ''127.0.0.1:7912'' \<lparr>pq_Topic = topic, pq_Partition = part, pq_Records = [?rec]\<rparr> b = (b', Inr \<lparr>pp_BaseOffset = ?n, pp_Error = ErrNone\<rparr>)"
    using sp produceQ_stamped [of clock now topic part key val] by (simp add: produceQ_def directContext_def del: serve.simps stampRequest.simps produceQ_stamped)
  have "alike ?ctx (directContext now clock api) b' ''127.0.0.1:7912'' (fetchQ topic part ?n)"
    by (rule served_alike [where dial = dial, OF s(4) c(2)])
  then have 2: "cx_fetch ?ctx ''127.0.0.1:7912'' \<lparr>fq_Topic = topic, fq_Partition = part, fq_Offset = ?n, fq_MaxBytes = 1048576\<rparr> b'
      = (b', Inr \<lparr>fp_Records = [wireRecord (stored ?n ?rec)], fp_HighWatermark = ?n, fp_Error = ErrNone\<rparr>)"
    using sf by (simp add: fetchQ_def directContext_def del: serve.simps)
  have shown: "fetchRecordJSON (wireRecord (stored ?n ?rec)) = JObj [(''offset'', JNum ?n), (''key'', JStr key), (''value'', JStr val)]"
    by (simp add: fetchRecordJSON_def wireRecord_def stored_def ctlRecord_def fieldText_def)
  have now: "cx_now ?ctx = now" by (simp add: newCommandContext_def)
  show ?thesis
    by (intro exI [of _ b']) (simp add: runCLI_def runCLI_produce [OF args(2,1)] runCLI_fetch [OF args(2) n args(1)] now 1 2 finish_def shown okJSON_eq printedRecord_def)
qed

section \<open>Witnesses\<close>

definition exampleAPI :: "SingleNodeController Broker BrokerAPI" where
  "exampleAPI = \<lparr>api_CreateTopic = (\<lambda>b t c. (b, Some TopicExists)), api_Produce = Produce (\<lambda>n. False) (\<lambda>n. 0) 0,
     api_ProduceByKey = (\<lambda>b t k rs. (b, 0, 0, Some TopicNotFound)),
     api_Fetch = (\<lambda>b topic part offset maxBytes. case Fetch (\<lambda>n. False) b topic part offset maxBytes of Inl e \<Rightarrow> (b, [], Some e) | Inr recs \<Rightarrow> (b, recs, None)),
     api_ListOffsets = (\<lambda>b topic part. (b, ListOffsets b topic part)), api_CommitOffset = (\<lambda>b g t p off. (b, Some TopicNotFound)),
     api_FetchCommitted = (\<lambda>b g t p. (b, 0, Some TopicNotFound)), api_Metadata = (\<lambda>b ts. (b, [], None))\<rparr>"

theorem cli_over_connection_witness:
  "runCLI (\<lambda>n. 0) (\<lambda>n. 0) (\<lambda>addr. Inr (served_conn offsetsOnly)) [''commit-offset'', ''--group=g'', ''--topic'', ''t'', ''-offset=0x2A''] (\<lambda>g. -1)
   = ((\<lambda>g. -1)(''g'' := 42), [line ''commit-offset ok''], '''', None)"
proof -
  let ?rest = "[''--group=g'', ''--topic'', ''t'', ''-offset=0x2A'']"
  let ?q = "CommitOffsetQ \<lparr>coq_Group = ''g'', coq_Topic = ''t'', coq_Partition = 0, coq_Offset = 42\<rparr>"
  have p: "parseFlags (commonFlags @ [(''group'', FString ''''), (''topic'', FString ''''), (''partition'', FInt 0), (''offset'', FInt 0)]) ?rest
    = Inr (commonFlags @ [(''group'', FString ''g''), (''topic'', FString ''t''), (''partition'', FInt 0), (''offset'', FInt 42)])"
    by code_simp
  have run: "runCLIWithContext c (''commit-offset'' # ?rest) s =
    (let (s', out, err) = finish (cx_commitOffset c ''127.0.0.1:7912'' \<lparr>coq_Group = ''g'', coq_Topic = ''t'', coq_Partition = 0, coq_Offset = 42\<rparr> s)
       cop_Error (\<lambda>resp. [line ''commit-offset ok'']) in (s', out, '''', err))" for c and s :: 's
    by (simp add: runCLI_commands commandList_run runCommitOffset_def p) (simp add: get_defs commonFlags_def)
  have req: "requestsOf (\<lambda>n. 0) (''commit-offset'' # ?rest) = [(''127.0.0.1:7912'', ?q)]"
    by (simp add: requestsOf_def run recorder_def finish_def)
  have ok: "okCalls (\<lambda>n. 0) offsetsOnly (\<lambda>g. -1) [(1, ?q)]" by (simp add: call_eval)
  have "runCLI (\<lambda>n. 0) (\<lambda>n. 0) (\<lambda>addr. Inr (served_conn offsetsOnly)) (''commit-offset'' # ?rest) (\<lambda>g. -1)
    = runCLIWithContext (directContext (\<lambda>n. 0) (\<lambda>n. 0) offsetsOnly) (''commit-offset'' # ?rest) (\<lambda>g. -1)"
    by (rule cli_over_connection) (simp add: req ok del: okCalls.simps)
  then show ?thesis by (simp add: run directContext_def finish_def offsetsOnly_def mapError_def)
qed

lemmas record_eval = encodeProduceRequest_def encodeProduceResponse_def encodeFetchRequest_def encodeFetchResponse_def putRecords_def putRecord_def
  encodeRecord_net_def putBytes_def putHeaders_def okRecords_def okRecord_def recordSize_def blen_def stampRecords_def isZero_def

theorem cli_produce_then_fetch_witness:
  "\<exists>l b'. runCLI (\<lambda>n. 5) (\<lambda>n. 0) (\<lambda>addr. Inr (served_conn exampleAPI)) (produceArgs ''t'' 0 ''k'' ''v'') (oneLog l)
      = (b', [JSONLine (JObj [(''ok'', JBool True), (''baseOffset'', JNum 0)])], '''', None)
    \<and> runCLI (\<lambda>n. 5) (\<lambda>n. 0) (\<lambda>addr. Inr (served_conn exampleAPI)) (fetchArgs ''t'' 0 0) b'
      = (b', [printedRecord 0 ''k'' ''v''], '''', None)"
proof -
  obtain l where l: "represents l [[]]" "lg_startOffset l = 0" "lg_nextOffset l = 0" "lg_cfg l = LogProperties.exampleConfig"
    by (rule exampleEmpty)
  have k: "keepsAll (lg_cfg l)" by (simp add: l(4) keepsAll_def LogProperties.exampleConfig_def)
  have api: "logAPI (\<lambda>n. 0) 0 exampleAPI" by (simp add: logAPI_def exampleAPI_def)
  have u: "utf8String ''k''" "utf8String ''v''" by code_simp+
  have room: "okSeg (lg_nextOffset l) [ctlRecord ((\<lambda>n. 5) 0) ''k'' ''v'']"
    by (simp add: l(3) okSeg_Cons okAt_def okLogRecord_def ctlRecord_def isZero_def okField_def okLogHeaders_def maxInt64Uint_def
        writeRecordBytesField_def writeRecordHeaders_def toInt32Length_def)
  note sv = oneLog_serves [OF l(1)]
  obtain b' where sp: "serve exampleAPI (oneLog l) (produceQ (\<lambda>n. 5) ''t'' 0 ''k'' ''v'') = (b', ProduceP \<lparr>pp_BaseOffset = lg_nextOffset l, pp_Error = ErrNone\<rparr>)"
    and sf: "serve exampleAPI b' (fetchQ ''t'' 0 (lg_nextOffset l)) = (b', FetchP \<lparr>fp_Records = [stored (lg_nextOffset l) (ctlRecord ((\<lambda>n. 5) 0) ''k'' ''v'')],
      fp_HighWatermark = lg_nextOffset l, fp_Error = ErrNone\<rparr>)"
    by (rule serve_produce_fetch [where now = "\<lambda>n. 5" and val = "''v''", OF sv k api _ room]) simp_all
  have "okCalls (\<lambda>n. 0) exampleAPI (oneLog l) [(1, produceQ (\<lambda>n. 5) ''t'' 0 ''k'' ''v''), (1, fetchQ ''t'' 0 (lg_nextOffset l))]"
    unfolding okCalls.simps produceQ_stamped fetchQ_stamped sp sf prod.case Let_def
    by (simp add: l(3) produceQ_def fetchQ_def call_eval record_eval wireRecord_def stored_def ctlRecord_def)
  from cli_produce_then_fetch [where dial = "\<lambda>addr. Inr (served_conn exampleAPI)" and now = "\<lambda>n. 5", OF sv k api HOL.refl _ _ _ room this] show ?thesis
    using u by (auto simp: l(3) inS_def)
qed

end
