(* ===== verification/Benchmark.thy ===== *)
theory Benchmark
  imports CommandLine
begin

text \<open>
  The load generator (\<^verbatim>\<open>cmd/mbbench/main.go\<close>): its flags and checks, the topic it creates first, and its producers, goroutines that
  take items from one queue and send one record for each over their own connection.  The steps of the producers interleave in any order.
  A panic, which ends the process, is \<open>None\<close>.
\<close>

section \<open>Configuration\<close>

record benchConfig =
  bf_brokerAddr :: string
  bf_topic :: string
  bf_partition :: int
  bf_messages :: int
  bf_valueSize :: int
  bf_concurrency :: int

definition validateBenchConfig :: "benchConfig \<Rightarrow> go_error option" where
  "validateBenchConfig cfg =
    (if bf_brokerAddr cfg = '''' then Some (Errorf ''broker is required'')
     else if bf_topic cfg = '''' then Some (Errorf ''topic is required'')
     else if bf_partition cfg < 0 then Some (Errorf ''partition must be >= 0'')
     else if bf_messages cfg \<le> 0 then Some (Errorf ''messages must be > 0'')
     else if bf_valueSize cfg \<le> 0 then Some (Errorf ''value-size must be > 0'')
     else if bf_concurrency cfg \<le> 0 then Some (Errorf ''concurrency must be > 0'')
     else None)"

definition parseFlags_bench :: "string list \<Rightarrow> benchConfig result" where
  "parseFlags_bench args =
    bindE (parseFlags [(''broker'', FString ''127.0.0.1:7912''), (''topic'', FString ''bench''), (''partition'', FInt 0), (''messages'', FInt 10000),
      (''value-size'', FInt 100), (''concurrency'', FInt 4)] args) (\<lambda>fs.
    let cfg = \<lparr>bf_brokerAddr = getString fs ''broker'', bf_topic = getString fs ''topic'', bf_partition = getInt fs ''partition'',
          bf_messages = getInt fs ''messages'', bf_valueSize = getInt fs ''value-size'', bf_concurrency = getInt fs ''concurrency''\<rparr>
    in case validateBenchConfig cfg of Some e \<Rightarrow> Inl e | None \<Rightarrow> Inr cfg)"

section \<open>One request on a connection\<close>

text \<open>A frame is written and the payload of the answer read; the connection stays open.\<close>

definition exchange :: "'s conn \<Rightarrow> bytes \<Rightarrow> 's \<Rightarrow> 's \<times> bytes result" where
  "exchange conn frame s = (case cn_exchange conn frame s of
       (s', Inl e) \<Rightarrow> (s', Inl e)
     | (s', Inr input) \<Rightarrow> (s', bindE (decodeResponseFrame input) (\<lambda>((_, _, respPayload), _). Inr respPayload)))"

definition createTopic_bench :: "(string \<Rightarrow> 's conn result) \<Rightarrow> string \<Rightarrow> string \<Rightarrow> int \<Rightarrow> 's \<Rightarrow> 's \<times> go_error option" where
  "createTopic_bench dial addr topic partitions s = (case dial addr of
       Inl e \<Rightarrow> (s, Some e)
     | Inr conn \<Rightarrow>
       (case bindE (encodeCreateTopicRequest \<lparr>ctq_Topic = topic, ctq_Partitions = partitions, ctq_ReplicationFactor = 1\<rparr>) (encodeRequestFrame APIKeyCreateTopic 1) of
          Inl e \<Rightarrow> (s, Some e)
        | Inr frame \<Rightarrow>
          (case exchange conn frame s of
             (s', r) \<Rightarrow> (s', (case bindE r decodeCreateTopicResponse of
                 Inl e \<Rightarrow> Some e
               | Inr resp \<Rightarrow> if ctp_Error resp \<noteq> ErrNone then Some (Errorf ''create topic error %v'') else None)))))"

text \<open>What becomes of one item: sent, refused, or a panic: a response that does not decode is nil, and its error code is logged.\<close>

definition produceItem :: "(nat \<Rightarrow> int) \<Rightarrow> benchConfig \<Rightarrow> 's conn \<Rightarrow> 's \<Rightarrow> ('s \<times> bool) option" where
  "produceItem clock cfg conn s =
    (case bindE (encodeProduceRequest clock \<lparr>pq_Topic = bf_topic cfg, pq_Partition = bf_partition cfg, pq_Records =
         [\<lparr>r_Offset = 0, r_Timestamp = None, r_Key = None, r_Value = Some (replicate (nat (bf_valueSize cfg)) 0), r_Headers = [], r_CRC32C = 0\<rparr>]\<rparr>)
         (encodeRequestFrame APIKeyProduce 1) of
       Inl e \<Rightarrow> Some (s, False)
     | Inr frame \<Rightarrow>
       (case exchange conn frame s of
          (s', Inl e) \<Rightarrow> Some (s', False)
        | (s', Inr respPayload) \<Rightarrow>
          (case decodeProduceResponse respPayload of
             Inl e \<Rightarrow> None
           | Inr resp \<Rightarrow> Some (s', pp_Error resp = ErrNone))))"

section \<open>Producers and statistics\<close>

record stats =
  sa_count :: nat
  sa_totalDur :: int
  sa_maxDur :: int

definition stats_add :: "int \<Rightarrow> stats \<Rightarrow> stats" where
  "stats_add d st = \<lparr>sa_count = Suc (sa_count st), sa_totalDur = wrapS 64 (sa_totalDur st + d), sa_maxDur = (if d > sa_maxDur st then d else sa_maxDur st)\<rparr>"

text \<open>A producer has not dialled, has a connection, or has returned: because it could not dial, the queue was empty, or an item failed.\<close>

datatype 's producer = Dialling | Connected "'s conn" | NoConnection | Drained | Gave_up

record 's bench =
  bn_state :: 's
  bn_work :: nat
  bn_stats :: stats
  bn_producers :: "'s producer list"

text \<open>One step of a producer: it dials, or takes an item and sends it, which lasts \<open>dur\<close>.\<close>

definition producerStep :: "(string \<Rightarrow> 's conn result) \<Rightarrow> benchConfig \<Rightarrow> nat \<times> int \<times> (nat \<Rightarrow> int) \<Rightarrow> 's bench \<Rightarrow> 's bench option" where
  "producerStep dial cfg = (\<lambda>(i, dur, clock) b.
    if i \<ge> length (bn_producers b) then Some b
    else case bn_producers b ! i of
      Dialling \<Rightarrow> Some (b\<lparr>bn_producers := (bn_producers b)[i := (case dial (bf_brokerAddr cfg) of Inl e \<Rightarrow> NoConnection | Inr conn \<Rightarrow> Connected conn)]\<rparr>)
    | Connected conn \<Rightarrow>
      (if bn_work b = 0 then Some (b\<lparr>bn_producers := (bn_producers b)[i := Drained]\<rparr>)
       else case produceItem clock cfg conn (bn_state b) of
         None \<Rightarrow> None
       | Some (s, True) \<Rightarrow> Some (b\<lparr>bn_state := s, bn_work := bn_work b - 1, bn_stats := stats_add dur (bn_stats b)\<rparr>)
       | Some (s, False) \<Rightarrow> Some (b\<lparr>bn_state := s, bn_work := bn_work b - 1, bn_producers := (bn_producers b)[i := Gave_up]\<rparr>))
    | _ \<Rightarrow> Some b)"

fun producerSteps :: "(string \<Rightarrow> 's conn result) \<Rightarrow> benchConfig \<Rightarrow> (nat \<times> int \<times> (nat \<Rightarrow> int)) list \<Rightarrow> 's bench \<Rightarrow> 's bench option" where
  "producerSteps dial cfg [] b = Some b"
| "producerSteps dial cfg (e # es) b = (case producerStep dial cfg e b of None \<Rightarrow> None | Some b' \<Rightarrow> producerSteps dial cfg es b')"

definition startBench :: "(string \<Rightarrow> 's conn result) \<Rightarrow> benchConfig \<Rightarrow> 's \<Rightarrow> 's bench" where
  "startBench dial cfg s = \<lparr>bn_state = fst (createTopic_bench dial (bf_brokerAddr cfg) (bf_topic cfg) 1 s), bn_work = nat (bf_messages cfg),
     bn_stats = \<lparr>sa_count = 0, sa_totalDur = 0, sa_maxDur = 0\<rparr>, bn_producers = replicate (nat (bf_concurrency cfg)) Dialling\<rparr>"

definition returned :: "'s producer \<Rightarrow> bool" where
  "returned p = (case p of Dialling \<Rightarrow> False | Connected _ \<Rightarrow> False | _ \<Rightarrow> True)"

text \<open>The report; the rate is a floating-point number and its text a parameter.\<close>

definition printStats :: "(nat \<Rightarrow> int \<Rightarrow> string) \<Rightarrow> stats \<Rightarrow> int \<Rightarrow> int \<Rightarrow> string" where
  "printStats rps st concurrency elapsed =
    (if sa_count st = 0 then ''no messages produced''
     else ''produced='' @ Itoa (int (sa_count st)) @ '' concurrency='' @ Itoa concurrency
       @ '' avg_latency='' @ durationText (sgn (sa_totalDur st) * (\<bar>sa_totalDur st\<bar> div int (sa_count st))) @ '' max_latency='' @ durationText (sa_maxDur st)
       @ '' total='' @ durationText elapsed @ '' rps='' @ rps (sa_count st) elapsed)"

text \<open>\<^verbatim>\<open>runBenchmark\<close>: the report once all producers have returned; \<open>None\<close> while one runs or after a panic.\<close>

definition runBenchmark :: "(nat \<Rightarrow> int \<Rightarrow> string) \<Rightarrow> (string \<Rightarrow> 's conn result) \<Rightarrow> benchConfig \<Rightarrow> int \<Rightarrow> (nat \<times> int \<times> (nat \<Rightarrow> int)) list \<Rightarrow> 's \<Rightarrow> ('s \<times> string) option" where
  "runBenchmark rps dial cfg elapsed es s = (case producerSteps dial cfg es (startBench dial cfg s) of
       None \<Rightarrow> None
     | Some b \<Rightarrow> if list_all returned (bn_producers b) then Some (bn_state b, printStats rps (bn_stats b) (bf_concurrency cfg) elapsed) else None)"

section \<open>Every item is sent or lost by a producer that gave up\<close>

definition gaveUp :: "'s bench \<Rightarrow> nat" where
  "gaveUp b = length (filter (\<lambda>p. p = Gave_up) (bn_producers b))"

lemma gaveUp_update:
  assumes "i < length ps" "ps ! i \<noteq> Gave_up"
  shows "length (filter (\<lambda>p. p = Gave_up) (ps[i := p])) = length (filter (\<lambda>p. p = Gave_up) ps) + (if p = Gave_up then 1 else 0)"
  using assms by (induction ps arbitrary: i) (auto split: nat.splits simp: nth_Cons')

lemma drained_update: "Drained \<in> set (ps[i := x]) \<Longrightarrow> x \<noteq> Drained \<Longrightarrow> Drained \<in> set ps"
  using set_update_subset_insert [of ps i x] by auto

lemma producerStep_items:
  assumes "producerStep dial cfg e b = Some b'"
  shows "bn_work b' + sa_count (bn_stats b') + gaveUp b' = bn_work b + sa_count (bn_stats b) + gaveUp b"
    and "Drained \<in> set (bn_producers b') \<Longrightarrow> Drained \<notin> set (bn_producers b) \<or> bn_work b = 0 \<Longrightarrow> bn_work b' = 0"
proof -
  obtain i dur clock where e: "e = (i, dur, clock)" by (cases e)
  show "bn_work b' + sa_count (bn_stats b') + gaveUp b' = bn_work b + sa_count (bn_stats b) + gaveUp b"
    using assms by (auto simp: e producerStep_def gaveUp_def gaveUp_update stats_add_def split: if_splits producer.splits option.splits bool.splits sum.splits)
  show "Drained \<in> set (bn_producers b') \<Longrightarrow> Drained \<notin> set (bn_producers b) \<or> bn_work b = 0 \<Longrightarrow> bn_work b' = 0"
    using assms
    by (auto dest!: drained_update simp: e producerStep_def split: if_splits producer.splits option.splits bool.splits sum.splits)
qed

lemma producerSteps_items:
  assumes "producerSteps dial cfg es b = Some b'" "Drained \<in> set (bn_producers b) \<longrightarrow> bn_work b = 0"
  shows "bn_work b' + sa_count (bn_stats b') + gaveUp b' = bn_work b + sa_count (bn_stats b) + gaveUp b
    \<and> (Drained \<in> set (bn_producers b') \<longrightarrow> bn_work b' = 0)"
  using assms
proof (induction es arbitrary: b)
  case (Cons e es)
  obtain c where c: "producerStep dial cfg e b = Some c" "producerSteps dial cfg es c = Some b'" using Cons.prems(1) by (auto split: option.splits)
  have "Drained \<in> set (bn_producers c) \<longrightarrow> bn_work c = 0" using producerStep_items(2) [OF c(1)] Cons.prems(2) by auto
  then show ?case using Cons.IH [OF c(2)] producerStep_items(1) [OF c(1)] by simp
qed simp

text \<open>The load generator accounts for every message.  In every interleaving of the producers, the messages counted, those still in the queue
  and those lost by a producer that gave up add up to the number asked for; so when a producer has found the queue empty, exactly the lost ones
  are missing from the count.\<close>

theorem bench_accounts_for_messages:
  assumes "producerSteps dial cfg es (startBench dial cfg s) = Some b"
  shows "bn_work b + sa_count (bn_stats b) + gaveUp b = nat (bf_messages cfg)
    \<and> (Drained \<in> set (bn_producers b) \<longrightarrow> sa_count (bn_stats b) = nat (bf_messages cfg) - gaveUp b)"
proof -
  have "Drained \<in> set (bn_producers (startBench dial cfg s)) \<longrightarrow> bn_work (startBench dial cfg s) = 0" by (auto simp: startBench_def)
  moreover have "gaveUp (startBench dial cfg s) = 0" by (simp add: gaveUp_def startBench_def)
  ultimately show ?thesis using producerSteps_items [OF assms] by (auto simp: startBench_def)
qed

text \<open>A response that does not decode ends the process: the error code of a nil response is logged.\<close>

lemma bench_panics:
  assumes "i < length (bn_producers b)" "bn_producers b ! i = Connected conn" "bn_work b \<noteq> 0"
    and "encodeProduceRequest clock \<lparr>pq_Topic = bf_topic cfg, pq_Partition = bf_partition cfg, pq_Records =
         [\<lparr>r_Offset = 0, r_Timestamp = None, r_Key = None, r_Value = Some (replicate (nat (bf_valueSize cfg)) 0), r_Headers = [], r_CRC32C = 0\<rparr>]\<rparr> = Inr p"
      "encodeRequestFrame APIKeyProduce 1 p = Inr frame"
    and "exchange conn frame (bn_state b) = (s', Inr payload)" "decodeProduceResponse payload = Inl e"
  shows "producerStep dial cfg (i, dur, clock) b = None"
  using assms by (simp add: producerStep_def produceItem_def)

section \<open>Witness\<close>

definition exampleBench :: benchConfig where
  "exampleBench = \<lparr>bf_brokerAddr = ''a'', bf_topic = ''t'', bf_partition = 0, bf_messages = 2, bf_valueSize = 1, bf_concurrency = 2\<rparr>"

text \<open>A connection that the other side has closed: the producer gives up.\<close>

definition deadConn :: "unit conn" where
  "deadConn = \<lparr>cn_deadline = None, cn_exchange = (\<lambda>frame s. (s, Inr [])), cn_close = None\<rparr>"

theorem bench_accounts_for_messages_witness:
  "\<exists>b. producerSteps (\<lambda>addr. Inr deadConn) exampleBench [(0, 7, \<lambda>n. 0), (0, 7, \<lambda>n. 0), (1, 7, \<lambda>n. 0)] (startBench (\<lambda>addr. Inr deadConn) exampleBench ()) = Some b
    \<and> bn_work b + sa_count (bn_stats b) + gaveUp b = 2"
proof -
  have "produceItem (\<lambda>n. 0) exampleBench deadConn s = Some (s, False)" for s
    by (simp add: produceItem_def exchange_def deadConn_def decodeResponseFrame_def decodeFrame_def readFull_def frameHeaderSize_def split: sum.splits)
  then obtain b where b: "producerSteps (\<lambda>addr. Inr deadConn) exampleBench [(0, 7, \<lambda>n. 0), (0, 7, \<lambda>n. 0), (1, 7, \<lambda>n. 0)] (startBench (\<lambda>addr. Inr deadConn) exampleBench ()) = Some b"
    by (simp add: startBench_def producerStep_def exampleBench_def)
  from bench_accounts_for_messages [OF b] b show ?thesis by (simp add: exampleBench_def)
qed

end
