(* ===== verification/BrokerProcess.thy ===== *)
theory BrokerProcess
  imports CommandLine
begin

text \<open>
  The broker process (\<^verbatim>\<open>cmd/mbd/main.go\<close>): its options, the addresses it advertises, the registration with the leader of the
  controllers, the order in which its parts are opened and closed, and what happens while it runs.

  The parts are those of a factory, as in the code: each step of opening works on a world that holds all of them, and the controller is an
  interface on that world.  Time is not modelled: the rounds of the registration before its deadline are a list.
\<close>

section \<open>Options\<close>

record startupOptions =
  so_cfg :: BrokerConfig
  so_syncOnAppend :: bool

definition startupFlags :: flagSet where
  "startupFlags = [(''data-dir'', FString ''data''), (''bind'', FString '':7912''), (''advertise'', FString ''''), (''mqtt'', FString '':1883''),
     (''http'', FString '':8090''), (''broker-id'', FInt 1), (''replication-factor'', FInt 1), (''segment-bytes'', FInt 67108864), (''sync-on-append'', FBool True),
     (''retention-bytes'', FInt (-1)), (''retention-hours'', FInt 0), (''controller'', FString ''single''), (''raft-dir'', FString ''''), (''raft-bind'', FString ''''),
     (''raft-peer'', FString ''''), (''replication'', FBool False)]"

definition parseStartupOptions :: "string list \<Rightarrow> startupOptions result" where
  "parseStartupOptions args = bindE (parseFlags startupFlags args) (\<lambda>fs. Inr \<lparr>so_cfg =
     \<lparr>bc_BrokerID = getInt fs ''broker-id'', bc_ReplicationFactor = getInt fs ''replication-factor'', bc_DataDir = getString fs ''data-dir'',
      bc_BinaryAddr = getString fs ''bind'', bc_MQTTAddr = getString fs ''mqtt'', bc_HTTPAddr = getString fs ''http'',
      bc_MaxSegmentBytes = getInt fs ''segment-bytes'', bc_RetentionBytes = getInt fs ''retention-bytes'',
      bc_RetentionTime = (if getInt fs ''retention-hours'' > 0 then wrapS 64 (getInt fs ''retention-hours'' * 3600000000000) else 0),
      bc_ClusterID = '''', bc_ControllerAddr = '''', bc_AdvertisedAddr = getString fs ''advertise'', bc_StaticCluster = None,
      bc_ControllerMode = getString fs ''controller'', bc_RaftDir = getString fs ''raft-dir'', bc_RaftBindAddr = getString fs ''raft-bind'',
      bc_RaftPeers = (if getString fs ''raft-peer'' \<noteq> '''' then Split (CHR '','') (getString fs ''raft-peer'') else []),
      bc_Replication = getBool fs ''replication''\<rparr>, so_syncOnAppend = getBool fs ''sync-on-append''\<rparr>)"

text \<open>The error, and whether the warning about the list of peers is logged.\<close>

definition validateBrokerConfig :: "BrokerConfig \<Rightarrow> go_error option \<times> bool" where
  "validateBrokerConfig cfg =
    (if bc_ControllerMode cfg \<noteq> ''raft'' then (None, False)
     else if bc_RaftBindAddr cfg = '''' then (Some (Errorf ''raft controller mode requires -raft-bind''), False)
     else if bc_RaftPeers cfg = [] then (Some (Errorf ''raft controller mode requires at least one -raft-peer (including self)''), False)
     else (None, bc_RaftBindAddr cfg \<notin> set (bc_RaftPeers cfg)))"

section \<open>Addresses\<close>

definition hostFromAddr :: "string \<Rightarrow> string" where
  "hostFromAddr addr =
    (if addr = '''' then ''''
     else if HasPrefix addr '':'' then ''''
     else case SplitHostPort addr of Inr (host, _) \<Rightarrow> host | Inl e \<Rightarrow> addr)"

definition portFromAddr :: "string \<Rightarrow> string option" where
  "portFromAddr addr =
    (if addr = '''' then None
     else if HasPrefix addr '':'' then (let port = TrimPrefix addr '':'' in if port = '''' then None else Some port)
     else case SplitHostPort addr of Inl e \<Rightarrow> None | Inr (_, port) \<Rightarrow> if port = '''' then None else Some port)"

definition isWildcardHost :: "string \<Rightarrow> bool" where
  "isWildcardHost host \<longleftrightarrow> host \<in> set ['''', ''0.0.0.0'', ''::'', ''[::]'', ''*'']"

definition advertisedHost :: "BrokerConfig \<Rightarrow> string" where
  "advertisedHost cfg =
    (case find (\<lambda>addr. \<not> (hostFromAddr addr = '''' \<or> isWildcardHost (hostFromAddr addr))) [bc_AdvertisedAddr cfg, bc_RaftBindAddr cfg, bc_BinaryAddr cfg] of
       None \<Rightarrow> ''''
     | Some addr \<Rightarrow> hostFromAddr addr)"

definition advertisedHTTPAddr :: "BrokerConfig \<Rightarrow> string" where
  "advertisedHTTPAddr cfg = (case portFromAddr (bc_HTTPAddr cfg) of
       None \<Rightarrow> bc_HTTPAddr cfg
     | Some port \<Rightarrow> (let host = advertisedHost cfg in if host = '''' then bc_HTTPAddr cfg else JoinHostPort host port))"

text \<open>The parser of URLs gives their host, as for the HTTP API.\<close>

definition hostPort :: "(string \<Rightarrow> string option) \<Rightarrow> string \<Rightarrow> string option" where
  "hostPort urlHost raw =
    (case (if Contains raw ''://'' then urlHost raw else Some raw) of
       None \<Rightarrow> None
     | Some addr \<Rightarrow>
       (if addr = '''' then None
        else case SplitHostPort addr of
          Inl e \<Rightarrow> None
        | Inr (host, port) \<Rightarrow> if host = '''' \<or> port = '''' then None else Some (JoinHostPort host port)))"

definition brokerInfoForLeader_mbd :: "BrokerInfo list \<Rightarrow> string \<Rightarrow> BrokerInfo option" where
  "brokerInfoForLeader_mbd infos leaderAddr = (case find (\<lambda>info. bi_ControllerAddr info = leaderAddr) infos of
       Some info \<Rightarrow> Some info
     | None \<Rightarrow>
       (let leaderHost = hostFromAddr leaderAddr in
        if leaderHost = '''' then None
        else find (\<lambda>info. list_ex (\<lambda>candidate. hostFromAddr candidate = leaderHost) [bi_ControllerAddr info, bi_HTTPAddr info, bi_Host info]) infos))"

section \<open>Registration\<close>

definition leaderRegisterBrokerURL :: "(string \<Rightarrow> string option) \<Rightarrow> ClusterMetadata result \<Rightarrow> string \<Rightarrow> BrokerInfo \<Rightarrow> string result" where
  "leaderRegisterBrokerURL urlHost meta leaderAddr info =
    (case (case meta of
         Inl e \<Rightarrow> None
       | Inr m \<Rightarrow> (case brokerInfoForLeader_mbd (cm_Brokers m) leaderAddr of None \<Rightarrow> None | Some leaderInfo \<Rightarrow> hostPort urlHost (bi_HTTPAddr leaderInfo))) of
       Some addr \<Rightarrow> Inr (''http://'' @ addr @ ''/api/controller/brokers'')
     | None \<Rightarrow>
       (case SplitHostPort leaderAddr of
          Inl e \<Rightarrow> Inl (Errorf ''invalid raft leader address %q: %w'')
        | Inr (host, _) \<Rightarrow>
          (case portFromAddr (bi_HTTPAddr info) of
             None \<Rightarrow> Inl (Errorf ''cannot derive http port from advertised http addr %q'')
           | Some port \<Rightarrow> Inr (''http://'' @ host @ '':'' @ port @ ''/api/controller/brokers''))))"

definition registerPayload :: "BrokerInfo \<Rightarrow> json" where
  "registerPayload info = JObj ([(''brokerID'', JNum (bi_BrokerID info)), (''host'', JStr (bi_Host info))] @ omitNum ''port'' (bi_Port info)
     @ omitStr ''httpAddr'' (bi_HTTPAddr info) @ omitStr ''controllerAddr'' (bi_ControllerAddr info))"

text \<open>The client answers a request with a status, or fails; either may change the world.\<close>

definition postRegisterBrokerToLeader :: "(string \<Rightarrow> string option) \<Rightarrow> (string \<Rightarrow> json \<Rightarrow> 'w \<Rightarrow> 'w \<times> int result) \<Rightarrow> 'w ControllerAPI \<Rightarrow> string \<Rightarrow> BrokerInfo \<Rightarrow> 'w \<Rightarrow>
    'w \<times> go_error option" where
  "postRegisterBrokerToLeader urlHost post ctrl leaderAddr info w =
    (case leaderRegisterBrokerURL urlHost (ct_GetClusterMetadata ctrl w) leaderAddr info of
       Inl e \<Rightarrow> (w, Some e)
     | Inr url \<Rightarrow>
       (case post url (registerPayload info) w of
          (w', Inl e) \<Rightarrow> (w', Some e)
        | (w', Inr status) \<Rightarrow> (w', if status < 200 \<or> status \<ge> 300 then Some (Errorf ''leader register broker http status %d'') else None)))"

text \<open>A wait ends with its time or with the context.\<close>

definition waitWithContext :: "bool \<Rightarrow> go_error option" where
  "waitWithContext cancelled = (if cancelled then Some Canceled else None)"

text \<open>One round before the deadline: what the rest of the world does before it, and whether the wait behind it is cancelled.\<close>

fun registerRounds :: "(string \<Rightarrow> string option) \<Rightarrow> (string \<Rightarrow> json \<Rightarrow> 'w \<Rightarrow> 'w \<times> int result) \<Rightarrow> 'w ControllerAPI \<Rightarrow> ('w \<Rightarrow> raftStatus) \<Rightarrow> BrokerInfo \<Rightarrow>
    (('w \<Rightarrow> 'w) \<times> bool) list \<Rightarrow> go_error option \<Rightarrow> 'w \<Rightarrow> 'w \<times> go_error option" where
  "registerRounds urlHost post ctrl rs info [] lastErr w =
    (w, Some (case lastErr of None \<Rightarrow> Errorf ''broker registration timed out waiting for raft leader'' | Some e \<Rightarrow> e))"
| "registerRounds urlHost post ctrl rs info ((others, cancelled) # rounds) lastErr w0 =
    (let w = others w0;
         (w', tried) =
           (if ToLower (rf_State (rs w)) = ''leader'' then (case ct_RegisterBroker ctrl w info of (w', err) \<Rightarrow> (w', Some err))
            else if rf_Leader (rs w) \<noteq> '''' then (case postRegisterBrokerToLeader urlHost post ctrl (rf_Leader (rs w)) info w of (w', err) \<Rightarrow> (w', Some err))
            else (w, None))
     in case tried of
       Some None \<Rightarrow> (w', None)
     | _ \<Rightarrow>
       (case waitWithContext cancelled of
          Some e \<Rightarrow> (w', Some e)
        | None \<Rightarrow> registerRounds urlHost post ctrl rs info rounds (case tried of Some (Some e) \<Rightarrow> Some e | _ \<Rightarrow> lastErr) w'))"

definition registerBrokerWithRaft :: "(string \<Rightarrow> string option) \<Rightarrow> (string \<Rightarrow> json \<Rightarrow> 'w \<Rightarrow> 'w \<times> int result) \<Rightarrow> 'w ControllerAPI \<Rightarrow> BrokerConfig \<Rightarrow> BrokerInfo \<Rightarrow>
    (('w \<Rightarrow> 'w) \<times> bool) list \<Rightarrow> 'w \<Rightarrow> 'w \<times> go_error option" where
  "registerBrokerWithRaft urlHost post ctrl cfg info rounds w =
    (if bc_ControllerMode cfg \<noteq> ''raft'' then ct_RegisterBroker ctrl w info
     else case ct_Raft ctrl of
       None \<Rightarrow> ct_RegisterBroker ctrl w info
     | Some rs \<Rightarrow> registerRounds urlHost post ctrl rs info rounds None w)"

section \<open>Opening and closing\<close>

datatype component = C_storage | C_metadata | C_controller | C_offsets | C_broker | C_netServer | C_mqttServer

record 'w appFactory =
  af_newStorageManager :: "Config \<Rightarrow> 'w \<Rightarrow> 'w \<times> go_error option"
  af_recoverStorage :: "'w \<Rightarrow> 'w \<times> go_error option"
  af_newMetadataStore :: "BrokerConfig \<Rightarrow> 'w \<Rightarrow> 'w \<times> go_error option"
  af_recoverTopics :: "'w \<Rightarrow> 'w \<times> (string \<times> TopicState) list result"
  af_newController :: "BrokerConfig \<Rightarrow> (string \<times> TopicState) list \<Rightarrow> 'w \<Rightarrow> 'w \<times> go_error option"
  af_controller :: "'w ControllerAPI"
  af_newOffsetStore :: "string \<Rightarrow> 'w \<Rightarrow> 'w \<times> go_error option"
  af_newBroker :: "BrokerConfig \<Rightarrow> ClusterMetadata \<Rightarrow> 'w \<Rightarrow> 'w \<times> go_error option"
  af_newNetServer :: "string \<Rightarrow> 'w \<Rightarrow> 'w \<times> go_error option"
  af_newMQTTServer :: "string \<Rightarrow> 'w \<Rightarrow> 'w \<times> go_error option"
  af_startWatcher :: "'w \<Rightarrow> 'w \<times> go_error option"
  af_close :: "component \<Rightarrow> 'w \<Rightarrow> 'w \<times> go_error option"
  af_urlHost :: "string \<Rightarrow> string option"
  af_post :: "string \<Rightarrow> json \<Rightarrow> 'w \<Rightarrow> 'w \<times> int result"

text \<open>A step that may fail, and a step whose component is closed when the rest has returned; a failing close is logged only.  A run that has
  not returned is \<open>None\<close>.\<close>

type_synonym 'w step = "'w \<Rightarrow> ('w \<times> go_error option) option"

definition andThen :: "('w \<Rightarrow> 'w \<times> go_error option) \<Rightarrow> 'w step \<Rightarrow> 'w step" where
  "andThen f rest w = (case f w of (w', Some e) \<Rightarrow> Some (w', Some e) | (w', None) \<Rightarrow> rest w')"

definition closeWithLog :: "'w appFactory \<Rightarrow> component \<Rightarrow> 'w \<Rightarrow> 'w" where
  "closeWithLog factory c w = fst (af_close factory c w)"

definition withOpen :: "'w appFactory \<Rightarrow> component \<Rightarrow> ('w \<Rightarrow> 'w \<times> go_error option) \<Rightarrow> 'w step \<Rightarrow> 'w step" where
  "withOpen factory c f rest = andThen f (\<lambda>w. map_option (\<lambda>(w', r). (closeWithLog factory c w', r)) (rest w))"

definition storageConfig :: "startupOptions \<Rightarrow> Config" where
  "storageConfig opts = (let cfg = so_cfg opts in
     \<lparr>cf_DataDir = bc_DataDir cfg, cf_MaxSegmentBytes = bc_MaxSegmentBytes cfg, cf_IndexInterval = 1024, cf_SegmentMaxAge = bc_RetentionTime cfg,
      cf_SyncOnAppend = so_syncOnAppend opts, cf_MaxLogBytes = bc_RetentionBytes cfg\<rparr>)"

definition brokerInfoOf :: "BrokerConfig \<Rightarrow> BrokerInfo" where
  "brokerInfoOf cfg = \<lparr>bi_BrokerID = bc_BrokerID cfg, bi_Host = (if bc_AdvertisedAddr cfg = '''' then bc_BinaryAddr cfg else bc_AdvertisedAddr cfg),
     bi_Port = 0, bi_Rack = '''', bi_HTTPAddr = advertisedHTTPAddr cfg, bi_ControllerAddr = bc_RaftBindAddr cfg\<rparr>"

text \<open>While it runs: parts end, the process is told to stop, and the last \<^verbatim>\<open>select\<close> takes what is there.\<close>

datatype runEvent = Ends string "go_error option" | Ready | Signalled | ParentDone | SelectError | SelectSignal | SelectParent

record running =
  ru_ready :: bool
  ru_cancelled :: bool
  ru_errs :: "go_error list"
  ru_signal :: bool
  ru_parent :: bool
  ru_result :: "go_error option option"

definition reportRunError :: "go_error option \<Rightarrow> running \<Rightarrow> running" where
  "reportRunError runErr r =
    (if runErr = None \<or> runErr = Some Canceled then r
     else r\<lparr>ru_ready := False, ru_cancelled := True, ru_errs := (if length (ru_errs r) < 4 then ru_errs r @ [the runErr] else ru_errs r)\<rparr>)"

fun runStep_mbd :: "running \<Rightarrow> runEvent \<Rightarrow> running" where
  "runStep_mbd r (Ends component runErr) = reportRunError runErr r"
| "runStep_mbd r Ready = r\<lparr>ru_ready := True\<rparr>"
| "runStep_mbd r Signalled = r\<lparr>ru_signal := True\<rparr>"
| "runStep_mbd r ParentDone = r\<lparr>ru_parent := True, ru_cancelled := True\<rparr>"
| "runStep_mbd r SelectError = (if ru_result r = None \<and> ru_errs r \<noteq> [] then r\<lparr>ru_result := Some (Some (hd (ru_errs r)))\<rparr> else r)"
| "runStep_mbd r SelectSignal = (if ru_result r = None \<and> ru_signal r then r\<lparr>ru_result := Some None\<rparr> else r)"
| "runStep_mbd r SelectParent = (if ru_result r = None \<and> ru_parent r then r\<lparr>ru_result := Some None\<rparr> else r)"

definition startRunning :: running where
  "startRunning = \<lparr>ru_ready = False, ru_cancelled = False, ru_errs = [], ru_signal = False, ru_parent = False, ru_result = None\<rparr>"

definition serveUntil :: "runEvent list \<Rightarrow> running" where
  "serveUntil es = foldl runStep_mbd startRunning es"

text \<open>\<^verbatim>\<open>run\<close>; \<open>life\<close> is what the started parts make of the world until the last \<^verbatim>\<open>select\<close>.\<close>

definition serving :: "('w \<Rightarrow> 'w) \<Rightarrow> runEvent list \<Rightarrow> 'w step" where
  "serving life es w = map_option (\<lambda>r. (life w, r)) (ru_result (serveUntil es))"

definition run_mbd :: "'w appFactory \<Rightarrow> startupOptions \<Rightarrow> (('w \<Rightarrow> 'w) \<times> bool) list \<Rightarrow> ('w \<Rightarrow> 'w) \<Rightarrow> runEvent list \<Rightarrow> 'w step" where
  "run_mbd factory opts rounds life es =
    (let cfg = so_cfg opts; ctrl = af_controller factory in
     withOpen factory C_storage (af_newStorageManager factory (storageConfig opts)) (
     andThen (af_recoverStorage factory) (
     withOpen factory C_metadata (af_newMetadataStore factory cfg) (\<lambda>w0.
     case af_recoverTopics factory w0 of
       (w1, Inl e) \<Rightarrow> Some (w1, Some e)
     | (w1, Inr topics) \<Rightarrow>
       andThen (af_newController factory cfg topics) (
       andThen (registerBrokerWithRaft (af_urlHost factory) (af_post factory) ctrl cfg (brokerInfoOf cfg) rounds) (\<lambda>w2.
       case ct_GetClusterMetadata ctrl w2 of
         Inl e \<Rightarrow> Some (w2, Some e)
       | Inr metaSnapshot \<Rightarrow>
         withOpen factory C_offsets (af_newOffsetStore factory (bc_DataDir cfg)) (
         withOpen factory C_broker (af_newBroker factory cfg metaSnapshot) (
         withOpen factory C_netServer (af_newNetServer factory (bc_BinaryAddr cfg)) (
         withOpen factory C_mqttServer (af_newMQTTServer factory (bc_MQTTAddr cfg)) (
         andThen (af_startWatcher factory) (serving life es))))) w2)) w1))))"

definition main_mbd :: "'w appFactory \<Rightarrow> (('w \<Rightarrow> 'w) \<times> bool) list \<Rightarrow> ('w \<Rightarrow> 'w) \<Rightarrow> runEvent list \<Rightarrow> string list \<Rightarrow> 'w step" where
  "main_mbd factory rounds life es args w = (case parseStartupOptions args of
       Inl e \<Rightarrow> Some (w, Some e)
     | Inr opts \<Rightarrow>
       (case validateBrokerConfig (so_cfg opts) of
          (Some e, _) \<Rightarrow> Some (w, Some e)
        | (None, _) \<Rightarrow> run_mbd factory opts rounds life es w))"

section \<open>What is opened is closed\<close>

datatype lifeEvent = Opened component | Closed component

text \<open>The factory with a trace of what is opened and closed.\<close>

definition noting :: "component \<Rightarrow> ('w \<Rightarrow> 'w \<times> go_error option) \<Rightarrow> 'w \<times> lifeEvent list \<Rightarrow> ('w \<times> lifeEvent list) \<times> go_error option" where
  "noting c f = (\<lambda>(w, tr). case f w of (w', None) \<Rightarrow> ((w', tr @ [Opened c]), None) | (w', Some e) \<Rightarrow> ((w', tr), Some e))"

definition quiet :: "('w \<Rightarrow> 'w \<times> 'r) \<Rightarrow> 'w \<times> lifeEvent list \<Rightarrow> ('w \<times> lifeEvent list) \<times> 'r" where
  "quiet f = (\<lambda>(w, tr). case f w of (w', r) \<Rightarrow> ((w', tr), r))"

definition quietCtrl :: "'w ControllerAPI \<Rightarrow> ('w \<times> lifeEvent list) ControllerAPI" where
  "quietCtrl c = \<lparr>ct_GetClusterMetadata = (\<lambda>(w, tr). ct_GetClusterMetadata c w),
     ct_RegisterBroker = (\<lambda>(w, tr) info. quiet (\<lambda>w. ct_RegisterBroker c w info) (w, tr)),
     ct_Raft = map_option (\<lambda>rs (w, tr). rs w) (ct_Raft c)\<rparr>"

definition traced :: "'w appFactory \<Rightarrow> ('w \<times> lifeEvent list) appFactory" where
  "traced f = \<lparr>af_newStorageManager = (\<lambda>cfg. noting C_storage (af_newStorageManager f cfg)), af_recoverStorage = quiet (af_recoverStorage f),
     af_newMetadataStore = (\<lambda>cfg. noting C_metadata (af_newMetadataStore f cfg)), af_recoverTopics = quiet (af_recoverTopics f),
     af_newController = (\<lambda>cfg topics. noting C_controller (af_newController f cfg topics)), af_controller = quietCtrl (af_controller f),
     af_newOffsetStore = (\<lambda>dir. noting C_offsets (af_newOffsetStore f dir)), af_newBroker = (\<lambda>cfg m. noting C_broker (af_newBroker f cfg m)),
     af_newNetServer = (\<lambda>addr. noting C_netServer (af_newNetServer f addr)), af_newMQTTServer = (\<lambda>addr. noting C_mqttServer (af_newMQTTServer f addr)),
     af_startWatcher = quiet (af_startWatcher f), af_close = (\<lambda>c (w, tr). case af_close f c w of (w', r) \<Rightarrow> ((w', tr @ [Closed c]), r)),
     af_urlHost = af_urlHost f, af_post = (\<lambda>url body. quiet (af_post f url body))\<rparr>"

definition quietly :: "(('w \<times> lifeEvent list) \<Rightarrow> ('w \<times> lifeEvent list) \<times> 'r) \<Rightarrow> bool" where
  "quietly f \<longleftrightarrow> (\<forall>w tr. snd (fst (f (w, tr))) = tr)"

definition closesAll :: "component list \<Rightarrow> ('w \<times> lifeEvent list) step \<Rightarrow> bool" where
  "closesAll all f \<longleftrightarrow> (\<forall>w tr w' tr' r. f (w, tr) = Some ((w', tr'), r) \<longrightarrow>
     (\<exists>cs rest. all = cs @ rest \<and> (r = None \<longrightarrow> rest = []) \<and> tr' = tr @ map Opened cs @ map Closed (rev (filter (\<lambda>c. c \<noteq> C_controller) cs))))"

lemma quiet_quietly [simp, intro]: "quietly (quiet f)"
  by (auto simp: quietly_def quiet_def split: prod.split)

lemma closesAll_andThen: "quietly f \<Longrightarrow> closesAll all rest \<Longrightarrow> closesAll all (andThen f rest)"
  unfolding closesAll_def
proof (intro allI impI, goal_cases)
  case (1 w tr w' tr' r)
  obtain w1 r1 where f: "f (w, tr) = ((w1, tr), r1)" using 1(1) unfolding quietly_def by (metis prod.collapse)
  then show ?case using 1(2,3) by (cases r1) (auto simp: andThen_def)
qed

lemma closesAll_fail: "closesAll all (\<lambda>w. Some (w, Some e))"
  by (auto simp: closesAll_def)

lemma closeWithLog_traced: "closeWithLog (traced f) c (w, tr) = (closeWithLog f c w, tr @ [Closed c])"
  by (simp add: closeWithLog_def traced_def split: prod.split)

lemma traced_simps:
  "af_newStorageManager (traced f) cfg = noting C_storage (af_newStorageManager f cfg)" "af_recoverStorage (traced f) = quiet (af_recoverStorage f)"
  "af_newMetadataStore (traced f) bcfg = noting C_metadata (af_newMetadataStore f bcfg)" "af_recoverTopics (traced f) = quiet (af_recoverTopics f)"
  "af_newController (traced f) bcfg topics = noting C_controller (af_newController f bcfg topics)" "af_controller (traced f) = quietCtrl (af_controller f)"
  "af_newOffsetStore (traced f) dir = noting C_offsets (af_newOffsetStore f dir)" "af_newBroker (traced f) bcfg m = noting C_broker (af_newBroker f bcfg m)"
  "af_newNetServer (traced f) addr = noting C_netServer (af_newNetServer f addr)" "af_newMQTTServer (traced f) addr = noting C_mqttServer (af_newMQTTServer f addr)"
  "af_startWatcher (traced f) = quiet (af_startWatcher f)" "af_urlHost (traced f) = af_urlHost f" "af_post (traced f) = (\<lambda>url body. quiet (af_post f url body))"
  by (simp_all add: traced_def)

lemma closesAllE:
  assumes "closesAll all f" "f (w, tr) = Some ((w', tr'), r)"
  obtains cs rest where "all = cs @ rest" "r = None \<longrightarrow> rest = []" "tr' = tr @ map Opened cs @ map Closed (rev (filter (\<lambda>c. c \<noteq> C_controller) cs))"
  using assms unfolding closesAll_def by metis

lemma closesAll_open:
  assumes "closesAll all rest" "c \<noteq> C_controller"
  shows "closesAll (c # all) (withOpen (traced f) c (noting c g) rest)"
  unfolding closesAll_def
proof (intro allI impI)
  fix w tr w' tr' r
  assume a: "withOpen (traced f) c (noting c g) rest (w, tr) = Some ((w', tr'), r)"
  obtain w1 r1 where g: "g w = (w1, r1)" by fastforce
  show "\<exists>cs rest. c # all = cs @ rest \<and> (r = None \<longrightarrow> rest = []) \<and> tr' = tr @ map Opened cs @ map Closed (rev (filter (\<lambda>c. c \<noteq> C_controller) cs))"
  proof (cases r1)
    case None
    then obtain w2 tr2 where rest: "rest (w1, tr @ [Opened c]) = Some ((w2, tr2), r)" and tr': "tr' = tr2 @ [Closed c]"
      using a g by (auto simp: withOpen_def andThen_def noting_def closeWithLog_traced)
    obtain cs rs where "all = cs @ rs" "r = None \<longrightarrow> rs = []" "tr2 = (tr @ [Opened c]) @ map Opened cs @ map Closed (rev (filter (\<lambda>c. c \<noteq> C_controller) cs))"
      by (rule closesAllE [OF assms(1) rest])
    then show ?thesis using tr' assms(2) by (intro exI [of _ "c # cs"] exI [of _ rs]) simp
  next
    case (Some e)
    then show ?thesis using a g by (intro exI [of _ "[]"] exI [of _ "c # all"]) (auto simp: withOpen_def andThen_def noting_def)
  qed
qed

lemma closesAll_create:
  assumes "closesAll all rest"
  shows "closesAll (C_controller # all) (andThen (noting C_controller g) rest)"
  unfolding closesAll_def
proof (intro allI impI)
  fix w tr w' tr' r
  assume a: "andThen (noting C_controller g) rest (w, tr) = Some ((w', tr'), r)"
  obtain w1 r1 where g: "g w = (w1, r1)" by fastforce
  show "\<exists>cs rest. C_controller # all = cs @ rest \<and> (r = None \<longrightarrow> rest = []) \<and> tr' = tr @ map Opened cs @ map Closed (rev (filter (\<lambda>c. c \<noteq> C_controller) cs))"
  proof (cases r1)
    case None
    then have rest: "rest (w1, tr @ [Opened C_controller]) = Some ((w', tr'), r)" using a g by (simp add: andThen_def noting_def)
    obtain cs rs where "all = cs @ rs" "r = None \<longrightarrow> rs = []"
      "tr' = (tr @ [Opened C_controller]) @ map Opened cs @ map Closed (rev (filter (\<lambda>c. c \<noteq> C_controller) cs))"
      by (rule closesAllE [OF assms rest])
    then show ?thesis by (intro exI [of _ "C_controller # cs"] exI [of _ rs]) simp
  next
    case (Some e)
    then show ?thesis using a g by (intro exI [of _ "[]"] exI [of _ "C_controller # all"]) (auto simp: andThen_def noting_def)
  qed
qed

lemma closesAll_result:
  assumes "quietly h" "\<And>x. closesAll all (rest x)"
  shows "closesAll all (\<lambda>w. case h w of (w1, Inl e) \<Rightarrow> Some (w1, Some e) | (w1, Inr x) \<Rightarrow> rest x w1)"
  unfolding closesAll_def
proof (intro allI impI, goal_cases)
  case (1 w tr w' tr' r)
  obtain w1 r1 where h: "h (w, tr) = ((w1, tr), r1)" using assms(1) unfolding quietly_def by (metis prod.collapse)
  then show ?case using 1 assms(2) unfolding closesAll_def by (cases r1) auto
qed

lemma closesAll_read:
  assumes "\<And>x. closesAll all (rest x)"
  shows "closesAll all (\<lambda>w. case g w of Inl e \<Rightarrow> Some (w, Some e) | Inr x \<Rightarrow> rest x w)"
  using assms unfolding closesAll_def by (auto split: sum.splits)

lemma closesAll_serving: "closesAll [] (serving (\<lambda>(w, tr). (life w, tr)) es)"
  by (auto simp: closesAll_def serving_def)

text \<open>The rounds of the registration leave the trace alone.\<close>

definition quietRounds :: "(('w \<Rightarrow> 'w) \<times> bool) list \<Rightarrow> (('w \<times> lifeEvent list \<Rightarrow> 'w \<times> lifeEvent list) \<times> bool) list" where
  "quietRounds = map (\<lambda>(others, cancelled). (\<lambda>(w, tr). (others w, tr), cancelled))"

lemma quiet_post: "snd (fst (postRegisterBrokerToLeader urlHost (\<lambda>url body. quiet (post url body)) (quietCtrl c) leader info (w, tr))) = tr"
  by (auto simp: postRegisterBrokerToLeader_def quiet_def split: sum.splits prod.splits)

lemma quiet_register: "snd (fst (ct_RegisterBroker (quietCtrl c) (w, tr) info)) = tr"
  by (auto simp: quietCtrl_def quiet_def split: prod.splits)

lemma quiet_rounds:
  "snd (fst (registerRounds urlHost (\<lambda>url body. quiet (post url body)) (quietCtrl c) (\<lambda>(w, tr). rs w) info (quietRounds rounds) lastErr (w, tr))) = tr"
proof (induction rounds arbitrary: lastErr w tr)
  case (Cons x rounds)
  obtain others cancelled where x: "x = (others, cancelled)" by fastforce
  have post: "postRegisterBrokerToLeader urlHost (\<lambda>url body. quiet (post url body)) (quietCtrl c) leader info (w, tr) = ((w1, tr1), e) \<Longrightarrow> tr1 = tr" for leader w tr w1 tr1 e
    using quiet_post by (metis fst_conv snd_conv)
  have reg: "ct_RegisterBroker (quietCtrl c) (w, tr) info = ((w1, tr1), e) \<Longrightarrow> tr1 = tr" for w tr w1 tr1 e
    using quiet_register by (metis fst_conv snd_conv)
  show ?case using Cons.IH
    by (auto simp: x quietRounds_def Let_def waitWithContext_def dest!: post reg split: prod.splits option.splits if_splits)
qed (simp add: quietRounds_def)

lemma quiet_registration: "quietly (registerBrokerWithRaft urlHost (\<lambda>url body. quiet (post url body)) (quietCtrl c) cfg info (quietRounds rounds))"
proof -
  have "ct_Raft (quietCtrl c) = map_option (\<lambda>rs (w, tr). rs w) (ct_Raft c)" by (simp add: quietCtrl_def)
  then show ?thesis unfolding quietly_def registerBrokerWithRaft_def
    by (cases "ct_Raft c") (auto simp: quiet_register quiet_rounds)
qed

text \<open>C14: what is opened is closed, in the reverse order.  However starting or running the process ends, the parts opened are a first part of
  the sequence storage, metadata, controller, offsets, broker, binary server, MQTT server; all of them but the controller have been closed, the
  last opened first, and each of them once; and the process ends without an error only if it has opened them all.\<close>

theorem process_closes_what_it_opens:
  assumes "run_mbd (traced factory) opts (quietRounds rounds) (\<lambda>(w, tr). (life w, tr)) es (w, []) = Some ((w', tr), r)"
  shows "\<exists>cs rest. [C_storage, C_metadata, C_controller, C_offsets, C_broker, C_netServer, C_mqttServer] = cs @ rest \<and> (r = None \<longrightarrow> rest = [])
    \<and> tr = map Opened cs @ map Closed (rev (filter (\<lambda>c. c \<noteq> C_controller) cs))"
proof -
  have "closesAll [C_storage, C_metadata, C_controller, C_offsets, C_broker, C_netServer, C_mqttServer]
      (run_mbd (traced factory) opts (quietRounds rounds) (\<lambda>(w, tr). (life w, tr)) es)"
    unfolding run_mbd_def Let_def traced_simps
    by (intro closesAll_open closesAll_andThen closesAll_create closesAll_result closesAll_read closesAll_serving quiet_quietly quiet_registration) simp_all
  from closesAllE [OF this assms] show ?thesis by (metis append_Nil)
qed
section \<open>How the process ends\<close>

fun failures :: "runEvent list \<Rightarrow> go_error list" where
  "failures [] = []"
| "failures (Ends c (Some e) # es) = (if e = Canceled then failures es else e # failures es)"
| "failures (_ # es) = failures es"

lemma failures_append [simp]: "failures (xs @ ys) = failures xs @ failures ys"
  by (induction xs rule: failures.induct) auto

definition endInv :: "runEvent list \<Rightarrow> running \<Rightarrow> bool" where
  "endInv es r \<longleftrightarrow> ru_errs r = take 4 (failures es) \<and> (ru_signal r \<longleftrightarrow> Signalled \<in> set es) \<and> (ru_parent r \<longleftrightarrow> ParentDone \<in> set es)
     \<and> (failures es \<noteq> [] \<longrightarrow> ru_cancelled r)
     \<and> (\<forall>e. ru_result r = Some (Some e) \<longrightarrow> (\<exists>rest. failures es = e # rest)) \<and> (ru_result r = Some None \<longrightarrow> Signalled \<in> set es \<or> ParentDone \<in> set es)"

lemma endInv_step:
  assumes "endInv es r"
  shows "endInv (es @ [e]) (runStep_mbd r e)"
proof (cases e)
  case (Ends c err)
  then show ?thesis using assms by (cases err) (auto simp: endInv_def reportRunError_def)
next
  case SelectError
  then show ?thesis using assms by (cases "failures es") (auto simp: endInv_def)
qed (use assms in \<open>auto simp: endInv_def\<close>)

lemma endInv_reachable: "endInv es (serveUntil es)"
proof (induction es rule: rev_induct)
  case (snoc e es)
  then show ?case using endInv_step by (simp add: serveUntil_def)
qed (simp add: endInv_def serveUntil_def startRunning_def)

text \<open>C40: the process ends with the error of the part that failed first.  In every order of events, an error it returns is the first that a part
  reported other than a cancellation, it ends without an error only after a signal or the end of its context, and once a part has failed the
  context of all others is cancelled.\<close>

theorem process_ends_with_first_error:
  "(\<forall>e. ru_result (serveUntil es) = Some (Some e) \<longrightarrow> (\<exists>rest. failures es = e # rest))
   \<and> (ru_result (serveUntil es) = Some None \<longrightarrow> Signalled \<in> set es \<or> ParentDone \<in> set es)
   \<and> (failures es \<noteq> [] \<longrightarrow> ru_cancelled (serveUntil es))"
  using endInv_reachable [of es] by (simp add: endInv_def)

theorem process_ends_with_first_error_witness:
  "ru_result (serveUntil [Ready, Ends ''http server stopped'' (Some EOF), Ends ''mqtt server stopped'' (Some Canceled), SelectError]) = Some (Some EOF)
   \<and> (\<exists>rest. failures [Ready, Ends ''http server stopped'' (Some EOF), Ends ''mqtt server stopped'' (Some Canceled), SelectError] = EOF # rest)"
proof -
  let ?es = "[Ready, Ends ''http server stopped'' (Some EOF), Ends ''mqtt server stopped'' (Some Canceled), SelectError]"
  have "ru_result (serveUntil ?es) = Some (Some EOF)" by (simp add: serveUntil_def startRunning_def reportRunError_def)
  with process_ends_with_first_error [of ?es] show ?thesis by blast
qed

text \<open>A part that fails before the process declares itself ready is forgotten: it is ready all the same.\<close>

lemma ready_after_failure:
  assumes "e \<noteq> Canceled"
  shows "ru_ready (serveUntil [Ends part (Some e), Ready]) \<and> ru_errs (serveUntil [Ends part (Some e), Ready]) = [e]"
  using assms by (simp add: serveUntil_def startRunning_def reportRunError_def)

section \<open>A follower registers with the leader\<close>

text \<open>What it sends is what the handler of the leader decodes.\<close>

lemma registerPayload_decoded:
  assumes "inS 64 (bi_BrokerID info)" "inS 64 (bi_Port info)" "bi_Rack info = ''''"
  shows "decodeBrokerInfo (Some (registerPayload info)) = Inr info"
proof -
  have names: "list_all (\<lambda>a. list_all (\<lambda>b. EqualFold a b = (a = b)) [''brokerID'', ''host'', ''port'', ''httpAddr'', ''controllerAddr''])
      [''brokerID'', ''host'', ''port'', ''httpAddr'', ''controllerAddr'']" by code_simp
  show ?thesis using assms
    by (cases info) (simp add: decodeBrokerInfo_def registerPayload_def decodeObject_def omitNum_def omitStr_def names [simplified])
qed

text \<open>The transport: a request to the API of the leader, and its status.\<close>

definition leaderPost :: "'c Handler \<Rightarrow> httpEnv \<Rightarrow> json \<Rightarrow> 'v \<times> 'c Broker \<Rightarrow> ('v \<times> 'c Broker) \<times> int result" where
  "leaderPost h env body = (\<lambda>(v, b). case Register_http h env b
       \<lparr>hr_Method = ''POST'', hr_Path = ''/api/controller/brokers'', hr_Query = [], hr_RawQuery = '''', hr_Forwarded = '''', hr_Body = Some body\<rparr> of
       None \<Rightarrow> ((v, b), Inl EOF)
     | Some (b', _, resp) \<Rightarrow> ((v, b'), Inr (hs_Status resp)))"

text \<open>Rounds in which no leader is known.\<close>

fun leaderless :: "('w \<Rightarrow> raftStatus) \<Rightarrow> (('w \<Rightarrow> 'w) \<times> bool) list \<Rightarrow> 'w \<Rightarrow> 'w \<Rightarrow> bool" where
  "leaderless rs [] w w' \<longleftrightarrow> w' = w"
| "leaderless rs ((others, cancelled) # rounds) w w' \<longleftrightarrow>
    \<not> cancelled \<and> ToLower (rf_State (rs (others w))) \<noteq> ''leader'' \<and> rf_Leader (rs (others w)) = '''' \<and> leaderless rs rounds (others w) w'"

lemma registerRounds_leaderless:
  "leaderless rs pre w w' \<Longrightarrow> registerRounds urlHost post ctrl rs info (pre @ rounds) lastErr w = registerRounds urlHost post ctrl rs info rounds lastErr w'"
  by (induction rs pre w w' rule: leaderless.induct) (auto simp: Let_def waitWithContext_def)

text \<open>C16: a broker that is not the leader gets registered by the leader.  However many rounds pass before a leader is known, in the first round
  in which the address of the API of the leader is known and the leader accepts the broker, the registration succeeds, and the controller of the
  leader has registered exactly the identity, addresses and port that the options of this process say.\<close>

theorem follower_registers_with_leader:
  assumes mode: "bc_ControllerMode cfg = ''raft''" "ct_Raft ctrl = Some rs"
    and rounds: "leaderless rs pre w w'" "others w' = (v, b)" "ToLower (rf_State (rs (v, b))) \<noteq> ''leader''" "rf_Leader (rs (v, b)) = leaderAddr" "leaderAddr \<noteq> ''''"
    and url: "leaderRegisterBrokerURL urlHost (ct_GetClusterMetadata ctrl (v, b)) leaderAddr (brokerInfoOf cfg) = Inr url" "post url = leaderPost h env"
    and leader: "ctrlOf h b = Some (api, c)" "ct_RegisterBroker api c (brokerInfoOf cfg) = (c', None)"
    and own: "bc_BrokerID cfg \<noteq> 0" "inS 64 (bc_BrokerID cfg)" "bi_Host (brokerInfoOf cfg) \<noteq> ''''" "advertisedHTTPAddr cfg \<noteq> ''''" "bc_RaftBindAddr cfg \<noteq> ''''"
  shows "registerBrokerWithRaft urlHost post ctrl cfg (brokerInfoOf cfg) (pre @ (others, cancelled) # later) w = ((v, setCtrl c' b), None)"
proof -
  let ?info = "brokerInfoOf cfg"
  have i: "bi_BrokerID ?info = bc_BrokerID cfg" "bi_Port ?info = 0" "bi_Rack ?info = ''''" "bi_HTTPAddr ?info = advertisedHTTPAddr cfg" "bi_ControllerAddr ?info = bc_RaftBindAddr cfg"
    by (simp_all add: brokerInfoOf_def)
  have d: "decodeBrokerInfo (Some (registerPayload ?info)) = Inr ?info" by (rule registerPayload_decoded) (use own(2) i in \<open>simp_all add: inS_def\<close>)
  have "leaderPost h env (registerPayload ?info) (v, b) = ((v, setCtrl c' b), Inr 204)"
    using leader own d by (simp add: leaderPost_def Register_http_def withCORS_def handleControllerRegisterBroker_def reply_def WriteHeader_def i)
  then have p: "postRegisterBrokerToLeader urlHost post ctrl leaderAddr ?info (v, b) = ((v, setCtrl c' b), None)"
    using url by (simp add: postRegisterBrokerToLeader_def)
  show ?thesis using mode rounds p by (simp add: registerBrokerWithRaft_def registerRounds_leaderless Let_def)
qed
section \<open>Witnesses\<close>

definition exampleMetadata :: ClusterMetadata where
  "exampleMetadata = \<lparr>cm_ClusterID = ''c'', cm_Version = 1, cm_Brokers = [], cm_Partitions = []\<rparr>"

definition exampleStatus :: raftStatus where
  "exampleStatus = \<lparr>rf_Mode = ''raft'', rf_State = ''Follower'', rf_Term = 1, rf_Peers = [], rf_Leader = ''h1:9000'', rf_LeaderID = ''h1:9000''\<rparr>"

definition exampleCtrl :: "'w ControllerAPI" where
  "exampleCtrl = \<lparr>ct_GetClusterMetadata = (\<lambda>w. Inr exampleMetadata), ct_RegisterBroker = (\<lambda>w info. (w, None)), ct_Raft = Some (\<lambda>w. exampleStatus)\<rparr>"

text \<open>A factory whose broker cannot be opened.\<close>

definition exampleFactory :: "unit appFactory" where
  "exampleFactory = \<lparr>af_newStorageManager = (\<lambda>cfg w. (w, None)), af_recoverStorage = (\<lambda>w. (w, None)), af_newMetadataStore = (\<lambda>cfg w. (w, None)),
     af_recoverTopics = (\<lambda>w. (w, Inr [])), af_newController = (\<lambda>cfg ts w. (w, None)), af_controller = exampleCtrl, af_newOffsetStore = (\<lambda>dir w. (w, None)),
     af_newBroker = (\<lambda>cfg m w. (w, Some EOF)), af_newNetServer = (\<lambda>addr w. (w, None)), af_newMQTTServer = (\<lambda>addr w. (w, None)), af_startWatcher = (\<lambda>w. (w, None)),
     af_close = (\<lambda>c w. (w, None)), af_urlHost = (\<lambda>s. None), af_post = (\<lambda>url body w. (w, Inr 204))\<rparr>"

definition exampleOptions :: startupOptions where
  "exampleOptions = (case parseStartupOptions [] of Inr opts \<Rightarrow> opts)"

lemma exampleMode: "bc_ControllerMode (so_cfg exampleOptions) = ''single''"
  by code_simp

theorem process_closes_what_it_opens_witness:
  "\<exists>tr. run_mbd (traced exampleFactory) exampleOptions (quietRounds []) (\<lambda>(w, tr). (id w, tr)) [] ((), []) = Some (((), tr), Some EOF)
    \<and> (\<exists>cs rest. [C_storage, C_metadata, C_controller, C_offsets, C_broker, C_netServer, C_mqttServer] = cs @ rest
        \<and> tr = map Opened cs @ map Closed (rev (filter (\<lambda>c. c \<noteq> C_controller) cs)))"
proof -
  let ?tr = "[Opened C_storage, Opened C_metadata, Opened C_controller, Opened C_offsets, Closed C_offsets, Closed C_metadata, Closed C_storage]"
  have r: "run_mbd (traced exampleFactory) exampleOptions (quietRounds []) (\<lambda>(w, tr). (id w, tr)) [] ((), []) = Some (((), ?tr), Some EOF)"
    by (simp add: run_mbd_def traced_simps exampleFactory_def withOpen_def andThen_def noting_def quiet_def registerBrokerWithRaft_def exampleMode
        quietCtrl_def exampleCtrl_def closeWithLog_traced)
  from process_closes_what_it_opens [OF r] r show ?thesis by blast
qed

definition followerConfig :: BrokerConfig where
  "followerConfig = (so_cfg exampleOptions)\<lparr>bc_BrokerID := 2, bc_ControllerMode := ''raft'', bc_RaftBindAddr := ''h2:9000'', bc_RaftPeers := [''h1:9000'', ''h2:9000'']\<rparr>"

definition leaderHandler :: "SingleNodeController Handler" where
  "leaderHandler = exampleHandler\<lparr>hd_ctrl := Some \<lparr>ct_GetClusterMetadata = GetClusterMetadata_single, ct_RegisterBroker = RegisterBroker_single, ct_Raft = None\<rparr>\<rparr>"

definition leaderBroker :: "SingleNodeController Broker" where
  "leaderBroker = ConsumerGroups.exampleBroker\<lparr>b_cluster := Some (singleNodeAPI, \<lparr>sn_meta = exampleMetadata, sn_cfg = followerConfig\<rparr>)\<rparr>"

theorem follower_registers_with_leader_witness:
  "\<exists>c'. registerBrokerWithRaft (\<lambda>s. None) (\<lambda>url. leaderPost leaderHandler exampleEnv) exampleCtrl followerConfig (brokerInfoOf followerConfig)
       [(\<lambda>w. w, False)] ((), leaderBroker) = (((), setCtrl c' leaderBroker), None)
     \<and> map bi_HTTPAddr (cm_Brokers (sn_meta c')) = [''h2:8090'']"
proof -
  have f: "bc_ControllerMode followerConfig = ''raft''" "bc_BrokerID followerConfig \<noteq> 0" "inS 64 (bc_BrokerID followerConfig)" "bi_Host (brokerInfoOf followerConfig) \<noteq> ''''"
    "advertisedHTTPAddr followerConfig \<noteq> ''''" "bc_RaftBindAddr followerConfig \<noteq> ''''"
    "leaderRegisterBrokerURL (\<lambda>s. None) (Inr exampleMetadata) ''h1:9000'' (brokerInfoOf followerConfig) = Inr ''http://h1:8090/api/controller/brokers''"
    "ToLower ''Follower'' \<noteq> ''leader''"
    by code_simp+
  have "snd (RegisterBroker_single \<lparr>sn_meta = exampleMetadata, sn_cfg = followerConfig\<rparr> (brokerInfoOf followerConfig)) = None"
    "map bi_HTTPAddr (cm_Brokers (sn_meta (fst (RegisterBroker_single \<lparr>sn_meta = exampleMetadata, sn_cfg = followerConfig\<rparr> (brokerInfoOf followerConfig))))) = [''h2:8090'']"
    by code_simp+
  then obtain c' where c': "RegisterBroker_single \<lparr>sn_meta = exampleMetadata, sn_cfg = followerConfig\<rparr> (brokerInfoOf followerConfig) = (c', None)"
    "map bi_HTTPAddr (cm_Brokers (sn_meta c')) = [''h2:8090'']" by (metis prod.collapse)
  have "ctrlOf leaderHandler leaderBroker = Some (\<lparr>ct_GetClusterMetadata = GetClusterMetadata_single, ct_RegisterBroker = RegisterBroker_single, ct_Raft = None\<rparr>,
      \<lparr>sn_meta = exampleMetadata, sn_cfg = followerConfig\<rparr>)" by (simp add: ctrlOf_def leaderHandler_def leaderBroker_def)
  from follower_registers_with_leader [where w = "((), leaderBroker)" and w' = "((), leaderBroker)" and v = "()" and b = leaderBroker and others = "\<lambda>w. w" and pre = "[]" and later = "[]"
      and rs = "\<lambda>w. exampleStatus" and ctrl = exampleCtrl and cfg = followerConfig and urlHost = "\<lambda>s. None" and leaderAddr = "''h1:9000''"
      and post = "\<lambda>url. leaderPost leaderHandler exampleEnv" and cancelled = False and c' = c', OF f(1) _ _ _ _ _ _ _ _ this]
  show ?thesis using f c' by (auto simp: exampleCtrl_def exampleStatus_def)
qed

end
