(* ===== verification/RaftController.thy ===== *)
theory RaftController
  imports HttpApi
begin

text \<open>
  The Raft controller around its state machine (\<^verbatim>\<open>internal/controller/raft_controller.go\<close>): the JSON of commands, of the metadata and of
  snapshots, the stores, the start of a node, what it tells about its leader, and its end.  The state machine and the commands are in
  \<open>Controller\<close>.

  The Raft library is a parameter: what it says about its node at a moment (\<open>raftView\<close>), and how it bootstraps, finds earlier
  state and recovers a state machine from the stores (\<open>raftLibrary\<close>).
\<close>

section \<open>Reading structures\<close>

fun mapE :: "('a \<Rightarrow> 'b result) \<Rightarrow> 'a list \<Rightarrow> 'b list result" where
  "mapE f [] = Inr []"
| "mapE f (x # xs) = bindE (f x) (\<lambda>y. bindE (mapE f xs) (\<lambda>ys. Inr (y # ys)))"

fun listField :: "(json \<Rightarrow> 'a result) \<Rightarrow> string \<Rightarrow> 'a list \<Rightarrow> (string \<times> json) list \<Rightarrow> 'a list result" where
  "listField f name v [] = Inr v"
| "listField f name v ((k, j) # kvs) =
    (if EqualFold k name
     then (case j of JArr xs \<Rightarrow> bindE (mapE f xs) (\<lambda>ys. listField f name ys kvs) | JNull \<Rightarrow> listField f name [] kvs | _ \<Rightarrow> Inl (Errorf ''invalid json''))
     else listField f name v kvs)"

definition intElem :: "json \<Rightarrow> int result" where
  "intElem j = (case j of JNum n \<Rightarrow> if inS 64 n then Inr n else Inl (Errorf ''invalid json'') | JNull \<Rightarrow> Inr 0 | _ \<Rightarrow> Inl (Errorf ''invalid json''))"

text \<open>A field of a narrower type is an integer within its range.\<close>

definition narrowField :: "int \<Rightarrow> int \<Rightarrow> string \<Rightarrow> (string \<times> json) list \<Rightarrow> int result" where
  "narrowField lo hi name kvs = bindE (intField name 0 kvs) (\<lambda>n. if lo \<le> n \<and> n \<le> hi then Inr n else Inl (Errorf ''invalid json''))"

definition brokerElem :: "json \<Rightarrow> BrokerInfo result" where
  "brokerElem j = bindE (decodeObject (Some j)) (\<lambda>fs.
     bindE (intField ''brokerID'' 0 fs) (\<lambda>i. bindE (stringField ''host'' '''' fs) (\<lambda>h. bindE (intField ''port'' 0 fs) (\<lambda>p. bindE (stringField ''rack'' '''' fs) (\<lambda>r.
     bindE (stringField ''httpAddr'' '''' fs) (\<lambda>a. bindE (stringField ''controllerAddr'' '''' fs) (\<lambda>c.
     Inr \<lparr>bi_BrokerID = i, bi_Host = h, bi_Port = p, bi_Rack = r, bi_HTTPAddr = a, bi_ControllerAddr = c\<rparr>)))))))"

definition assignmentElem :: "json \<Rightarrow> PartitionAssignment result" where
  "assignmentElem j = bindE (decodeObject (Some j)) (\<lambda>fs.
     bindE (stringField ''topic'' '''' fs) (\<lambda>t. bindE (intField ''partition'' 0 fs) (\<lambda>p. bindE (listField intElem ''replicas'' [] fs) (\<lambda>rs.
     bindE (listField intElem ''isr'' [] fs) (\<lambda>isr. bindE (intField ''leader'' 0 fs) (\<lambda>l. bindE (narrowField (-(2 ^ 31)) (2 ^ 31 - 1) ''leaderEpoch'' fs) (\<lambda>e.
     Inr \<lparr>pa_Topic = t, pa_Partition = p, pa_Replicas = rs, pa_ISR = isr, pa_Leader = l, pa_LeaderEpoch = e\<rparr>)))))))"

definition decodeMetadata :: "json option \<Rightarrow> ClusterMetadata result" where
  "decodeMetadata body = bindE (decodeObject body) (\<lambda>fs.
     bindE (stringField ''clusterID'' '''' fs) (\<lambda>c. bindE (intField ''version'' 0 fs) (\<lambda>v. bindE (listField brokerElem ''brokers'' [] fs) (\<lambda>bs.
     bindE (listField assignmentElem ''partitions'' [] fs) (\<lambda>ps.
     Inr \<lparr>cm_ClusterID = c, cm_Version = v, cm_Brokers = bs, cm_Partitions = ps\<rparr>)))))"

definition encodeMetadata :: "ClusterMetadata \<Rightarrow> json" where
  "encodeMetadata m = validJSON (clusterJSON m)"

section \<open>Commands\<close>

definition topicConfigJSON :: "TopicConfig \<Rightarrow> json" where
  "topicConfigJSON c = JObj [(''Partitions'', JNum (tc_Partitions c)), (''ReplicationFactor'', JNum (tc_ReplicationFactor c)),
     (''RetentionBytes'', JNum (tc_RetentionBytes c)), (''RetentionTime'', JNum (tc_RetentionTime c))]"

definition encodeCommand :: "raftCommand \<Rightarrow> json" where
  "encodeCommand cmd = validJSON (JObj [(''Type'', JNum (rc_Type cmd)), (''Topic'', JStr (rc_Topic cmd)), (''Part'', JNum (rc_Part cmd)), (''Broker'', JNum (rc_Broker cmd)),
     (''TopicConfig'', topicConfigJSON (rc_TopicConfig cmd)), (''LastOffset'', JNum (rc_LastOffset cmd)), (''LeaderHighWatermark'', JNum (rc_LeaderHighWatermark cmd)),
     (''BrokerInfo'', case rc_BrokerInfo cmd of None \<Rightarrow> JNull | Some info \<Rightarrow> brokerInfoJSON info)])"

text \<open>The value of a field whose structure is read from it; \<^verbatim>\<open>null\<close> where it is missing.  The encoder names each field once; of an object
  with a repeated field the last one counts here.\<close>

definition objectField :: "string \<Rightarrow> (string \<times> json) list \<Rightarrow> json" where
  "objectField name kvs = (case find (\<lambda>(k, j). EqualFold k name) (rev kvs) of None \<Rightarrow> JNull | Some (_, j) \<Rightarrow> j)"

definition topicConfigElem :: "json \<Rightarrow> TopicConfig result" where
  "topicConfigElem j = bindE (decodeObject (Some j)) (\<lambda>fs.
     bindE (intField ''Partitions'' 0 fs) (\<lambda>p. bindE (intField ''ReplicationFactor'' 0 fs) (\<lambda>r. bindE (intField ''RetentionBytes'' 0 fs) (\<lambda>b.
     bindE (intField ''RetentionTime'' 0 fs) (\<lambda>t.
     Inr \<lparr>tc_Partitions = p, tc_ReplicationFactor = r, tc_RetentionBytes = b, tc_RetentionTime = t\<rparr>)))))"

definition decodeCommand :: "json \<Rightarrow> raftCommand result" where
  "decodeCommand j = bindE (decodeObject (Some j)) (\<lambda>fs.
     bindE (narrowField 0 255 ''Type'' fs) (\<lambda>ty. bindE (stringField ''Topic'' '''' fs) (\<lambda>t. bindE (intField ''Part'' 0 fs) (\<lambda>p. bindE (intField ''Broker'' 0 fs) (\<lambda>b.
     bindE (topicConfigElem (objectField ''TopicConfig'' fs)) (\<lambda>c. bindE (intField ''LastOffset'' 0 fs) (\<lambda>lo. bindE (intField ''LeaderHighWatermark'' 0 fs) (\<lambda>hw.
     bindE (if objectField ''BrokerInfo'' fs = JNull then Inr None else bindE (brokerElem (objectField ''BrokerInfo'' fs)) (\<lambda>i. Inr (Some i))) (\<lambda>info.
     Inr \<lparr>rc_Type = ty, rc_Topic = t, rc_Part = p, rc_Broker = b, rc_TopicConfig = c, rc_LastOffset = lo, rc_LeaderHighWatermark = hw, rc_BrokerInfo = info\<rparr>)))))))))"

section \<open>The state machine behind its JSON\<close>

text \<open>An entry of the log, and a snapshot.  Writing the snapshot to the sink of the library may fail, and so may closing the sink; the result
  is what the sink keeps.\<close>

definition applyEntry :: "raftMetadataFSM \<Rightarrow> json \<Rightarrow> raftMetadataFSM" where
  "applyEntry f entry = fst (Apply_fsm f (decodeCommand entry))"

definition Snapshot_fsm :: "raftMetadataFSM \<Rightarrow> json" where
  "Snapshot_fsm f = encodeMetadata (fsm_meta f)"

definition Persist_snapshot :: "json \<Rightarrow> go_error option \<Rightarrow> go_error option \<Rightarrow> json option \<times> go_error option" where
  "Persist_snapshot snap writeErr closeErr = (case writeErr of
       Some e \<Rightarrow> (None, Some e)
     | None \<Rightarrow> (case closeErr of Some e \<Rightarrow> (None, Some e) | None \<Rightarrow> (Some snap, None)))"

definition SnapshotDump :: "raftMetadataFSM \<Rightarrow> json" where
  "SnapshotDump f = encodeMetadata (fsm_meta f)"

definition GetClusterMetadata_raft :: "raftMetadataFSM \<Rightarrow> ClusterMetadata result" where
  "GetClusterMetadata_raft f = Inr (fsm_meta f)"

definition WatchClusterMetadata_raft :: "metadataWatcher list \<Rightarrow> nat \<Rightarrow> bool \<Rightarrow> bool \<Rightarrow> int \<Rightarrow> raftMetadataFSM \<Rightarrow> metadataWatcher list" where
  "WatchClusterMetadata_raft ws newID pick done sinceVersion f = watch ws newID pick done sinceVersion (fsm_meta f)"

section \<open>What the node says\<close>

record raftView =
  rv_State :: string
  rv_LeaderAddr :: string
  rv_LeaderID :: string
  rv_Stats :: "string \<rightharpoonup> string"
  rv_Servers :: "(string \<times> string) list"

definition leaderHint :: "raftView \<Rightarrow> string" where
  "leaderHint v = (if rv_LeaderID v \<noteq> '''' then rv_LeaderID v else rv_LeaderAddr v)"

definition RaftLeaderID :: "raftView \<Rightarrow> string" where
  "RaftLeaderID v = rv_LeaderID v"

definition parseUint64 :: "string \<Rightarrow> int option" where
  "parseUint64 s = (if s = '''' then None else case digitsVal 0 s of None \<Rightarrow> None | Some n \<Rightarrow> if n < 2 ^ 64 then Some n else None)"

definition RaftTerm :: "raftView \<Rightarrow> int" where
  "RaftTerm v = (case rv_Stats v ''term'' of None \<Rightarrow> 0 | Some termStr \<Rightarrow> (case parseUint64 termStr of Some t \<Rightarrow> t | None \<Rightarrow> 0))"

definition RaftPeers :: "raftView \<Rightarrow> (string \<times> string) list" where
  "RaftPeers v = map (\<lambda>(i, addr). (i, addr)) (rv_Servers v)"

definition statusOf :: "raftView \<Rightarrow> raftStatus" where
  "statusOf v = \<lparr>rf_Mode = ControllerModeRaft, rf_State = rv_State v, rf_Term = RaftTerm v, rf_Peers = RaftPeers v,
     rf_Leader = rv_LeaderAddr v, rf_LeaderID = RaftLeaderID v\<rparr>"

text \<open>What the wait for a leader looks at.\<close>

definition observed :: "raftView \<Rightarrow> bool \<times> string" where
  "observed v = (rv_State v = ''Leader'', leaderHint v)"

section \<open>Starting and ending a node\<close>

text \<open>
  The library and the operating system act on a world that holds the directory, the stores and the node.  A value of the stable store is JSON,
  or empty (\<open>None\<close>).  \<open>rl_snapshot\<close> is the snapshot that the library finds in its store and hands to the state machine when it starts the node.
\<close>

record 'w raftLibrary =
  rl_newInmemStores :: "'w \<Rightarrow> 'w"
  rl_mkdirAll :: "string \<Rightarrow> 'w \<Rightarrow> 'w \<times> go_error option"
  rl_newBoltStore :: "string \<Rightarrow> 'w \<Rightarrow> 'w \<times> go_error option"
  rl_newFileSnapshotStore :: "string \<Rightarrow> 'w \<Rightarrow> 'w \<times> go_error option"
  rl_closeBolt :: "'w \<Rightarrow> 'w \<times> go_error option"
  rl_newInmemTransport :: "string \<Rightarrow> 'w \<Rightarrow> 'w"
  rl_newTCPTransport :: "string \<Rightarrow> 'w \<Rightarrow> 'w \<times> go_error option"
  rl_get :: "string \<Rightarrow> 'w \<Rightarrow> json option result"
  rl_set :: "string \<Rightarrow> json \<Rightarrow> 'w \<Rightarrow> 'w \<times> go_error option"
  rl_hasExistingState :: "'w \<Rightarrow> bool result"
  rl_bootstrapCluster :: "string \<Rightarrow> (string \<times> string) list \<Rightarrow> 'w \<Rightarrow> 'w \<times> go_error option"
  rl_snapshot :: "'w \<Rightarrow> json option"
  rl_newRaft :: "string \<Rightarrow> 'w \<Rightarrow> 'w \<times> go_error option"
  rl_shutdown :: "'w \<Rightarrow> 'w \<times> go_error option"

definition errKeyNotFound :: go_error where
  "errKeyNotFound = Errorf ''not found''"

definition errCantBootstrap :: go_error where
  "errCantBootstrap = Errorf ''bootstrap only works on new clusters''"

definition initialMetadataKey :: string where
  "initialMetadataKey = ''metadata/initial''"

definition persistInitialMetadata :: "'w raftLibrary \<Rightarrow> ClusterMetadata \<Rightarrow> 'w \<Rightarrow> 'w \<times> go_error option" where
  "persistInitialMetadata lib meta w = rl_set lib initialMetadataKey (encodeMetadata meta) w"

definition loadInitialMetadata :: "'w raftLibrary \<Rightarrow> 'w \<Rightarrow> ClusterMetadata option result" where
  "loadInitialMetadata lib w = (case rl_get lib initialMetadataKey w of
       Inl e \<Rightarrow> if e = errKeyNotFound then Inr None else Inl e
     | Inr None \<Rightarrow> Inr None
     | Inr (Some b) \<Rightarrow> bindE (decodeMetadata (Some b)) (\<lambda>meta. Inr (Some meta)))"

definition resolveInitialMetadata_stored :: "'w raftLibrary \<Rightarrow> ClusterMetadata \<Rightarrow> 'w \<Rightarrow> 'w \<times> ClusterMetadata result" where
  "resolveInitialMetadata_stored lib initialMeta w = (case loadInitialMetadata lib w of
       Inl e \<Rightarrow> (w, Inl e)
     | Inr (Some meta) \<Rightarrow> (w, Inr meta)
     | Inr None \<Rightarrow> (case persistInitialMetadata lib initialMeta w of (w', Some e) \<Rightarrow> (w', Inl e) | (w', None) \<Rightarrow> (w', Inr initialMeta)))"

text \<open>The error, and whether there is a bolt store to close at the end.\<close>

definition buildStores :: "'w raftLibrary \<Rightarrow> bool \<Rightarrow> string \<Rightarrow> 'w \<Rightarrow> 'w \<times> bool \<times> go_error option" where
  "buildStores lib raceDetectorEnabled raftDir w =
    (if raftDir = '''' \<or> raceDetectorEnabled then (rl_newInmemStores lib w, False, None)
     else case rl_mkdirAll lib raftDir w of
       (w1, Some e) \<Rightarrow> (w1, False, Some e)
     | (w1, None) \<Rightarrow>
       (case rl_newBoltStore lib raftDir w1 of
          (w2, Some e) \<Rightarrow> (w2, False, Some e)
        | (w2, None) \<Rightarrow> (case rl_newFileSnapshotStore lib raftDir w2 of (w3, err) \<Rightarrow> (w3, True, err))))"

definition newRaftTransport :: "'w raftLibrary \<Rightarrow> BrokerConfig \<Rightarrow> string \<Rightarrow> bool \<Rightarrow> 'w \<Rightarrow> 'w \<times> string result" where
  "newRaftTransport lib cfg localID useInmem w =
    (if useInmem then (rl_newInmemTransport lib localID w, Inr localID)
     else case rl_newTCPTransport lib (bc_RaftBindAddr cfg) w of
       (w', Some e) \<Rightarrow> (w', Inl e)
     | (w', None) \<Rightarrow> (w', Inr (bc_RaftBindAddr cfg)))"

definition bootstrapClusterIfNeeded :: "'w raftLibrary \<Rightarrow> BrokerConfig \<Rightarrow> string \<Rightarrow> string \<Rightarrow> ClusterMetadata \<Rightarrow> 'w \<Rightarrow> 'w \<times> go_error option" where
  "bootstrapClusterIfNeeded lib cfg localID localAddr initial w = (case rl_hasExistingState lib w of
       Inl e \<Rightarrow> (w, Some e)
     | Inr True \<Rightarrow> (w, None)
     | Inr False \<Rightarrow>
       (let cfg' = (if bc_RaftPeers cfg = [] then cfg\<lparr>bc_RaftPeers := [localAddr]\<rparr> else cfg) in
        case persistInitialMetadata lib initial w of
          (w1, Some e) \<Rightarrow> (w1, Some e)
        | (w1, None) \<Rightarrow>
          (case rl_bootstrapCluster lib localID (buildServers cfg' localID localAddr) w1 of
             (w2, Some e) \<Rightarrow> (w2, if e = errCantBootstrap then None else Some e)
           | (w2, None) \<Rightarrow> (w2, None))))"

record RaftController =
  rk_cfg :: BrokerConfig
  rk_fsm :: raftMetadataFSM
  rk_closers :: bool

definition closeAll :: "'w raftLibrary \<Rightarrow> bool \<Rightarrow> 'w \<Rightarrow> 'w" where
  "closeAll lib closers w = (if closers then fst (rl_closeBolt lib w) else w)"

text \<open>The library restores the state machine from the snapshot it has found; an error of that is an error of the start.\<close>

definition startRaft :: "'w raftLibrary \<Rightarrow> string \<Rightarrow> raftMetadataFSM \<Rightarrow> 'w \<Rightarrow> 'w \<times> raftMetadataFSM result" where
  "startRaft lib localID f w = (case rl_newRaft lib localID w of
       (w', Some e) \<Rightarrow> (w', Inl e)
     | (w', None) \<Rightarrow>
       (case rl_snapshot lib w of
          None \<Rightarrow> (w', Inr f)
        | Some snap \<Rightarrow> (case Restore_fsm f (decodeMetadata (Some snap)) of (f', Some e, _) \<Rightarrow> (w', Inl e) | (f', None, _) \<Rightarrow> (w', Inr f'))))"

definition localServerID :: "BrokerConfig \<Rightarrow> string" where
  "localServerID cfg = (if bc_RaftBindAddr cfg = '''' \<or> bc_RaftPeers cfg = [] then ''broker-'' @ Itoa (bc_BrokerID cfg) else bc_RaftBindAddr cfg)"

definition NewRaftController :: "'w raftLibrary \<Rightarrow> bool \<Rightarrow> BrokerConfig \<Rightarrow> ClusterMetadata \<Rightarrow> string \<Rightarrow> 'w \<Rightarrow> 'w \<times> RaftController result" where
  "NewRaftController lib race cfg initialMeta raftDir w =
    (let useInmem = (bc_RaftBindAddr cfg = '''' \<or> bc_RaftPeers cfg = []); localID = localServerID cfg in
     case buildStores lib race raftDir w of
       (w1, _, Some e) \<Rightarrow> (w1, Inl e)
     | (w1, closers, None) \<Rightarrow>
       (case newRaftTransport lib cfg localID useInmem w1 of
          (w2, Inl e) \<Rightarrow> (closeAll lib closers w2, Inl e)
        | (w2, Inr resolvedAddr) \<Rightarrow>
          (case resolveInitialMetadata_stored lib initialMeta w2 of
             (w3, Inl e) \<Rightarrow> (closeAll lib closers w3, Inl e)
           | (w3, Inr initial) \<Rightarrow>
             (case bootstrapClusterIfNeeded lib cfg localID resolvedAddr initial w3 of
                (w4, Some e) \<Rightarrow> (closeAll lib closers w4, Inl e)
              | (w4, None) \<Rightarrow>
                (case startRaft lib localID (newRaftMetadataFSM cfg initial) w4 of
                   (w5, Inl e) \<Rightarrow> (closeAll lib closers w5, Inl e)
                 | (w5, Inr f) \<Rightarrow> (w5, Inr \<lparr>rk_cfg = cfg, rk_fsm = f, rk_closers = closers\<rparr>))))))"

definition Close_raft :: "'w raftLibrary \<Rightarrow> RaftController \<Rightarrow> 'w \<Rightarrow> 'w \<times> go_error option" where
  "Close_raft lib c w = (case rl_shutdown lib w of (w', err) \<Rightarrow> (closeAll lib (rk_closers c) w', err))"


section \<open>What is encoded is decoded\<close>

lemma validJSON_simps:
  "validJSON (slice f xs) = slice (\<lambda>x. validJSON (f x)) xs"
  "map (\<lambda>(k, j). (k, validJSON j)) (omitStr name v) = (if v = '''' then [] else [(name, JStr (validString v))])"
  "map (\<lambda>(k, j). (k, validJSON j)) (omitNum name n) = omitNum name n"
  by (simp_all add: slice_def omitStr_def omitNum_def)

definition okBrokerInfo :: "BrokerInfo \<Rightarrow> bool" where
  "okBrokerInfo b \<longleftrightarrow> inS 64 (bi_BrokerID b) \<and> utf8String (bi_Host b) \<and> inS 64 (bi_Port b) \<and> utf8String (bi_Rack b) \<and> utf8String (bi_HTTPAddr b) \<and> utf8String (bi_ControllerAddr b)"

definition okAssignment :: "PartitionAssignment \<Rightarrow> bool" where
  "okAssignment p \<longleftrightarrow> utf8String (pa_Topic p) \<and> inS 64 (pa_Partition p) \<and> list_all (inS 64) (pa_Replicas p) \<and> list_all (inS 64) (pa_ISR p) \<and> inS 64 (pa_Leader p) \<and> inS 32 (pa_LeaderEpoch p)"

definition okMetadata :: "ClusterMetadata \<Rightarrow> bool" where
  "okMetadata m \<longleftrightarrow> utf8String (cm_ClusterID m) \<and> inS 64 (cm_Version m) \<and> list_all okBrokerInfo (cm_Brokers m) \<and> list_all okAssignment (cm_Partitions m)"

definition okCommand :: "raftCommand \<Rightarrow> bool" where
  "okCommand c \<longleftrightarrow> 0 \<le> rc_Type c \<and> rc_Type c \<le> 255 \<and> utf8String (rc_Topic c) \<and> inS 64 (rc_Part c) \<and> inS 64 (rc_Broker c)
     \<and> inS 64 (tc_Partitions (rc_TopicConfig c)) \<and> inS 64 (tc_ReplicationFactor (rc_TopicConfig c)) \<and> inS 64 (tc_RetentionBytes (rc_TopicConfig c))
     \<and> inS 64 (tc_RetentionTime (rc_TopicConfig c)) \<and> inS 64 (rc_LastOffset c) \<and> inS 64 (rc_LeaderHighWatermark c)
     \<and> (case rc_BrokerInfo c of None \<Rightarrow> True | Some info \<Rightarrow> okBrokerInfo info)"

lemma foldNames:
  "foldName ''brokerID'' = ''brokerid''" "foldName ''host'' = ''host''" "foldName ''port'' = ''port''" "foldName ''rack'' = ''rack''"
  "foldName ''httpAddr'' = ''httpaddr''" "foldName ''controllerAddr'' = ''controlleraddr''" "foldName ''topic'' = ''topic''" "foldName ''partition'' = ''partition''"
  "foldName ''replicas'' = ''replicas''" "foldName ''isr'' = ''isr''" "foldName ''leader'' = ''leader''" "foldName ''leaderEpoch'' = ''leaderepoch''"
  "foldName ''clusterID'' = ''clusterid''" "foldName ''version'' = ''version''" "foldName ''brokers'' = ''brokers''" "foldName ''partitions'' = ''partitions''"
  "foldName ''Partitions'' = ''partitions''" "foldName ''ReplicationFactor'' = ''replicationfactor''" "foldName ''RetentionBytes'' = ''retentionbytes''" "foldName ''RetentionTime'' = ''retentiontime''"
  "foldName ''Type'' = ''type''" "foldName ''Topic'' = ''topic''" "foldName ''Part'' = ''part''" "foldName ''Broker'' = ''broker''"
  "foldName ''TopicConfig'' = ''topicconfig''" "foldName ''LastOffset'' = ''lastoffset''" "foldName ''LeaderHighWatermark'' = ''leaderhighwatermark''" "foldName ''BrokerInfo'' = ''brokerinfo''"
  by code_simp+

declare foldName.simps [simp del]

lemmas fieldNames = EqualFold_def foldNames

lemma brokerElem_JSON: "okBrokerInfo b \<Longrightarrow> brokerElem (validJSON (brokerInfoJSON b)) = Inr b"
  by (simp add: okBrokerInfo_def brokerElem_def brokerInfoJSON_def decodeObject_def validJSON_simps fieldNames)

lemma mapE_map: "list_all ok xs \<Longrightarrow> (\<And>x. ok x \<Longrightarrow> f (g x) = Inr x) \<Longrightarrow> mapE f (map g xs) = Inr xs"
  by (induction xs) auto

lemma listField_slice:
  assumes "list_all ok xs" "\<And>x. ok x \<Longrightarrow> f (g x) = Inr x" "EqualFold k name"
  shows "listField f name v ((k, slice g xs) # kvs) = listField f name xs kvs"
proof -
  have "mapE f (map g xs) = Inr xs" using assms(1) by (rule mapE_map) (rule assms(2))
  then show ?thesis using assms(3) by (simp add: slice_def)
qed

lemma listField_other: "\<not> EqualFold k name \<Longrightarrow> listField f name v ((k, j) # kvs) = listField f name v kvs"
  by simp

lemma intElem_JNum: "inS 64 n \<Longrightarrow> intElem (JNum n) = Inr n"
  by (simp add: intElem_def)

lemmas listField_ints = listField_slice [where ok = "inS 64" and f = intElem and g = JNum, OF _ intElem_JNum]
lemmas listField_brokers = listField_slice [where ok = okBrokerInfo and f = brokerElem and g = "\<lambda>x. validJSON (brokerInfoJSON x)", OF _ brokerElem_JSON]

declare listField.simps(2) [simp del]

lemma assignmentElem_JSON: "okAssignment p \<Longrightarrow> assignmentElem (validJSON (assignmentJSON p)) = Inr p"
  by (simp add: okAssignment_def assignmentElem_def assignmentJSON_def decodeObject_def validJSON_simps listField_ints listField_other
      narrowField_def fieldNames) (simp add: inS_def)

lemmas listField_assignments = listField_slice [where ok = okAssignment and f = assignmentElem and g = "\<lambda>x. validJSON (assignmentJSON x)", OF _ assignmentElem_JSON]

lemma decodeMetadata_encoded: "okMetadata m \<Longrightarrow> decodeMetadata (Some (encodeMetadata m)) = Inr m"
  by (simp add: okMetadata_def decodeMetadata_def encodeMetadata_def clusterJSON_def decodeObject_def validJSON_simps listField_brokers listField_assignments listField_other
      fieldNames)

lemma brokerInfoJSON_object: "validJSON (brokerInfoJSON b) \<noteq> JNull"
  by (simp add: brokerInfoJSON_def)

lemma topicConfigElem_JSON:
  assumes "inS 64 (tc_Partitions c)" "inS 64 (tc_ReplicationFactor c)" "inS 64 (tc_RetentionBytes c)" "inS 64 (tc_RetentionTime c)"
  shows "topicConfigElem (validJSON (topicConfigJSON c)) = Inr c"
  using assms by (simp add: topicConfigElem_def topicConfigJSON_def decodeObject_def fieldNames)

lemma decodeCommand_encoded:
  assumes "okCommand c"
  shows "decodeCommand (encodeCommand c) = Inr c"
  using assms by (cases "rc_BrokerInfo c") (simp_all add: okCommand_def decodeCommand_def encodeCommand_def decodeObject_def objectField_def narrowField_def inS_def
      fieldNames topicConfigElem_JSON brokerElem_JSON brokerInfoJSON_object)

section \<open>Metadata that JSON can carry\<close>

lemma wrapS64_in [simp]: "inS 64 (wrapS 64 x)"
  by (rule wrapS_in) simp

lemma list_all_sortBrokers [simp]: "list_all P (sortBrokers bs) \<longleftrightarrow> list_all P bs"
  by (simp add: list_all_iff)

lemma replaceBroker_ok: "replaceBroker info bs = Some bs' \<Longrightarrow> okBrokerInfo info \<Longrightarrow> list_all okBrokerInfo bs \<Longrightarrow> list_all okBrokerInfo bs'"
  by (induction bs arbitrary: bs') (auto split: if_splits)

lemma upsertBroker_ok: "okMetadata m \<Longrightarrow> okBrokerInfo info \<Longrightarrow> okMetadata (upsertBroker m info)"
  by (auto simp: okMetadata_def upsertBroker_def dest: replaceBroker_ok split: option.split)

lemma assignTopicPartitions_ok:
  assumes "list_all okBrokerInfo brokers" "utf8String name" "inS 64 partitions"
  shows "list_all okAssignment (assignTopicPartitions cfg brokers name partitions rf existing)"
proof (cases "brokers = []")
  case False
  let ?bs = "sortBrokers brokers" and ?rc = "replicaCountOf (normalizeReplicationFactor (bc_ReplicationFactor cfg) rf) brokers"
  have rc: "0 < ?rc" using replicaCountOf_bounds [OF normalizeReplicationFactor_pos False] by blast
  have "inS 64 (bi_BrokerID (?bs ! (i mod length brokers)))" for i
  proof -
    have "?bs ! (i mod length brokers) \<in> set ?bs" using False by (intro nth_mem) simp
    then show ?thesis using assms(1) by (auto simp: list_all_iff okBrokerInfo_def)
  qed
  then have "okAssignment (assignPartition ?bs name ?rc c pid)" if "pid < nat partitions" for c pid
    using that rc assms(2,3) by (auto simp: okAssignment_def assignPartition_def Let_def list_all_iff) (auto simp: inS_def)
  then show ?thesis using False by (auto simp: assignTopicPartitions_eq list_all_iff)
qed (simp add: assignTopicPartitions_def)

lemma placeTopic_ok:
  assumes "placeTopic cfg m name tcfg = Inr m'" "okMetadata m" "utf8String name" "inS 64 (tc_Partitions tcfg)"
  shows "okMetadata m'"
proof -
  have "inS 64 (tc_Partitions (normalizeTopicConfig (bc_ReplicationFactor cfg) tcfg))" using assms(4) by (simp add: normalizeTopicConfig_def inS_def)
  then show ?thesis using assms assignTopicPartitions_ok [OF _ assms(3)]
    by (auto simp: placeTopic_def okMetadata_def Let_def split: if_splits)
qed

lemma progressISR_ok: "okAssignment p \<Longrightarrow> inS 64 i \<Longrightarrow> okAssignment (progressISR p i lo hw)"
  by (auto simp: okAssignment_def progressISR_def ensureLeaderInISR_def removeID_def Let_def list_all_iff)

lemma reportProgress_ok:
  assumes "reportProgress m t p i lo hw = Inr m'" "okMetadata m" "inS 64 i"
  shows "okMetadata m'"
proof -
  obtain idx where f: "findPartition t p (cm_Partitions m) = Some idx"
    and m: "m' = m\<lparr>cm_Partitions := (cm_Partitions m)[idx := progressISR (cm_Partitions m ! idx) i lo hw], cm_Version := wrapS 64 (cm_Version m + 1)\<rparr>"
    using assms(1) by (auto simp: reportProgress_def Let_def split: option.splits if_splits)
  have ps: "\<forall>p\<in>set (cm_Partitions m). okAssignment p" using assms(2) by (simp add: okMetadata_def list_all_iff)
  have "okAssignment q" if "q \<in> set ((cm_Partitions m)[idx := progressISR (cm_Partitions m ! idx) i lo hw])" for q
  proof (cases "idx < length (cm_Partitions m)")
    case True
    then show ?thesis using that ps progressISR_ok [OF _ assms(3)] set_update_subset_insert [of "cm_Partitions m" idx] by (metis insertE nth_mem subsetD)
  next
    case False
    then have "(cm_Partitions m)[idx := progressISR (cm_Partitions m ! idx) i lo hw] = cm_Partitions m" by (simp add: list_update_beyond)
    then show ?thesis using that ps by simp
  qed
  then show ?thesis using assms(2) by (simp add: m okMetadata_def list_all_iff)
qed

text \<open>The type invariant of the state machine: commands that JSON can carry keep the metadata so.\<close>

lemma Apply_fsm_ok:
  assumes "okCommand cmd" "okMetadata (fsm_meta f)"
  shows "okMetadata (fsm_meta (fst (Apply_fsm f (Inr cmd)))) \<and> fsm_cfg (fst (Apply_fsm f (Inr cmd))) = fsm_cfg f"
proof -
  have "okMetadata m'" if "placeTopic (fsm_cfg f) (fsm_meta f) (rc_Topic cmd) (rc_TopicConfig cmd) = Inr m'" for m'
    using that assms by (intro placeTopic_ok [OF that]) (auto simp: okCommand_def)
  moreover have "okMetadata m'" if "reportProgress (fsm_meta f) (rc_Topic cmd) (rc_Part cmd) (rc_Broker cmd) (rc_LastOffset cmd) (rc_LeaderHighWatermark cmd) = Inr m'" for m'
    using that assms by (intro reportProgress_ok [OF that]) (auto simp: okCommand_def)
  moreover have "okMetadata (upsertBroker (fsm_meta f) info)" if "rc_BrokerInfo cmd = Some info" for info
    using that assms by (intro upsertBroker_ok) (auto simp: okCommand_def)
  ultimately show ?thesis using assms(2)
    by (auto simp: fsm_eqs Let_def split: sum.split option.split)
qed

lemma applyEntry_command: "okCommand cmd \<Longrightarrow> applyEntry f (encodeCommand cmd) = fsmStep f cmd"
  by (simp add: applyEntry_def fsmStep_def decodeCommand_encoded)

lemma applyEntries_ok:
  assumes "list_all okCommand cmds" "okMetadata (fsm_meta f)"
  shows "okMetadata (fsm_meta (foldl applyEntry f (map encodeCommand cmds))) \<and> fsm_cfg (foldl applyEntry f (map encodeCommand cmds)) = fsm_cfg f"
  using assms
proof (induction cmds arbitrary: f)
  case (Cons c cs)
  then show ?case using Cons.IH [of "fsmStep f c"] Apply_fsm_ok [of c f] by (simp add: applyEntry_command fsmStep_def)
qed simp

lemma applyEntries_commands: "list_all okCommand cmds \<Longrightarrow> foldl applyEntry f (map encodeCommand cmds) = foldl fsmStep f cmds"
  by (induction cmds arbitrary: f) (simp_all add: applyEntry_command)

lemma restore_snapshot:
  assumes "okMetadata (fsm_meta f)" "fsm_cfg g = fsm_cfg f"
  shows "Restore_fsm g (decodeMetadata (Some (Snapshot_fsm f))) = (f, None, Some (fsm_meta f))"
  using assms by (simp add: Restore_fsm_def Snapshot_fsm_def decodeMetadata_encoded)


section \<open>Starting again\<close>

text \<open>What is relied on of the library: a value that was set is read back, and neither opening the stores and the transport nor bootstrapping
  and starting the node changes the initial metadata or the snapshots.\<close>

definition sameDisk :: "'w raftLibrary \<Rightarrow> 'w \<Rightarrow> 'w \<Rightarrow> bool" where
  "sameDisk lib w w' \<longleftrightarrow> rl_get lib initialMetadataKey w' = rl_get lib initialMetadataKey w \<and> rl_snapshot lib w' = rl_snapshot lib w"

definition keepsDisk :: "'w raftLibrary \<Rightarrow> bool" where
  "keepsDisk lib \<longleftrightarrow>
    (\<forall>dir w. sameDisk lib w (fst (rl_mkdirAll lib dir w))) \<and> (\<forall>dir w. sameDisk lib w (fst (rl_newBoltStore lib dir w)))
    \<and> (\<forall>dir w. sameDisk lib w (fst (rl_newFileSnapshotStore lib dir w))) \<and> (\<forall>i w. sameDisk lib w (rl_newInmemTransport lib i w))
    \<and> (\<forall>addr w. sameDisk lib w (fst (rl_newTCPTransport lib addr w))) \<and> (\<forall>i servers w. sameDisk lib w (fst (rl_bootstrapCluster lib i servers w)))
    \<and> (\<forall>i w. sameDisk lib w (fst (rl_newRaft lib i w)))
    \<and> (\<forall>v w w'. rl_set lib initialMetadataKey v w = (w', None) \<longrightarrow> rl_get lib initialMetadataKey w' = Inr (Some v) \<and> rl_snapshot lib w' = rl_snapshot lib w)"

lemma sameDisk_trans: "sameDisk lib a b \<Longrightarrow> sameDisk lib b c \<Longrightarrow> sameDisk lib a c"
  by (simp add: sameDisk_def)

lemma sameDisk_load: "sameDisk lib w w' \<Longrightarrow> loadInitialMetadata lib w' = loadInitialMetadata lib w \<and> rl_snapshot lib w' = rl_snapshot lib w"
  by (simp add: sameDisk_def loadInitialMetadata_def)

lemma buildStores_same:
  assumes "keepsDisk lib" "buildStores lib False dir w = (w', closers, None)" "dir \<noteq> ''''"
  shows "sameDisk lib w w'"
proof -
  obtain w1 w2 where "rl_mkdirAll lib dir w = (w1, None)" "rl_newBoltStore lib dir w1 = (w2, None)" "rl_newFileSnapshotStore lib dir w2 = (w', None)"
    using assms(2,3) by (auto simp: buildStores_def split: prod.splits option.splits)
  then have "sameDisk lib w w1" "sameDisk lib w1 w2" "sameDisk lib w2 w'" using assms(1) unfolding keepsDisk_def by (metis fst_conv)+
  then show ?thesis by (blast intro: sameDisk_trans)
qed

lemma newRaftTransport_same:
  assumes "keepsDisk lib" "newRaftTransport lib cfg i inmem w = (w', Inr addr)"
  shows "sameDisk lib w w'"
proof -
  have "w' = rl_newInmemTransport lib i w \<or> w' = fst (rl_newTCPTransport lib (bc_RaftBindAddr cfg) w)"
    using assms(2) by (auto simp: newRaftTransport_def split: prod.splits option.splits if_splits)
  then show ?thesis using assms(1) unfolding keepsDisk_def by metis
qed

lemma persist_load:
  assumes "keepsDisk lib" "persistInitialMetadata lib m w = (w', None)" "okMetadata m"
  shows "loadInitialMetadata lib w' = Inr (Some m) \<and> rl_snapshot lib w' = rl_snapshot lib w"
  using assms by (simp add: keepsDisk_def persistInitialMetadata_def loadInitialMetadata_def decodeMetadata_encoded)

lemma resolve_load:
  assumes "keepsDisk lib" "resolveInitialMetadata_stored lib m w = (w', Inr i)" "okMetadata i"
  shows "loadInitialMetadata lib w' = Inr (Some i) \<and> rl_snapshot lib w' = rl_snapshot lib w
    \<and> (case loadInitialMetadata lib w of Inr (Some m') \<Rightarrow> i = m' | _ \<Rightarrow> i = m)"
  using assms persist_load [of lib m w w'] by (auto simp: resolveInitialMetadata_stored_def split: sum.splits option.splits prod.splits)

lemma bootstrap_load:
  assumes "keepsDisk lib" "bootstrapClusterIfNeeded lib cfg lid addr i w = (w', None)" "okMetadata i" "loadInitialMetadata lib w = Inr (Some i)"
  shows "loadInitialMetadata lib w' = Inr (Some i) \<and> rl_snapshot lib w' = rl_snapshot lib w"
proof (cases "rl_hasExistingState lib w")
  case (Inr has)
  show ?thesis
  proof (cases has)
    case False
    then obtain w1 servers e where p: "persistInitialMetadata lib i w = (w1, None)" and b: "rl_bootstrapCluster lib lid servers w1 = (w', e)"
      using assms(2) Inr by (auto simp: bootstrapClusterIfNeeded_def Let_def split: prod.splits option.splits if_splits)
    have "sameDisk lib w1 w'" using assms(1) b unfolding keepsDisk_def by (metis fst_conv)
    then show ?thesis using persist_load [OF assms(1) p assms(3)] sameDisk_load [of lib w1 w'] by simp
  qed (use assms Inr in \<open>simp add: bootstrapClusterIfNeeded_def\<close>)
qed (use assms(2) in \<open>simp add: bootstrapClusterIfNeeded_def\<close>)

text \<open>A node that has started: its initial metadata is in the store, and its state machine is that of the snapshot, if there is one.\<close>

lemma NewRaftController_started:
  assumes laws: "keepsDisk lib" and start: "NewRaftController lib False cfg m dir w = (w', Inr c)" "dir \<noteq> ''''"
    and i: "i = (case loadInitialMetadata lib w of Inr (Some m') \<Rightarrow> m' | _ \<Rightarrow> m)" "okMetadata i"
  shows "loadInitialMetadata lib w' = Inr (Some i) \<and> rl_snapshot lib w' = rl_snapshot lib w
    \<and> (case rl_snapshot lib w of
         None \<Rightarrow> rk_fsm c = newRaftMetadataFSM cfg i
       | Some snap \<Rightarrow> (\<exists>meta. decodeMetadata (Some snap) = Inr meta \<and> rk_fsm c = newRaftMetadataFSM cfg meta))"
proof -
  let ?lid = "localServerID cfg"
  obtain w1 closers w2 addr w3 i' w4 f where b: "buildStores lib False dir w = (w1, closers, None)"
    and t: "newRaftTransport lib cfg ?lid (bc_RaftBindAddr cfg = '''' \<or> bc_RaftPeers cfg = []) w1 = (w2, Inr addr)"
    and r: "resolveInitialMetadata_stored lib m w2 = (w3, Inr i')" and bs: "bootstrapClusterIfNeeded lib cfg ?lid addr i' w3 = (w4, None)"
    and s: "startRaft lib ?lid (newRaftMetadataFSM cfg i') w4 = (w', Inr f)" and c: "rk_fsm c = f"
    using start(1) by (auto simp: NewRaftController_def Let_def split: prod.splits option.splits sum.splits)
  have "sameDisk lib w w2" using buildStores_same [OF laws b start(2)] newRaftTransport_same [OF laws t] by (rule sameDisk_trans)
  note d2 = sameDisk_load [OF this]
  have "i' = i" using r i(1) d2 by (auto simp: resolveInitialMetadata_stored_def split: sum.splits option.splits prod.splits)
  note r = r [unfolded this] and bs = bs [unfolded this] and s = s [unfolded this]
  have d3: "loadInitialMetadata lib w3 = Inr (Some i)" "rl_snapshot lib w3 = rl_snapshot lib w" using resolve_load [OF laws r i(2)] d2 by auto
  have d4: "loadInitialMetadata lib w4 = Inr (Some i)" "rl_snapshot lib w4 = rl_snapshot lib w" using bootstrap_load [OF laws bs i(2) d3(1)] d3(2) by auto
  have "w' = fst (rl_newRaft lib ?lid w4)" using s by (auto simp: startRaft_def split: prod.splits option.splits)
  then have "sameDisk lib w4 w'" using laws unfolding keepsDisk_def by blast
  note d5 = sameDisk_load [OF this]
  show ?thesis using d4 d5 s c
    by (auto simp: startRaft_def Restore_fsm_def newRaftMetadataFSM_def split: prod.splits option.splits sum.splits)
qed

text \<open>C11: a Raft node that is started again has the metadata it had.  Let a node have started in an empty directory with some initial
  metadata, and let the log hold any commands that clients gave it.  When the process is started again, with any other initial metadata and with
  a configuration that has the same default replication factor, and the library hands it its last snapshot, taken after some prefix of the log
  (or none), and then the entries of the log behind it, the state machine holds the metadata that the commands made of the first initial
  metadata.\<close>

theorem raft_restart_keeps_metadata:
  assumes laws: "keepsDisk lib" "dir \<noteq> ''''"
    and first: "loadInitialMetadata lib w = Inr None" "rl_snapshot lib w = None" "NewRaftController lib False cfg m dir w = (w1, Inr c)" "okMetadata m"
    and log: "list_all okCommand cmds"
    and between: "rl_get lib initialMetadataKey w2 = rl_get lib initialMetadataKey w1"
      "rl_snapshot lib w2 = None \<and> k = 0 \<or> rl_snapshot lib w2 = Some (Snapshot_fsm (foldl applyEntry (rk_fsm c) (map encodeCommand (take k cmds))))"
    and again: "NewRaftController lib False cfg' m' dir w2 = (w3, Inr c')" "bc_ReplicationFactor cfg' = bc_ReplicationFactor cfg"
  shows "fsm_meta (foldl applyEntry (rk_fsm c') (map encodeCommand (drop k cmds))) = fsm_meta (foldl fsmStep (newRaftMetadataFSM cfg m) cmds)"
proof -
  let ?f = "newRaftMetadataFSM cfg m" and ?e = "map encodeCommand"
  have 1: "loadInitialMetadata lib w1 = Inr (Some m)" "rk_fsm c = ?f"
    using NewRaftController_started [OF laws(1) first(3) laws(2), of m] first by auto
  have l2: "loadInitialMetadata lib w2 = Inr (Some m)" using 1(1) between(1) by (simp add: loadInitialMetadata_def)
  note 2 = NewRaftController_started [OF laws(1) again(1) laws(2), of m, unfolded l2, simplified, OF first(4)]
  have cmds: "list_all okCommand (take k cmds)" "list_all okCommand (drop k cmds)" using log by (auto simp: list_all_iff dest: in_set_takeD in_set_dropD)
  let ?g = "foldl applyEntry ?f (?e (take k cmds))"
  have g: "okMetadata (fsm_meta ?g)" "fsm_cfg ?g = cfg" using applyEntries_ok [OF cmds(1), of ?f] first(4) by (simp_all add: newRaftMetadataFSM_def)
  have r: "fsm_meta (rk_fsm c') = fsm_meta ?g" "fsm_cfg (rk_fsm c') = cfg'"
    using between(2) 2 g(1) by (auto simp: 1(2) Snapshot_fsm_def decodeMetadata_encoded newRaftMetadataFSM_def)
  have "fsm_meta (foldl applyEntry (rk_fsm c') (?e (drop k cmds))) = fsm_meta (foldl applyEntry ?g (?e (drop k cmds)))"
    unfolding applyEntries_commands [OF cmds(2)] by (rule fsmSteps_agree) (use r g again(2) in simp_all)
  also have "\<dots> = fsm_meta (foldl applyEntry ?f (?e cmds))" by (metis append_take_drop_id foldl_append map_append)
  finally show ?thesis by (simp add: applyEntries_commands [OF log])
qed


definition exampleLibrary :: "(json option \<times> json option) raftLibrary" where
  "exampleLibrary = \<lparr>rl_newInmemStores = (\<lambda>w. (None, None)), rl_mkdirAll = (\<lambda>dir w. (w, None)), rl_newBoltStore = (\<lambda>dir w. (w, None)),
     rl_newFileSnapshotStore = (\<lambda>dir w. (w, None)), rl_closeBolt = (\<lambda>w. (w, None)), rl_newInmemTransport = (\<lambda>i w. w), rl_newTCPTransport = (\<lambda>addr w. (w, None)),
     rl_get = (\<lambda>key w. case fst w of None \<Rightarrow> Inl errKeyNotFound | Some v \<Rightarrow> Inr (Some v)), rl_set = (\<lambda>key v w. ((Some v, snd w), None)),
     rl_hasExistingState = (\<lambda>w. Inr (snd w \<noteq> None)), rl_bootstrapCluster = (\<lambda>i servers w. (w, None)), rl_snapshot = snd, rl_newRaft = (\<lambda>i w. (w, None)),
     rl_shutdown = (\<lambda>w. (w, None))\<rparr>"

lemma exampleLibrary_keepsDisk: "keepsDisk exampleLibrary"
  by (simp add: keepsDisk_def sameDisk_def exampleLibrary_def)

lemma exampleStart:
  "NewRaftController exampleLibrary False cfg m ''d'' (None, None)
    = ((Some (encodeMetadata m), None), Inr \<lparr>rk_cfg = cfg, rk_fsm = newRaftMetadataFSM cfg m, rk_closers = True\<rparr>)"
  "okMetadata m \<Longrightarrow> okMetadata meta \<Longrightarrow> NewRaftController exampleLibrary False cfg m' ''d'' (Some (encodeMetadata m), Some (encodeMetadata meta))
    = ((Some (encodeMetadata m), Some (encodeMetadata meta)), Inr \<lparr>rk_cfg = cfg, rk_fsm = newRaftMetadataFSM cfg meta, rk_closers = True\<rparr>)"
  by (simp_all add: NewRaftController_def buildStores_def newRaftTransport_def resolveInitialMetadata_stored_def loadInitialMetadata_def persistInitialMetadata_def
      bootstrapClusterIfNeeded_def startRaft_def Restore_fsm_def exampleLibrary_def newRaftMetadataFSM_def decodeMetadata_encoded Let_def split: prod.split)

definition exampleCommand :: raftCommand where
  "exampleCommand = AssignTopic_cmd ''orders'' (exampleTopic 1)"

lemma exampleRaft_ok: "okMetadata exampleMeta" "okCommand exampleCommand"
  by code_simp+

theorem raft_restart_keeps_metadata_witness:
  "\<exists>w2 w3 c'. NewRaftController exampleLibrary False (exampleBrokerConfig 1) (exampleMeta\<lparr>cm_Version := 9\<rparr>) ''d'' w2 = (w3, Inr c')
    \<and> fsm_meta (rk_fsm c') = fsm_meta (foldl fsmStep (newRaftMetadataFSM (exampleBrokerConfig 1) exampleMeta) [exampleCommand])"
proof -
  let ?cfg = "exampleBrokerConfig 1" and ?cmds = "[exampleCommand]" and ?other = "exampleMeta\<lparr>cm_Version := 9\<rparr>"
  let ?f = "newRaftMetadataFSM ?cfg exampleMeta"
  let ?meta = "fsm_meta (foldl applyEntry ?f (map encodeCommand ?cmds))"
  let ?c = "\<lparr>rk_cfg = ?cfg, rk_fsm = ?f, rk_closers = True\<rparr>" and ?w = "(Some (encodeMetadata exampleMeta), Some (encodeMetadata ?meta))"
  have cmds: "list_all okCommand ?cmds" using exampleRaft_ok by simp
  have "okMetadata ?meta" by (rule conjunct1 [OF applyEntries_ok [OF cmds]]) (simp add: exampleRaft_ok newRaftMetadataFSM_def)
  note again = exampleStart(2) [OF exampleRaft_ok(1) this, of ?cfg ?other]
  have "fsm_meta (foldl applyEntry (rk_fsm \<lparr>rk_cfg = ?cfg, rk_fsm = newRaftMetadataFSM ?cfg ?meta, rk_closers = True\<rparr>) (map encodeCommand (drop 1 ?cmds)))
      = fsm_meta (foldl fsmStep ?f ?cmds)"
  proof (rule raft_restart_keeps_metadata [OF exampleLibrary_keepsDisk _ _ _ exampleStart(1) exampleRaft_ok(1) cmds _ _ again])
    show "rl_snapshot exampleLibrary ?w = None \<and> 1 = 0
        \<or> rl_snapshot exampleLibrary ?w = Some (Snapshot_fsm (foldl applyEntry (rk_fsm ?c) (map encodeCommand (take 1 ?cmds))))"
      by (simp add: exampleLibrary_def Snapshot_fsm_def)
  qed (simp_all add: exampleLibrary_def loadInitialMetadata_def)
  then show ?thesis using again by (intro exI conjI) (assumption, simp)
qed

section \<open>Names that JSON cannot carry\<close>

text \<open>Two topics whose names are not UTF-8 become one name in the log: the second is then refused as existing.\<close>

lemma names_collide:
  "decodeCommand (encodeCommand (AssignTopic_cmd [char_of (0xFE :: nat)] cfg)) = decodeCommand (encodeCommand (AssignTopic_cmd [char_of (0xFF :: nat)] cfg))"
proof -
  have "validString [char_of (0xFE :: nat)] = validString [char_of (0xFF :: nat)]" by code_simp
  then show ?thesis by (simp add: encodeCommand_def AssignTopic_cmd_def)
qed

text \<open>When the store of snapshots cannot be opened, the bolt store, which is open by then, is not closed.\<close>

lemma snapshot_failure_leaves_bolt_open:
  assumes "dir \<noteq> ''''" "rl_mkdirAll lib dir w = (w1, None)" "rl_newBoltStore lib dir w1 = (w2, None)" "rl_newFileSnapshotStore lib dir w2 = (w3, Some e)"
  shows "NewRaftController lib False cfg m dir w = (w3, Inl e)"
  using assms by (simp add: NewRaftController_def buildStores_def Let_def)


end
