(* ===== verification/MqttCodec.thy ===== *)
theory MqttCodec
  imports NetprotoCodec
begin

text \<open>
  The MQTT packets (\<^verbatim>\<open>internal/mqtt/packets.go\<close>) and their codec (\<^verbatim>\<open>internal/mqtt/codec.go\<close>): the
  remaining length in groups of seven bits, length-prefixed strings, the packets a client sends and
  the packets the server writes.  Bytes and packet identifiers are machine words.
\<close>

unbundle bit_operations_syntax

section \<open>Packets\<close>

record ConnectPacket =
  cp_ClientID :: string
  cp_KeepAliveSec :: int
  cp_CleanStart :: bool
  cp_Username :: string
  cp_AuthData :: "bytes option"

record ConnackPacket =
  ck_SessionPresent :: bool
  ck_ReturnCode :: byte

record Subscription =
  sb_Filter :: string
  sb_QoS :: byte

record SubscribePacket =
  sp_PacketID :: "16 word"
  sp_Topics :: "Subscription list"

record SubackPacket =
  sa_PacketID :: "16 word"
  sa_Granted :: bytes

record PublishPacket =
  pp_Topic :: string
  pp_QoS :: byte
  pp_Duplicate :: bool
  pp_PacketID :: "16 word"
  pp_Payload :: bytes

record PubackPacket =
  pu_PacketID :: "16 word"

text \<open>What \<^verbatim>\<open>readPacket\<close> returns as an \<^verbatim>\<open>interface{}\<close>.\<close>

datatype mqttPacket =
    Connect ConnectPacket | Subscribe SubscribePacket | Publish PublishPacket | Puback PubackPacket
  | Pingreq | Disconnect

definition packetTypeCONNECT :: byte where "packetTypeCONNECT = 1"
definition packetTypeCONNACK :: byte where "packetTypeCONNACK = 2"
definition packetTypePUBLISH :: byte where "packetTypePUBLISH = 3"
definition packetTypePUBACK :: byte where "packetTypePUBACK = 4"
definition packetTypeSUBSCRIBE :: byte where "packetTypeSUBSCRIBE = 8"
definition packetTypeSUBACK :: byte where "packetTypeSUBACK = 9"
definition packetTypePINGREQ :: byte where "packetTypePINGREQ = 12"
definition packetTypePINGRESP :: byte where "packetTypePINGRESP = 13"
definition packetTypeDISCONNECT :: byte where "packetTypeDISCONNECT = 14"
definition qos0 :: byte where "qos0 = 0"
definition qos1 :: byte where "qos1 = 1"
definition maxUint16 :: int where "maxUint16 = 65535"

lemmas packet_types = packetTypeCONNECT_def packetTypeCONNACK_def packetTypePUBLISH_def packetTypePUBACK_def
  packetTypeSUBSCRIBE_def packetTypeSUBACK_def packetTypePINGREQ_def packetTypePINGRESP_def packetTypeDISCONNECT_def

section \<open>Fields\<close>

text \<open>The length of a packet body; the callers pass the length of a buffer.\<close>

fun encodeRemainingLength :: "nat \<Rightarrow> bytes" where
  "encodeRemainingLength n =
    (let encoded = of_nat (n mod 128) :: byte; n' = n div 128
     in if n' > 0 then (encoded OR 128) # encodeRemainingLength n' else [encoded])"

declare encodeRemainingLength.simps [simp del]

fun decodeRemaining :: "int \<Rightarrow> int \<Rightarrow> bytes \<Rightarrow> (int \<times> bytes) result" where
  "decodeRemaining multiplier v [] = Inl EOF"
| "decodeRemaining multiplier v (encoded # r) =
    (let v' = v + uint (encoded AND 127) * multiplier
     in if encoded AND 128 = 0 then Inr (v', r)
        else let multiplier' = multiplier * 128
          in if multiplier' > 128 * 128 * 128 then Inl (Errorf ''malformed remaining length'')
             else decodeRemaining multiplier' v' r)"

definition decodeRemainingLength :: "bytes \<Rightarrow> (int \<times> bytes) result" where
  "decodeRemainingLength r = decodeRemaining 1 0 r"

definition toUint16Length_mqtt :: "int \<Rightarrow> int result" where
  "toUint16Length_mqtt n = (if n < 0 \<or> n > maxUint16 then Inl (Errorf ''string too long'') else Inr n)"

definition writeString :: "string \<Rightarrow> bytes result" where
  "writeString s = bindE (toUint16Length_mqtt (int (length s))) (\<lambda>len. Inr (be16 len @ string_bytes s))"

definition readString_mqtt :: "bytes \<Rightarrow> (string \<times> bytes) result" where
  "readString_mqtt r = bindE (read_uint BigEndian 2 r) (\<lambda>(l, r).
     if l = 0 then Inr ('''', r)
     else bindE (readFull (nat l) r) (\<lambda>(buf, r). Inr (bytes_string buf, r)))"

definition readBytes_mqtt :: "bytes \<Rightarrow> (bytes \<times> bytes) result" where
  "readBytes_mqtt r = bindE (readString_mqtt r) (\<lambda>(s, r). Inr (string_bytes s, r))"

text \<open>\<^verbatim>\<open>binary.Read\<close> and \<^verbatim>\<open>binary.Write\<close> of a \<^verbatim>\<open>byte\<close> and of a \<^verbatim>\<open>uint16\<close>.\<close>

definition readByte :: "bytes \<Rightarrow> (byte \<times> bytes) result" where
  "readByte r = (case r of [] \<Rightarrow> Inl EOF | b # bs \<Rightarrow> Inr (b, bs))"

definition readID :: "bytes \<Rightarrow> (16 word \<times> bytes) result" where
  "readID r = bindE (read_uint BigEndian 2 r) (\<lambda>(v, r). Inr (word_of_int v, r))"

definition putID :: "16 word \<Rightarrow> bytes" where
  "putID i = be16 (uint i)"

section \<open>Reading packets\<close>

definition decodeConnect :: "bytes \<Rightarrow> ConnectPacket result" where
  "decodeConnect r = bindE (readString_mqtt r) (\<lambda>(protoName, r).
     if protoName \<noteq> ''MQTT'' then Inl (Errorf ''unsupported protocol %s'')
     else bindE (readByte r) (\<lambda>(protoLevel, r).
     bindE (readByte r) (\<lambda>(connectFlags, r).
     bindE (read_uint BigEndian 2 r) (\<lambda>(keepAlive, r).
     bindE (readString_mqtt r) (\<lambda>(clientID, r).
     bindE (if connectFlags AND 0x80 \<noteq> 0 then readString_mqtt r else Inr ('''', r)) (\<lambda>(username, r).
     bindE (if connectFlags AND 0x40 \<noteq> 0 then bindE (readBytes_mqtt r) (\<lambda>(p, r). Inr (Some p, r)) else Inr (None, r)) (\<lambda>(password, r).
     Inr \<lparr>cp_ClientID = clientID, cp_KeepAliveSec = keepAlive, cp_CleanStart = (connectFlags AND 0x02 \<noteq> 0),
          cp_Username = username, cp_AuthData = password\<rparr>)))))))"

definition readSubscription :: "bytes \<Rightarrow> (Subscription \<times> bytes) result" where
  "readSubscription r = bindE (readString_mqtt r) (\<lambda>(filter, r). bindE (readByte r) (\<lambda>(qos, r).
     Inr (\<lparr>sb_Filter = filter, sb_QoS = qos AND 0x03\<rparr>, r)))"

lemma readString_mqtt_shorter: "readString_mqtt b = Inr (s, r) \<Longrightarrow> length r < length b"
  by (auto simp: readString_mqtt_def read_uint_def readFull_def elim!: bindE_Inr_E split: if_splits prod.splits)

lemma readSubscription_shorter: "readSubscription b = Inr (s, r) \<Longrightarrow> length r < length b"
  by (auto simp: readSubscription_def readByte_def elim!: bindE_Inr_E split: list.splits dest!: readString_mqtt_shorter)

text \<open>The loop runs while the buffer has bytes.\<close>

function readSubscriptions :: "bytes \<Rightarrow> Subscription list result" where
  "readSubscriptions r =
    (if r = [] then Inr []
     else case readSubscription r of
       Inl e \<Rightarrow> Inl e
     | Inr (sub, r') \<Rightarrow> bindE (readSubscriptions r') (\<lambda>subs. Inr (sub # subs)))"
  by pat_completeness auto
termination by (relation "measure length") (auto dest: readSubscription_shorter)

declare readSubscriptions.simps [simp del]

definition decodeSubscribe :: "bytes \<Rightarrow> SubscribePacket result" where
  "decodeSubscribe r = bindE (readID r) (\<lambda>(packetID, r). bindE (readSubscriptions r) (\<lambda>subs.
     Inr \<lparr>sp_PacketID = packetID, sp_Topics = subs\<rparr>))"

definition decodePublish :: "bytes \<Rightarrow> byte \<Rightarrow> PublishPacket result" where
  "decodePublish r flags = bindE (readString_mqtt r) (\<lambda>(topic, r).
     let duplicate = (flags AND 0x08 \<noteq> 0); qos = drop_bit 1 flags AND 0x03
     in bindE (if qos > 0 then readID r else Inr (0, r)) (\<lambda>(packetID, r).
        Inr \<lparr>pp_Topic = topic, pp_QoS = qos, pp_Duplicate = duplicate, pp_PacketID = packetID, pp_Payload = r\<rparr>))"

definition decodePuback :: "bytes \<Rightarrow> PubackPacket result" where
  "decodePuback r = bindE (readID r) (\<lambda>(packetID, r). Inr \<lparr>pu_PacketID = packetID\<rparr>)"

definition decodeBody :: "byte \<Rightarrow> byte \<Rightarrow> bytes \<Rightarrow> mqttPacket result" where
  "decodeBody packetType flags buf =
    (if packetType = packetTypeCONNECT then bindE (decodeConnect buf) (\<lambda>p. Inr (Connect p))
     else if packetType = packetTypeSUBSCRIBE then bindE (decodeSubscribe buf) (\<lambda>p. Inr (Subscribe p))
     else if packetType = packetTypePUBLISH then bindE (decodePublish buf flags) (\<lambda>p. Inr (Publish p))
     else if packetType = packetTypePUBACK then bindE (decodePuback buf) (\<lambda>p. Inr (Puback p))
     else if packetType = packetTypePINGREQ then Inr Pingreq
     else if packetType = packetTypeDISCONNECT then Inr Disconnect
     else Inl (Errorf ''unsupported packet type %d''))"

definition readPacket :: "bytes \<Rightarrow> (mqttPacket \<times> bytes) result" where
  "readPacket r = bindE (readByte r) (\<lambda>(fixedHeader, r).
     let packetType = drop_bit 4 fixedHeader; flags = fixedHeader AND 0x0F
     in bindE (decodeRemainingLength r) (\<lambda>(remaining, r).
        bindE (readFull (nat remaining) r) (\<lambda>(body, r).
        bindE (decodeBody packetType flags body) (\<lambda>p. Inr (p, r)))))"

section \<open>Writing packets\<close>

text \<open>The two writes of a header and a body.\<close>

definition withHeader :: "byte \<Rightarrow> bytes \<Rightarrow> bytes" where
  "withHeader first body = first # encodeRemainingLength (length body) @ body"

definition writeConnack :: "ConnackPacket \<Rightarrow> bytes" where
  "writeConnack pkt = withHeader (push_bit 4 packetTypeCONNACK) [if ck_SessionPresent pkt then 1 else 0, ck_ReturnCode pkt]"

definition writeSuback :: "SubackPacket \<Rightarrow> bytes" where
  "writeSuback pkt = withHeader (push_bit 4 packetTypeSUBACK) (putID (sa_PacketID pkt) @ sa_Granted pkt)"

definition writePublish :: "PublishPacket \<Rightarrow> bytes result" where
  "writePublish pkt = bindE (writeString (pp_Topic pkt)) (\<lambda>topic.
     let flags0 = push_bit 4 packetTypePUBLISH OR push_bit 1 (pp_QoS pkt);
         flags = (if pp_Duplicate pkt then flags0 OR 0x08 else flags0);
         body = topic @ (if pp_QoS pkt > qos0 then putID (pp_PacketID pkt) else []) @ pp_Payload pkt
     in Inr (withHeader flags body))"

definition writePuback :: "PubackPacket \<Rightarrow> bytes" where
  "writePuback pkt = withHeader (push_bit 4 packetTypePUBACK) (putID (pu_PacketID pkt))"

definition writePingresp :: bytes where
  "writePingresp = [push_bit 4 packetTypePINGRESP, 0]"

section \<open>The remaining length\<close>

text \<open>The seven low bits of a group and its continuation bit.\<close>

lemma group_bits:
  fixes b :: byte
  assumes "uint b < 128"
  shows "b AND 127 = b" "b AND 128 = 0" "(b OR 128) AND 127 = b" "(b OR 128) AND 128 \<noteq> 0"
proof -
  have low: "n < 7" if "bit b n" for n
  proof (rule ccontr)
    assume "\<not> n < 7"
    then have "uint b div 2 ^ n = 0"
      using assms power_increasing [of 7 n "2::int"] uint_nonnegative [of b] by (intro div_pos_pos_trivial) auto
    then have "\<not> bit (uint b) n" by (simp add: bit_iff_odd)
    then show False using bit_imp_le_length [of b n] that by (auto simp: bit_uint_iff)
  qed
  have m: "(127 :: byte) = mask 7" by (simp add: mask_eq_exp_minus_1)
  have e: "bit (128 :: int) n \<longleftrightarrow> n = 7" for n using bit_exp_iff [where ?'a = int, of 7 n] by auto
  show "b AND 127 = b" "b AND 128 = 0" "(b OR 128) AND 127 = b"
    unfolding m by (rule bit_eqI; use low in \<open>auto simp: bit_simps e\<close>)+
  have "(b OR 128) AND 128 = (128 :: byte)" by (metis (no_types) and.commute or.commute bit.conj_disj_distrib2 and.idem inf_sup_absorb word_ao_absorbs(1))
  then show "(b OR 128) AND 128 \<noteq> 0" by simp
qed

lemma decodeRemaining_encode:
  "n < 128 ^ Suc k \<Longrightarrow> k \<le> 3 \<Longrightarrow>
   decodeRemaining (128 ^ (3 - k)) v (encodeRemainingLength n @ r) = Inr (v + int n * 128 ^ (3 - k), r)"
proof (induction k arbitrary: n v)
  case 0
  then show ?case using group_bits [of "of_nat n"] by (subst encodeRemainingLength.simps) (simp add: Let_def uint_nat unat_of_nat)
next
  case (Suc k)
  let ?b = "of_nat (n mod 128) :: byte" and ?m = "128 ^ (3 - Suc k) :: int"
  have u: "uint ?b = int (n mod 128)" by (simp add: uint_nat unat_of_nat)
  then have g: "uint ?b < 128" by simp
  have div_mod: "n = 128 * (n div 128) + n mod 128" by simp
  have m: "?m * 128 = 128 ^ (3 - k)" using Suc.prems(2) by (simp flip: power_Suc add: Suc_diff_Suc mult.commute)
  show ?case
  proof (cases "n div 128 > 0")
    case True
    have "n div 128 < 128 ^ Suc k" using Suc.prems(1) by (simp add: less_mult_imp_div_less mult.commute)
    moreover have "(128::int) ^ (3 - k) \<le> 128 ^ 3" by (intro power_increasing) auto
    then have "\<not> ?m * 128 > 128 * 128 * 128" unfolding m by simp
    moreover have "v + int (n mod 128) * ?m + int (n div 128) * 128 ^ (3 - k) = v + int n * ?m"
      unfolding m [symmetric] by (subst (3) div_mod) (simp only: of_nat_add of_nat_mult, simp add: algebra_simps)
    ultimately show ?thesis
      using True Suc.IH [of "n div 128" "v + int (n mod 128) * ?m"] Suc.prems(2) group_bits [OF g] u m
      by (subst encodeRemainingLength.simps) (simp add: Let_def)
  next
    case False
    then show ?thesis using group_bits [OF g] u by (subst encodeRemainingLength.simps) (simp add: Let_def)
  qed
qed

lemma decode_encodeRemainingLength [simp]:
  "n < 2 ^ 28 \<Longrightarrow> decodeRemainingLength (encodeRemainingLength n @ r) = Inr (int n, r)"
  using decodeRemaining_encode [of n 3 0 r] by (simp add: decodeRemainingLength_def)

section \<open>Packets on the wire\<close>

definition okStr :: "string \<Rightarrow> bool" where
  "okStr s \<longleftrightarrow> int (length s) \<le> maxUint16"

interpretation mstr: codec writeString readString_mqtt okStr
proof unfold_locales
  fix s
  assume "okStr s"
  then show "\<exists>bs. writeString s = Inr bs" by (simp add: writeString_def toUint16Length_mqtt_def okStr_def)
next
  fix s bs rest
  assume "okStr s" "writeString s = Inr bs"
  then have "bs = be16 (int (length s)) @ string_bytes s" "inU 16 (int (length s))"
    by (auto simp: writeString_def toUint16Length_mqtt_def okStr_def maxUint16_def inU_def)
  then show "readString_mqtt (bs @ rest) = Inr (s, rest)" by (simp add: readString_mqtt_def)
qed

lemma readID_put [simp]: "readID (putID i @ r) = Inr (i, r)"
proof -
  have "inU 16 (uint i)" using uint_lt2p [of i] by (simp add: inU_def)
  then show ?thesis by (simp add: readID_def putID_def)
qed

lemma readID_put_exact [simp]: "readID (putID i) = Inr (i, [])"
  using readID_put [of i "[]"] by simp

lemma readByte_Cons [simp]: "readByte (b # r) = Inr (b, r)"
  by (simp add: readByte_def)

text \<open>
  The packets a client sends, laid out as the standard says; the server itself writes the same format for
  \<^verbatim>\<open>PUBLISH\<close> and \<^verbatim>\<open>PUBACK\<close>.  A user name is announced when there is one.
\<close>

definition connectFlagsOf :: "ConnectPacket \<Rightarrow> byte" where
  "connectFlagsOf c = (if cp_Username c \<noteq> '''' then 0x80 else 0) OR (if cp_AuthData c \<noteq> None then 0x40 else 0)
     OR (if cp_CleanStart c then 0x02 else 0)"

definition connectBody :: "ConnectPacket \<Rightarrow> bytes result" where
  "connectBody c = writeAll [writeString ''MQTT'', Inr [4, connectFlagsOf c], Inr (be16 (cp_KeepAliveSec c)), writeString (cp_ClientID c),
     if cp_Username c \<noteq> '''' then writeString (cp_Username c) else Inr [],
     case cp_AuthData c of None \<Rightarrow> Inr [] | Some p \<Rightarrow> writeString (bytes_string p)]"

definition subscriptionBytes :: "Subscription \<Rightarrow> bytes result" where
  "subscriptionBytes s = writeAll [writeString (sb_Filter s), Inr [sb_QoS s]]"

definition subscribeBody :: "SubscribePacket \<Rightarrow> bytes result" where
  "subscribeBody s = writeAll (Inr (putID (sp_PacketID s)) # map subscriptionBytes (sp_Topics s))"

fun wirePacket :: "mqttPacket \<Rightarrow> bytes result" where
  "wirePacket (Connect c) = bindE (connectBody c) (\<lambda>b. Inr (withHeader 0x10 b))"
| "wirePacket (Subscribe s) = bindE (subscribeBody s) (\<lambda>b. Inr (withHeader 0x82 b))"
| "wirePacket (Publish p) = writePublish p"
| "wirePacket (Puback p) = Inr (writePuback p)"
| "wirePacket Pingreq = Inr (withHeader 0xC0 [])"
| "wirePacket Disconnect = Inr (withHeader 0xE0 [])"

definition okSubscription :: "Subscription \<Rightarrow> bool" where
  "okSubscription s \<longleftrightarrow> okStr (sb_Filter s) \<and> sb_QoS s \<le> 3"

fun okPacket :: "mqttPacket \<Rightarrow> bool" where
  "okPacket (Connect c) \<longleftrightarrow> okStr (cp_ClientID c) \<and> okStr (cp_Username c) \<and> inU 16 (cp_KeepAliveSec c)
     \<and> (case cp_AuthData c of None \<Rightarrow> True | Some p \<Rightarrow> okStr (bytes_string p))"
| "okPacket (Subscribe s) \<longleftrightarrow> list_all okSubscription (sp_Topics s)
     \<and> 2 + sum_list (map (\<lambda>s. length (sb_Filter s) + 3) (sp_Topics s)) < 2 ^ 28"
| "okPacket (Publish p) \<longleftrightarrow> okStr (pp_Topic p) \<and> pp_QoS p \<le> 3 \<and> (pp_QoS p = 0 \<longrightarrow> pp_PacketID p = 0)
     \<and> length (pp_Topic p) + length (pp_Payload p) + 4 < 2 ^ 28"
| "okPacket p \<longleftrightarrow> True"

lemma readPacket_withHeader:
  assumes "length body < 2 ^ 28" "decodeBody (drop_bit 4 first) (first AND 0x0F) body = Inr p"
  shows "readPacket (withHeader first body @ r) = Inr (p, r)"
  using assms by (simp add: readPacket_def withHeader_def Let_def)

lemma word_le_3: "(q :: byte) \<le> 3 \<Longrightarrow> q = 0 \<or> q = 1 \<or> q = 2 \<or> q = 3"
proof -
  assume "q \<le> 3"
  then have "unat q \<le> 3" by (simp add: word_le_nat_alt)
  then have "unat q = 0 \<or> unat q = 1 \<or> unat q = 2 \<or> unat q = 3" by auto
  then show ?thesis by (auto simp: word_eq_iff_unsigned [where ?'a = nat])
qed

lemma publish_roundtrip:
  assumes "okPacket (Publish p)"
  shows "\<exists>bs. writePublish p = Inr bs \<and> readPacket (bs @ r) = Inr (Publish p, r)"
proof -
  obtain t where t: "writeString (pp_Topic p) = Inr t" "\<And>r. readString_mqtt (t @ r) = Inr (pp_Topic p, r)"
    using assms mstr.enc_total mstr.dec_enc by fastforce
  have lt: "length t = 2 + length (pp_Topic p)"
    using t(1) assms by (auto simp: writeString_def toUint16Length_mqtt_def okStr_def)
  let ?body = "t @ (if pp_QoS p > qos0 then putID (pp_PacketID p) else []) @ pp_Payload p"
  let ?f0 = "push_bit 4 packetTypePUBLISH OR push_bit 1 (pp_QoS p)"
  let ?f = "if pp_Duplicate p then ?f0 OR 0x08 else ?f0"
  have q: "pp_QoS p = 0 \<or> pp_QoS p = 1 \<or> pp_QoS p = 2 \<or> pp_QoS p = 3" using assms word_le_3 by simp
  have f: "drop_bit 4 ?f = packetTypePUBLISH" "(?f AND 0x0F) AND 0x08 \<noteq> 0 \<longleftrightarrow> pp_Duplicate p"
    "drop_bit 1 (?f AND 0x0F) AND 0x03 = pp_QoS p"
    using q by (auto simp: packetTypePUBLISH_def)
  have "length ?body < 2 ^ 28" using assms lt by (simp add: putID_def)
  moreover have "decodePublish ?body (?f AND 0x0F) = Inr p"
    unfolding decodePublish_def f Let_def using t(2) assms by (auto simp: qos0_def word_gt_0)
  then have "decodeBody (drop_bit 4 ?f) (?f AND 0x0F) ?body = Inr (Publish p)"
    unfolding f(1) by (simp add: decodeBody_def packet_types)
  ultimately have "readPacket (withHeader ?f ?body @ r) = Inr (Publish p, r)" by (rule readPacket_withHeader)
  moreover have "writePublish p = Inr (withHeader ?f ?body)" by (simp add: writePublish_def t(1) Let_def)
  ultimately show ?thesis by blast
qed

lemma length_writeString: "writeString s = Inr bs \<Longrightarrow> length bs = 2 + length s"
  by (auto simp: writeString_def toUint16Length_mqtt_def split: if_splits)

lemma connectFlagsOf_bits:
  "connectFlagsOf c AND 0x80 \<noteq> 0 \<longleftrightarrow> cp_Username c \<noteq> ''''" "connectFlagsOf c AND 0x40 \<noteq> 0 \<longleftrightarrow> cp_AuthData c \<noteq> None"
  "connectFlagsOf c AND 0x02 \<noteq> 0 \<longleftrightarrow> cp_CleanStart c"
  by (simp_all add: connectFlagsOf_def)

lemma connect_roundtrip:
  assumes "okPacket (Connect c)"
  shows "\<exists>bs. wirePacket (Connect c) = Inr bs \<and> readPacket (bs @ r) = Inr (Connect c, r)"
proof -
  have str: "\<exists>bs. writeString s = Inr bs \<and> length bs = 2 + length s \<and> length s \<le> 65535 \<and> (\<forall>r. readString_mqtt (bs @ r) = Inr (s, r))" if "okStr s" for s
    using mstr.enc_total [OF that] mstr.dec_enc [OF that] length_writeString that by (fastforce simp: okStr_def maxUint16_def)
  obtain m where m: "writeString ''MQTT'' = Inr m" "length m = 6" "\<And>r. readString_mqtt (m @ r) = Inr (''MQTT'', r)"
    using str [of "''MQTT''"] by (auto simp: okStr_def maxUint16_def)
  obtain i where i: "writeString (cp_ClientID c) = Inr i" "length i = 2 + length (cp_ClientID c)" "length (cp_ClientID c) \<le> 65535"
    "\<And>r. readString_mqtt (i @ r) = Inr (cp_ClientID c, r)" using str [of "cp_ClientID c"] assms by auto
  define u where "u = (if cp_Username c \<noteq> '''' then writeString (cp_Username c) else Inr [])"
  obtain ub where u: "u = Inr ub" "length ub \<le> 65537"
    "\<And>r. (if cp_Username c \<noteq> '''' then readString_mqtt (ub @ r) else Inr ('''', ub @ r)) = Inr (cp_Username c, r)"
  proof (cases "cp_Username c = ''''")
    case True
    then show thesis using that [of "[]"] by (simp add: u_def)
  next
    case False
    moreover obtain bs where "writeString (cp_Username c) = Inr bs" "length bs \<le> 65537" "\<And>r. readString_mqtt (bs @ r) = Inr (cp_Username c, r)"
      using str [of "cp_Username c"] assms by auto
    ultimately show thesis using that [of bs] by (simp add: u_def)
  qed
  define a where "a = (case cp_AuthData c of None \<Rightarrow> Inr [] | Some p \<Rightarrow> writeString (bytes_string p))"
  obtain ab where a: "a = Inr ab" "length ab \<le> 65537"
    "(if cp_AuthData c \<noteq> None then bindE (readBytes_mqtt ab) (\<lambda>(p, r). Inr (Some p, r)) else Inr (None, ab)) = Inr (cp_AuthData c, [])"
  proof (cases "cp_AuthData c")
    case None
    then show thesis using that [of "[]"] by (simp add: a_def)
  next
    case (Some p)
    then obtain bs where "writeString (bytes_string p) = Inr bs" "length bs \<le> 65537" "\<And>r. readString_mqtt (bs @ r) = Inr (bytes_string p, r)"
      using str [of "bytes_string p"] assms by auto
    from this(1,2) this(3) [of "[]"] show thesis using that [of bs] Some by (simp add: a_def readBytes_mqtt_def)
  qed
  let ?b = "m @ [4, connectFlagsOf c] @ be16 (cp_KeepAliveSec c) @ i @ ub @ ab"
  have "connectBody c = Inr ?b" unfolding connectBody_def u_def [symmetric] a_def [symmetric] by (simp add: m i u a)
  moreover have "length ?b < 2 ^ 28" using m i u a by simp
  moreover have "decodeConnect ?b = Inr c"
    unfolding decodeConnect_def using m(3) i(4) u(3) a(3) assms by (simp add: connectFlagsOf_bits)
  then have "decodeBody (drop_bit 4 0x10) (0x10 AND 0x0F) ?b = Inr (Connect c)" by (simp add: decodeBody_def packet_types)
  ultimately show ?thesis using readPacket_withHeader by simp
qed

interpretation msub: codec subscriptionBytes readSubscription okSubscription
proof unfold_locales
  fix s
  assume "okSubscription s"
  then show "\<exists>bs. subscriptionBytes s = Inr bs"
    using mstr.enc_total by (fastforce simp: subscriptionBytes_def okSubscription_def)
next
  fix s bs rest
  assume s: "okSubscription s" "subscriptionBytes s = Inr bs"
  then obtain f where f: "writeString (sb_Filter s) = Inr f" "bs = f @ [sb_QoS s]"
    by (auto simp: subscriptionBytes_def elim!: bindE_Inr_E)
  have "sb_QoS s AND 3 = sb_QoS s" using s word_le_3 [of "sb_QoS s"] by (auto simp: okSubscription_def)
  moreover have "okStr (sb_Filter s)" using s by (simp add: okSubscription_def)
  from mstr.dec_enc [OF this f(1)] have "readString_mqtt (f @ sb_QoS s # rest) = Inr (sb_Filter s, sb_QoS s # rest)" .
  ultimately show "readSubscription (bs @ rest) = Inr (s, rest)" by (simp add: readSubscription_def f(2))
qed

lemma readSubscriptions_write:
  "list_all okSubscription subs \<Longrightarrow> writeAll (map subscriptionBytes subs) = Inr bs \<Longrightarrow>
   readSubscriptions bs = Inr subs \<and> length bs = sum_list (map (\<lambda>s. length (sb_Filter s) + 3) subs)"
proof (induction subs arbitrary: bs)
  case Nil
  then show ?case by (simp add: readSubscriptions.simps)
next
  case (Cons s subs)
  then obtain b bs' where b: "subscriptionBytes s = Inr b" "writeAll (map subscriptionBytes subs) = Inr bs'" "bs = b @ bs'"
    by (auto elim!: bindE_Inr_E)
  then have l: "length b = length (sb_Filter s) + 3"
    by (auto simp: subscriptionBytes_def elim!: bindE_Inr_E dest!: length_writeString)
  then have "b @ bs' \<noteq> []" by auto
  then show ?case using Cons b l msub.dec_enc [of s b bs'] by (subst readSubscriptions.simps) auto
qed

lemma subscribe_roundtrip:
  assumes "okPacket (Subscribe s)"
  shows "\<exists>bs. wirePacket (Subscribe s) = Inr bs \<and> readPacket (bs @ r) = Inr (Subscribe s, r)"
proof -
  obtain t where t: "writeAll (map subscriptionBytes (sp_Topics s)) = Inr t" using msub.items_total assms by auto
  have rs: "readSubscriptions t = Inr (sp_Topics s)" "length t = sum_list (map (\<lambda>s. length (sb_Filter s) + 3) (sp_Topics s))"
    using readSubscriptions_write [OF _ t] assms by auto
  let ?b = "putID (sp_PacketID s) @ t"
  have "subscribeBody s = Inr ?b" by (simp add: subscribeBody_def t)
  moreover have "length ?b < 2 ^ 28" using assms rs(2) by (simp add: putID_def)
  moreover have "decodeSubscribe ?b = Inr s" by (simp add: decodeSubscribe_def rs(1))
  then have "decodeBody (drop_bit 4 0x82) (0x82 AND 0x0F) ?b = Inr (Subscribe s)" by (simp add: decodeBody_def packet_types)
  ultimately show ?thesis using readPacket_withHeader by simp
qed

lemma puback_roundtrip: "readPacket (writePuback p @ r) = Inr (Puback p, r)"
  unfolding writePuback_def
proof (rule readPacket_withHeader)
  show "length (putID (pu_PacketID p)) < 2 ^ 28" by (simp add: putID_def)
qed (simp add: packet_types decodeBody_def decodePuback_def)

lemma plain_roundtrip:
  "readPacket (withHeader 0xC0 [] @ r) = Inr (Pingreq, r)" "readPacket (withHeader 0xE0 [] @ r) = Inr (Disconnect, r)"
  by (rule readPacket_withHeader; simp add: decodeBody_def packet_types)+

lemma packet_roundtrip:
  "okPacket p \<Longrightarrow> \<exists>bs. wirePacket p = Inr bs \<and> readPacket (bs @ r) = Inr (p, r)"
  using connect_roundtrip subscribe_roundtrip publish_roundtrip by (cases p) (auto simp: puback_roundtrip plain_roundtrip)

interpretation mpkt: codec wirePacket readPacket okPacket
proof unfold_locales
  show "okPacket p \<Longrightarrow> \<exists>bs. wirePacket p = Inr bs" for p using packet_roundtrip by blast
  show "okPacket p \<Longrightarrow> wirePacket p = Inr bs \<Longrightarrow> readPacket (bs @ rest) = Inr (p, rest)" for p bs rest
    using packet_roundtrip [of p rest] by auto
qed

section \<open>Properties\<close>

text \<open>C35: MQTT packets survive the wire.  Any sequence of packets, each within the limits of the format, can be written, and
  \<^verbatim>\<open>readPacket\<close> takes exactly these packets off the connection, in order, whatever follows them.\<close>

theorem mqtt_packets_roundtrip:
  assumes "list_all okPacket ps"
  shows "\<exists>bs. writeAll (map wirePacket ps) = Inr bs \<and> readItems readPacket (length ps) (bs @ r) = Inr (ps, r)"
  using mpkt.items_total [OF assms] mpkt.items_dec_enc [OF assms] by blast

definition examplePublish :: PublishPacket where
  "examplePublish = \<lparr>pp_Topic = ''t'', pp_QoS = 1, pp_Duplicate = True, pp_PacketID = 7, pp_Payload = [1, 2, 3]\<rparr>"

theorem mqtt_packets_roundtrip_witness:
  "\<exists>bs. writeAll (map wirePacket [Connect \<lparr>cp_ClientID = ''c'', cp_KeepAliveSec = 60, cp_CleanStart = True, cp_Username = '''', cp_AuthData = Some []\<rparr>,
      Subscribe \<lparr>sp_PacketID = 1, sp_Topics = [\<lparr>sb_Filter = ''t'', sb_QoS = 1\<rparr>]\<rparr>, Publish examplePublish, Disconnect]) = Inr bs
    \<and> readItems readPacket 4 bs = Inr ([Connect \<lparr>cp_ClientID = ''c'', cp_KeepAliveSec = 60, cp_CleanStart = True, cp_Username = '''', cp_AuthData = Some []\<rparr>,
      Subscribe \<lparr>sp_PacketID = 1, sp_Topics = [\<lparr>sb_Filter = ''t'', sb_QoS = 1\<rparr>]\<rparr>, Publish examplePublish, Disconnect], [])"
proof -
  let ?ps = "[Connect \<lparr>cp_ClientID = ''c'', cp_KeepAliveSec = 60, cp_CleanStart = True, cp_Username = '''', cp_AuthData = Some []\<rparr>,
    Subscribe \<lparr>sp_PacketID = 1, sp_Topics = [\<lparr>sb_Filter = ''t'', sb_QoS = 1\<rparr>]\<rparr>, Publish examplePublish, Disconnect]"
  have "list_all okPacket ?ps" by (simp add: okStr_def maxUint16_def inU_def okSubscription_def examplePublish_def)
  from mqtt_packets_roundtrip [OF this, of "[]"] have "\<exists>bs. writeAll (map wirePacket ?ps) = Inr bs \<and> readItems readPacket (length ?ps) bs = Inr (?ps, [])"
    by (simp only: append_Nil2)
  moreover have "length ?ps = 4" by simp
  ultimately show ?thesis by metis
qed

text \<open>
  A packet with a will (flag \<open>0x04\<close>) has the topic and the message of the will before the user name; the decoder does not know the
  flag and takes the topic of the will for the name of the user.
\<close>

lemma connect_will_misread:
  assumes "writeString ''MQTT'' = Inr m" "okStr cid" "writeString cid = Inr i" "okStr will" "writeString will = Inr w" "inU 16 keep"
  shows "decodeConnect (m @ [4, 0x84] @ be16 keep @ i @ w @ rest) =
    Inr \<lparr>cp_ClientID = cid, cp_KeepAliveSec = keep, cp_CleanStart = False, cp_Username = will, cp_AuthData = None\<rparr>"
proof -
  have "okStr ''MQTT''" by (simp add: okStr_def maxUint16_def)
  from mstr.dec_enc [OF this assms(1)] mstr.dec_enc [OF assms(2,3)] mstr.dec_enc [OF assms(4,5)] assms(6)
  show ?thesis by (simp add: decodeConnect_def)
qed

text \<open>A body of \<open>2 ^ 28\<close> bytes or more is written with five length bytes, which the reader refuses.\<close>

lemma oversized_packet_refused: "decodeRemainingLength (encodeRemainingLength (2 ^ 28) @ r) = Inl (Errorf ''malformed remaining length'')"
  by (simp add: decodeRemainingLength_def encodeRemainingLength.simps [of "268435456"] encodeRemainingLength.simps [of 2097152]
      encodeRemainingLength.simps [of 16384] encodeRemainingLength.simps [of 128] encodeRemainingLength.simps [of 1] Let_def)

end
