(* ===== verification/MqttServer.thy ===== *)
theory MqttServer
  imports MqttCodec BrokerLog
begin

text \<open>
  The MQTT server (\<^verbatim>\<open>internal/mqtt/server.go\<close>): the reader of a connection with its handlers, and one
  goroutine per subscription that fetches records, publishes them to the client and commits offsets.

  The goroutines of a connection share the client state; an event of the system is one atomic part of the
  reader (a packet) or of a delivery loop (up to its next call of the broker, write or wait), so a list of events is an
  interleaving.  A channel that is closed on an acknowledgement is a number; a context is done when the connection's
  context or the loop's own one is cancelled.  Every write of a packet happens under the write lock: the packets
  written are kept in order, and the event says whether a write succeeds.
\<close>

section \<open>The broker interface\<close>

text \<open>\<^verbatim>\<open>BrokerAPI\<close>; a commit has the state of its context and is \<open>None\<close> when the call does not return.\<close>

record 's MqttBroker =
  mb_Produce :: "'s \<Rightarrow> string \<Rightarrow> int \<Rightarrow> Record list \<Rightarrow> 's \<times> int \<times> go_error option"
  mb_Fetch :: "'s \<Rightarrow> string \<Rightarrow> int \<Rightarrow> int \<Rightarrow> int \<Rightarrow> Record list result"
  mb_ListOffsets :: "'s \<Rightarrow> string \<Rightarrow> int \<Rightarrow> int \<times> int \<times> go_error option"
  mb_Metadata :: "'s \<Rightarrow> string list \<Rightarrow> PartitionMetadata list result"
  mb_JoinGroup :: "'s \<Rightarrow> string \<Rightarrow> string \<Rightarrow> string list \<Rightarrow> 's \<times> (string \<times> int list) list result"
  mb_LeaveGroup :: "'s \<Rightarrow> string \<Rightarrow> string \<Rightarrow> 's \<times> go_error option"
  mb_CommitOffset :: "bool \<Rightarrow> 's \<Rightarrow> string \<Rightarrow> string \<Rightarrow> int \<Rightarrow> int \<Rightarrow> ('s \<times> go_error option) option"
  mb_FetchCommitted :: "'s \<Rightarrow> string \<Rightarrow> string \<Rightarrow> int \<Rightarrow> int \<times> go_error option"

text \<open>The broker of this program behind the interface, at a given clock.\<close>

definition brokerMqtt :: "(nat \<Rightarrow> int) \<Rightarrow> int \<Rightarrow> 'c Broker MqttBroker" where
  "brokerMqtt clock now =
    \<lparr>mb_Produce = Produce (\<lambda>n. False) clock now, mb_Fetch = Fetch (\<lambda>n. False), mb_ListOffsets = ListOffsets,
     mb_Metadata = Metadata, mb_JoinGroup = JoinGroup, mb_LeaveGroup = LeaveGroup,
     mb_CommitOffset = (\<lambda>done b grp topic part off. map_option (\<lambda>(b', err, _). (b', err)) (CommitOffset done b grp topic part off)),
     mb_FetchCommitted = FetchCommitted\<rparr>"

section \<open>State\<close>

record ServerOptions =
  so_EmptyPollInterval :: int
  so_FetchErrorBackoff :: int
  so_QoS1RetryInterval :: int
  so_CommitRetryBackoff :: int
  so_CommitFinalTimeout :: int

definition defaultServerOptions :: ServerOptions where
  "defaultServerOptions = \<lparr>so_EmptyPollInterval = 50 * 10 ^ 6, so_FetchErrorBackoff = 100 * 10 ^ 6, so_QoS1RetryInterval = 10 ^ 9,
     so_CommitRetryBackoff = 100 * 10 ^ 6, so_CommitFinalTimeout = 5 * 10 ^ 9\<rparr>"

record 's mqttServer =
  sv_addr :: string
  sv_broker :: "'s MqttBroker"
  sv_options :: ServerOptions

definition orDefault :: "int \<Rightarrow> int \<Rightarrow> int" where
  "orDefault d v = (if v \<le> 0 then d else v)"

definition NewServerWithOptions :: "string \<Rightarrow> 's MqttBroker option \<Rightarrow> ServerOptions \<Rightarrow> 's mqttServer result" where
  "NewServerWithOptions addr broker options = (case broker of
       None \<Rightarrow> Inl (Errorf ''broker is required'')
     | Some b \<Rightarrow>
       (if addr = '''' then Inl (Errorf ''addr is required'')
        else let d = defaultServerOptions in
          Inr \<lparr>sv_addr = addr, sv_broker = b, sv_options =
            \<lparr>so_EmptyPollInterval = orDefault (so_EmptyPollInterval d) (so_EmptyPollInterval options),
             so_FetchErrorBackoff = orDefault (so_FetchErrorBackoff d) (so_FetchErrorBackoff options),
             so_QoS1RetryInterval = orDefault (so_QoS1RetryInterval d) (so_QoS1RetryInterval options),
             so_CommitRetryBackoff = orDefault (so_CommitRetryBackoff d) (so_CommitRetryBackoff options),
             so_CommitFinalTimeout = orDefault (so_CommitFinalTimeout d) (so_CommitFinalTimeout options)\<rparr>\<rparr>))"

definition NewServer_mqtt :: "string \<Rightarrow> 's MqttBroker option \<Rightarrow> 's mqttServer result" where
  "NewServer_mqtt addr broker = NewServerWithOptions addr broker defaultServerOptions"

text \<open>A subscription, with the number of the loop that its \<^verbatim>\<open>stop\<close> cancels.\<close>

record subscriptionState =
  ss_topic :: string
  ss_partition :: int
  ss_qos :: byte
  ss_offset :: int
  ss_stop :: nat

text \<open>
  Where a delivery loop stands: about to poll; in the wait after an empty or failed fetch; about to publish the first of the
  fetched records; waiting for the acknowledgement of the first one, published as a packet, on a channel; committing the
  first one, or pausing between two attempts, after an acknowledgement or without one; returned.
\<close>

datatype loopPoint =
    Polling
  | PollWait
  | Delivering "Record list"
  | AwaitingAck "Record list" PublishPacket nat
  | Committing "Record list" bool
  | CommitWait "Record list" bool
  | Ended

record consumer =
  cl_mqttTopic :: string
  cl_sub :: subscriptionState
  cl_offset :: int
  cl_stopped :: bool
  cl_point :: loopPoint

record clientState =
  cs_in :: bytes                       \<comment> \<open>what the client sends and the reader has not read\<close>
  cs_written :: "bytes list"           \<comment> \<open>the packets written to the client\<close>
  cs_open :: bool                      \<comment> \<open>the reader is in its loop\<close>
  cs_cancelled :: bool
  cs_clientID :: string
  cs_cleanStart :: bool
  cs_keepAlive :: int
  cs_group :: string
  cs_subs :: "(string \<times> subscriptionState) list"
  cs_nextPacketID :: "16 word"
  cs_outboundQoS1Acks :: "(16 word \<times> nat) list"
  cs_inboundQoS1Seen :: "(16 word \<times> 64 word) list"
  cs_channels :: "bool list"           \<comment> \<open>the channels made, and whether each is closed\<close>
  cs_loops :: "consumer list"          \<comment> \<open>the delivery loops started\<close>

definition newClient :: "bytes \<Rightarrow> clientState" where
  "newClient input = \<lparr>cs_in = input, cs_written = [], cs_open = True, cs_cancelled = False, cs_clientID = '''', cs_cleanStart = False,
     cs_keepAlive = 0, cs_group = '''', cs_subs = [], cs_nextPacketID = 0, cs_outboundQoS1Acks = [], cs_inboundQoS1Seen = [],
     cs_channels = [], cs_loops = []\<rparr>"

text \<open>A write under the write lock, which succeeds or not.\<close>

definition connWrite :: "bool \<Rightarrow> bytes \<Rightarrow> clientState \<Rightarrow> clientState \<times> go_error option" where
  "connWrite ok bs st = (if ok then (st\<lparr>cs_written := cs_written st @ [bs]\<rparr>, None) else (st, Some ErrClosed))"

definition writePublish_state :: "bool \<Rightarrow> PublishPacket \<Rightarrow> clientState \<Rightarrow> clientState \<times> go_error option" where
  "writePublish_state ok pkt st = (case writePublish pkt of Inl e \<Rightarrow> (st, Some e) | Inr bs \<Rightarrow> connWrite ok bs st)"

section \<open>Packet identifiers\<close>

partial_function (option) nextFree :: "16 word \<Rightarrow> (16 word \<times> nat) list \<Rightarrow> 16 word option" where
  "nextFree nextPacketID pending =
    (let n = nextPacketID + 1 in
     if n = 0 then nextFree n pending
     else if map_of pending n \<noteq> None then nextFree n pending
     else Some n)"

text \<open>\<^verbatim>\<open>registerOutgoing\<close> with the new channel; \<open>None\<close> when every identifier is in use and it loops for ever.\<close>

definition registerOutgoing :: "clientState \<Rightarrow> (clientState \<times> 16 word \<times> nat) option" where
  "registerOutgoing st = map_option (\<lambda>n.
     (st\<lparr>cs_nextPacketID := n, cs_outboundQoS1Acks := AList.update n (length (cs_channels st)) (cs_outboundQoS1Acks st),
         cs_channels := cs_channels st @ [False]\<rparr>, n, length (cs_channels st)))
     (nextFree (cs_nextPacketID st) (cs_outboundQoS1Acks st))"

definition ackOutgoing :: "16 word \<Rightarrow> clientState \<Rightarrow> clientState" where
  "ackOutgoing packetID st = (case map_of (cs_outboundQoS1Acks st) packetID of
       None \<Rightarrow> st
     | Some ch \<Rightarrow> st\<lparr>cs_outboundQoS1Acks := AList.delete packetID (cs_outboundQoS1Acks st), cs_channels := (cs_channels st)[ch := True]\<rparr>)"

definition cancelOutgoing :: "16 word \<Rightarrow> clientState \<Rightarrow> clientState" where
  "cancelOutgoing packetID st = st\<lparr>cs_outboundQoS1Acks := AList.delete packetID (cs_outboundQoS1Acks st)\<rparr>"

text \<open>\<^verbatim>\<open>fnv.New64a\<close> over the topic and then the payload.\<close>

definition fnv64a :: "64 word \<Rightarrow> bytes \<Rightarrow> 64 word" where
  "fnv64a h data = foldl (\<lambda>h c. xor h (ucast c) * 1099511628211) h data"

definition publishFingerprint :: "string \<Rightarrow> bytes \<Rightarrow> 64 word" where
  "publishFingerprint topic payload = fnv64a (fnv64a 14695981039346656037 (string_bytes topic)) payload"

definition isDuplicateIncomingQoS1 :: "clientState \<Rightarrow> PublishPacket \<Rightarrow> bool" where
  "isDuplicateIncomingQoS1 st pkt = (case map_of (cs_inboundQoS1Seen st) (pp_PacketID pkt) of
       None \<Rightarrow> False
     | Some fp \<Rightarrow> fp = publishFingerprint (pp_Topic pkt) (pp_Payload pkt))"

definition markIncomingQoS1 :: "PublishPacket \<Rightarrow> clientState \<Rightarrow> clientState" where
  "markIncomingQoS1 pkt st = st\<lparr>cs_inboundQoS1Seen :=
     AList.update (pp_PacketID pkt) (publishFingerprint (pp_Topic pkt) (pp_Payload pkt)) (cs_inboundQoS1Seen st)\<rparr>"

section \<open>Handlers\<close>

definition handleConnect :: "bool \<Rightarrow> ConnectPacket \<Rightarrow> clientState \<Rightarrow> clientState \<times> go_error option" where
  "handleConnect ok pkt st =
    (if cp_ClientID pkt = '''' then (st, Some (Errorf ''client id required''))
     else connWrite ok (writeConnack \<lparr>ck_SessionPresent = False, ck_ReturnCode = 0\<rparr>)
       (st\<lparr>cs_clientID := cp_ClientID pkt, cs_group := cp_ClientID pkt, cs_cleanStart := cp_CleanStart pkt,
           cs_keepAlive := cp_KeepAliveSec pkt * 10 ^ 9\<rparr>))"

definition initialOffsetForSub :: "'s MqttBroker \<Rightarrow> 's \<Rightarrow> clientState \<Rightarrow> string \<Rightarrow> int \<Rightarrow> int" where
  "initialOffsetForSub api s st topic part =
    (if cs_cleanStart st
     then (case mb_ListOffsets api s topic part of
         (_, _, Some e) \<Rightarrow> 0
       | (_, latest, None) \<Rightarrow> wrapS 64 (latest + 1))
     else let (earliest, _, errEarliest) = mb_ListOffsets api s topic part;
              (committed, errCommitted) = mb_FetchCommitted api s (cs_group st) topic part;
              start = (if errCommitted = None \<and> wrapS 64 (committed + 1) > earliest then wrapS 64 (committed + 1) else earliest)
       in if errEarliest \<noteq> None then 0 else start)"

definition stopLoop :: "nat \<Rightarrow> consumer list \<Rightarrow> consumer list" where
  "stopLoop i loops = (if i < length loops then loops[i := (loops ! i)\<lparr>cl_stopped := True\<rparr>] else loops)"

definition trackSubscription :: "'s MqttBroker \<Rightarrow> 's \<Rightarrow> string \<Rightarrow> string \<Rightarrow> byte \<Rightarrow> clientState \<Rightarrow> int \<Rightarrow> clientState" where
  "trackSubscription api s mqttTopic topic qos st part =
    (let loops = (case map_of (cs_subs st) mqttTopic of None \<Rightarrow> cs_loops st | Some old \<Rightarrow> stopLoop (ss_stop old) (cs_loops st));
         sub = \<lparr>ss_topic = topic, ss_partition = part, ss_qos = qos, ss_offset = initialOffsetForSub api s st topic part, ss_stop = length loops\<rparr>
     in st\<lparr>cs_subs := AList.update mqttTopic sub (cs_subs st),
           cs_loops := loops @ [\<lparr>cl_mqttTopic = mqttTopic, cl_sub = sub, cl_offset = ss_offset sub, cl_stopped = False, cl_point = Polling\<rparr>]\<rparr>)"

text \<open>One topic of a \<^verbatim>\<open>SUBSCRIBE\<close> packet, with the code that is granted.\<close>

definition subscribeTopic :: "'s MqttBroker \<Rightarrow> 's \<Rightarrow> clientState \<Rightarrow> Subscription \<Rightarrow> 's \<times> clientState \<times> byte" where
  "subscribeTopic api s st sub =
    (if sb_QoS sub > qos1 then (s, st, 0x80)
     else case mb_JoinGroup api s (cs_group st) (cs_clientID st) [sb_Filter sub] of
       (s', Inl e) \<Rightarrow> (s', st, 0x80)
     | (s', Inr assignments) \<Rightarrow>
       (case map_of assignments (sb_Filter sub) of
          None \<Rightarrow> (s', st, 0x80)
        | Some partitions \<Rightarrow>
          (if partitions = [] then (s', st, 0x80)
           else (s', foldl (trackSubscription api s' (sb_Filter sub) (sb_Filter sub) (sb_QoS sub)) st partitions, sb_QoS sub))))"

fun subscribeTopics :: "'s MqttBroker \<Rightarrow> 's \<Rightarrow> clientState \<Rightarrow> Subscription list \<Rightarrow> 's \<times> clientState \<times> bytes" where
  "subscribeTopics api s st [] = (s, st, [])"
| "subscribeTopics api s st (sub # subs) =
    (let (s1, st1, g) = subscribeTopic api s st sub; (s2, st2, gs) = subscribeTopics api s1 st1 subs in (s2, st2, g # gs))"

definition handleSubscribe :: "'s MqttBroker \<Rightarrow> bool \<Rightarrow> 's \<Rightarrow> SubscribePacket \<Rightarrow> clientState \<Rightarrow> 's \<times> clientState \<times> go_error option" where
  "handleSubscribe api ok s pkt st =
    (let (s', st', granted) = subscribeTopics api s st (sp_Topics pkt)
     in (s', connWrite ok (writeSuback \<lparr>sa_PacketID = sp_PacketID pkt, sa_Granted = granted\<rparr>) st'))"

definition mapTopic :: "'s MqttBroker \<Rightarrow> 's \<Rightarrow> string \<Rightarrow> string \<Rightarrow> (string \<times> int) result" where
  "mapTopic api s mqttTopic clientID = bindE (mb_Metadata api s [mqttTopic]) (\<lambda>meta.
     let partitions = map (\<lambda>m. pr_Partition (pm_Replica m)) (filter (\<lambda>m. pr_Topic (pm_Replica m) = mqttTopic) meta)
     in if partitions = [] then Inl (Errorf ''topic not found'')
        else let pid = unat (fnv32a (string_bytes mqttTopic @ string_bytes clientID)) mod length partitions
          in Inr (mqttTopic, sort partitions ! pid))"

definition recordOf :: "bytes \<Rightarrow> Record" where
  "recordOf payload = \<lparr>r_Offset = 0, r_Timestamp = None, r_Key = None, r_Value = Some payload, r_Headers = [], r_CRC32C = 0\<rparr>"

definition handlePublish :: "'s MqttBroker \<Rightarrow> bool \<Rightarrow> 's \<Rightarrow> PublishPacket \<Rightarrow> clientState \<Rightarrow> 's \<times> clientState \<times> go_error option" where
  "handlePublish api ok s pkt st =
    (if pp_QoS pkt = qos1 \<and> pp_Duplicate pkt \<and> isDuplicateIncomingQoS1 st pkt
     then (s, connWrite ok (writePuback \<lparr>pu_PacketID = pp_PacketID pkt\<rparr>) st)
     else case mapTopic api s (pp_Topic pkt) (cs_clientID st) of
       Inl e \<Rightarrow> (s, st, Some e)
     | Inr (topic, part) \<Rightarrow>
       (case mb_Produce api s topic part [recordOf (pp_Payload pkt)] of
          (s', _, Some e) \<Rightarrow> (s', st, Some e)
        | (s', _, None) \<Rightarrow>
          (if pp_QoS pkt = qos1
           then (s', connWrite ok (writePuback \<lparr>pu_PacketID = pp_PacketID pkt\<rparr>) (markIncomingQoS1 pkt st))
           else (s', st, None))))"

definition handleDisconnect :: "'s MqttBroker \<Rightarrow> 's \<Rightarrow> clientState \<Rightarrow> 's \<times> clientState" where
  "handleDisconnect api s st =
    (let s' = (if cs_group st \<noteq> '''' \<and> cs_clientID st \<noteq> '''' then fst (mb_LeaveGroup api s (cs_group st) (cs_clientID st)) else s)
     in (s', st\<lparr>cs_cancelled := True, cs_loops := foldl (\<lambda>loops (_, sub). stopLoop (ss_stop sub) loops) (cs_loops st) (cs_subs st)\<rparr>))"

text \<open>The deferred calls when \<^verbatim>\<open>handleConnection\<close> returns.\<close>

definition closeConn :: "clientState \<Rightarrow> clientState" where
  "closeConn st = st\<lparr>cs_open := False, cs_cancelled := True\<rparr>"

definition orClose :: "'s \<times> clientState \<times> go_error option \<Rightarrow> 's \<times> clientState" where
  "orClose = (\<lambda>(s, st, err). (s, if err = None then st else closeConn st))"

definition handlePacket :: "'s MqttBroker \<Rightarrow> bool \<Rightarrow> mqttPacket \<Rightarrow> 's \<times> clientState \<Rightarrow> 's \<times> clientState" where
  "handlePacket api ok pkt = (\<lambda>(s, st). case pkt of
       Connect v \<Rightarrow> orClose (s, handleConnect ok v st)
     | Subscribe v \<Rightarrow> orClose (handleSubscribe api ok s v st)
     | Publish v \<Rightarrow> orClose (handlePublish api ok s v st)
     | Puback v \<Rightarrow> (s, ackOutgoing (pu_PacketID v) st)
     | Pingreq \<Rightarrow> orClose (s, connWrite ok writePingresp st)
     | Disconnect \<Rightarrow> (let (s', st') = handleDisconnect api s st in (s', closeConn st')))"

text \<open>One round of the loop of \<^verbatim>\<open>handleConnection\<close>.\<close>

definition readerStep :: "'s MqttBroker \<Rightarrow> bool \<Rightarrow> 's \<times> clientState \<Rightarrow> 's \<times> clientState" where
  "readerStep api ok = (\<lambda>(s, st). case readPacket (cs_in st) of
       Inl e \<Rightarrow> (s, closeConn st)
     | Inr (pkt, rest) \<Rightarrow> handlePacket api ok pkt (s, st\<lparr>cs_in := rest\<rparr>))"

section \<open>The delivery loop\<close>

text \<open>The branch that a \<^verbatim>\<open>select\<close> takes.\<close>

datatype branch = CtxDone | Acked | Timer

definition ctxDone :: "clientState \<Rightarrow> consumer \<Rightarrow> bool" where
  "ctxDone st c \<longleftrightarrow> cs_cancelled st \<or> cl_stopped c"

definition setLoop :: "nat \<Rightarrow> consumer \<Rightarrow> clientState \<Rightarrow> clientState" where
  "setLoop i c st = st\<lparr>cs_loops := (cs_loops st)[i := c]\<rparr>"

definition publishOf :: "consumer \<Rightarrow> Record \<Rightarrow> PublishPacket" where
  "publishOf c r = \<lparr>pp_Topic = cl_mqttTopic c, pp_QoS = ss_qos (cl_sub c), pp_Duplicate = False, pp_PacketID = 0,
     pp_Payload = (case r_Value r of None \<Rightarrow> [] | Some v \<Rightarrow> v)\<rparr>"

definition pollStep :: "'s MqttBroker \<Rightarrow> 's \<Rightarrow> clientState \<Rightarrow> consumer \<Rightarrow> loopPoint" where
  "pollStep api s st c =
    (if ctxDone st c then Ended
     else case mb_Fetch api s (ss_topic (cl_sub c)) (ss_partition (cl_sub c)) (cl_offset c) 65536 of
       Inl e \<Rightarrow> PollWait
     | Inr recs \<Rightarrow> if recs = [] then PollWait else Delivering recs)"

text \<open>Publishing the first record; \<open>None\<close> when there is no free packet identifier.\<close>

definition deliverStep :: "bool \<Rightarrow> clientState \<Rightarrow> consumer \<Rightarrow> Record \<Rightarrow> Record list \<Rightarrow> (clientState \<times> loopPoint) option" where
  "deliverStep ok st c r recs =
    (if ss_qos (cl_sub c) = qos1
     then (case registerOutgoing st of
         None \<Rightarrow> None
       | Some (st1, packetID, ch) \<Rightarrow>
         (let pkt = (publishOf c r)\<lparr>pp_PacketID := packetID\<rparr> in
          case writePublish_state ok pkt st1 of
            (st2, Some e) \<Rightarrow> Some (cancelOutgoing packetID st2, Ended)
          | (st2, None) \<Rightarrow> Some (st2, AwaitingAck (r # recs) pkt ch)))
     else (case writePublish_state ok (publishOf c r) st of
         (st1, Some e) \<Rightarrow> Some (st1, Ended)
       | (st1, None) \<Rightarrow> Some (st1, Committing (r # recs) False)))"

text \<open>The \<^verbatim>\<open>select\<close> of \<^verbatim>\<open>sendQoS1AndWaitAck\<close>; \<open>None\<close> for a branch that is not ready.\<close>

definition awaitStep :: "branch \<Rightarrow> bool \<Rightarrow> clientState \<Rightarrow> consumer \<Rightarrow> Record list \<Rightarrow> PublishPacket \<Rightarrow> nat \<Rightarrow> (clientState \<times> loopPoint) option" where
  "awaitStep br ok st c recs pkt ch =
    (let acked = (cs_channels st ! ch) in
     case br of
       CtxDone \<Rightarrow> if ctxDone st c then Some (cancelOutgoing (pp_PacketID pkt) st, Ended) else None
     | Acked \<Rightarrow> if acked then Some (st, Committing recs True) else None
     | Timer \<Rightarrow>
       (if acked then Some (st, Committing recs True)
        else let pkt' = pkt\<lparr>pp_Duplicate := True\<rparr> in
          case writePublish_state ok pkt' st of
            (st1, Some e) \<Rightarrow> Some (cancelOutgoing (pp_PacketID pkt) st1, Ended)
          | (st1, None) \<Rightarrow> Some (st1, AwaitingAck recs pkt' ch)))"

text \<open>
  One attempt of \<^verbatim>\<open>commitWithRetry\<close> for the first record.  After an acknowledgement it runs under a context of its own that only
  times out, which the event decides.
\<close>

definition commitStep :: "'s MqttBroker \<Rightarrow> bool \<Rightarrow> 's \<Rightarrow> clientState \<Rightarrow> consumer \<Rightarrow> Record \<Rightarrow> Record list \<Rightarrow> bool \<Rightarrow> ('s \<times> consumer) option" where
  "commitStep api timedOut s st c r recs acked =
    (case mb_CommitOffset api (if acked then timedOut else ctxDone st c) s (cs_group st) (ss_topic (cl_sub c)) (ss_partition (cl_sub c)) (r_Offset r) of
       None \<Rightarrow> None
     | Some (s', Some e) \<Rightarrow> Some (s', c\<lparr>cl_point := CommitWait (r # recs) acked\<rparr>)
     | Some (s', None) \<Rightarrow> Some (s', c\<lparr>cl_offset := wrapS 64 (r_Offset r + 1), cl_point := Delivering recs\<rparr>))"

definition loopStep :: "'s MqttBroker \<Rightarrow> branch \<Rightarrow> bool \<Rightarrow> nat \<Rightarrow> 's \<times> clientState \<Rightarrow> ('s \<times> clientState) option" where
  "loopStep api br ok i = (\<lambda>(s, st).
    if \<not> i < length (cs_loops st) then None
    else let c = cs_loops st ! i; go = (\<lambda>st' point. Some (s, setLoop i (c\<lparr>cl_point := point\<rparr>) st')) in
      case cl_point c of
        Polling \<Rightarrow> go st (pollStep api s st c)
      | PollWait \<Rightarrow>
          (case br of
             CtxDone \<Rightarrow> if ctxDone st c then go st Ended else None
           | Timer \<Rightarrow> go st Polling
           | Acked \<Rightarrow> None)
      | Delivering [] \<Rightarrow> go st Polling
      | Delivering (r # recs) \<Rightarrow>
          (case deliverStep ok st c r recs of None \<Rightarrow> None | Some (st', point) \<Rightarrow> go st' point)
      | AwaitingAck recs pkt ch \<Rightarrow>
          (case awaitStep br ok st c recs pkt ch of None \<Rightarrow> None | Some (st', point) \<Rightarrow> go st' point)
      | Committing [] acked \<Rightarrow> go st Polling
      | Committing (r # recs) acked \<Rightarrow>
          (case commitStep api (br = CtxDone) s st c r recs acked of None \<Rightarrow> None | Some (s', c') \<Rightarrow> Some (s', setLoop i c' st))
      | CommitWait recs acked \<Rightarrow>
          (case br of
             CtxDone \<Rightarrow> if acked \<or> ctxDone st c then go st Ended else None
           | Timer \<Rightarrow> go st (Committing recs acked)
           | Acked \<Rightarrow> None)
      | Ended \<Rightarrow> None)"

section \<open>A connection\<close>

datatype mqttEvent = Reader bool | Loop nat branch bool

text \<open>An event that cannot happen leaves \<open>None\<close>.\<close>

fun mqttStep :: "'s MqttBroker \<Rightarrow> 's \<times> clientState \<Rightarrow> mqttEvent \<Rightarrow> ('s \<times> clientState) option" where
  "mqttStep api (s, st) (Reader ok) = (if cs_open st then Some (readerStep api ok (s, st)) else None)"
| "mqttStep api (s, st) (Loop i br ok) = loopStep api br ok i (s, st)"

fun mqttRun :: "'s MqttBroker \<Rightarrow> 's \<times> clientState \<Rightarrow> mqttEvent list \<Rightarrow> ('s \<times> clientState) option" where
  "mqttRun api x [] = Some x"
| "mqttRun api x (ev # evs) = (case mqttStep api x ev of None \<Rightarrow> None | Some x' \<Rightarrow> mqttRun api x' evs)"

section \<open>Packet identifiers are found\<close>

lemma nextFree_step:
  "nextFree n pending = (if n + 1 = 0 \<or> map_of pending (n + 1) \<noteq> None then nextFree (n + 1) pending else Some (n + 1))"
  by (subst nextFree.simps) (simp add: Let_def)

text \<open>As long as one identifier is free the search ends, with a free one that is not zero.\<close>

lemma nextFree_finds:
  assumes "f \<noteq> 0" "map_of pending f = None"
  shows "\<exists>n'. nextFree n pending = Some n' \<and> n' \<noteq> 0 \<and> map_of pending n' = None"
proof (induction "unat (f - (n + 1))" arbitrary: n)
  case 0
  then have "f = n + 1" by (simp add: unat_eq_zero)
  then show ?case using assms by (simp add: nextFree_step [of n])
next
  case (Suc k)
  have "f - (n + 1) \<noteq> 0" using Suc.hyps(2) by auto
  then have "unat (f - (n + 1) - 1) = unat (f - (n + 1)) - 1" by (rule unat_minus_one)
  moreover have "f - (n + 1 + 1) = f - (n + 1) - 1" by simp
  ultimately have "unat (f - (n + 1 + 1)) = unat (f - (n + 1)) - 1" by (simp only:)
  then have "k = unat (f - (n + 1 + 1))" using Suc.hyps(2) by linarith
  from Suc.hyps(1) [OF this] show ?case by (subst nextFree_step) auto
qed


section \<open>Publishing\<close>

lemma connWrite_fields [simp]:
  "cs_inboundQoS1Seen (fst (connWrite ok bs st)) = cs_inboundQoS1Seen st" "cs_loops (fst (connWrite ok bs st)) = cs_loops st"
  "cs_channels (fst (connWrite ok bs st)) = cs_channels st" "cs_outboundQoS1Acks (fst (connWrite ok bs st)) = cs_outboundQoS1Acks st"
  by (simp_all add: connWrite_def)

text \<open>What the client is known to have published under an identifier.\<close>

definition seen :: "clientState \<Rightarrow> 16 word \<Rightarrow> 64 word option" where
  "seen st packetID = map_of (cs_inboundQoS1Seen st) packetID"

lemma seen_connWrite [simp]: "seen (fst (connWrite ok bs st)) = seen st"
  by (simp add: seen_def fun_eq_iff)

lemma seen_mark [simp]:
  "seen (markIncomingQoS1 pkt st) = (seen st)(pp_PacketID pkt \<mapsto> publishFingerprint (pp_Topic pkt) (pp_Payload pkt))"
  by (simp add: seen_def markIncomingQoS1_def update_conv' fun_eq_iff)

lemma handlePublish_seen:
  assumes "handlePublish api ok s pkt st = (s', st', err)"
  shows "seen st' = seen st \<or> seen st' = (seen st)(pp_PacketID pkt \<mapsto> publishFingerprint (pp_Topic pkt) (pp_Payload pkt))"
    "pp_QoS pkt = qos1 \<Longrightarrow> err = None \<Longrightarrow> seen st' (pp_PacketID pkt) = Some (publishFingerprint (pp_Topic pkt) (pp_Payload pkt))"
    "pp_QoS pkt = qos1 \<Longrightarrow> err = None \<Longrightarrow> cs_written st' = cs_written st @ [writePuback \<lparr>pu_PacketID = pp_PacketID pkt\<rparr>]"
proof -
  have w: "fst (connWrite ok bs x) = st' \<Longrightarrow> seen st' = seen x" for bs x by auto
  show "seen st' = seen st \<or> seen st' = (seen st)(pp_PacketID pkt \<mapsto> publishFingerprint (pp_Topic pkt) (pp_Payload pkt))"
    using assms w by (auto simp: handlePublish_def split: if_splits sum.splits prod.splits option.splits)
      (metis fst_conv seen_mark)+
  show "seen st' (pp_PacketID pkt) = Some (publishFingerprint (pp_Topic pkt) (pp_Payload pkt))" if "pp_QoS pkt = qos1" "err = None"
    using assms that w by (auto simp: handlePublish_def isDuplicateIncomingQoS1_def seen_def [symmetric]
        split: if_splits sum.splits prod.splits option.splits) (metis fst_conv seen_mark fun_upd_same)+
  show "cs_written st' = cs_written st @ [writePuback \<lparr>pu_PacketID = pp_PacketID pkt\<rparr>]" if "pp_QoS pkt = qos1" "err = None"
    using assms that by (auto simp: handlePublish_def connWrite_def markIncomingQoS1_def split: if_splits sum.splits prod.splits option.splits)
qed

text \<open>Packets published one after the other, as the reader hands them to \<^verbatim>\<open>handlePublish\<close>; errors end the connection.\<close>

fun publishAll :: "'s MqttBroker \<Rightarrow> 's \<times> clientState \<Rightarrow> PublishPacket list \<Rightarrow> 's \<times> clientState" where
  "publishAll api x [] = x"
| "publishAll api (s, st) (pkt # pkts) = (let (s', st', err) = handlePublish api True s pkt st in publishAll api (s', st') pkts)"

lemma publishAll_seen:
  assumes "publishAll api (s, st) pkts = (s', st')" "\<forall>p \<in> set pkts. pp_PacketID p \<noteq> packetID"
  shows "seen st' packetID = seen st packetID"
  using assms
proof (induction pkts arbitrary: s st)
  case (Cons p pkts)
  obtain s1 st1 e where h: "handlePublish api True s p st = (s1, st1, e)" by (metis prod_cases3)
  then have "seen st1 packetID = seen st packetID" using handlePublish_seen(1) [OF h] Cons.prems(2) by auto
  then show ?case using Cons h by simp
qed simp

text \<open>C36: a publication that is redelivered on the same connection is stored once.  When a publication of quality of service 1 has been
  handled, the client has its acknowledgement; if it sends the packet again on this connection, marked as a duplicate, after any other
  publications under other identifiers, the broker is not called again, and the client is acknowledged again.  The identifiers seen are
  those of one connection: after a reconnect, or when the identifier was used for another packet meanwhile, nothing is said.\<close>

theorem duplicate_publish_produced_once:
  assumes "pp_QoS pkt = qos1" "handlePublish api ok s pkt st = (s1, st1, None)"
    and "publishAll api (s1, st1) others = (s2, st2)" "\<forall>p \<in> set others. pp_PacketID p \<noteq> pp_PacketID pkt"
  shows "cs_written st1 = cs_written st @ [writePuback \<lparr>pu_PacketID = pp_PacketID pkt\<rparr>]
    \<and> handlePublish api ok' s2 (pkt\<lparr>pp_Duplicate := True\<rparr>) st2 = (s2, connWrite ok' (writePuback \<lparr>pu_PacketID = pp_PacketID pkt\<rparr>) st2)"
proof -
  have "seen st2 (pp_PacketID pkt) = Some (publishFingerprint (pp_Topic pkt) (pp_Payload pkt))"
    using publishAll_seen [OF assms(3,4)] handlePublish_seen(2) [OF assms(2,1)] by simp
  then have "isDuplicateIncomingQoS1 st2 (pkt\<lparr>pp_Duplicate := True\<rparr>)" by (simp add: isDuplicateIncomingQoS1_def seen_def)
  then show ?thesis using handlePublish_seen(3) [OF assms(2,1)] assms(1) by (simp add: handlePublish_def)
qed

text \<open>
  The fingerprint runs topic and payload together: a duplicate for another topic, with the same bytes split
  elsewhere, is taken for the packet that was seen, acknowledged and dropped.
\<close>

lemma fingerprint_boundary: "publishFingerprint (t @ u) p = publishFingerprint t (string_bytes u @ p)"
  by (simp add: publishFingerprint_def fnv64a_def string_bytes_def)

lemma duplicate_confuses_topics:
  assumes "pp_QoS pkt = qos1" "handlePublish api ok s pkt st = (s1, st1, None)" "pp_Payload pkt = string_bytes u @ p"
  shows "handlePublish api ok' s1 (pkt\<lparr>pp_Topic := pp_Topic pkt @ u, pp_Payload := p, pp_Duplicate := True\<rparr>) st1 =
    (s1, connWrite ok' (writePuback \<lparr>pu_PacketID = pp_PacketID pkt\<rparr>) st1)"
  using handlePublish_seen(2) [OF assms(2,1)] assms(1,3)
  by (simp add: handlePublish_def isDuplicateIncomingQoS1_def seen_def fingerprint_boundary)

section \<open>Subscribing\<close>

definition loopAt :: "clientState \<Rightarrow> nat \<Rightarrow> int \<times> bool" where
  "loopAt st i = (ss_partition (cl_sub (cs_loops st ! i)), cl_stopped (cs_loops st ! i))"

lemma trackSubscription_loops:
  fixes api s topic qos st part
  defines "st' \<equiv> trackSubscription api s topic topic qos st part"
  shows "length (cs_loops st') = Suc (length (cs_loops st))" "loopAt st' (length (cs_loops st)) = (part, False)"
    "map_option ss_stop (map_of (cs_subs st') topic) = Some (length (cs_loops st))"
    "i < length (cs_loops st) \<Longrightarrow> fst (loopAt st' i) = fst (loopAt st i)
      \<and> (snd (loopAt st' i) \<longleftrightarrow> snd (loopAt st i) \<or> map_option ss_stop (map_of (cs_subs st) topic) = Some i)"
  by (auto simp: st'_def trackSubscription_def Let_def loopAt_def stopLoop_def nth_append nth_list_update update_conv' split: option.splits)

lemma trackSubscriptions_loops:
  "let st' = foldl (trackSubscription api s topic topic qos) st ps; n = length (cs_loops st) in
   length (cs_loops st') = n + length ps
   \<and> (ps \<noteq> [] \<longrightarrow> map_option ss_stop (map_of (cs_subs st') topic) = Some (n + length ps - 1))
   \<and> (\<forall>k < length ps. loopAt st' (n + k) = (ps ! k, Suc k < length ps))"
proof (induction ps rule: rev_induct)
  case (snoc p ps)
  let ?st = "foldl (trackSubscription api s topic topic qos) st ps" and ?n = "length (cs_loops st)"
  let ?st' = "trackSubscription api s topic topic qos ?st p"
  have IH: "length (cs_loops ?st) = ?n + length ps"
    "ps \<noteq> [] \<Longrightarrow> map_option ss_stop (map_of (cs_subs ?st) topic) = Some (?n + length ps - 1)"
    "\<And>k. k < length ps \<Longrightarrow> loopAt ?st (?n + k) = (ps ! k, Suc k < length ps)"
    using snoc by (simp_all add: Let_def)
  have "loopAt ?st' (?n + k) = ((ps @ [p]) ! k, Suc k < length (ps @ [p]))" if "k < Suc (length ps)" for k
  proof (cases "k = length ps")
    case True
    then show ?thesis using trackSubscription_loops(2) [of api s topic qos ?st p] IH(1) by (simp add: nth_append)
  next
    case False
    then have k: "k < length ps" "ps \<noteq> []" using that by auto
    have "?n + length ps - 1 = ?n + k \<longleftrightarrow> Suc k = length ps" using k by auto
    moreover have "Suc k = length ps \<or> Suc k < length ps" using k by auto
    ultimately have "fst (loopAt ?st' (?n + k)) = ps ! k" "snd (loopAt ?st' (?n + k))"
      using trackSubscription_loops(4) [of "?n + k" ?st api s topic qos p] IH k by auto
    then show ?thesis using k by (auto simp: nth_append prod_eq_iff)
  qed
  then show ?case using trackSubscription_loops(1,3) [of api s topic qos ?st p] IH(1) by (simp add: Let_def)
qed (simp add: Let_def)

text \<open>Of the partitions of a topic that a client is given, only the last is delivered.  A subscription that is granted starts one loop
  for each partition that the group assigns to the client, but all loops of a topic share one entry of the subscriptions, so that
  starting one stops the one before: when the packet has been handled only the loop of the last partition runs, and every other one ends
  at its next poll without a fetch.\<close>

theorem subscription_keeps_last_partition:
  assumes "sb_QoS sub \<le> qos1" "mb_JoinGroup api s (cs_group st) (cs_clientID st) [sb_Filter sub] = (s', Inr assignments)"
    and "map_of assignments (sb_Filter sub) = Some ps" "ps \<noteq> []"
  shows "\<exists>st'. subscribeTopic api s st sub = (s', st', sb_QoS sub) \<and> length (cs_loops st') = length (cs_loops st) + length ps
    \<and> (\<forall>k < length ps. let c = cs_loops st' ! (length (cs_loops st) + k) in
         ss_partition (cl_sub c) = ps ! k \<and> (cl_stopped c \<longleftrightarrow> Suc k < length ps)
         \<and> (Suc k < length ps \<longrightarrow> pollStep api s' st' c = Ended))"
proof -
  let ?st = "foldl (trackSubscription api s' (sb_Filter sub) (sb_Filter sub) (sb_QoS sub)) st ps"
  have "subscribeTopic api s st sub = (s', ?st, sb_QoS sub)"
    using assms(2-4) leD [OF assms(1)] by (simp add: subscribeTopic_def)
  moreover note trackSubscriptions_loops [of api s' "sb_Filter sub" "sb_QoS sub" st ps]
  ultimately show ?thesis by (auto simp: Let_def loopAt_def pollStep_def ctxDone_def)
qed

section \<open>Acknowledgement before commit\<close>

text \<open>What can be seen of an event: the loop that writes the packet of a record, of a topic, partition and offset, under an
  identifier; the acknowledgement of an identifier; and a call of \<^verbatim>\<open>CommitOffset\<close> by a loop, with its quality of
  service, whether it is for the group of the client, and the topic, partition and offset of the call.  The calls are those that the
  broker gets: the step is run with a broker that writes them down, also one that never returns.\<close>

datatype recordKey = RecordKey string int int



definition recording :: "'s MqttBroker \<Rightarrow> ('s \<times> (string \<times> recordKey) list) MqttBroker" where
  "recording api =
    \<lparr>mb_Produce = (\<lambda>(s, calls) topic part rs. case mb_Produce api s topic part rs of (s', r) \<Rightarrow> ((s', calls), r)),
     mb_Fetch = (\<lambda>(s, calls). mb_Fetch api s), mb_ListOffsets = (\<lambda>(s, calls). mb_ListOffsets api s), mb_Metadata = (\<lambda>(s, calls). mb_Metadata api s),
     mb_JoinGroup = (\<lambda>(s, calls) grp member topics. case mb_JoinGroup api s grp member topics of (s', r) \<Rightarrow> ((s', calls), r)),
     mb_LeaveGroup = (\<lambda>(s, calls) grp member. case mb_LeaveGroup api s grp member of (s', r) \<Rightarrow> ((s', calls), r)),
     mb_CommitOffset = (\<lambda>done (s, calls) grp topic part off.
       let calls' = calls @ [(grp, RecordKey topic part off)] in
       case mb_CommitOffset api done s grp topic part off of
         None \<Rightarrow> Some ((s, calls'), Some ErrClosed)
       | Some (s', err) \<Rightarrow> Some ((s', calls'), err)),
     mb_FetchCommitted = (\<lambda>(s, calls). mb_FetchCommitted api s)\<rparr>"



lemma recording_simps [simp]:
  "mb_Fetch (recording api) (s, calls) = mb_Fetch api s"
  "mb_CommitOffset (recording api) done (s, calls) grp topic part off =
    Some (case mb_CommitOffset api done s grp topic part off of
      None \<Rightarrow> ((s, calls @ [(grp, RecordKey topic part off)]), Some ErrClosed)
    | Some (s', err) \<Rightarrow> ((s', calls @ [(grp, RecordKey topic part off)]), err))"
  by (auto simp: recording_def split: option.splits)

text \<open>Writing the calls down does not change what a loop does.\<close>

lemma recording_same:
  assumes "loopStep api br ok i (s, st) = Some (s', st')"
  shows "\<exists>calls'. loopStep (recording api) br ok i ((s, calls), st) = Some ((s', calls @ calls'), st')"
  using assms
  by (cases "cl_point (cs_loops st ! i)")
    (auto simp: loopStep_def Let_def pollStep_def commitStep_def split: if_splits sum.splits list.splits option.splits branch.splits prod.splits)













































section \<open>From publisher to subscriber\<close>

lemma recordOf_simps [simp]: "r_Value (recordOf payload) = Some payload" by (simp add: recordOf_def)

lemma word_le_1: "(q :: byte) \<le> 1 \<Longrightarrow> q = 0 \<or> q = 1"
  using word_le_3 [of q] by (auto simp: word_le_nat_alt)

lemma deliverStep_sends:
  assumes "ss_qos (cl_sub c) \<le> qos1" "okStr (cl_mqttTopic c)" "length (cl_mqttTopic c) + blen (r_Value r) + 4 < 2 ^ 28"
    and free: "ss_qos (cl_sub c) = qos1 \<longrightarrow> (\<exists>n. n \<noteq> 0 \<and> map_of (cs_outboundQoS1Acks st) n = None)"
  obtains st' point pkt out where "deliverStep True st c r recs = Some (st', point)" "cs_written st' = cs_written st @ [out]"
    "\<And>rest. readPacket (out @ rest) = Inr (Publish pkt, rest)" "\<exists>packetID. pkt = (publishOf c r)\<lparr>pp_PacketID := packetID\<rparr>"
proof -
  have q: "ss_qos (cl_sub c) = 0 \<or> ss_qos (cl_sub c) = 1" using word_le_1 assms(1) by (simp add: qos1_def)
  have ok: "okPacket (Publish ((publishOf c r)\<lparr>pp_PacketID := packetID\<rparr>))" if "ss_qos (cl_sub c) = 0 \<longrightarrow> packetID = 0" for packetID
    using assms(2,3) q that by (auto simp: publishOf_def split: option.splits)
  show thesis
  proof (cases "ss_qos (cl_sub c) = qos1")
    case True
    obtain n where n: "nextFree (cs_nextPacketID st) (cs_outboundQoS1Acks st) = Some n" using free True nextFree_finds by blast
    then obtain st1 ch where r: "registerOutgoing st = Some (st1, n, ch)" "cs_written st1 = cs_written st" by (simp add: registerOutgoing_def)
    obtain out where out: "writePublish ((publishOf c r)\<lparr>pp_PacketID := n\<rparr>) = Inr out"
      "\<And>rest. readPacket (out @ rest) = Inr (Publish ((publishOf c r)\<lparr>pp_PacketID := n\<rparr>), rest)"
      using mpkt.enc_total [OF ok [of n]] mpkt.dec_enc [OF ok [of n]] True by (auto simp: qos1_def)
    then have "deliverStep True st c r recs = Some (st1\<lparr>cs_written := cs_written st1 @ [out]\<rparr>, AwaitingAck (r # recs) ((publishOf c r)\<lparr>pp_PacketID := n\<rparr>) ch)"
      using r True by (simp add: deliverStep_def writePublish_state_def connWrite_def Let_def)
    then show thesis by (rule that) (use r(2) out(2) in auto)
  next
    case False
    have same: "(publishOf c r)\<lparr>pp_PacketID := 0\<rparr> = publishOf c r" by (simp add: publishOf_def)
    obtain out where "writePublish (publishOf c r) = Inr out" "\<And>rest. readPacket (out @ rest) = Inr (Publish (publishOf c r), rest)"
      using mpkt.enc_total [OF ok [of 0]] mpkt.dec_enc [OF ok [of 0]] unfolding same by auto
    moreover have "\<exists>packetID. publishOf c r = (publishOf c r)\<lparr>pp_PacketID := packetID\<rparr>" using same [symmetric] by blast
    ultimately show thesis using that False by (auto simp: deliverStep_def writePublish_state_def connWrite_def)
  qed
qed

text \<open>A delivery loop that stands at the end of a partition, with room for one more packet.\<close>

definition awaits :: "clientState \<Rightarrow> nat \<Rightarrow> string \<Rightarrow> int \<Rightarrow> int \<Rightarrow> bool" where
  "awaits st i topic part offset \<longleftrightarrow> i < length (cs_loops st) \<and>
     (let c = cs_loops st ! i in cl_point c = Polling \<and> cl_offset c = offset \<and> cl_mqttTopic c = topic \<and> ss_topic (cl_sub c) = topic
        \<and> ss_partition (cl_sub c) = part \<and> ss_qos (cl_sub c) \<le> qos1 \<and> \<not> ctxDone st c
        \<and> (ss_qos (cl_sub c) = qos1 \<longrightarrow> (\<exists>n. n \<noteq> 0 \<and> map_of (cs_outboundQoS1Acks st) n = None)))"

lemma handlePublish_stores:
  assumes s: "serves b topic part l rss" and route: "mapTopic (brokerMqtt clock now) b (pp_Topic pkt) (cs_clientID pub) = Inr (topic, part)"
    and new: "\<not> pp_Duplicate pkt" and len: "int (length (pp_Payload pkt)) < 2 ^ 28"
    and ok: "okSeg (lg_nextOffset l) (stamped clock [recordOf (pp_Payload pkt)])" and keep: "keepsAll (lg_cfg l)"
  obtains b' pub' r where "handlePublish (brokerMqtt clock now) True b pkt pub = (b', pub', None)"
    "cs_written pub' = cs_written pub @ (if pp_QoS pkt = qos1 then [writePuback \<lparr>pu_PacketID = pp_PacketID pkt\<rparr>] else [])"
    "Fetch (\<lambda>n. False) b' topic part (lg_nextOffset l) 65536 = Inr [r]" "r_Value r = Some (pp_Payload pkt)" "r_Offset r = lg_nextOffset l"
proof -
  let ?rec = "recordOf (pp_Payload pkt)"
  have ok': "okSeg (lg_nextOffset l) [stamp (clock 0) ?rec]" using ok by simp
  obtain b' where pr: "Produce (\<lambda>n. False) clock now b topic part [?rec] = (b', lg_nextOffset l, None)"
    and f: "\<And>maxBytes. inS 32 maxBytes \<Longrightarrow> maxBytes + int (blen (r_Value ?rec)) \<le> 2147483647 \<Longrightarrow>
       Fetch (\<lambda>n. False) b' topic part (lg_nextOffset l) maxBytes = Inr [stored (lg_nextOffset l) (stamp (clock 0) ?rec)]"
    by (rule Produce_one [where clock = clock and now = now, OF s ok' keep]) (rule that; blast)
  have "\<exists>pub'. handlePublish (brokerMqtt clock now) True b pkt pub = (b', pub', None)
      \<and> cs_written pub' = cs_written pub @ (if pp_QoS pkt = qos1 then [writePuback \<lparr>pu_PacketID = pp_PacketID pkt\<rparr>] else [])"
    using route new pr by (simp add: handlePublish_def brokerMqtt_def connWrite_def markIncomingQoS1_def)
  then show thesis using that f [of 65536] len by (auto simp: inS_def)
qed

text \<open>C10: what one client publishes reaches another.  A publication whose topic is routed to a partition that the broker leads, with room for
  its record, is appended and, at quality of service 1, acknowledged; a delivery loop of another client that stands at the end of that
  partition then fetches the record at its next poll, and the packet it writes next is one that the receiver reads as a publication of
  the same topic and payload with the quality of service of the subscription.\<close>

theorem mqtt_publish_delivered:
  assumes "serves b topic part l rss" "mapTopic (brokerMqtt clock now) b (pp_Topic pkt) (cs_clientID pub) = Inr (topic, part)"
    and "\<not> pp_Duplicate pkt" "okStr topic" "length topic + length (pp_Payload pkt) + 4 < 2 ^ 28"
    and "okSeg (lg_nextOffset l) (stamped clock [recordOf (pp_Payload pkt)])" "keepsAll (lg_cfg l)"
    and "awaits sub i topic part (lg_nextOffset l)"
  shows "\<exists>b' pub' sub' out p. handlePublish (brokerMqtt clock now) True b pkt pub = (b', pub', None)
    \<and> cs_written pub' = cs_written pub @ (if pp_QoS pkt = qos1 then [writePuback \<lparr>pu_PacketID = pp_PacketID pkt\<rparr>] else [])
    \<and> mqttRun (brokerMqtt clock now) (b', sub) [Loop i br ok, Loop i br' True] = Some (b', sub') \<and> cs_written sub' = cs_written sub @ [out]
    \<and> (\<forall>rest. readPacket (out @ rest) = Inr (Publish p, rest)) \<and> pp_Topic p = topic \<and> pp_Payload p = pp_Payload pkt
    \<and> pp_QoS p = ss_qos (cl_sub (cs_loops sub ! i))"
proof -
  let ?api = "brokerMqtt clock now :: 'a Broker MqttBroker"
  let ?c = "cs_loops sub ! i"
  have len: "int (length (pp_Payload pkt)) < 2 ^ 28" using assms(5) by simp
  obtain b' pub' r where h: "handlePublish ?api True b pkt pub = (b', pub', None)"
    "cs_written pub' = cs_written pub @ (if pp_QoS pkt = qos1 then [writePuback \<lparr>pu_PacketID = pp_PacketID pkt\<rparr>] else [])"
    "Fetch (\<lambda>n. False) b' topic part (lg_nextOffset l) 65536 = Inr [r]" "r_Value r = Some (pp_Payload pkt)"
    by (rule handlePublish_stores [OF assms(1-3) len assms(6,7)])
  have c: "i < length (cs_loops sub)" "cl_point ?c = Polling" "cl_offset ?c = lg_nextOffset l" "cl_mqttTopic ?c = topic" "ss_topic (cl_sub ?c) = topic"
    "ss_partition (cl_sub ?c) = part" "ss_qos (cl_sub ?c) \<le> qos1" "\<not> ctxDone sub ?c"
    "ss_qos (cl_sub ?c) = qos1 \<longrightarrow> (\<exists>n. n \<noteq> 0 \<and> map_of (cs_outboundQoS1Acks sub) n = None)"
    using assms(8) by (simp_all add: awaits_def Let_def)
  let ?c1 = "?c\<lparr>cl_point := Delivering [r]\<rparr>"
  let ?sub1 = "setLoop i ?c1 sub"
  have "pollStep ?api b' sub ?c = Delivering [r]" using c h(3) by (simp add: pollStep_def brokerMqtt_def)
  then have s1: "loopStep ?api br ok i (b', sub) = Some (b', ?sub1)" using c by (simp add: loopStep_def Let_def)
  obtain sub2 point p out where d: "deliverStep True ?sub1 ?c1 r [] = Some (sub2, point)" "cs_written sub2 = cs_written ?sub1 @ [out]"
    "\<And>rest. readPacket (out @ rest) = Inr (Publish p, rest)" "\<exists>packetID. p = (publishOf ?c1 r)\<lparr>pp_PacketID := packetID\<rparr>"
    by (rule deliverStep_sends [of ?c1 r ?sub1 "[]"]) (use c assms(4,5) h(4) in \<open>auto simp: setLoop_def\<close>)
  have l1: "cs_loops ?sub1 ! i = ?c1" "i < length (cs_loops ?sub1)" using c(1) by (simp_all add: setLoop_def)
  have "loopStep ?api br' True i (b', ?sub1) = Some (b', setLoop i (?c1\<lparr>cl_point := point\<rparr>) sub2)"
    using l1 d(1) by (simp add: loopStep_def Let_def)
  then have "mqttRun ?api (b', sub) [Loop i br ok, Loop i br' True] = Some (b', setLoop i (?c1\<lparr>cl_point := point\<rparr>) sub2)"
    using s1 by simp
  moreover have "cs_written (setLoop i (?c1\<lparr>cl_point := point\<rparr>) sub2) = cs_written sub @ [out]" using d(2) by (simp add: setLoop_def)
  moreover have "pp_Topic p = topic" "pp_Payload p = pp_Payload pkt" "pp_QoS p = ss_qos (cl_sub ?c)" using d(4) c(4) h(4) by (auto simp: publishOf_def)
  ultimately show ?thesis using h(1,2) d(3) by blast
qed

section \<open>Witnesses\<close>

abbreviation exampleApi :: "SingleNodeController Broker MqttBroker" where
  "exampleApi \<equiv> brokerMqtt (\<lambda>n. 0) 0"

definition connected :: clientState where
  "connected = (newClient [])\<lparr>cs_clientID := ''c'', cs_group := ''c''\<rparr>"

lemma connected_simps:
  "cs_loops connected = []" "cs_written connected = []" "cs_clientID connected = ''c''" "cs_group connected = ''c''"
  by (simp_all add: connected_def newClient_def)

theorem subscription_keeps_last_partition_witness:
  "\<exists>b' st'. subscribeTopic exampleApi ConsumerGroups.exampleBroker connected \<lparr>sb_Filter = ''t'', sb_QoS = 1\<rparr> = (b', st', 1)
    \<and> map (\<lambda>c. (ss_partition (cl_sub c), cl_stopped c)) (cs_loops st') = [(0, True), (1, True), (2, False)]"
proof -
  obtain b' where j: "JoinGroup ConsumerGroups.exampleBroker ''c'' ''c'' [''t''] = (b', Inr [(''t'', [0, 1, 2])])"
    by (simp add: JoinGroup_def ConsumerGroups.exampleBroker_def groupOf_def newGroup_def addMember_def rebalanceGroup_def
        rebalanceTopic_def sortedMembers_def sortedPartitions_def updateMemberAssignments_def Let_def)
  let ?sub = "\<lparr>sb_Filter = ''t'', sb_QoS = 1\<rparr>"
  have m: "mb_JoinGroup exampleApi ConsumerGroups.exampleBroker (cs_group connected) (cs_clientID connected) [sb_Filter ?sub] = (b', Inr [(''t'', [0, 1, 2])])"
    using j by (simp add: brokerMqtt_def connected_simps)
  from subscription_keeps_last_partition [OF _ m, of "[0, 1, 2]"]
  obtain st' where st': "subscribeTopic exampleApi ConsumerGroups.exampleBroker connected \<lparr>sb_Filter = ''t'', sb_QoS = 1\<rparr> = (b', st', 1)"
    "length (cs_loops st') = 3"
    "\<forall>k < 3. ss_partition (cl_sub (cs_loops st' ! k)) = [0, 1, 2] ! k \<and> (cl_stopped (cs_loops st' ! k) \<longleftrightarrow> Suc k < 3)"
    by (auto simp: qos1_def Let_def connected_simps numeral_3_eq_3)
  have "[0..<3] = [0, 1, 2 :: nat]" by (simp add: upt_rec)
  then have "cs_loops st' = map ((!) (cs_loops st')) [0, 1, 2]" using map_nth [of "cs_loops st'"] st'(2) by simp
  then have "map (\<lambda>c. (ss_partition (cl_sub c), cl_stopped c)) (cs_loops st') = [(0, True), (1, True), (2, False)]"
    by (rule ssubst [of _ _ "\<lambda>x. map _ x = _"]) (use st'(3) in auto)
  then show ?thesis using st'(1) by (intro exI conjI)
qed

definition examplePkt :: PublishPacket where
  "examplePkt = \<lparr>pp_Topic = ''t'', pp_QoS = 1, pp_Duplicate = False, pp_PacketID = 7, pp_Payload = [1, 2, 3]\<rparr>"

lemma examplePkt_simps [simp]:
  "pp_Topic examplePkt = ''t''" "pp_QoS examplePkt = 1" "\<not> pp_Duplicate examplePkt" "pp_PacketID examplePkt = 7" "pp_Payload examplePkt = [1, 2, 3]"
  by (simp_all add: examplePkt_def)

lemma examplePkt_room: "okSeg 0 (stamped (\<lambda>n. 0) [recordOf (pp_Payload examplePkt)])"
  by (simp add: okSeg_Cons okAt_def okLogRecord_def recordOf_def stamp_def isZero_def okField_def okLogHeaders_def
      maxInt64Uint_def writeRecordBytesField_def writeRecordHeaders_def toInt32Length_def)

lemma oneLog_route: "mapTopic exampleApi (oneLog l) ''t'' client = Inr (''t'', 0)"
  by (simp add: mapTopic_def brokerMqtt_def Metadata_def clusterAssignments_def clusterMetadata_def oneLog_def
      ConsumerGroups.exampleBroker_def metadataRow_def Let_def)

theorem duplicate_publish_produced_once_witness:
  "\<exists>l b1 st1. handlePublish exampleApi True (oneLog l) examplePkt connected = (b1, st1, None)
    \<and> cs_written st1 = [writePuback \<lparr>pu_PacketID = 7\<rparr>]
    \<and> handlePublish exampleApi True b1 (examplePkt\<lparr>pp_Duplicate := True\<rparr>) st1 = (b1, connWrite True (writePuback \<lparr>pu_PacketID = 7\<rparr>) st1)"
proof -
  obtain l where l: "represents l [[]]" "lg_startOffset l = 0" "lg_nextOffset l = 0" "lg_cfg l = LogProperties.exampleConfig"
    by (rule exampleEmpty)
  have k: "keepsAll (lg_cfg l)" by (simp add: l(4) keepsAll_def LogProperties.exampleConfig_def)
  obtain b1 st1 where h: "handlePublish exampleApi True (oneLog l) examplePkt connected = (b1, st1, None)"
    by (rule handlePublish_stores [OF oneLog_serves [OF l(1)], of "\<lambda>n. 0" 0 examplePkt connected])
      (use oneLog_route [of l] examplePkt_room k l(3) in auto)
  then show ?thesis using h duplicate_publish_produced_once [OF _ h, of "[]" b1 st1 True] by (auto simp: qos1_def connected_simps)
qed

text \<open>A subscriber at the start of the partition.\<close>

definition subscribed :: clientState where
  "subscribed = connected\<lparr>cs_loops := [\<lparr>cl_mqttTopic = ''t'', cl_sub = \<lparr>ss_topic = ''t'', ss_partition = 0, ss_qos = 1, ss_offset = 0, ss_stop = 0\<rparr>,
     cl_offset = 0, cl_stopped = False, cl_point = Polling\<rparr>]\<rparr>"

theorem mqtt_publish_delivered_witness:
  "\<exists>l b' pub' sub' out p. handlePublish exampleApi True (oneLog l) examplePkt connected = (b', pub', None)
    \<and> cs_written pub' = [writePuback \<lparr>pu_PacketID = 7\<rparr>]
    \<and> mqttRun exampleApi (b', subscribed) [Loop 0 Timer True, Loop 0 Timer True] = Some (b', sub') \<and> cs_written sub' = [out]
    \<and> readPacket out = Inr (Publish p, []) \<and> pp_Topic p = ''t'' \<and> pp_Payload p = [1, 2, 3] \<and> pp_QoS p = 1"
proof -
  obtain l where l: "represents l [[]]" "lg_startOffset l = 0" "lg_nextOffset l = 0" "lg_cfg l = LogProperties.exampleConfig"
    by (rule exampleEmpty)
  have k: "keepsAll (lg_cfg l)" by (simp add: l(4) keepsAll_def LogProperties.exampleConfig_def)
  have f: "ss_qos (cl_sub (cs_loops subscribed ! 0)) = 1" "cs_written subscribed = []" "cs_written connected = []"
    by (simp_all add: subscribed_def connected_def newClient_def)
  have w: "awaits subscribed 0 ''t'' 0 (lg_nextOffset l)"
    by (auto simp: awaits_def subscribed_def connected_def newClient_def ctxDone_def l(3) qos1_def intro: exI [of _ 1])
  have "okStr ''t''" by (simp add: okStr_def maxUint16_def)
  from mqtt_publish_delivered [OF oneLog_serves [OF l(1)], of "\<lambda>n. 0" 0 examplePkt connected subscribed 0 Timer True Timer]
  obtain b' pub' sub' out p where "handlePublish exampleApi True (oneLog l) examplePkt connected = (b', pub', None)
    \<and> cs_written pub' = [writePuback \<lparr>pu_PacketID = 7\<rparr>]
    \<and> mqttRun exampleApi (b', subscribed) [Loop 0 Timer True, Loop 0 Timer True] = Some (b', sub') \<and> cs_written sub' = [out]
    \<and> (\<forall>rest. readPacket (out @ rest) = Inr (Publish p, rest)) \<and> pp_Topic p = ''t'' \<and> pp_Payload p = [1, 2, 3] \<and> pp_QoS p = 1"
    using oneLog_route [of l] examplePkt_room k w \<open>okStr ''t''\<close> unfolding f l(3) by (auto simp: qos1_def simp del: mqttRun.simps)
  then show ?thesis by (metis append_Nil2)
qed




declare nextFree_step [code]



end
