(* ===== verification/Listeners.thy ===== *)
theory Listeners
  imports MqttServer HttpApi
begin

text \<open>
  The listeners of the two servers (\<^verbatim>\<open>internal/netproto/server.go\<close>, \<^verbatim>\<open>internal/mqtt/server.go\<close>): \<^verbatim>\<open>ListenAndServe\<close>, the goroutine that closes the
  listener when the context ends, and \<^verbatim>\<open>Close\<close>, as steps that interleave; the HTTP server of the process and the counters
  (\<^verbatim>\<open>internal/observability\<close>).

  The two servers differ in what they make of an error that says that the listener is closed: \<open>closedOk\<close> is false for the binary protocol
  and true for MQTT.
\<close>

section \<open>The servers\<close>

definition netErrClosed :: go_error where
  "netErrClosed = Errorf ''use of closed network connection''"

record 's Server_net =
  sv_addr :: string
  sv_broker :: "'s BrokerAPI"

definition NewServer_net :: "string \<Rightarrow> 's BrokerAPI option \<Rightarrow> 's Server_net result" where
  "NewServer_net addr brokerAPI = (case brokerAPI of
       None \<Rightarrow> Inl (Errorf ''broker is required'')
     | Some b \<Rightarrow> if addr = '''' then Inl (Errorf ''addr is required'') else Inr \<lparr>sv_addr = addr, sv_broker = b\<rparr>)"

section \<open>Listening\<close>

text \<open>A call of \<^verbatim>\<open>ListenAndServe\<close>: it has set \<^verbatim>\<open>started\<close> and is about to listen; it has a listener that is not stored yet; it accepts
  connections; it runs its deferred function; it has returned.\<close>

datatype servePoint = Binding | Bound nat | Accepting nat | Leaving nat "go_error option" | Returned "nat option" "go_error option"

record serveCall =
  sc_point :: servePoint
  sc_done :: bool

record listenState =
  ls_started :: bool
  ls_ln :: "nat option"
  ls_open :: "nat list"
  ls_fresh :: nat
  ls_calls :: "serveCall list"

definition newListen :: listenState where
  "newListen = \<lparr>ls_started = False, ls_ln = None, ls_open = [], ls_fresh = 0, ls_calls = []\<rparr>"

definition closeListener :: "nat \<Rightarrow> listenState \<Rightarrow> listenState \<times> go_error option" where
  "closeListener l st = (if l \<in> set (ls_open st) then (st\<lparr>ls_open := removeAll l (ls_open st)\<rparr>, None) else (st, Some netErrClosed))"

definition Close_server :: "bool \<Rightarrow> listenState \<Rightarrow> listenState \<times> go_error option" where
  "Close_server closedOk st = (case ls_ln st of
       None \<Rightarrow> (st, None)
     | Some l \<Rightarrow> (case closeListener l st of (st', err) \<Rightarrow> (st', if closedOk \<and> err = Some netErrClosed then None else err)))"

definition at :: "nat \<Rightarrow> servePoint \<Rightarrow> listenState \<Rightarrow> listenState" where
  "at i p st = st\<lparr>ls_calls := (ls_calls st)[i := (ls_calls st ! i)\<lparr>sc_point := p\<rparr>]\<rparr>"

definition listenerOf :: "servePoint \<Rightarrow> nat option" where
  "listenerOf p = (case p of Accepting l \<Rightarrow> Some l | Leaving l r \<Rightarrow> Some l | Returned l r \<Rightarrow> l | _ \<Rightarrow> None)"

text \<open>What can happen.  \<^verbatim>\<open>Accept\<close> fails with the error of a closed listener exactly when it is closed; the goroutine that waits for the end of
  the context exists once the listener is stored, and stays when the call has returned.\<close>

datatype listenEvent = Call | ListenFails nat go_error | Listens nat | Stores nat | Accepts nat | AcceptFails nat go_error | Leaves nat
  | Cancels nat | WatcherCloses nat | CloseCalled

definition acceptError :: "bool \<Rightarrow> bool \<Rightarrow> go_error \<Rightarrow> go_error option" where
  "acceptError closedOk cancelled e = (if cancelled then None else if closedOk \<and> e = netErrClosed then None else Some e)"

fun callStep :: "bool \<Rightarrow> listenState \<Rightarrow> nat \<Rightarrow> serveCall \<Rightarrow> listenEvent \<Rightarrow> listenState" where
  "callStep closedOk st i c (ListenFails _ e) = (if sc_point c = Binding then at i (Returned None (Some e)) (st\<lparr>ls_started := False\<rparr>) else st)"
| "callStep closedOk st i c (Listens _) =
    (if sc_point c = Binding then at i (Bound (ls_fresh st)) (st\<lparr>ls_open := ls_fresh st # ls_open st, ls_fresh := Suc (ls_fresh st)\<rparr>) else st)"
| "callStep closedOk st i c (Stores _) = (case sc_point c of Bound l \<Rightarrow> at i (Accepting l) (st\<lparr>ls_ln := Some l\<rparr>) | _ \<Rightarrow> st)"
| "callStep closedOk st i c (AcceptFails _ e) = (case sc_point c of
       Accepting l \<Rightarrow> if e = netErrClosed \<longleftrightarrow> l \<notin> set (ls_open st) then at i (Leaving l (acceptError closedOk (sc_done c) e)) st else st
     | _ \<Rightarrow> st)"
| "callStep closedOk st i c (Leaves _) = (case sc_point c of
       Leaving l r \<Rightarrow> at i (Returned (Some l) r) (st\<lparr>ls_ln := None, ls_started := False\<rparr>)
     | _ \<Rightarrow> st)"
| "callStep closedOk st i c (Cancels _) = st\<lparr>ls_calls := (ls_calls st)[i := c\<lparr>sc_done := True\<rparr>]\<rparr>"
| "callStep closedOk st i c (WatcherCloses _) =
    (if sc_done c then (case listenerOf (sc_point c) of Some l \<Rightarrow> fst (closeListener l st) | None \<Rightarrow> st) else st)"
| "callStep closedOk st i c _ = st"

fun eventCall :: "listenEvent \<Rightarrow> nat option" where
  "eventCall (ListenFails i e) = Some i" | "eventCall (Listens i) = Some i" | "eventCall (Stores i) = Some i" | "eventCall (Accepts i) = Some i"
| "eventCall (AcceptFails i e) = Some i" | "eventCall (Leaves i) = Some i" | "eventCall (Cancels i) = Some i" | "eventCall (WatcherCloses i) = Some i"
| "eventCall _ = None"

definition listenStep :: "bool \<Rightarrow> listenState \<Rightarrow> listenEvent \<Rightarrow> listenState" where
  "listenStep closedOk st ev = (case eventCall ev of
       Some i \<Rightarrow> if i < length (ls_calls st) then callStep closedOk st i (ls_calls st ! i) ev else st
     | None \<Rightarrow>
       (if ev = CloseCalled then fst (Close_server closedOk st)
        else if ls_started st
          then st\<lparr>ls_calls := ls_calls st @ [\<lparr>sc_point = Returned None (Some (Errorf ''server already started'')), sc_done = False\<rparr>]\<rparr>
          else st\<lparr>ls_started := True, ls_calls := ls_calls st @ [\<lparr>sc_point = Binding, sc_done = False\<rparr>]\<rparr>))"

definition listenRun :: "bool \<Rightarrow> listenEvent list \<Rightarrow> listenState" where
  "listenRun closedOk es = foldl (listenStep closedOk) newListen es"

section \<open>The HTTP server of the process\<close>

definition healthz :: "(unit \<Rightarrow> bool) option \<Rightarrow> int \<times> string" where
  "healthz readyFunc = (if (case readyFunc of None \<Rightarrow> True | Some f \<Rightarrow> f ()) then (200, ''ok'') else (503, ''not ready''))"

text \<open>The end: the context is done, with the error of the shutdown, or the server ends by itself.\<close>

datatype httpEnd = ContextEnds "go_error option" | ServeEnds go_error

definition errServerClosed :: go_error where
  "errServerClosed = Errorf ''http: Server closed''"

definition StartHTTPServer :: "string \<Rightarrow> go_error option \<Rightarrow> httpEnd \<Rightarrow> go_error option" where
  "StartHTTPServer addr listenErr ending =
    (if addr = '''' then Some (Errorf ''http addr is required'')
     else case listenErr of
       Some e \<Rightarrow> Some e
     | None \<Rightarrow>
       (case ending of
          ContextEnds shutdownErr \<Rightarrow> if shutdownErr \<noteq> None \<and> shutdownErr \<noteq> Some errServerClosed then shutdownErr else None
        | ServeEnds e \<Rightarrow> if e = errServerClosed then None else Some e))"

section \<open>Counters\<close>

text \<open>A vector of counters is a function of the labels, 0 where there is no series.  The values are counts, which the floating-point numbers of
  the code hold exactly up to \<open>2\<^sup>5\<^sup>3\<close>.\<close>

type_synonym counterVec = "string list \<Rightarrow> int"

definition CounterValue :: "counterVec option \<Rightarrow> string list \<Rightarrow> int" where
  "CounterValue counter labels = (case counter of None \<Rightarrow> 0 | Some c \<Rightarrow> c labels)"

definition EnsureCounterAtLeast :: "counterVec option \<Rightarrow> int \<Rightarrow> string list \<Rightarrow> counterVec option" where
  "EnsureCounterAtLeast counter v labels = (case counter of
       None \<Rightarrow> None
     | Some c \<Rightarrow>
       (if v \<le> 0 then Some c
        else let current = CounterValue counter labels in if v \<le> current then Some c else Some (c(labels := current + (v - current)))))"

definition syncProducedMetricFromDurableState :: "'c Broker \<Rightarrow> counterVec \<Rightarrow> counterVec" where
  "syncProducedMetricFromDurableState b counter =
    (let assignments = clusterAssignmentsBestEffort b;
         series = concat (map (\<lambda>(name, t). map (\<lambda>(pid, p). ([name, Itoa pid], partitionDurableMessageCount (partLog b name pid)))
           (filter (\<lambda>(pid, p). isLeaderPartition b (topicAssignments assignments name) pid p) (tp_Partitions t))) (b_topics b))
     in foldl (\<lambda>c (labels, v). the (EnsureCounterAtLeast (Some c) v labels)) counter series)"

section \<open>The life of a listener\<close>

definition serveActive :: "servePoint \<Rightarrow> bool" where
  "serveActive p \<longleftrightarrow> (case p of Returned l r \<Rightarrow> False | _ \<Rightarrow> True)"

definition holdsListener :: "servePoint \<Rightarrow> nat \<Rightarrow> bool" where
  "holdsListener p l \<longleftrightarrow> p = Bound l \<or> listenerOf p = Some l"

definition endsWell :: "servePoint \<Rightarrow> nat \<Rightarrow> bool" where
  "endsWell p l \<longleftrightarrow> p = Leaving l None \<or> p = Returned (Some l) None"

text \<open>One call is active at most; \<^verbatim>\<open>started\<close> says whether one is, and \<^verbatim>\<open>ln\<close> is its listener once stored.\<close>

definition callsInv :: "bool \<Rightarrow> nat option \<Rightarrow> servePoint list \<Rightarrow> bool" where
  "callsInv started ln ps \<longleftrightarrow>
    (if started then \<exists>i<length ps. serveActive (ps ! i) \<and> ln = listenerOf (ps ! i) \<and> (\<forall>j<length ps. j \<noteq> i \<longrightarrow> \<not> serveActive (ps ! j))
     else ln = None \<and> (\<forall>j<length ps. \<not> serveActive (ps ! j)))"

text \<open>Every open listener belongs to a call; a call that ends without an error has a closed listener or an ended context.\<close>

definition openInv :: "listenState \<Rightarrow> bool" where
  "openInv st \<longleftrightarrow> (\<forall>l\<in>set (ls_open st). l < ls_fresh st \<and> (\<exists>i<length (ls_calls st). holdsListener (sc_point (ls_calls st ! i)) l))
     \<and> (\<forall>i<length (ls_calls st). \<forall>l. (holdsListener (sc_point (ls_calls st ! i)) l \<longrightarrow> l < ls_fresh st)
          \<and> (endsWell (sc_point (ls_calls st ! i)) l \<longrightarrow> sc_done (ls_calls st ! i) \<or> l \<notin> set (ls_open st)))"

lemmas point_simps = serveActive_def holdsListener_def endsWell_def listenerOf_def servePoint.case

lemma callsInv_add: "callsInv started ln ps \<Longrightarrow> callsInv started ln (ps @ [Returned l r])"
proof (cases started)
  case True
  assume "callsInv started ln ps"
  then obtain i where "i < length ps" "serveActive (ps ! i)" "ln = listenerOf (ps ! i)" "\<forall>j<length ps. j \<noteq> i \<longrightarrow> \<not> serveActive (ps ! j)"
    using True by (auto simp: callsInv_def)
  then show ?thesis unfolding callsInv_def using True by (auto simp: nth_append serveActive_def intro!: exI [of _ i])
qed (auto simp: callsInv_def nth_append serveActive_def)

lemma callsInv_start: "callsInv False ln ps \<Longrightarrow> callsInv True ln (ps @ [Binding])"
  unfolding callsInv_def by (auto simp: nth_append serveActive_def listenerOf_def intro!: exI [of _ "length ps"])

lemma callsInv_active:
  assumes "callsInv started ln ps" "i < length ps" "serveActive (ps ! i)"
  shows "started" "ln = listenerOf (ps ! i)" "\<And>j. j < length ps \<Longrightarrow> j \<noteq> i \<Longrightarrow> \<not> serveActive (ps ! j)"
  using assms unfolding callsInv_def by (auto split: if_splits)

text \<open>A step of the active call: it stays active, or it returns.\<close>

lemma callsInv_step:
  assumes inv: "callsInv started ln ps" "i < length ps" "serveActive (ps ! i)"
  shows "serveActive p \<Longrightarrow> callsInv True (listenerOf p) (ps[i := p])" and "callsInv False None (ps[i := Returned l r])"
proof -
  note other = callsInv_active(3) [OF inv]
  show "serveActive p \<Longrightarrow> callsInv True (listenerOf p) (ps[i := p])"
    using other inv(2) unfolding callsInv_def by (auto intro!: exI [of _ i])
  show "callsInv False None (ps[i := Returned l r])"
    using other inv(2) unfolding callsInv_def by (auto simp: nth_list_update serveActive_def)
qed


definition points :: "listenState \<Rightarrow> servePoint list" where
  "points st = map sc_point (ls_calls st)"

lemma points_at: "points (at i p st) = (points st)[i := p]"
  by (simp add: points_def at_def map_update)

lemma at_simps [simp]:
  "ls_started (at i p st) = ls_started st" "ls_ln (at i p st) = ls_ln st" "ls_open (at i p st) = ls_open st" "ls_fresh (at i p st) = ls_fresh st"
  "ls_calls (at i p st) = (ls_calls st)[i := (ls_calls st ! i)\<lparr>sc_point := p\<rparr>]"
  by (simp_all add: at_def)

lemma closeListener_fields:
  "ls_started (fst (closeListener l st)) = ls_started st" "ls_ln (fst (closeListener l st)) = ls_ln st" "ls_calls (fst (closeListener l st)) = ls_calls st"
  "ls_fresh (fst (closeListener l st)) = ls_fresh st" "set (ls_open (fst (closeListener l st))) = set (ls_open st) - {l}"
  by (simp_all add: closeListener_def)

lemma callStep_calls:
  assumes inv: "callsInv (ls_started st) (ls_ln st) (points st)" and i: "i < length (ls_calls st)" "c = ls_calls st ! i"
  shows "callsInv (ls_started (callStep closedOk st i c ev)) (ls_ln (callStep closedOk st i c ev)) (points (callStep closedOk st i c ev))"
proof -
  have p: "i < length (points st)" "points st ! i = sc_point c" using i by (simp_all add: points_def)
  have now: "ls_started st \<and> ls_ln st = listenerOf (sc_point c)" if "serveActive (sc_point c)" using callsInv_active(1,2) [OF inv p(1)] that p(2) by simp
  have goes: "callsInv True (listenerOf q) (map sc_point ((ls_calls st)[i := d\<lparr>sc_point := q\<rparr>]))" if "serveActive (sc_point c)" "serveActive q" for q d
    using callsInv_step(1) [OF inv p(1), of q] that p(2) by (simp add: points_def map_update)
  have returns: "callsInv False None (map sc_point ((ls_calls st)[i := d\<lparr>sc_point := Returned l r\<rparr>]))" if "serveActive (sc_point c)" for l r d
    using callsInv_step(2) [OF inv p(1)] that p(2) by (simp add: points_def map_update)
  show ?thesis
  proof (cases ev)
    case (Cancels k)
    then have "points (callStep closedOk st i c ev) = points st" using i by (simp add: points_def map_update list_update_same_conv)
    then show ?thesis using Cancels inv by simp
  next
    case (WatcherCloses k)
    then show ?thesis using inv by (simp add: points_def closeListener_fields split: option.split)
  next
    case (ListenFails k e)
    then show ?thesis using inv now returns by (auto simp: points_def serveActive_def listenerOf_def)
  next
    case (Listens k)
    then show ?thesis using inv now goes [of "Bound (ls_fresh st)"] by (auto simp: points_def serveActive_def listenerOf_def)
  next
    case (Stores k)
    then show ?thesis using inv now goes [of "Accepting _"] by (cases "sc_point c") (auto simp: points_def serveActive_def listenerOf_def)
  next
    case (AcceptFails k e)
    then show ?thesis using inv now goes [of "Leaving _ _"] by (cases "sc_point c") (auto simp: points_def serveActive_def listenerOf_def)
  next
    case (Leaves k)
    then show ?thesis using inv now returns by (cases "sc_point c") (auto simp: points_def serveActive_def listenerOf_def)
  qed (use inv in simp_all)
qed

lemma openInv_update:
  assumes inv: "openInv st" and i: "i < length (ls_calls st)"
    and c: "\<And>l. holdsListener (sc_point c) l \<longleftrightarrow> holdsListener (sc_point (ls_calls st ! i)) l" "\<And>l. endsWell (sc_point c) l \<Longrightarrow> sc_done c \<or> l \<notin> set (ls_open st')"
    and st': "ls_calls st' = (ls_calls st)[i := c]" "set (ls_open st') \<subseteq> set (ls_open st)" "ls_fresh st' = ls_fresh st"
  shows "openInv st'"
proof -
  have h: "holdsListener (sc_point (ls_calls st' ! j)) l \<longleftrightarrow> holdsListener (sc_point (ls_calls st ! j)) l" if "j < length (ls_calls st)" for j l
    using that i c(1) st'(1) by (simp add: nth_list_update)
  have e: "sc_done (ls_calls st' ! j) \<or> l \<notin> set (ls_open st')" if "j < length (ls_calls st)" "endsWell (sc_point (ls_calls st' ! j)) l" for j l
  proof (cases "j = i")
    case False
    then show ?thesis using that inv st'(1,2) unfolding openInv_def by (auto simp: nth_list_update)
  qed (use that i c(2) st'(1) in auto)
  have "length (ls_calls st') = length (ls_calls st)" using st'(1) by simp
  then show ?thesis using inv h e st'(2,3) unfolding openInv_def by (metis subsetD)
qed


lemma openInv_listens:
  assumes inv: "openInv st" and i: "i < length (ls_calls st)" "sc_point (ls_calls st ! i) = Binding"
  shows "openInv (at i (Bound (ls_fresh st)) (st\<lparr>ls_open := ls_fresh st # ls_open st, ls_fresh := Suc (ls_fresh st)\<rparr>))" (is "openInv ?st'")
proof -
  let ?p = "\<lambda>st j. sc_point (ls_calls st ! j)" and ?n = "length (ls_calls st)"
  have calls: "ls_calls ?st' = (ls_calls st)[i := (ls_calls st ! i)\<lparr>sc_point := Bound (ls_fresh st)\<rparr>]" by simp
  have new: "?p ?st' i = Bound (ls_fresh st)" using i(1) by simp
  have old: "ls_calls ?st' ! j = ls_calls st ! j" if "j \<noteq> i" for j using that by simp
  have none: "\<not> holdsListener (?p st i) l" for l using i(2) by (simp add: holdsListener_def listenerOf_def)
  have "\<exists>j<?n. holdsListener (?p ?st' j) l" if l: "l \<in> set (ls_open st)" for l
  proof -
    obtain j where "j < ?n" "holdsListener (?p st j) l" using inv l unfolding openInv_def by blast
    moreover from this none have "j \<noteq> i" by metis
    ultimately show ?thesis using old by metis
  qed
  moreover have "\<exists>j<?n. holdsListener (?p ?st' j) (ls_fresh st)" using i(1) new by (intro exI [of _ i]) (simp add: holdsListener_def)
  moreover have "l < Suc (ls_fresh st)" if "l \<in> set (ls_open st)" for l using inv that unfolding openInv_def by (meson less_SucI)
  moreover have "holdsListener (?p ?st' j) l \<longrightarrow> l < Suc (ls_fresh st)" if "j < ?n" for j l
    using inv that new old [of j] unfolding openInv_def by (cases "j = i") (auto simp: holdsListener_def listenerOf_def less_SucI)
  moreover have "endsWell (?p ?st' j) l \<longrightarrow> sc_done (ls_calls ?st' ! j) \<or> l \<notin> set (ls_fresh st # ls_open st)" if j: "j < ?n" for j l
  proof (cases "j = i")
    case False
    have "endsWell (?p st j) l \<Longrightarrow> holdsListener (?p st j) l" by (auto simp: endsWell_def holdsListener_def listenerOf_def)
    then show ?thesis using inv j old [OF False] unfolding openInv_def by fastforce
  qed (use new in \<open>simp add: endsWell_def\<close>)
  ultimately show ?thesis unfolding openInv_def by auto
qed

lemma callStep_open:
  assumes inv: "openInv st" and i: "i < length (ls_calls st)" "c = ls_calls st ! i"
  shows "openInv (callStep closedOk st i c ev)"
proof -
  have ends: "sc_done c \<or> l \<notin> set (ls_open st)" if "endsWell (sc_point c) l" for l using inv i that unfolding openInv_def by blast
  note upd = openInv_update [OF inv i(1), folded i(2)]
  show ?thesis
  proof (cases ev)
    case (Listens k)
    then show ?thesis using inv openInv_listens [OF inv i(1)] i(2) by simp
  next
    case (Cancels k)
    then show ?thesis using upd [of "c\<lparr>sc_done := True\<rparr>" "callStep closedOk st i c ev"] by simp
  next
    case (WatcherCloses k)
    have "openInv (fst (closeListener l st))" for l
      by (rule upd [of c]) (use ends i in \<open>auto simp: closeListener_fields\<close>)
    then show ?thesis using WatcherCloses inv by (simp split: option.split)
  next
    case (ListenFails k e)
    then show ?thesis using inv i(2) by (auto intro!: upd [of "c\<lparr>sc_point := Returned None (Some e)\<rparr>"] simp: point_simps)
  next
    case (Stores k)
    then show ?thesis using inv i(2) by (cases "sc_point c") (auto intro!: upd [of "c\<lparr>sc_point := Accepting _\<rparr>"] simp: point_simps)
  next
    case (AcceptFails k e)
    then show ?thesis using inv i(2)
      by (cases "sc_point c") (auto intro!: upd [of "c\<lparr>sc_point := Leaving _ _\<rparr>"] simp: point_simps acceptError_def split: if_splits)
  next
    case (Leaves k)
    have "openInv (at i (Returned (Some l) r) (st\<lparr>ls_ln := None, ls_started := False\<rparr>))" if "sc_point c = Leaving l r" for l r
      by (rule upd [of "c\<lparr>sc_point := Returned (Some l) r\<rparr>"]) (use that ends i(2) in \<open>auto simp: point_simps\<close>)
    then show ?thesis using Leaves inv by (simp split: servePoint.split)
  qed (use inv in simp_all)
qed


lemma openInv_call:
  assumes "openInv st" "p = Binding \<or> (\<exists>e. p = Returned None (Some e))"
  shows "openInv (st\<lparr>ls_started := b, ls_calls := ls_calls st @ [\<lparr>sc_point = p, sc_done = False\<rparr>]\<rparr>)"
proof -
  have "\<not> holdsListener p l" "\<not> endsWell p l" for l using assms(2) by (auto simp: point_simps)
  then show ?thesis using assms(1) unfolding openInv_def by (auto simp: nth_append less_Suc_eq)
qed

definition listenInv :: "listenState \<Rightarrow> bool" where
  "listenInv st \<longleftrightarrow> callsInv (ls_started st) (ls_ln st) (points st) \<and> openInv st"

lemma closeListener_inv:
  assumes "listenInv st"
  shows "listenInv (fst (closeListener l st))"
proof -
  have "openInv (fst (closeListener l st))" using assms unfolding listenInv_def openInv_def closeListener_fields by blast
  then show ?thesis using assms by (simp add: listenInv_def points_def closeListener_fields)
qed

lemma Close_server_inv: "listenInv st \<Longrightarrow> listenInv (fst (Close_server closedOk st))"
  using closeListener_inv [of st] by (simp add: Close_server_def split: option.split prod.split) (metis fst_conv)

lemma listenStep_inv:
  assumes "listenInv st"
  shows "listenInv (listenStep closedOk st ev)"
proof (cases "eventCall ev")
  case (Some i)
  then show ?thesis using assms callStep_calls callStep_open by (simp add: listenStep_def listenInv_def)
next
  case None
  show ?thesis
  proof (cases "ev = CloseCalled")
    case True
    then show ?thesis using assms Close_server_inv by (simp add: listenStep_def)
  next
    case False
    have "openInv (listenStep closedOk st ev)"
      using assms None False openInv_call [of st "Returned None (Some (Errorf ''server already started''))" "ls_started st"] openInv_call [of st Binding True]
      by (simp add: listenStep_def listenInv_def)
    then show ?thesis using assms None False callsInv_add callsInv_start by (auto simp: listenStep_def listenInv_def points_def)
  qed
qed

lemma listenRun_inv: "listenInv (listenRun closedOk es)"
proof (induction es rule: rev_induct)
  case (snoc ev es)
  then show ?case using listenStep_inv by (simp add: listenRun_def)
qed (simp add: listenRun_def newListen_def listenInv_def callsInv_def points_def openInv_def)

section \<open>How a call ends\<close>

text \<open>A call has stored its listener; since then its context has ended; and its listener is closed.  Nothing that happens takes this back.\<close>

definition hasStored :: "nat \<Rightarrow> nat \<Rightarrow> listenState \<Rightarrow> bool" where
  "hasStored i l st \<longleftrightarrow> i < length (ls_calls st) \<and> l < ls_fresh st \<and> listenerOf (sc_point (ls_calls st ! i)) = Some l"

definition isClosed :: "nat \<Rightarrow> nat \<Rightarrow> listenState \<Rightarrow> bool" where
  "isClosed i l st \<longleftrightarrow> hasStored i l st \<and> l \<notin> set (ls_open st)"

definition hasLeft :: "nat \<Rightarrow> nat \<Rightarrow> listenState \<Rightarrow> bool" where
  "hasLeft i l st \<longleftrightarrow> isClosed i l st \<and> sc_point (ls_calls st ! i) \<noteq> Accepting l"

definition hasReturned :: "nat \<Rightarrow> nat \<Rightarrow> listenState \<Rightarrow> bool" where
  "hasReturned i l st \<longleftrightarrow> isClosed i l st \<and> \<not> serveActive (sc_point (ls_calls st ! i))"

lemmas stage_defs = hasStored_def isClosed_def hasLeft_def hasReturned_def listenerOf_def serveActive_def

text \<open>What a step does to one call, to the listeners that are open and to the number of the next one.\<close>

lemma listenStep_more:
  "length (ls_calls st) \<le> length (ls_calls (listenStep closedOk st ev))" "ls_fresh st \<le> ls_fresh (listenStep closedOk st ev)"
  "l < ls_fresh st \<Longrightarrow> l \<notin> set (ls_open st) \<Longrightarrow> l \<notin> set (ls_open (listenStep closedOk st ev))"
proof -
  have "length (ls_calls st) \<le> length (ls_calls (callStep closedOk st i c ev)) \<and> ls_fresh st \<le> ls_fresh (callStep closedOk st i c ev)
    \<and> (l < ls_fresh st \<longrightarrow> l \<notin> set (ls_open st) \<longrightarrow> l \<notin> set (ls_open (callStep closedOk st i c ev)))" for i c
    by (cases ev; cases "sc_point c") (auto simp: closeListener_def split: option.split)
  then show "length (ls_calls st) \<le> length (ls_calls (listenStep closedOk st ev))" "ls_fresh st \<le> ls_fresh (listenStep closedOk st ev)"
    "l < ls_fresh st \<Longrightarrow> l \<notin> set (ls_open st) \<Longrightarrow> l \<notin> set (ls_open (listenStep closedOk st ev))"
    by (auto simp: listenStep_def Close_server_def closeListener_def split: option.split)
qed

lemma callStep_call:
  assumes "k < length (ls_calls st)"
  shows "ls_calls (callStep closedOk st k (ls_calls st ! k) ev) ! k =
    (let c = ls_calls st ! k in case (ev, sc_point c) of
       (Cancels _, _) \<Rightarrow> c\<lparr>sc_done := True\<rparr>
     | (ListenFails _ e, Binding) \<Rightarrow> c\<lparr>sc_point := Returned None (Some e)\<rparr>
     | (Listens _, Binding) \<Rightarrow> c\<lparr>sc_point := Bound (ls_fresh st)\<rparr>
     | (Stores _, Bound l) \<Rightarrow> c\<lparr>sc_point := Accepting l\<rparr>
     | (AcceptFails _ e, Accepting l) \<Rightarrow>
         if e = netErrClosed \<longleftrightarrow> l \<notin> set (ls_open st) then c\<lparr>sc_point := Leaving l (acceptError closedOk (sc_done c) e)\<rparr> else c
     | (Leaves _, Leaving l r) \<Rightarrow> c\<lparr>sc_point := Returned (Some l) r\<rparr>
     | _ \<Rightarrow> c)"
  using assms by (cases ev; cases "sc_point (ls_calls st ! k)") (auto simp: Let_def closeListener_fields split: option.split)

lemma listenStep_call:
  assumes "i < length (ls_calls st)"
  shows "ls_calls (listenStep closedOk st ev) ! i =
    (if eventCall ev = Some i then ls_calls (callStep closedOk st i (ls_calls st ! i) ev) ! i else ls_calls st ! i)"
proof -
  have "ls_calls (callStep closedOk st k c ev) ! i = ls_calls st ! i" if "k \<noteq> i" for k c
    using that by (cases ev) (auto simp: closeListener_fields split: option.split servePoint.split)
  then show ?thesis using assms
    by (auto simp: listenStep_def Close_server_def closeListener_def nth_append split: option.split)
qed

lemma stored_stays: "hasStored i l st \<Longrightarrow> hasStored i l (listenStep closedOk st ev)"
  using listenStep_more(1,2) [of st closedOk ev]
  by (auto simp: hasStored_def listenStep_call callStep_call Let_def listenerOf_def split: listenEvent.split servePoint.split)

lemma done_stays:
  "hasStored i l st \<Longrightarrow> sc_done (ls_calls st ! i) \<Longrightarrow> sc_done (ls_calls (listenStep closedOk st ev) ! i)"
  by (auto simp: hasStored_def listenStep_call callStep_call Let_def split: listenEvent.split servePoint.split)

lemma closed_stays: "isClosed i l st \<Longrightarrow> isClosed i l (listenStep closedOk st ev)"
  using stored_stays listenStep_more(3) by (auto simp: isClosed_def hasStored_def)

lemma closed_not_open: "isClosed i l st \<Longrightarrow> l \<notin> set (ls_open st)" by (simp add: isClosed_def)

lemma left_stays: "hasLeft i l st \<Longrightarrow> hasLeft i l (listenStep closedOk st ev)"
  using closed_stays [of i l st closedOk ev]
  by (auto simp: stage_defs listenStep_call callStep_call Let_def split: listenEvent.splits servePoint.splits if_splits)

lemma returned_stays: "hasReturned i l st \<Longrightarrow> hasReturned i l (listenStep closedOk st ev)"
  using closed_stays [of i l st closedOk ev]
  by (auto simp: stage_defs listenStep_call callStep_call Let_def split: listenEvent.splits servePoint.splits if_splits)

text \<open>The result is \<^verbatim>\<open>nil\<close> when the call leaves with an ended context, or after \<^verbatim>\<open>Close\<close> for the server that takes a closed listener for an end.\<close>

definition cleanSoFar :: "nat \<Rightarrow> nat \<Rightarrow> listenState \<Rightarrow> bool" where
  "cleanSoFar i l st \<longleftrightarrow> hasStored i l st \<and> sc_point (ls_calls st ! i) \<in> {Accepting l, Leaving l None, Returned (Some l) None}"

lemma clean_stored: "cleanSoFar i l st \<Longrightarrow> hasStored i l st" by (simp add: cleanSoFar_def)

lemma clean_stays:
  assumes "cleanSoFar i l st"
    and "sc_done (ls_calls st ! i) \<or> l \<notin> set (ls_open st) \<and> closedOk \<or> (\<forall>e. ev \<noteq> AcceptFails i e)"
  shows "cleanSoFar i l (listenStep closedOk st ev)"
  using assms stored_stays [of i l st closedOk ev]
  by (auto simp: cleanSoFar_def hasStored_def listenStep_call callStep_call Let_def acceptError_def
      split: listenEvent.splits servePoint.splits if_splits)

text \<open>What stays under a step stays under every run.\<close>

lemma stays_run:
  assumes "\<And>st ev. P st \<Longrightarrow> ev \<in> set es \<Longrightarrow> P (listenStep closedOk st ev)" "P st"
  shows "P (foldl (listenStep closedOk) st es)"
  using assms by (induction es arbitrary: st) simp_all

lemma stage_run:
  "hasStored i l st \<Longrightarrow> hasStored i l (foldl (listenStep closedOk) st es)" "isClosed i l st \<Longrightarrow> isClosed i l (foldl (listenStep closedOk) st es)"
  "hasLeft i l st \<Longrightarrow> hasLeft i l (foldl (listenStep closedOk) st es)" "hasReturned i l st \<Longrightarrow> hasReturned i l (foldl (listenStep closedOk) st es)"
  by (auto intro: stays_run stored_stays closed_stays left_stays returned_stays)

lemma done_run:
  assumes "hasStored i l st" "sc_done (ls_calls st ! i)"
  shows "hasStored i l (foldl (listenStep closedOk) st es) \<and> sc_done (ls_calls (foldl (listenStep closedOk) st es) ! i)"
  using assms stored_stays done_stays by (intro stays_run [where es = es and P = "\<lambda>st. hasStored i l st \<and> sc_done (ls_calls st ! i)"]) auto

text \<open>The events that bring a call to its end.\<close>

lemma cancel_done: "hasStored i l st \<Longrightarrow> sc_done (ls_calls (listenStep closedOk st (Cancels i)) ! i)"
  by (simp add: hasStored_def listenStep_def)

lemma watcher_closes: "hasStored i l st \<Longrightarrow> sc_done (ls_calls st ! i) \<Longrightarrow> isClosed i l (listenStep closedOk st (WatcherCloses i))"
  using stored_stays [of i l st closedOk "WatcherCloses i"] by (auto simp: isClosed_def hasStored_def listenStep_def closeListener_def)

lemma accept_leaves: "isClosed i l st \<Longrightarrow> hasLeft i l (listenStep closedOk st (AcceptFails i netErrClosed))"
  using closed_stays [of i l st closedOk "AcceptFails i netErrClosed"]
  by (auto simp: stage_defs listenStep_call callStep_call Let_def split: servePoint.splits)

lemma leaves_returns: "hasLeft i l st \<Longrightarrow> hasReturned i l (listenStep closedOk st (Leaves i))"
  using closed_stays [of i l st closedOk "Leaves i"]
  by (auto simp: stage_defs listenStep_call callStep_call Let_def split: servePoint.splits)

lemma closed_ends:
  assumes "isClosed i l st" "es = es1 @ [AcceptFails i netErrClosed] @ es2 @ [Leaves i] @ es3"
  shows "hasReturned i l (foldl (listenStep closedOk) st es)"
  using stage_run(4) [OF leaves_returns [OF stage_run(3) [OF accept_leaves [OF stage_run(2) [OF assms(1)]]]]] by (simp add: assms(2))

lemma returned_clean:
  assumes "hasReturned i l st"
  obtains r where "sc_point (ls_calls st ! i) = Returned (Some l) r" "l \<notin> set (ls_open st)" "cleanSoFar i l st \<Longrightarrow> r = None"
  using assms by (cases "sc_point (ls_calls st ! i)") (auto simp: stage_defs cleanSoFar_def)

text \<open>In every order of the events of a cancelled call with whatever else happens in between.\<close>

lemma cancelled_ends:
  assumes "hasStored i l st"
    and es: "es = es0 @ [Cancels i] @ es1 @ [WatcherCloses i] @ es2 @ [AcceptFails i netErrClosed] @ es3 @ [Leaves i] @ es4"
  shows "hasReturned i l (foldl (listenStep closedOk) st es)
    \<and> (cleanSoFar i l st \<and> (\<forall>e. AcceptFails i e \<notin> set es0) \<longrightarrow> cleanSoFar i l (foldl (listenStep closedOk) st es))"
proof -
  let ?run = "foldl (listenStep closedOk)"
  let ?st0 = "?run st es0" and ?rest = "es1 @ [WatcherCloses i] @ es2 @ [AcceptFails i netErrClosed] @ es3 @ [Leaves i] @ es4"
  let ?st1 = "listenStep closedOk ?st0 (Cancels i)"
  have 0: "hasStored i l ?st0" by (rule stage_run(1) [OF assms(1)])
  have 1: "hasStored i l ?st1" "sc_done (ls_calls ?st1 ! i)" using stored_stays [OF 0] cancel_done [OF 0] by blast+
  from done_run [OF this] have "isClosed i l (?run ?st1 (es1 @ [WatcherCloses i]))" using watcher_closes by simp
  from closed_ends [OF this HOL.refl, where ?es1.0 = es2 and ?es2.0 = es3 and ?es3.0 = es4] have "hasReturned i l (?run st es)" by (simp add: es)
  moreover have "cleanSoFar i l (?run st es)" if c: "cleanSoFar i l st" "\<forall>e. AcceptFails i e \<notin> set es0"
  proof -
    have "cleanSoFar i l ?st0" by (rule stays_run [where es = es0 and P = "cleanSoFar i l"]) (use c in \<open>auto intro: clean_stays\<close>)
    then have "cleanSoFar i l ?st1" by (rule clean_stays) simp
    then have "cleanSoFar i l (?run ?st1 ?rest) \<and> sc_done (ls_calls (?run ?st1 ?rest) ! i)"
      by (intro stays_run [where es = ?rest and P = "\<lambda>st. cleanSoFar i l st \<and> sc_done (ls_calls st ! i)"])
        (use 1 in \<open>auto intro: clean_stays done_stays dest: clean_stored\<close>)
    then show ?thesis by (simp add: es)
  qed
  ultimately show ?thesis by blast
qed

lemma closed_server_ends:
  assumes "hasStored i l st" "ls_ln st = Some l" "es = CloseCalled # es1 @ [AcceptFails i netErrClosed] @ es2 @ [Leaves i] @ es3"
  shows "hasReturned i l (foldl (listenStep closedOk) st es) \<and> (cleanSoFar i l st \<and> closedOk \<longrightarrow> cleanSoFar i l (foldl (listenStep closedOk) st es))"
proof -
  let ?st = "listenStep closedOk st CloseCalled" and ?es = "es1 @ [AcceptFails i netErrClosed] @ es2 @ [Leaves i] @ es3"
  have c: "isClosed i l ?st"
    using stored_stays [OF assms(1), of closedOk CloseCalled] assms(2) by (auto simp: isClosed_def listenStep_def Close_server_def closeListener_def)
  have "cleanSoFar i l (foldl (listenStep closedOk) ?st ?es)" if "cleanSoFar i l st" "closedOk"
  proof -
    have "cleanSoFar i l ?st" by (rule clean_stays [OF that(1)]) simp
    then have "cleanSoFar i l (foldl (listenStep closedOk) ?st ?es) \<and> isClosed i l (foldl (listenStep closedOk) ?st ?es)"
      using c that(2) by (intro stays_run [where P = "\<lambda>st. cleanSoFar i l st \<and> isClosed i l st"])
        (auto intro: closed_stays clean_stays dest: closed_not_open)
    then show ?thesis by blast
  qed
  then show ?thesis using closed_ends [OF c HOL.refl] assms(3) by simp
qed

lemma accepting_ends:
  assumes "listenInv st" and i: "i < length (ls_calls st)" "sc_point (ls_calls st ! i) = Accepting l"
  shows "l \<notin> set (ls_open (fst (Close_server closedOk st)))"
    and "st1 = foldl (listenStep closedOk) st (es0 @ [Cancels i] @ es1 @ [WatcherCloses i] @ es2 @ [AcceptFails i netErrClosed] @ es3 @ [Leaves i] @ es4) \<Longrightarrow>
      \<exists>r. sc_point (ls_calls st1 ! i) = Returned (Some l) r \<and> l \<notin> set (ls_open st1) \<and> ((\<forall>e. AcceptFails i e \<notin> set es0) \<longrightarrow> r = None)"
    and "st1 = foldl (listenStep closedOk) st (CloseCalled # es1 @ [AcceptFails i netErrClosed] @ es2 @ [Leaves i] @ es3) \<Longrightarrow>
      \<exists>r. sc_point (ls_calls st1 ! i) = Returned (Some l) r \<and> l \<notin> set (ls_open st1) \<and> (closedOk \<longrightarrow> r = None)"
proof -
  have inv: "callsInv (ls_started st) (ls_ln st) (points st)" "openInv st" using assms(1) by (simp_all add: listenInv_def)
  have s: "hasStored i l st" "cleanSoFar i l st"
    using i inv(2) unfolding openInv_def by (auto simp: hasStored_def cleanSoFar_def holdsListener_def listenerOf_def)
  have ln: "ls_ln st = Some l" using callsInv_active(2) [OF inv(1), of i] i by (simp add: points_def serveActive_def listenerOf_def)
  then show "l \<notin> set (ls_open (fst (Close_server closedOk st)))" by (simp add: Close_server_def closeListener_def)
  show "\<exists>r. sc_point (ls_calls st1 ! i) = Returned (Some l) r \<and> l \<notin> set (ls_open st1) \<and> ((\<forall>e. AcceptFails i e \<notin> set es0) \<longrightarrow> r = None)"
    if "st1 = foldl (listenStep closedOk) st (es0 @ [Cancels i] @ es1 @ [WatcherCloses i] @ es2 @ [AcceptFails i netErrClosed] @ es3 @ [Leaves i] @ es4)"
    using cancelled_ends [OF s(1) HOL.refl, of closedOk es0 es1 es2 es3 es4, folded that] s(2) by (elim conjE returned_clean) blast
  show "\<exists>r. sc_point (ls_calls st1 ! i) = Returned (Some l) r \<and> l \<notin> set (ls_open st1) \<and> (closedOk \<longrightarrow> r = None)"
    if "st1 = foldl (listenStep closedOk) st (CloseCalled # es1 @ [AcceptFails i netErrClosed] @ es2 @ [Leaves i] @ es3)"
    using closed_server_ends [OF s(1) ln HOL.refl, of closedOk es1 es2 es3, folded that] s(2) by (elim conjE returned_clean) blast
qed

text \<open>C17: the life of a listener.  In every order of calls of \<^verbatim>\<open>ListenAndServe\<close> and \<^verbatim>\<open>Close\<close>, failures and ended contexts, for either server:
  at most one call is running, \<^verbatim>\<open>started\<close> says whether one is, and \<^verbatim>\<open>ln\<close> is exactly the listener that the running call has stored.  Every open
  listener belongs to a call that is running, has returned with an error, or whose context has ended.  \<^verbatim>\<open>Close\<close> closes the listener of the
  running call that has stored one.  When the context of such a call ends, then however the goroutine that closes its listener, the
  error of \<^verbatim>\<open>Accept\<close> and the deferred function are mixed with other events, the call returns with its listener closed, and without
  an error unless \<^verbatim>\<open>Accept\<close> had failed before; and so it does after a \<^verbatim>\<open>Close\<close>, without an error for the MQTT server.\<close>

theorem listener_lifecycle:
  fixes es closedOk
  defines "st \<equiv> listenRun closedOk es"
  shows "(\<forall>i<length (points st). \<forall>j<length (points st). serveActive (points st ! i) \<longrightarrow> serveActive (points st ! j) \<longrightarrow> i = j)
    \<and> (ls_started st \<longleftrightarrow> (\<exists>i<length (points st). serveActive (points st ! i)))
    \<and> (\<forall>l. ls_ln st = Some l \<longleftrightarrow> (\<exists>i<length (points st). serveActive (points st ! i) \<and> listenerOf (points st ! i) = Some l))
    \<and> (\<forall>l\<in>set (ls_open st). \<exists>i<length (ls_calls st). holdsListener (sc_point (ls_calls st ! i)) l
         \<and> (sc_point (ls_calls st ! i) = Returned (Some l) None \<longrightarrow> sc_done (ls_calls st ! i)))
    \<and> (\<forall>i<length (ls_calls st). \<forall>l. sc_point (ls_calls st ! i) = Accepting l \<longrightarrow>
         l \<notin> set (ls_open (fst (Close_server closedOk st)))
         \<and> (\<forall>es0 es1 es2 es3 es4.
              let st' = foldl (listenStep closedOk) st (es0 @ [Cancels i] @ es1 @ [WatcherCloses i] @ es2 @ [AcceptFails i netErrClosed] @ es3 @ [Leaves i] @ es4)
              in \<exists>r. sc_point (ls_calls st' ! i) = Returned (Some l) r \<and> l \<notin> set (ls_open st') \<and> ((\<forall>e. AcceptFails i e \<notin> set es0) \<longrightarrow> r = None))
         \<and> (\<forall>es1 es2 es3.
              let st' = foldl (listenStep closedOk) st (CloseCalled # es1 @ [AcceptFails i netErrClosed] @ es2 @ [Leaves i] @ es3)
              in \<exists>r. sc_point (ls_calls st' ! i) = Returned (Some l) r \<and> l \<notin> set (ls_open st') \<and> (closedOk \<longrightarrow> r = None)))"
proof -
  have inv: "callsInv (ls_started st) (ls_ln st) (points st)" "openInv st" using listenRun_inv [of closedOk es] unfolding st_def listenInv_def by blast+
  have "\<forall>i<length (points st). \<forall>j<length (points st). serveActive (points st ! i) \<longrightarrow> serveActive (points st ! j) \<longrightarrow> i = j"
    using callsInv_active(3) [OF inv(1)] by blast
  moreover have "ls_started st \<longleftrightarrow> (\<exists>i<length (points st). serveActive (points st ! i))"
    using inv(1) unfolding callsInv_def by (auto split: if_splits)
  moreover have "\<forall>l. ls_ln st = Some l \<longleftrightarrow> (\<exists>i<length (points st). serveActive (points st ! i) \<and> listenerOf (points st ! i) = Some l)"
    using callsInv_active(2) [OF inv(1)] inv(1) unfolding callsInv_def by (metis option.distinct(1))
  moreover have "\<forall>l\<in>set (ls_open st). \<exists>i<length (ls_calls st). holdsListener (sc_point (ls_calls st ! i)) l
      \<and> (sc_point (ls_calls st ! i) = Returned (Some l) None \<longrightarrow> sc_done (ls_calls st ! i))"
    using inv(2) unfolding openInv_def endsWell_def by meson
  moreover note ends = accepting_ends [OF listenRun_inv [of closedOk es, folded st_def]]
  ultimately show ?thesis unfolding Let_def
    by (intro conjI) (assumption+, intro allI impI conjI ends(1) ends(2) [OF _ _ HOL.refl] ends(3) [OF _ _ HOL.refl])
qed

theorem listener_lifecycle_witness:
  "ls_ln (listenRun True [Call, Listens 0, Stores 0]) = Some 0
   \<and> 0 \<notin> set (ls_open (fst (Close_server True (listenRun True [Call, Listens 0, Stores 0]))))
   \<and> (\<exists>r. sc_point (ls_calls (foldl (listenStep True) (listenRun True [Call, Listens 0, Stores 0])
        ([CloseCalled, Call] @ [Cancels 0] @ [] @ [WatcherCloses 0] @ [Call] @ [AcceptFails 0 netErrClosed] @ [] @ [Leaves 0] @ [Call])) ! 0) = Returned (Some 0) r
      \<and> r = None)"
proof -
  let ?st = "listenRun True [Call, Listens 0, Stores 0]"
  have p: "sc_point (ls_calls ?st ! 0) = Accepting 0" "0 < length (ls_calls ?st)" "points ?st = [Accepting 0]"
    by (simp_all add: listenRun_def newListen_def listenStep_def at_def points_def)
  note th = listener_lifecycle [of True "[Call, Listens 0, Stores 0]"]
  have "ls_ln ?st = Some 0" using th p(3) by (auto simp: serveActive_def listenerOf_def)
  moreover have "0 \<notin> set (ls_open (fst (Close_server True ?st)))" using th p(1,2) by blast
  moreover have "\<exists>r. sc_point (ls_calls (foldl (listenStep True) ?st
      ([CloseCalled, Call] @ [Cancels 0] @ [] @ [WatcherCloses 0] @ [Call] @ [AcceptFails 0 netErrClosed] @ [] @ [Leaves 0] @ [Call])) ! 0) = Returned (Some 0) r \<and> r = None"
  proof -
    have "\<forall>e. AcceptFails 0 e \<notin> set [CloseCalled, Call]" by simp
    then show ?thesis using th p(1,2) unfolding Let_def by blast
  qed
  ultimately show ?thesis by blast
qed

text \<open>\<^verbatim>\<open>Close\<close> has no effect while the listener is not stored: the call goes on to accept connections.\<close>

lemma close_before_store:
  "Close_server closedOk (listenRun closedOk [Call, Listens 0]) = (listenRun closedOk [Call, Listens 0], None)"
  "sc_point (ls_calls (listenRun closedOk [Call, Listens 0, CloseCalled, Stores 0]) ! 0) = Accepting 0"
  by (simp_all add: listenRun_def newListen_def listenStep_def Close_server_def at_def)

text \<open>A failing \<^verbatim>\<open>Accept\<close> ends the call and leaves its listener open until the context ends.\<close>

lemma accept_failure_leaves_open:
  assumes "e \<noteq> netErrClosed"
  shows "ls_open (listenRun closedOk [Call, Listens 0, Stores 0, AcceptFails 0 e, Leaves 0]) = [0]"
    "sc_point (ls_calls (listenRun closedOk [Call, Listens 0, Stores 0, AcceptFails 0 e, Leaves 0]) ! 0) = Returned (Some 0) (Some e)"
  using assms by (simp_all add: listenRun_def newListen_def listenStep_def at_def acceptError_def)

section \<open>Counters do not fall\<close>

lemma ensure_at_least:
  assumes "EnsureCounterAtLeast (Some c) v labels = Some c'"
  shows "max v (c labels) \<le> c' labels \<or> v \<le> 0" "\<And>other. c other \<le> c' other" "other \<noteq> labels \<Longrightarrow> c' other = c other"
  using assms by (auto simp: EnsureCounterAtLeast_def CounterValue_def Let_def split: if_splits)

lemma ensure_defined: "\<exists>c'. EnsureCounterAtLeast (Some c) v labels = Some c'"
  by (simp add: EnsureCounterAtLeast_def Let_def)


lemma foldl_ensure_mono: "c l \<le> foldl (\<lambda>c (labels, v). the (EnsureCounterAtLeast (Some c) v labels)) c series l"
proof (induction series arbitrary: c)
  case (Cons x series)
  obtain labels v where x: "x = (labels, v)" by (cases x)
  obtain c' where c': "EnsureCounterAtLeast (Some c) v labels = Some c'" using ensure_defined by blast
  have "c l \<le> c' l" by (rule ensure_at_least(2) [OF c'])
  then show ?case using Cons.IH [of c'] by (simp add: x c')
qed simp

lemma foldl_ensure_covers:
  "(labels, v) \<in> set series \<Longrightarrow> 0 < v \<Longrightarrow> v \<le> foldl (\<lambda>c (labels, v). the (EnsureCounterAtLeast (Some c) v labels)) c series labels"
proof (induction series arbitrary: c)
  case (Cons x series)
  show ?case
  proof (cases "x = (labels, v)")
    case True
    obtain c' where c': "EnsureCounterAtLeast (Some c) v labels = Some c'" using ensure_defined by blast
    then have "v \<le> c' labels" using ensure_at_least(1) [OF c'] Cons.prems(2) by simp
    then show ?thesis using foldl_ensure_mono [of c' labels series] by (simp add: True c')
  next
    case False
    then show ?thesis using Cons by simp
  qed
qed simp

text \<open>After the start of a broker the counter of each partition that it leads is at least the number of records in its log.\<close>

lemma synced_metric_covers_log:
  assumes "(name, t) \<in> set (b_topics b)" "(pid, p) \<in> set (tp_Partitions t)"
    and "isLeaderPartition b (topicAssignments (clusterAssignmentsBestEffort b) name) pid p" "0 < partitionDurableMessageCount (partLog b name pid)"
  shows "partitionDurableMessageCount (partLog b name pid) \<le> syncProducedMetricFromDurableState b counter [name, Itoa pid]"
  unfolding syncProducedMetricFromDurableState_def Let_def by (rule foldl_ensure_covers) (use assms in \<open>force+\<close>)


end
