(* ===== verification/Spec2Isabelle.thy ===== *)
theory Spec2Isabelle
  imports Benchmark BrokerProcess RaftController Listeners
begin

text \<open>
  Verification of the wave-mq message broker.

  \<^bold>\<open>The program.\<close>  A broker keeps topics, each with partitions; a partition is an append-only log of records on disk.  Clients reach
  it over a binary protocol, over MQTT and over an HTTP API; brokers form a cluster whose metadata a controller holds, and a broker that follows a
  partition pulls records from the one that leads it.  Requests run downwards: a server decodes a packet and calls the broker, the
  broker calls the logs, the offset store and the metadata store; metadata runs upwards: the controller publishes it to the watchers,
  which are the broker and the replication manager.  The process \<^verbatim>\<open>mbd\<close> opens and closes these parts, registers with the leader of the
  controllers and serves until a part fails or it is told to stop; \<^verbatim>\<open>mbctl\<close> and \<^verbatim>\<open>mbbench\<close> are clients of the binary protocol.

  \<^bold>\<open>Theories and code.\<close>  Names of definitions are those of the code, with a suffix where two parts share a name.
  \<^item> \<^verbatim>\<open>Prelude\<close>: bytes, strings, integers of a width (\<open>wrapS\<close> wraps a signed one), files with a cursor, results (\<open>Inl\<close> is the error), and
    the interface \<open>codec\<close> of an encoder with its decoder.  \<^verbatim>\<open>Checksum\<close>: CRC-32C.  \<^verbatim>\<open>Wal\<close>: the interface \<open>wal\<close> of a log of framed records
    that is recovered by a scan; crash recovery is proved in it once.
  \<^item> \<^verbatim>\<open>Api\<close>: the shared types and their validation (\<^verbatim>\<open>pkg/api/api.go\<close>).
  \<^item> \<^verbatim>\<open>NetprotoCodec\<close>, \<^verbatim>\<open>NetprotoServer\<close>: frames, the nine requests and responses, and the connection loop with its handlers over any
    broker (\<^verbatim>\<open>internal/netproto\<close>).  Every field and message is an interpretation of \<open>codec\<close> or \<open>message\<close>.
  \<^item> \<^verbatim>\<open>MetadataStore\<close> (\<^verbatim>\<open>internal/metadata/store.go\<close>), \<^verbatim>\<open>OffsetStore\<close> (\<^verbatim>\<open>internal/broker/offset_store.go\<close>), \<^verbatim>\<open>LogCodec\<close> (the record format,
    the scan and the index of \<^verbatim>\<open>internal/storage/log.go\<close>): each is an interpretation of \<open>wal\<close>.
  \<^item> \<^verbatim>\<open>SegmentedLog\<close>: the log over its segment files, and the manager of logs (\<^verbatim>\<open>internal/storage/log.go\<close>); \<^verbatim>\<open>LogProperties\<close>: what it does.
  \<^item> \<^verbatim>\<open>Controller\<close>: both controllers and the publisher of metadata (\<^verbatim>\<open>internal/controller\<close>).  The interface \<open>metadata_machine\<close> is
    interpreted for the single-node controller and for the replicated state machine.
  \<^item> \<^verbatim>\<open>Broker\<close>, \<^verbatim>\<open>ConsumerGroups\<close>: the broker (\<^verbatim>\<open>internal/broker/broker.go\<close>); \<^verbatim>\<open>BrokerLog\<close>: the broker over its logs.
  \<^item> \<^verbatim>\<open>Replication\<close>, \<^verbatim>\<open>ReplicationManager\<close>: the client, the sinks, the pull loop and the manager (\<^verbatim>\<open>internal/replication\<close>).  The interface
    \<open>append_log\<close> is what a follower needs of its log, interpreted for the segmented log.
  \<^item> \<^verbatim>\<open>MqttCodec\<close>, \<^verbatim>\<open>MqttServer\<close>: packets, handlers and the delivery loops (\<^verbatim>\<open>internal/mqtt\<close>).  \<^verbatim>\<open>Listeners\<close>: how both servers listen and
    stop listening, the health check and the counters (\<^verbatim>\<open>internal/observability\<close>).
  \<^item> \<^verbatim>\<open>RaftController\<close>: the Raft controller around its state machine, with the JSON of its commands and snapshots and the start of a node over its
    stores (\<^verbatim>\<open>internal/controller/raft_controller.go\<close>).
  \<^item> \<^verbatim>\<open>HttpText\<close>, \<^verbatim>\<open>HttpApi\<close>: the text forms of keys and values, JSON values and strings, and the handlers with the forwarding to the leader (\<^verbatim>\<open>internal/httpapi\<close>).
  \<^item> \<^verbatim>\<open>Flags\<close>: command-line flags; \<^verbatim>\<open>CommandLine\<close> (\<^verbatim>\<open>cmd/mbctl\<close>), \<^verbatim>\<open>Benchmark\<close> (\<^verbatim>\<open>cmd/mbbench\<close>), \<^verbatim>\<open>BrokerProcess\<close> (\<^verbatim>\<open>cmd/mbd\<close>).
  \<^item> This theory: a property that spans two servers and a client.

  \<^bold>\<open>How the code is modelled.\<close>  A structure is a record, an operation a function that returns the new state with its results; an error is
  a value, wrapped errors keep their sentinel.  A Go map is an association list in the order in which a \<^verbatim>\<open>range\<close> visits it; theorems hold
  for every such order.  Integers that the code can overflow wrap at their width; lengths and offsets that cannot are \<open>int\<close> or \<open>nat\<close>.  A
  critical section is one step; goroutines are lists of events, so that a theorem over all lists is one over all interleavings.  A lock
  that is asked for twice by one goroutine is an operation that does not return (\<open>None\<close>).  Loops over files are \<open>partial_function\<close> with
  proofs that they return, loops that may run for ever take the list of their rounds; there is no fuel.  Clocks, modification times,
  failures of reads and writes, the network and the consensus library of the Raft controller are arguments.  JSON is a datatype of values, not
  bytes; what the encoder does to a string that is not UTF-8, U+FFFD in the place of every byte that is not part of a character, is \<open>validJSON\<close>, and a number that is read without a type is rounded
  to a \<^verbatim>\<open>float64\<close>.  The parts that the process opens come from a factory, as in the code, and act on a world that is a parameter.  Log lines are left
  out.

  \<^bold>\<open>What is shown.\<close>
  \<^item> Storage: a read returns exactly the stored records, an append extends them and nothing else, and after a crash that tears a file at
    any byte exactly the whole records are recovered; the same for topics and committed offsets; a damaged byte is found.
  \<^item> Protocols: what is encoded is decoded, also in sequence on a connection; a connection is the sequence of its calls; a malformed
    request does not reach the broker.
  \<^item> Broker: a batch that stays in one segment is fetched at its offset, after the records that were there before, less a prefix that retention
    removed; what \<^verbatim>\<open>FetchCommitted\<close> answers does not go back and survives a restart; a partition has one owner in a group, and a join hands out all of them
    evenly.
  \<^item> Cluster: the metadata stays well formed and an operation leaves it or raises its version by one, placement is round robin, the state machine, which the code writes separately, agrees with the single-node
    controller, and a watcher sees the latest metadata.
  \<^item> Replication: a follower is a prefix of its leader and catches up, also across restarts of its worker, when the log of the leader starts at
    offset 0 and fits into one segment of the follower; the manager registers exactly the partitions that the broker follows, each with a running goroutine, and no other goroutine
    runs unless one ended late, after a newer one with its assignment was registered.
  \<^item> MQTT: a publication reaches a subscriber, a duplicate on the same connection is produced once, and a \<^verbatim>\<open>CommitOffset\<close> call that the broker gets is for a
    record that was acknowledged.
  \<^item> HTTP: a posted message is read back at its offset in a form that decodes to what was sent, a request is forwarded once at most, and the messages of a topic are the newest.
  \<^item> Processes: a command over a connection is the command on the broker; what is opened is closed in the reverse order; the process ends
    with the first error; a follower gets registered with the leader; a server has one running listener at most, knows it and closes it; a Raft
    node that is started again has its metadata.  A publication over MQTT is fetched with \<^verbatim>\<open>mbctl\<close>, printed as JSON can write it.
  \<^item> Where the code does something else than it means to, a theorem says what it does: a batch that rotates on an empty log, the
    thousandth commit, the promoted follower, retention under replication, subscriptions to several partitions, a
    goroutine that ends late.

  The hypotheses of the theorems are limits of the formats (lengths that fit their fields), files below 4 GiB, batches that stay in one
  segment, logs that keep all records where what was there before counts, and disks and connections that answer where a theorem says that something is delivered.

  \<^bold>\<open>Not modelled.\<close>  The Raft library, its stores and transport, the HTTP client and server of the language, the parser of URLs and the bytes of
  JSON, which are parameters or stand for themselves; gauges, histograms and the registry of metrics, the profiling handlers and log lines, which
  no other part reads; the length of waits and timeouts, which end in either of their branches.
\<close>

section \<open>Across the front ends\<close>

text \<open>Publishing through MQTT is a call of \<open>Produce\<close>; what a fetch over the binary protocol then finds.\<close>

lemma publish_then_serve:
  assumes s: "serves b topic part l rss" "keepsAll (lg_cfg l)" "logAPI bclock bnow api"
    and pkt: "mapTopic (brokerMqtt bclock bnow) b (pp_Topic pkt) (cs_clientID pub) = Inr (topic, part)" "\<not> pp_Duplicate pkt" "length (pp_Payload pkt) \<le> 2 ^ 28"
    and ok: "okSeg (lg_nextOffset l) (stamped bclock [recordOf (pp_Payload pkt)])"
  obtains b' pub' where "handlePublish (brokerMqtt bclock bnow) True b pkt pub = (b', pub', None)"
    and "serve api b' (fetchQ topic part (lg_nextOffset l)) = (b', FetchP \<lparr>fp_Records = [stored (lg_nextOffset l) (stamp (bclock 0) (recordOf (pp_Payload pkt)))],
      fp_HighWatermark = lg_nextOffset l, fp_Error = ErrNone\<rparr>)"
proof -
  let ?rec = "recordOf (pp_Payload pkt)" and ?n = "lg_nextOffset l"
  have ok': "okSeg ?n [stamp (bclock 0) ?rec]" using ok by simp
  obtain b' l' rss' where p: "Produce (\<lambda>n. False) bclock bnow b topic part [?rec] = (b', ?n, None)" "serves b' topic part l' rss'" "lg_nextOffset l' = ?n + 1"
    and f: "\<And>maxBytes. inS 32 maxBytes \<Longrightarrow> maxBytes + int (blen (r_Value ?rec)) \<le> 2147483647 \<Longrightarrow>
       Fetch (\<lambda>n. False) b' topic part ?n maxBytes = Inr [stored ?n (stamp (bclock 0) ?rec)]"
    by (rule Produce_one [where clock = bclock and now = bnow, OF s(1) ok' s(2)]) blast
  have "\<exists>pub'. handlePublish (brokerMqtt bclock bnow) True b pkt pub = (b', pub', None)"
    using pkt(1,2) p(1) by (simp add: handlePublish_def brokerMqtt_def connWrite_def markIncomingQoS1_def)
  moreover have "Fetch (\<lambda>n. False) b' topic part ?n 1048576 = Inr [stored ?n (stamp (bclock 0) ?rec)]"
    using pkt(3) by (intro f) (simp_all add: inS_def)
  moreover have "ListOffsets b' topic part = (lg_startOffset l', ?n, None)"
    using p(2,3) by (auto simp: serves_def ListOffsets_def StartOffset_def HighWatermark_next)
  ultimately show ?thesis using s(3) that by (auto simp: fetchQ_def logAPI_def mapError_def)
qed

text \<open>C12: what is published over MQTT is fetched over the binary protocol.  When a client publishes to a topic that is routed to a partition
  which the broker leads, \<^verbatim>\<open>mbctl fetch\<close> at the offset where the log ended, over a connection to the server of the same broker, prints exactly one
  record, at that offset, without a key, and with the payload as JSON can write it: as it was sent when it is UTF-8, and
  otherwise with U+FFFD in the place of every byte that is not part of a character.\<close>

theorem mqtt_publish_then_cli_fetch:
  assumes s: "serves b topic part l rss" "keepsAll (lg_cfg l)" "logAPI bclock bnow api" "dial ''127.0.0.1:7912'' = Inr (served_conn api)"
    and pkt: "mapTopic (brokerMqtt bclock bnow) b (pp_Topic pkt) (cs_clientID pub) = Inr (topic, part)" "\<not> pp_Duplicate pkt" "length (pp_Payload pkt) \<le> 2 ^ 28"
    and ok: "okSeg (lg_nextOffset l) (stamped bclock [recordOf (pp_Payload pkt)])"
    and args: "topic \<noteq> ''''" "inS 64 part"
    and calls: "okCalls clock api (fst (handlePublish (brokerMqtt bclock bnow) True b pkt pub)) [(1, fetchQ topic part (lg_nextOffset l))]"
  shows "\<exists>b' pub'. handlePublish (brokerMqtt bclock bnow) True b pkt pub = (b', pub', None)
    \<and> runCLI now clock dial (fetchArgs topic part (lg_nextOffset l)) b' =
        (b', [printedRecord (lg_nextOffset l) '''' (validString (bytes_string (pp_Payload pkt)))], '''', None)
    \<and> (utf8Valid (pp_Payload pkt) \<longrightarrow> validString (bytes_string (pp_Payload pkt)) = bytes_string (pp_Payload pkt))"
proof -
  let ?n = "lg_nextOffset l" and ?ctx = "newCommandContext now clock dial" and ?rec = "stamp (bclock 0) (recordOf (pp_Payload pkt))"
  have n: "inS 64 ?n" using ok by (auto simp: okSeg_def inS_def maxInt64Uint_def)
  obtain b' pub' where h: "handlePublish (brokerMqtt bclock bnow) True b pkt pub = (b', pub', None)"
    and sf: "serve api b' (fetchQ topic part ?n) = (b', FetchP \<lparr>fp_Records = [stored ?n ?rec], fp_HighWatermark = ?n, fp_Error = ErrNone\<rparr>)"
    by (rule publish_then_serve [OF s(1-3) pkt ok])
  have c: "okCalls clock api b' [(1, fetchQ topic part ?n)]" using calls by (simp add: h)
  have "alike ?ctx (directContext now clock api) b' ''127.0.0.1:7912'' (fetchQ topic part ?n)"
    by (rule served_alike [where dial = dial, OF s(4) c])
  then have 1: "cx_fetch ?ctx ''127.0.0.1:7912'' \<lparr>fq_Topic = topic, fq_Partition = part, fq_Offset = ?n, fq_MaxBytes = 1048576\<rparr> b'
      = (b', Inr \<lparr>fp_Records = [wireRecord (stored ?n ?rec)], fp_HighWatermark = ?n, fp_Error = ErrNone\<rparr>)"
    using sf by (simp add: fetchQ_def directContext_def del: serve.simps)
  have shown: "fetchRecordJSON (wireRecord (stored ?n ?rec)) = JObj [(''offset'', JNum ?n), (''key'', JStr ''''), (''value'', JStr (bytes_string (pp_Payload pkt)))]"
    by (simp add: fetchRecordJSON_def wireRecord_def stored_def stamp_def recordOf_def fieldText_def)
  show ?thesis
    by (intro exI [of _ b'] exI [of _ pub']) (simp add: h runCLI_def runCLI_fetch [OF args(2) n args(1)] 1 finish_def shown okJSON_record utf8String_def)
qed

theorem mqtt_publish_then_cli_fetch_witness:
  "\<exists>l b' pub'. handlePublish (brokerMqtt (\<lambda>n. 0) 0) True (oneLog l) examplePkt connected = (b', pub', None)
    \<and> runCLI (\<lambda>n. 5) (\<lambda>n. 0) (\<lambda>addr. Inr (served_conn exampleAPI)) (fetchArgs ''t'' 0 0) b'
      = (b', [printedRecord 0 '''' (bytes_string [1, 2, 3])], '''', None)"
proof -
  obtain l where l: "represents l [[]]" "lg_startOffset l = 0" "lg_nextOffset l = 0" "lg_cfg l = LogProperties.exampleConfig"
    by (rule exampleEmpty)
  have k: "keepsAll (lg_cfg l)" by (simp add: l(4) keepsAll_def LogProperties.exampleConfig_def)
  have api: "logAPI (\<lambda>n. 0) 0 exampleAPI" by (simp add: logAPI_def exampleAPI_def)
  have u: "utf8Valid [1, 2, 3]" by code_simp
  note sv = oneLog_serves [OF l(1)]
  have room: "okSeg (lg_nextOffset l) (stamped (\<lambda>n. 0) [recordOf (pp_Payload examplePkt)])" unfolding l(3) by (rule examplePkt_room)
  have route: "mapTopic (brokerMqtt (\<lambda>n. 0) 0) (oneLog l) (pp_Topic examplePkt) (cs_clientID connected) = Inr (''t'', 0)" by (simp add: oneLog_route)
  have small: "length (pp_Payload examplePkt) \<le> 2 ^ 28" by simp
  obtain b' pub' where h: "handlePublish (brokerMqtt (\<lambda>n. 0) 0) True (oneLog l) examplePkt connected = (b', pub', None)"
    and sf: "serve exampleAPI b' (fetchQ ''t'' 0 (lg_nextOffset l)) = (b', FetchP \<lparr>fp_Records = [stored (lg_nextOffset l) (stamp 0 (recordOf [1, 2, 3]))],
      fp_HighWatermark = lg_nextOffset l, fp_Error = ErrNone\<rparr>)"
    by (rule publish_then_serve [OF sv k api route _ small room]) simp_all
  have "okCalls (\<lambda>n. 0) exampleAPI (fst (handlePublish (brokerMqtt (\<lambda>n. 0) 0) True (oneLog l) examplePkt connected)) [(1, fetchQ ''t'' 0 (lg_nextOffset l))]"
    unfolding h fst_conv okCalls.simps fetchQ_stamped sf prod.case Let_def
    by (simp add: l(3) fetchQ_def call_eval record_eval wireRecord_def stored_def stamp_def recordOf_def)
  from mqtt_publish_then_cli_fetch [where dial = "\<lambda>addr. Inr (served_conn exampleAPI)" and now = "\<lambda>n. 5", OF sv k api HOL.refl route _ small room _ _ this] u
  have "\<exists>b' pub'. handlePublish (brokerMqtt (\<lambda>n. 0) 0) True (oneLog l) examplePkt connected = (b', pub', None)
    \<and> runCLI (\<lambda>n. 5) (\<lambda>n. 0) (\<lambda>addr. Inr (served_conn exampleAPI)) (fetchArgs ''t'' 0 0) b'
      = (b', [printedRecord 0 [] (bytes_string [1, 2, 3])], [], None)" by (auto simp: l(3) inS_def)
  then show ?thesis by blast
qed

end
